(* ===== verification/Prelude.thy ===== *)
theory Prelude
  imports Main "HOL-Library.Word"
begin

text \<open>
  Shared vocabulary of the device models. C's fixed-width integers are words; the
  little-endian assembly of a register value from bytes, which almost every register file of
  src/src/hw repeats (\<open>val |= (uint64_t)byte << (8u * i)\<close>), is \<open>lanes\<close>, and its
  inverse, the byte a store takes from a value (\<open>(uint8_t)(value >> (8u * i))\<close>), is
  \<open>byte_at\<close>. The two locales at the end are the contract every register-level device
  shares: a step function over bus and host events that keeps an invariant, and, for the devices
  that have one, an abstract machine they implement.
\<close>

unbundle bit_operations_syntax

type_synonym u8 = "8 word"
type_synonym u16 = "16 word"
type_synonym u32 = "32 word"
type_synonym u64 = "64 word"

named_theorems wf_simps \<open>definitions of well-formedness predicates\<close>

section \<open>Lists updated by index\<close>

lemma nth_list_update_if:
  "i < length xs \<Longrightarrow> xs[i := x] ! j = (if i = j then x else xs ! j)"
  by simp

definition lastn :: "nat \<Rightarrow> 'a list \<Rightarrow> 'a list" where
  "lastn n xs = drop (length xs - n) xs"

lemma length_lastn [simp]: "length (lastn n xs) = min n (length xs)"
  by (simp add: lastn_def)

lemma lastn_all [simp]: "length xs \<le> n \<Longrightarrow> lastn n xs = xs"
  by (simp add: lastn_def)

lemma lastn_0 [simp]: "lastn 0 xs = []"
  by (simp add: lastn_def)

lemma lastn_append_lastn [simp]: "lastn n (lastn n xs @ ys) = lastn n (xs @ ys)"
proof -
  have "length xs - n + (length (lastn n xs @ ys) - n) = length (xs @ ys) - n \<or> length xs \<le> n"
    by (auto simp: min_def)
  then show ?thesis
  proof
    assume eq: "length xs - n + (length (lastn n xs @ ys) - n) = length (xs @ ys) - n"
    have "lastn n (lastn n xs @ ys) = drop (length (lastn n xs @ ys) - n) (lastn n xs @ ys)"
      by (simp only: lastn_def)
    also have "lastn n xs @ ys = drop (length xs - n) (xs @ ys)"
      by (simp add: lastn_def)
    finally show ?thesis using eq by (simp add: lastn_def add.commute)
  qed simp
qed

lemma lastn_snoc:
  "0 < n \<Longrightarrow> n \<le> length xs \<Longrightarrow> lastn n (xs @ [x]) = tl (lastn n xs) @ [x]"
  by (simp add: lastn_def tl_drop drop_Suc Suc_diff_le)

lemma take_append_take: "take n (take n xs @ ys) = take n (xs @ ys)"
  by (cases "n \<le> length xs") auto

lemma upt_shift: "[0..<e + c] = [0..<e] @ map (\<lambda>k. e + k) [0..<c]"
  by (induction c) auto

section \<open>Register fields\<close>

text \<open>
  \<open>fits n w\<close>: the value of \<open>w\<close> needs no more than \<open>n\<close> bits. Masks are written as in the
  code; \<open>mask_lits\<close> turns the literals into \<open>mask\<close>, which bit reasoning understands.
\<close>

definition fits :: "nat \<Rightarrow> 'a::len word \<Rightarrow> bool" where
  "fits n w \<longleftrightarrow> unat w < 2 ^ n"

lemma mask_lits:
  "(0xFFFFFFFFFFFF :: 'a::len word) = mask 48" "(0xFFFFFFFF :: 'a word) = mask 32"
  "(0x1FFFFFFF :: 'a word) = mask 29" "(0xFFFFFF :: 'a word) = mask 24"
  "(0xFFFF :: 'a word) = mask 16" "(0x7FFF :: 'a word) = mask 15" "(0xFFF :: 'a word) = mask 12"
  "(0x7FF :: 'a word) = mask 11" "(0x3FF :: 'a word) = mask 10" "(0xFF :: 'a word) = mask 8"
  "(0x7F :: 'a word) = mask 7" "(0x3F :: 'a word) = mask 6" "(0x1F :: 'a word) = mask 5"
  "(0xF :: 'a word) = mask 4" "(7 :: 'a word) = mask 3" "(3 :: 'a word) = mask 2"
  by (simp_all add: mask_eq_exp_minus_1)

lemma fits_iff_take_bit: "fits n w \<longleftrightarrow> take_bit n w = w"
  unfolding fits_def take_bit_eq_mask mask_eq_iff
  using of_nat_less_iff [of "unat w" "2 ^ n", where 'a = int] by simp

lemma fits_bits: "fits n w \<longleftrightarrow> (\<forall>k. bit w k \<longrightarrow> k < n)"
  by (auto simp: fits_iff_take_bit bit_eq_iff bit_take_bit_iff dest: bit_imp_le_length)

lemma fits_0 [simp]: "fits n 0"
  by (simp add: fits_def)

lemma fits_and: "fits n w \<or> fits n v \<Longrightarrow> fits n (w AND v)"
  by (auto simp: fits_bits bit_simps)

lemma fits_or: "fits n w \<Longrightarrow> fits n v \<Longrightarrow> fits n (w OR v)"
  by (auto simp: fits_bits bit_simps)

lemma fits_mask: "m \<le> n \<Longrightarrow> fits n (mask m)"
  by (auto simp: fits_bits bit_simps)

lemma fits_push: "fits (n - m) w \<Longrightarrow> m \<le> n \<Longrightarrow> fits n (push_bit m w)"
  by (fastforce simp: fits_bits bit_simps)

lemmas fits_intros = fits_and fits_or fits_mask fits_push

lemma unat_lt2p: "unat (w :: 'a::len word) < 2 ^ LENGTH('a)"
  by (rule unsigned_less)

lemma sint_small: "unat (x :: 'a::len word) < 2 ^ (LENGTH('a) - 1) \<Longrightarrow> sint x = int (unat x)"
  unfolding sint_uint uint_nat
  by (rule signed_take_bit_int_eq_self) (auto intro: order_trans [of _ 0] simp del: int_nat_eq of_nat_unat simp: of_nat_less_iff [of _ "2 ^ n" for n, where 'a = int, simplified])

lemma unat_ucast_up:
  "LENGTH('a) \<le> LENGTH('b) \<Longrightarrow> unat (ucast (w :: 'a::len word) :: 'b::len word) = unat w"
proof -
  assume "LENGTH('a) \<le> LENGTH('b)"
  then have "unat w < 2 ^ LENGTH('b)"
    using unsigned_less [of w] by (metis order_less_le_trans one_le_numeral power_increasing)
  then show ?thesis by (simp add: unsigned_ucast_eq take_bit_nat_eq_self)
qed

lemma unat_ucast_64 [simp]:
  "unat (ucast (w8 :: u8) :: u64) = unat w8" "unat (ucast (w16 :: u16) :: u64) = unat w16"
  "unat (ucast (w32 :: u32) :: u64) = unat w32" "unat (ucast (w8 :: u8) :: u32) = unat w8"
  "unat (ucast (w16 :: u16) :: u32) = unat w16" "unat (ucast (w8 :: u8) :: u16) = unat w8"
  by (simp_all add: unat_ucast_up)

lemma byte_index_cases:
  "k < 8 \<Longrightarrow> k = 0 \<or> k = 1 \<or> k = 2 \<or> k = 3 \<or> k = 4 \<or> k = 5 \<or> k = 6 \<or> k = (7 :: nat)"
  by linarith

section \<open>Byte lanes\<close>

definition byte_at :: "u64 \<Rightarrow> nat \<Rightarrow> u8" where
  "byte_at v i = ucast (drop_bit (8 * i) v)"

lemma bit_byte_at: "bit (byte_at v i) k \<longleftrightarrow> k < 8 \<and> bit v (8 * i + k)"
  by (auto simp: byte_at_def bit_simps add.commute)

fun lanes :: "nat \<Rightarrow> (nat \<Rightarrow> u8) \<Rightarrow> u64" where
  "lanes 0 f = 0"
| "lanes (Suc n) f = lanes n f OR push_bit (8 * n) (ucast (f n))"

lemma bit_lanes:
  fixes k :: nat
  shows "bit (lanes n f) k \<longleftrightarrow> k < 64 \<and> k div 8 < n \<and> bit (f (k div 8)) (k mod 8)"
proof (induction n)
  case 0
  then show ?case by simp
next
  case (Suc n)
  have "bit (push_bit (8 * n) (ucast (f n) :: u64)) k \<longleftrightarrow>
      k < 64 \<and> k div 8 = n \<and> bit (f n) (k mod 8)"
  proof (cases "k div 8 = n")
    case True
    then have "8 * n + k mod 8 = k" by (metis mult_div_mod_eq)
    moreover from this have "8 * n \<le> k" and "k - 8 * n = k mod 8" by linarith+
    ultimately show ?thesis using True by (auto simp: bit_simps)
  next
    case False
    then have "\<not> (8 * n \<le> k \<and> k - 8 * n < 8)" by auto
    then show ?thesis using False
      by (auto simp: bit_simps dest: bit_imp_le_length)
  qed
  then show ?case by (auto simp: Suc.IH bit_or_iff less_Suc_eq)
qed

lemma lanes_cong: "(\<And>i. i < n \<Longrightarrow> f i = g i) \<Longrightarrow> lanes n f = lanes n g"
  by (induction n) auto

lemma byte_at_lanes: "i < 8 \<Longrightarrow> byte_at (lanes n f) i = (if i < n then f i else 0)"
  by (rule bit_eqI) (auto simp: bit_byte_at bit_lanes dest: bit_imp_le_length)

lemma lanes_byte_at: "n \<le> 8 \<Longrightarrow> lanes n (byte_at v) = take_bit (8 * n) v"
proof (rule bit_eqI)
  fix k :: nat assume "n \<le> 8"
  have "8 * (k div 8) + k mod 8 = k" by simp
  moreover have "k div 8 < n \<longleftrightarrow> k < 8 * n" by auto
  ultimately show "bit (lanes n (byte_at v)) k \<longleftrightarrow> bit (take_bit (8 * n) v) k"
    by (auto simp: bit_lanes bit_byte_at bit_simps dest: bit_imp_le_length)
qed

section \<open>Devices driven by events\<close>

locale device =
  fixes step :: "'e \<Rightarrow> 's \<Rightarrow> 's"
    and inv :: "'s \<Rightarrow> bool"
  assumes step_inv: "inv s \<Longrightarrow> inv (step e s)"
begin

lemma run_inv: "inv s \<Longrightarrow> inv (fold step es s)"
  by (induction es arbitrary: s) (auto intro: step_inv)

lemma run_prefix_inv: "inv s \<Longrightarrow> inv (fold step (take n es) s)"
  by (rule run_inv)

end

locale refined_device = device step inv
  for step :: "'e \<Rightarrow> 's \<Rightarrow> 's" and inv :: "'s \<Rightarrow> bool" +
  fixes abs :: "'s \<Rightarrow> 'a"
    and astep :: "'e \<Rightarrow> 'a \<Rightarrow> 'a"
  assumes step_abs: "inv s \<Longrightarrow> abs (step e s) = astep e (abs s)"
begin

lemma run_abs: "inv s \<Longrightarrow> abs (fold step es s) = fold astep es (abs s)"
proof (induction es arbitrary: s)
  case Nil
  then show ?case by simp
next
  case (Cons e es)
  then show ?case by (simp add: step_inv step_abs)
qed

end

end
