(* ===== verification/Byte_Ring.thy ===== *)
theory Byte_Ring
  imports Prelude
begin

text \<open>
  Circular buffers. \<open>ring_list\<close> reads the live part of a buffer of any element type, as
  \<open>start\<close>, \<open>count\<close> and the buffer's length determine it; every queue of the emulator (the
  PC Connect rings, the Stowaway receive queues, the modem and USB FIFOs) is an instance. The
  locales state what a client of such a queue relies on, with the two overflow policies the code
  has: drop the oldest byte, or refuse the new one. Below them is the model of
  \<open>src/pcconnect_ring.h\<close>, the first provider.
\<close>

section \<open>The live part of a circular buffer\<close>

definition ring_list :: "'a list \<Rightarrow> nat \<Rightarrow> nat \<Rightarrow> 'a list" where
  "ring_list buf start n = map (\<lambda>i. buf ! ((start + i) mod length buf)) [0..<n]"

lemma length_ring_list [simp]: "length (ring_list buf start n) = n"
  by (simp add: ring_list_def)

lemma ring_list_0 [simp]: "ring_list buf start 0 = []"
  by (simp add: ring_list_def)

lemma ring_slots_distinct:
  assumes "i < j" and "j < (c::nat)"
  shows "(s + i) mod c \<noteq> (s + j) mod c"
proof
  assume "(s + i) mod c = (s + j) mod c"
  then have "c dvd (s + j) - (s + i)"
    using assms(1) by (metis add_left_mono less_imp_le mod_eq_dvd_iff_nat)
  then have "c dvd j - i" by simp
  moreover have "0 < j - i" "j - i < c" using assms by auto
  ultimately show False using nat_dvd_not_less by blast
qed

lemma ring_list_push:
  assumes "n < length buf"
  shows "ring_list (buf[(start + n) mod length buf := x]) start (Suc n) = ring_list buf start n @ [x]"
proof -
  have "(start + n) mod length buf \<noteq> (start + i) mod length buf" if "i < n" for i
    using ring_slots_distinct [OF that assms] by metis
  moreover have "(start + n) mod length buf < length buf" using assms by (cases buf) auto
  ultimately show ?thesis by (auto simp: ring_list_def)
qed

lemma ring_list_pop:
  assumes "0 < n"
  shows "ring_list buf start n =
    buf ! (start mod length buf) # ring_list buf ((start + 1) mod length buf) (n - 1)"
proof -
  obtain m where m: "n = Suc m" using assms by (cases n) auto
  have "map (\<lambda>i. buf ! ((start + i) mod length buf)) [0..<Suc m] =
      buf ! (start mod length buf) # map (\<lambda>i. buf ! ((start + Suc i) mod length buf)) [0..<m]"
    by (simp add: upt_conv_Cons map_Suc_upt[symmetric] del: upt_Suc)
  also have "map (\<lambda>i. buf ! ((start + Suc i) mod length buf)) [0..<m] =
      ring_list buf ((start + 1) mod length buf) m"
    by (simp add: ring_list_def mod_add_left_eq)
  finally show ?thesis by (simp add: ring_list_def m)
qed

lemma drop_ring_list: "drop k (ring_list buf start n) = ring_list buf (start + min n k) (n - k)"
  by (intro nth_equalityI) (auto simp: ring_list_def add.assoc min_def)

lemma ring_list_start_mod [simp]: "ring_list buf (start mod length buf) n = ring_list buf start n"
  by (simp add: ring_list_def mod_add_left_eq)

section \<open>What a client of a byte queue relies on\<close>

locale byte_fifo =
  fixes ok :: "'q \<Rightarrow> bool"
    and items :: "'q \<Rightarrow> u8 list"
    and room :: "'q \<Rightarrow> nat"
    and pop :: "'q \<Rightarrow> u8 option \<times> 'q"
  assumes items_room: "ok q \<Longrightarrow> length (items q) \<le> room q"
    and pop_empty: "ok q \<Longrightarrow> items q = [] \<Longrightarrow> pop q = (None, q)"
    and pop_cons: "ok q \<Longrightarrow> items q = x # xs \<Longrightarrow>
      fst (pop q) = Some x \<and> items (snd (pop q)) = xs \<and> ok (snd (pop q))"
begin

fun drain :: "nat \<Rightarrow> 'q \<Rightarrow> u8 list \<times> 'q" where
  "drain 0 q = ([], q)"
| "drain (Suc n) q =
     (case pop q of
        (None, q') \<Rightarrow> ([], q')
      | (Some b, q') \<Rightarrow> (let (bs, q'') = drain n q' in (b # bs, q'')))"

lemma drain_items: "ok q \<Longrightarrow> fst (drain n q) = take n (items q) \<and>
   items (snd (drain n q)) = drop n (items q) \<and> ok (snd (drain n q))"
proof (induction n arbitrary: q)
  case 0
  then show ?case by simp
next
  case (Suc n)
  show ?case
  proof (cases "items q")
    case Nil
    with Suc.prems show ?thesis by (simp add: pop_empty)
  next
    case (Cons x xs)
    from pop_cons [OF Suc.prems Cons] obtain q' where
      q': "pop q = (Some x, q')" "items q' = xs" "ok q'"
      by (cases "pop q") auto
    show ?thesis using Suc.IH [OF q'(3)] q' Cons by (simp add: split_beta)
  qed
qed

end

locale drop_oldest_fifo = byte_fifo ok items room pop
  for ok :: "'q \<Rightarrow> bool" and items :: "'q \<Rightarrow> u8 list" and room :: "'q \<Rightarrow> nat"
    and pop :: "'q \<Rightarrow> u8 option \<times> 'q" +
  fixes push :: "u8 \<Rightarrow> 'q \<Rightarrow> 'q"
  assumes push_items: "ok q \<Longrightarrow> items (push b q) = lastn (room q) (items q @ [b])"
    and push_ok: "ok q \<Longrightarrow> ok (push b q)"
    and push_room: "ok q \<Longrightarrow> room (push b q) = room q"
begin

lemma push_all: "ok q \<Longrightarrow> items (fold push bs q) = lastn (room q) (items q @ bs) \<and>
   ok (fold push bs q) \<and> room (fold push bs q) = room q"
proof (induction bs arbitrary: q)
  case Nil
  then show ?case by (simp add: items_room)
next
  case (Cons b bs)
  then show ?case by (simp add: push_items push_ok push_room)
qed

lemma push_all_fits:
  "ok q \<Longrightarrow> length (items q) + length bs \<le> room q \<Longrightarrow> items (fold push bs q) = items q @ bs"
  by (simp add: push_all)

lemma push_drain:
  assumes "ok q" and "items q = []" and "length bs \<le> room q"
  shows "fst (drain (length bs) (fold push bs q)) = bs"
  using assms push_all [of q bs] drain_items [of "fold push bs q" "length bs"] by simp

end

locale reject_new_fifo = byte_fifo ok items room pop
  for ok :: "'q \<Rightarrow> bool" and items :: "'q \<Rightarrow> u8 list" and room :: "'q \<Rightarrow> nat"
    and pop :: "'q \<Rightarrow> u8 option \<times> 'q" +
  fixes push :: "u8 \<Rightarrow> 'q \<Rightarrow> 'q"
  assumes push_items: "ok q \<Longrightarrow> items (push b q) = take (room q) (items q @ [b])"
    and push_ok: "ok q \<Longrightarrow> ok (push b q)"
    and push_room: "ok q \<Longrightarrow> room (push b q) = room q"
begin

lemma push_all: "ok q \<Longrightarrow> items (fold push bs q) = take (room q) (items q @ bs) \<and>
   ok (fold push bs q) \<and> room (fold push bs q) = room q"
proof (induction bs arbitrary: q)
  case Nil
  then show ?case by (simp add: items_room)
next
  case (Cons b bs)
  have "take (room q) (take (room q) (items q @ [b]) @ bs) = take (room q) (items q @ b # bs)"
    by (simp only: take_append_take append_assoc append.simps)
  then show ?case using Cons by (simp add: push_items push_ok push_room del: take_append)
qed

end

section \<open>src/pcconnect_ring.h\<close>

record pcc_ring_t =
  buf :: "u8 list"
  cap :: nat
  head :: nat
  tail :: nat
  count :: nat

text \<open>
  \<open>malloc\<close> may fail: the argument \<open>mem\<close> is what it returned, a block of \<open>n\<close> bytes with
  arbitrary contents or nothing. A NULL \<open>buf\<close> is the empty list.
\<close>

definition pcc_ring_init :: "u8 list option \<Rightarrow> nat \<Rightarrow> bool \<times> pcc_ring_t" where
  "pcc_ring_init mem n =
     (case mem of
        None \<Rightarrow> (False, \<lparr>buf = [], cap = 0, head = 0, tail = 0, count = 0\<rparr>)
      | Some b \<Rightarrow> (True, \<lparr>buf = b, cap = n, head = 0, tail = 0, count = 0\<rparr>))"

definition pcc_ring_free :: "pcc_ring_t \<Rightarrow> pcc_ring_t" where
  "pcc_ring_free r = r\<lparr>buf := [], cap := 0, head := 0, tail := 0, count := 0\<rparr>"

definition pcc_ring_clear :: "pcc_ring_t \<Rightarrow> pcc_ring_t" where
  "pcc_ring_clear r = r\<lparr>head := 0, tail := 0, count := 0\<rparr>"

definition pcc_ring_space :: "pcc_ring_t \<Rightarrow> nat" where
  "pcc_ring_space r = cap r - count r"

definition pcc_ring_is_empty :: "pcc_ring_t \<Rightarrow> bool" where
  "pcc_ring_is_empty r \<longleftrightarrow> count r = 0"

definition pcc_ring_is_full :: "pcc_ring_t \<Rightarrow> bool" where
  "pcc_ring_is_full r \<longleftrightarrow> count r = cap r"

definition pcc_ring_push :: "u8 \<Rightarrow> pcc_ring_t \<Rightarrow> pcc_ring_t" where
  "pcc_ring_push byte r =
     (if cap r = 0 then r
      else
        let r = (if count r = cap r
                 then r\<lparr>tail := (tail r + 1) mod cap r, count := count r - 1\<rparr> else r);
            r = r\<lparr>buf := (buf r)[head r := byte]\<rparr>;
            r = r\<lparr>head := (head r + 1) mod cap r\<rparr>
        in r\<lparr>count := count r + 1\<rparr>)"

definition pcc_ring_peek :: "pcc_ring_t \<Rightarrow> int" where
  "pcc_ring_peek r = (if count r \<noteq> 0 then uint (buf r ! tail r) else - 1)"

definition pcc_ring_pop :: "pcc_ring_t \<Rightarrow> int \<times> pcc_ring_t" where
  "pcc_ring_pop r =
     (if count r = 0 then (- 1, r)
      else
        let byte = buf r ! tail r
        in (uint byte, r\<lparr>tail := (tail r + 1) mod cap r, count := count r - 1\<rparr>))"

subsection \<open>The ring is a queue of its last \<open>cap\<close> bytes\<close>

definition pcc_ok :: "pcc_ring_t \<Rightarrow> bool" where
  [wf_simps]: "pcc_ok r \<longleftrightarrow> length (buf r) = cap r \<and> count r \<le> cap r \<and>
     (cap r = 0 \<longrightarrow> head r = 0 \<and> tail r = 0) \<and>
     (0 < cap r \<longrightarrow> tail r < cap r \<and> head r = (tail r + count r) mod cap r)"

definition pcc_items :: "pcc_ring_t \<Rightarrow> u8 list" where
  "pcc_items r = ring_list (buf r) (tail r) (count r)"

definition pcc_pop_byte :: "pcc_ring_t \<Rightarrow> u8 option \<times> pcc_ring_t" where
  "pcc_pop_byte r =
     (case pcc_ring_pop r of (v, r') \<Rightarrow> (if v < 0 then None else Some (word_of_int v), r'))"

lemma pcc_items_length [simp]: "length (pcc_items r) = count r"
  by (simp add: pcc_items_def)

lemma pcc_ok_count: "pcc_ok r \<Longrightarrow> count r \<le> cap r"
  by (simp add: wf_simps)

lemma pcc_pop_cons:
  assumes "pcc_ok r" and "pcc_items r = x # xs"
  shows "fst (pcc_pop_byte r) = Some x" "pcc_items (snd (pcc_pop_byte r)) = xs"
    "pcc_ok (snd (pcc_pop_byte r))"
proof -
  have pos: "0 < count r" using assms(2) pcc_items_length [of r] by simp
  then have c: "0 < cap r" "tail r < cap r" "length (buf r) = cap r"
    using assms(1) by (auto simp: wf_simps)
  have "x # xs = buf r ! tail r # ring_list (buf r) ((tail r + 1) mod cap r) (count r - 1)"
    using assms(2) ring_list_pop [OF pos, of "buf r" "tail r"] c by (simp add: pcc_items_def)
  moreover have "(Suc (tail r) mod cap r + (count r - 1)) mod cap r = (tail r + count r) mod cap r"
    unfolding mod_add_left_eq using pos by simp
  ultimately show "fst (pcc_pop_byte r) = Some x" "pcc_items (snd (pcc_pop_byte r)) = xs"
    "pcc_ok (snd (pcc_pop_byte r))"
    using assms(1) pos c
    by (auto simp: pcc_pop_byte_def pcc_ring_pop_def pcc_items_def wf_simps)
qed

lemma pcc_push_ok_items:
  assumes "pcc_ok r"
  shows "pcc_items (pcc_ring_push b r) = lastn (cap r) (pcc_items r @ [b])"
    "pcc_ok (pcc_ring_push b r)" "cap (pcc_ring_push b r) = cap r"
proof -
  consider (zero) "cap r = 0" | (full) "0 < cap r" "count r = cap r"
    | (room) "0 < cap r" "count r < cap r"
    using assms by (fastforce simp: wf_simps)
  then have "pcc_items (pcc_ring_push b r) = lastn (cap r) (pcc_items r @ [b]) \<and>
    pcc_ok (pcc_ring_push b r) \<and> cap (pcc_ring_push b r) = cap r"
  proof cases
    case zero
    then show ?thesis using assms by (auto simp: pcc_ring_push_def pcc_items_def wf_simps)
  next
    case full
    have len: "length (buf r) = cap r" and hd: "head r = tail r" and tl: "tail r < cap r"
      using assms full by (auto simp: wf_simps)
    have "pcc_items r = buf r ! tail r # ring_list (buf r) (Suc (tail r)) (cap r - 1)"
      using ring_list_pop [of "count r" "buf r" "tail r"] full len tl
      ring_list_start_mod [of "buf r" "Suc (tail r)"]
      by (simp add: pcc_items_def)
    moreover have "lastn (cap r) (pcc_items r @ [b]) = tl (pcc_items r) @ [b]"
      using lastn_snoc [of "cap r" "pcc_items r" b] full by simp
    ultimately have "lastn (cap r) (pcc_items r @ [b]) =
        ring_list (buf r) (Suc (tail r)) (cap r - 1) @ [b]"
      by simp
    also have "\<dots> = ring_list ((buf r)[tail r := b]) (Suc (tail r)) (cap r)"
      using ring_list_push [of "cap r - 1" "buf r" "Suc (tail r)" b] full len tl by simp
    also have "\<dots> = ring_list ((buf r)[tail r := b]) (Suc (tail r) mod cap r) (cap r)"
      using ring_list_start_mod [of "(buf r)[tail r := b]" "Suc (tail r)"] len by simp
    also have "\<dots> = pcc_items (pcc_ring_push b r)"
      using full len hd by (simp add: pcc_ring_push_def pcc_items_def Let_def)
    finally show ?thesis using full len hd tl
      by (auto simp: pcc_ring_push_def wf_simps Let_def)
  next
    case room
    have len: "length (buf r) = cap r" and hd: "head r = (tail r + count r) mod cap r"
      using assms room by (auto simp: wf_simps)
    show ?thesis
      using ring_list_push [of "count r" "buf r" "tail r" b] assms room
      by (auto simp: pcc_ring_push_def pcc_items_def wf_simps Let_def mod_Suc_eq)
  qed
  then show "pcc_items (pcc_ring_push b r) = lastn (cap r) (pcc_items r @ [b])"
    "pcc_ok (pcc_ring_push b r)" "cap (pcc_ring_push b r) = cap r" by simp_all
qed

interpretation pcc: drop_oldest_fifo pcc_ok pcc_items cap pcc_pop_byte pcc_ring_push
proof unfold_locales
  fix q assume "pcc_ok q" "pcc_items q = []"
  then have "count q = 0" using pcc_items_length [of q] by simp
  then show "pcc_pop_byte q = (None, q)" by (simp add: pcc_pop_byte_def pcc_ring_pop_def)
qed (simp_all add: pcc_push_ok_items pcc_pop_cons pcc_ok_count)

section \<open>Properties\<close>

lemma pcc_ring_init_ok:
  "length b = n \<Longrightarrow> pcc_ok (snd (pcc_ring_init (Some b) n)) \<and> pcc_items (snd (pcc_ring_init (Some b) n)) = []
     \<and> cap (snd (pcc_ring_init (Some b) n)) = n"
  by (simp add: pcc_ring_init_def wf_simps pcc_items_def)

text \<open>C30: A ring of \<open>n\<close> bytes, whatever its block held, keeps the last \<open>n\<close> bytes pushed and pops
  them in the order they came; \<open>pcc_ring_space\<close> tells how many more fit without losing any.\<close>

theorem pcc_ring_keeps_last:
  assumes "length b = n"
  shows "let r = fold pcc_ring_push bs (snd (pcc_ring_init (Some b) n))
    in fst (pcc.drain k r) = take k (lastn n bs) \<and> pcc_ring_space r = n - length bs"
proof -
  define r where "r = fold pcc_ring_push bs (snd (pcc_ring_init (Some b) n))"
  note i = pcc_ring_init_ok [OF assms(1)]
  have r: "pcc_items r = lastn n bs" "pcc_ok r" "cap r = n"
    using pcc.push_all [of "snd (pcc_ring_init (Some b) n)" bs] i by (simp_all add: r_def)
  then have "count r = min n (length bs)" using pcc_items_length [of r] by simp
  then show ?thesis using pcc.drain_items [OF r(2), of k] r
    by (simp add: pcc_ring_space_def Let_def flip: r_def)
qed

theorem pcc_ring_keeps_last_witness:
  "fst (pcc.drain 3 (fold pcc_ring_push [1, 2, 3, 4, 5] (snd (pcc_ring_init (Some [0, 0, 0]) 3)))) =
     [3, 4, 5]"
  using pcc_ring_keeps_last [of "[0, 0, 0]" 3 "[1, 2, 3, 4, 5]" 3]
  by (simp add: lastn_def Let_def del: pcc.drain.simps fold_simps)

end
