(* ===== verification/Rtc.thy ===== *)
theory Rtc
  imports Prelude
begin

text \<open>
  The VR4131 real-time clock, \<open>src/hw/rtc.c\<close>: the 48-bit elapsed-time counter with its one-shot
  compare interrupt, the reload registers, and the conversion of a host date to the counter's
  WinCE epoch of 1850. The calendar lemmas show the loop over years and months counts days; the
  device lemmas show the compare interrupt is neither missed nor repeated.
\<close>

section \<open>State\<close>

text \<open>The two \<open>uint8_t\<close> flags only ever hold 0 or 1 and are tested for truth: they are \<open>bool\<close>.\<close>

record rtc_state =
  etime :: u64
  ecmp :: u64
  rtcl1 :: u32
  rtcl2 :: u32
  tclock :: u32
  rtcint :: u16
  elapsed_compare_armed :: bool
  elapsed_compare_fired :: bool
  etime_latched :: u64

abbreviation RTCINT_ELAPSEDTIME_INT :: u16 where "RTCINT_ELAPSEDTIME_INT \<equiv> 0x01"

section \<open>Compare interrupt\<close>

definition rtc_update_elapsed_irq :: "rtc_state \<Rightarrow> rtc_state" where
  "rtc_update_elapsed_irq s =
     (if \<not> elapsed_compare_armed s then s
      else if etime s < ecmp s then s
      else if elapsed_compare_fired s then s
      else s\<lparr>rtcint := rtcint s OR RTCINT_ELAPSEDTIME_INT, elapsed_compare_fired := True\<rparr>)"

definition rtc_rearm_elapsed_irq :: "rtc_state \<Rightarrow> rtc_state" where
  "rtc_rearm_elapsed_irq s =
     rtc_update_elapsed_irq (s\<lparr>elapsed_compare_armed := True, elapsed_compare_fired := False\<rparr>)"

definition rtc_48bit_mask :: u64 where
  "rtc_48bit_mask = 0x0000FFFFFFFFFFFF"

section \<open>Calendar\<close>

definition rtc_is_leap_year :: "int \<Rightarrow> bool" where
  "rtc_is_leap_year year \<longleftrightarrow> (year mod 4 = 0 \<and> year mod 100 \<noteq> 0) \<or> year mod 400 = 0"

definition rtc_month_days :: "int list" where
  "rtc_month_days = [31, 28, 31, 30, 31, 30, 31, 31, 30, 31, 30, 31]"

definition rtc_days_in_month :: "int \<Rightarrow> int \<Rightarrow> int" where
  "rtc_days_in_month year month =
     (if month < 1 \<or> month > 12 then 0
      else if month = 2 \<and> rtc_is_leap_year year then 29
      else rtc_month_days ! nat (month - 1))"

text \<open>\<open>for (int y = RTC_WINCE_EPOCH_YEAR; y < year; y++) days += leap ? 366 : 365;\<close>\<close>

function rtc_count_years :: "int \<Rightarrow> int \<Rightarrow> u64 \<Rightarrow> u64" where
  "rtc_count_years y year days =
     (if y < year then rtc_count_years (y + 1) year (days + (if rtc_is_leap_year y then 366 else 365))
      else days)"
  by pat_completeness auto
termination
  by (relation "measure (\<lambda>(y, year, days). nat (year - y))") auto

text \<open>\<open>for (int m = 1; m < month; m++) days += (uint64_t)rtc_days_in_month(year, m);\<close>\<close>

function rtc_count_months :: "int \<Rightarrow> int \<Rightarrow> int \<Rightarrow> u64 \<Rightarrow> u64" where
  "rtc_count_months year m month days =
     (if m < month then rtc_count_months year (m + 1) month (days + of_int (rtc_days_in_month year m))
      else days)"
  by pat_completeness auto
termination
  by (relation "measure (\<lambda>(year, m, month, days). nat (month - m))") auto

declare rtc_count_years.simps [simp del]
declare rtc_count_months.simps [simp del]

text \<open>The result \<open>-1\<close> is \<open>None\<close>; otherwise the value stored in \<open>*days_out\<close>.\<close>

definition rtc_days_since_wince_epoch :: "int \<Rightarrow> int \<Rightarrow> int \<Rightarrow> u64 option" where
  "rtc_days_since_wince_epoch year month day =
     (if year < 1850 \<or> month < 1 \<or> month > 12 then None
      else if day < 1 \<or> day > rtc_days_in_month year month then None
      else
        let days = rtc_count_years 1850 year 0;
            days = rtc_count_months year 1 month days
        in Some (days + of_int (day - 1)))"

section \<open>Registers\<close>

definition rtc_write_48bit :: "u64 \<Rightarrow> u32 \<Rightarrow> nat \<Rightarrow> u32 \<Rightarrow> u64" where
  "rtc_write_48bit target offset sz val =
     (let reg = target in
      if offset = 0x00 \<or> offset = 0x08 then
        (if sz \<ge> 4 then ((reg AND NOT 0xFFFFFFFF) OR ucast val) AND rtc_48bit_mask
         else ((reg AND NOT 0xFFFF) OR ucast (val AND 0xFFFF)) AND rtc_48bit_mask)
      else if offset = 0x02 \<or> offset = 0x0A then
        (if sz \<ge> 4
         then ((reg AND NOT (push_bit 16 0xFFFFFFFF)) OR push_bit 16 (ucast val)) AND rtc_48bit_mask
         else ((reg AND NOT (push_bit 16 0xFFFF)) OR push_bit 16 (ucast (val AND 0xFFFF))) AND rtc_48bit_mask)
      else if offset = 0x04 \<or> offset = 0x0C then
        ((reg AND NOT (push_bit 32 0xFFFF)) OR push_bit 32 (ucast (val AND 0xFFFF))) AND rtc_48bit_mask
      else target)"

definition rtc_init :: rtc_state where
  "rtc_init = \<lparr>etime = 0, ecmp = 0, rtcl1 = 0, rtcl2 = 0, tclock = 0, rtcint = 0,
     elapsed_compare_armed = False, elapsed_compare_fired = False, etime_latched = 0\<rparr>"

text \<open>\<open>None\<close> is the return value \<open>-1\<close>, which leaves the state as it was.\<close>

definition rtc_init_from_ymdhms ::
  "int \<Rightarrow> int \<Rightarrow> int \<Rightarrow> int \<Rightarrow> int \<Rightarrow> int \<Rightarrow> rtc_state option" where
  "rtc_init_from_ymdhms year month day hour minute second =
     (if hour < 0 \<or> hour > 23 \<or> minute < 0 \<or> minute > 59 \<or> second < 0 \<or> second > 60 then None
      else
        case rtc_days_since_wince_epoch year month day of
          None \<Rightarrow> None
        | Some days \<Rightarrow>
            let seconds = days * 86400 + of_int hour * 3600 + of_int minute * 60 + of_int second;
                ticks = (seconds * 32768) AND rtc_48bit_mask
            in Some (rtc_init\<lparr>etime := ticks, etime_latched := ticks\<rparr>))"

definition rtc_read_etime :: "rtc_state \<Rightarrow> u32 \<Rightarrow> nat \<Rightarrow> u32" where
  "rtc_read_etime s offset sz =
     (let snap = etime s in
      if sz \<ge> 4 then
        (if offset = 0x00 then ucast (snap AND 0xFFFFFFFF)
         else if offset = 0x02 then ucast (drop_bit 16 snap AND 0xFFFFFFFF)
         else if offset = 0x04 then ucast (drop_bit 32 snap AND 0xFFFFFFFF) else 0)
      else
        (if offset = 0x00 then ucast (snap AND 0xFFFF)
         else if offset = 0x02 then ucast (drop_bit 16 snap AND 0xFFFF)
         else if offset = 0x04 then ucast (drop_bit 32 snap AND 0xFFFF) else 0))"

definition rtc_read :: "rtc_state \<Rightarrow> u32 \<Rightarrow> nat \<Rightarrow> u32" where
  "rtc_read s offset sz =
     (if offset = 0x00 \<or> offset = 0x02 \<or> offset = 0x04 then rtc_read_etime s offset sz
      else if offset = 0x08 then ucast (ecmp s AND 0xFFFF)
      else if offset = 0x0A then ucast (drop_bit 16 (ecmp s) AND 0xFFFF)
      else if offset = 0x0C then ucast (drop_bit 32 (ecmp s) AND 0xFFFF)
      else if offset = 0x10 then rtcl1 s AND 0xFFFF
      else if offset = 0x12 then drop_bit 16 (rtcl1 s) AND 0xFF
      else if offset = 0x14 then 0
      else if offset = 0x16 then 0
      else if offset = 0x18 then rtcl2 s AND 0xFFFF
      else if offset = 0x1A then drop_bit 16 (rtcl2 s) AND 0xFFFF
      else if offset = 0x1C then ucast (etime s AND 0xFFFF)
      else if offset = 0x1E then ucast (drop_bit 16 (etime s) AND 0xFFFF)
      else if offset = 0x20 then tclock s AND 0xFFFF
      else if offset = 0x22 then drop_bit 16 (tclock s) AND 0xFFFF
      else if offset = 0x24 then ucast (etime s AND 0xFFFF)
      else if offset = 0x26 then ucast (drop_bit 16 (etime s) AND 0xFFFF)
      else if offset = 0x3E then ucast (rtcint s)
      else 0)"

definition rtc_write :: "u32 \<Rightarrow> nat \<Rightarrow> u32 \<Rightarrow> rtc_state \<Rightarrow> rtc_state" where
  "rtc_write offset sz val s =
     (if offset = 0x00 \<or> offset = 0x02 \<or> offset = 0x04 then
        let s = s\<lparr>etime := rtc_write_48bit (etime s) offset sz val\<rparr>
        in rtc_update_elapsed_irq (s\<lparr>etime_latched := etime s\<rparr>)
      else if offset = 0x08 \<or> offset = 0x0A \<or> offset = 0x0C then
        rtc_rearm_elapsed_irq (s\<lparr>ecmp := rtc_write_48bit (ecmp s) offset sz val\<rparr>)
      else if offset = 0x10 then s\<lparr>rtcl1 := (rtcl1 s AND 0xFFFF0000) OR (val AND 0xFFFF)\<rparr>
      else if offset = 0x12 then s\<lparr>rtcl1 := (rtcl1 s AND 0x0000FFFF) OR push_bit 16 (val AND 0xFF)\<rparr>
      else if offset = 0x18 then s\<lparr>rtcl2 := (rtcl2 s AND 0xFFFF0000) OR (val AND 0xFFFF)\<rparr>
      else if offset = 0x1A then s\<lparr>rtcl2 := (rtcl2 s AND 0x0000FFFF) OR push_bit 16 (val AND 0xFFFF)\<rparr>
      else if offset = 0x20 then s\<lparr>tclock := (tclock s AND 0xFFFF0000) OR (val AND 0xFFFF)\<rparr>
      else if offset = 0x22 then s\<lparr>tclock := (tclock s AND 0x0000FFFF) OR push_bit 16 (val AND 0xFFFF)\<rparr>
      else if offset = 0x3E then s\<lparr>rtcint := rtcint s AND NOT (ucast val)\<rparr>
      else s)"

definition rtc_tick :: "u64 \<Rightarrow> rtc_state \<Rightarrow> rtc_state" where
  "rtc_tick ticks s =
     rtc_update_elapsed_irq (s\<lparr>etime := (etime s + ticks) AND rtc_48bit_mask\<rparr>)"

section \<open>The calendar counts days\<close>

definition leaps_upto :: "int \<Rightarrow> int" where
  "leaps_upto y = y div 4 - y div 100 + y div 400"

definition days_before_year :: "int \<Rightarrow> int" where
  "days_before_year y = 365 * (y - 1850) + (leaps_upto (y - 1) - leaps_upto 1849)"

definition days_before_month :: "int \<Rightarrow> int \<Rightarrow> int" where
  "days_before_month year month = (\<Sum>m\<in>{1..<month}. rtc_days_in_month year m)"

definition valid_date :: "int \<Rightarrow> int \<Rightarrow> int \<Rightarrow> bool" where
  [wf_simps]: "valid_date year month day \<longleftrightarrow> 1850 \<le> year \<and> 1 \<le> month \<and> month \<le> 12 \<and>
     1 \<le> day \<and> day \<le> rtc_days_in_month year month"

definition day_number :: "int \<Rightarrow> int \<Rightarrow> int \<Rightarrow> int" where
  "day_number year month day = days_before_year year + days_before_month year month + (day - 1)"

text \<open>The day after a date, as a calendar page has it.\<close>

definition next_date :: "int \<times> int \<times> int \<Rightarrow> int \<times> int \<times> int" where
  "next_date date = (case date of (year, month, day) \<Rightarrow>
     if day < rtc_days_in_month year month then (year, month, day + 1)
     else if month < 12 then (year, month + 1, 1) else (year + 1, 1, 1))"

lemma div_pred_int:
  fixes y k :: int
  assumes "0 < k"
  shows "y div k = (y - 1) div k + (if y mod k = 0 then 1 else 0)"
proof (cases "y mod k = 0")
  case True
  have "y - 1 = k * (y div k - 1) + (k - 1)"
    using mult_div_mod_eq [of k y] True by (simp add: algebra_simps)
  then have "(y - 1) div k = y div k - 1"
    using assms by (intro int_div_pos_eq [where r = "k - 1"]) auto
  with True show ?thesis by simp
next
  case False
  have "y - 1 = k * (y div k) + (y mod k - 1)"
    using mult_div_mod_eq [of k y] by (simp add: algebra_simps)
  moreover have "0 \<le> y mod k - 1" "y mod k - 1 < k"
    using False assms pos_mod_sign [of k y] pos_mod_bound [of k y] by linarith+
  ultimately have "(y - 1) div k = y div k" by (rule int_div_pos_eq)
  with False show ?thesis by simp
qed

lemma leaps_upto_rec:
  "leaps_upto y = leaps_upto (y - 1) + (if rtc_is_leap_year y then 1 else 0)"
proof -
  have imp: "y mod 400 = 0 \<Longrightarrow> y mod 100 = 0" "y mod 100 = 0 \<Longrightarrow> y mod 4 = 0"
    using mod_mod_cancel [of 100 400 y] mod_mod_cancel [of 4 100 y] by auto
  have e: "y div 4 = (y - 1) div 4 + (if y mod 4 = 0 then 1 else 0)"
    "y div 100 = (y - 1) div 100 + (if y mod 100 = 0 then 1 else 0)"
    "y div 400 = (y - 1) div 400 + (if y mod 400 = 0 then 1 else 0)"
    by (rule div_pred_int, simp)+
  show ?thesis
    unfolding leaps_upto_def rtc_is_leap_year_def e using imp by auto
qed

lemma days_before_year_Suc:
  "days_before_year (y + 1) = days_before_year y + (if rtc_is_leap_year y then 366 else 365)"
  using leaps_upto_rec [of y] by (simp add: days_before_year_def)

lemma rtc_count_years_eq:
  "y \<le> year \<Longrightarrow> rtc_count_years y year d = d + of_int (days_before_year year - days_before_year y)"
proof (induction y year d rule: rtc_count_years.induct)
  case (1 y year d)
  show ?case
  proof (cases "y < year")
    case True
    with "1.IH" show ?thesis
      by (simp add: rtc_count_years.simps [of y] days_before_year_Suc)
  next
    case False
    with "1.prems" show ?thesis by (simp add: rtc_count_years.simps [of year])
  qed
qed

lemma rtc_count_months_eq:
  "m \<le> month \<Longrightarrow> rtc_count_months year m month d =
     d + of_int (\<Sum>i\<in>{m..<month}. rtc_days_in_month year i)"
proof (induction year m month d rule: rtc_count_months.induct)
  case (1 year m month d)
  show ?case
  proof (cases "m < month")
    case True
    then have "{m..<month} = insert m {m + 1..<month}" by auto
    with True "1.IH" show ?thesis
      by (simp add: rtc_count_months.simps [of year m])
  next
    case False
    with "1.prems" show ?thesis by (simp add: rtc_count_months.simps [of year month])
  qed
qed

lemma rtc_days_eq:
  "rtc_days_since_wince_epoch year month day =
     (if valid_date year month day then Some (of_int (day_number year month day)) else None)"
  by (auto simp: rtc_days_since_wince_epoch_def rtc_count_years_eq rtc_count_months_eq wf_simps
    day_number_def days_before_month_def days_before_year_def algebra_simps Let_def)

lemma days_in_month_cases:
  "1 \<le> m \<Longrightarrow> m \<le> 12 \<Longrightarrow> 28 \<le> rtc_days_in_month y m \<and> rtc_days_in_month y m \<le> 31"
proof -
  assume "1 \<le> m" "m \<le> 12"
  then have "m \<in> set [1..12]" by simp
  then show ?thesis
    by (auto simp: upto.simps rtc_days_in_month_def rtc_month_days_def simp del: set_upto)
qed

lemma days_before_month_Suc:
  "1 \<le> m \<Longrightarrow> days_before_month y (m + 1) = days_before_month y m + rtc_days_in_month y m"
proof -
  assume "1 \<le> m"
  then have "{1..<m + 1} = insert m {1..<m}" by auto
  then show ?thesis by (simp add: days_before_month_def)
qed

lemma days_in_year: "days_before_month y 13 = (if rtc_is_leap_year y then 366 else 365)"
proof -
  have "{1..<13::int} = set [1..12]" by auto
  also have "\<dots> = {1,2,3,4,5,6,7,8,9,10,11,12}"
    by (simp add: upto.simps del: set_upto)
  finally show ?thesis by (simp add: days_before_month_def rtc_days_in_month_def rtc_month_days_def)
qed

lemma next_date_valid:
  "valid_date y m d \<Longrightarrow> next_date (y, m, d) = (y', m', d') \<Longrightarrow> valid_date y' m' d'"
  using days_in_month_cases [of "m + 1" y] days_in_month_cases [of 1 "y + 1"]
  by (auto simp: next_date_def wf_simps split: if_splits)

lemma next_date_number:
  assumes "valid_date y m d" and "next_date (y, m, d) = (y', m', d')"
  shows "day_number y' m' d' = day_number y m d + 1"
proof (cases "d < rtc_days_in_month y m")
  case True
  with assms(2) show ?thesis by (auto simp: next_date_def day_number_def)
next
  case last: False
  then have d: "d = rtc_days_in_month y m" using assms(1) by (simp add: wf_simps)
  show ?thesis
  proof (cases "m < 12")
    case True
    with last d assms show ?thesis
      using days_before_month_Suc [of m y] by (auto simp: next_date_def day_number_def wf_simps)
  next
    case False
    then have "m = 12" using assms(1) by (simp add: wf_simps)
    with last d assms(2) show ?thesis
      using days_before_month_Suc [of 12 y] days_in_year [of y] days_before_year_Suc [of y]
      by (auto simp: next_date_def day_number_def days_before_month_def)
  qed
qed

section \<open>The device\<close>

datatype rtc_event = Rtc_Write u32 nat u32 | Rtc_Tick u64

fun rtc_step :: "rtc_event \<Rightarrow> rtc_state \<Rightarrow> rtc_state" where
  "rtc_step (Rtc_Write offset sz val) s = rtc_write offset sz val s"
| "rtc_step (Rtc_Tick ticks) s = rtc_tick ticks s"

text \<open>
  Both counters stay within 48 bits and the RTCL1 reload value within 24. An armed compare that has
  been reached has fired, and only an armed compare fires.
\<close>

definition rtc_ok :: "rtc_state \<Rightarrow> bool" where
  [wf_simps]: "rtc_ok s \<longleftrightarrow> fits 48 (etime s) \<and> fits 48 (ecmp s) \<and> fits 24 (rtcl1 s) \<and> (elapsed_compare_armed s \<and> ecmp s \<le> etime s \<longrightarrow> elapsed_compare_fired s) \<and>
     (elapsed_compare_fired s \<longrightarrow> elapsed_compare_armed s)"

lemma rtc_update_fields [simp]:
  "etime (rtc_update_elapsed_irq s) = etime s" "ecmp (rtc_update_elapsed_irq s) = ecmp s"
  "rtcl1 (rtc_update_elapsed_irq s) = rtcl1 s"
  "elapsed_compare_armed (rtc_update_elapsed_irq s) = elapsed_compare_armed s"
  "etime_latched (rtc_update_elapsed_irq s) = etime_latched s"
  by (simp_all add: rtc_update_elapsed_irq_def)

lemma rtc_update_fired:
  "elapsed_compare_fired (rtc_update_elapsed_irq s) \<longleftrightarrow>
     elapsed_compare_fired s \<or> (elapsed_compare_armed s \<and> ecmp s \<le> etime s)"
  by (auto simp: rtc_update_elapsed_irq_def)

lemma rtc_update_int:
  "rtcint (rtc_update_elapsed_irq s) =
     (if elapsed_compare_armed s \<and> ecmp s \<le> etime s \<and> \<not> elapsed_compare_fired s
      then rtcint s OR RTCINT_ELAPSEDTIME_INT else rtcint s)"
  by (auto simp: rtc_update_elapsed_irq_def)

lemma fits_48_mask [simp]: "fits 48 (w AND rtc_48bit_mask)"
  unfolding rtc_48bit_mask_def mask_lits by (simp add: fits_and fits_mask)

lemma rtc_write_48bit_fits: "fits 48 target \<Longrightarrow> fits 48 (rtc_write_48bit target offset sz val)"
  by (auto simp: rtc_write_48bit_def Let_def)

lemma rtcl1_low_fits: "fits 24 (x :: u32) \<Longrightarrow> fits 24 ((x AND 0xFFFF0000) OR (v AND 0xFFFF))"
  unfolding mask_lits by (simp add: fits_intros)

lemma rtcl1_high_fits: "fits 24 (((x :: u32) AND 0x0000FFFF) OR push_bit 16 (v AND 0xFF))"
  unfolding mask_lits by (simp add: fits_intros del: push_bit_and)

lemma rtc_init_ok: "rtc_ok rtc_init"
  by (simp add: rtc_init_def wf_simps)

interpretation rtc: device rtc_step rtc_ok
proof unfold_locales
  fix s e assume ok: "rtc_ok s"
  show "rtc_ok (rtc_step e s)"
  proof (cases e)
    case (Rtc_Write offset sz val)
    then show ?thesis using ok
      by (auto simp: rtc_write_def Let_def wf_simps rtc_update_fired rtc_rearm_elapsed_irq_def
        rtc_write_48bit_fits rtcl1_low_fits rtcl1_high_fits simp del: push_bit_and)
  next
    case (Rtc_Tick n)
    then show ?thesis using ok
      by (auto simp: rtc_tick_def wf_simps rtc_update_fired)
  qed
qed

section \<open>Ticks and the compare interrupt\<close>

lemma unat_and_48: "unat (x AND rtc_48bit_mask) = unat x mod 2 ^ 48"
  unfolding rtc_48bit_mask_def mask_lits
  unfolding take_bit_eq_mask [symmetric] unsigned_take_bit_eq by (simp add: take_bit_eq_mod)

lemma uint_and_48: "uint (x AND rtc_48bit_mask) = uint x mod 2 ^ 48"
  unfolding rtc_48bit_mask_def mask_lits
  unfolding take_bit_eq_mask [symmetric] unsigned_take_bit_eq by (simp add: take_bit_eq_mod)

lemma rtc_tick_etime:
  "unat (etime s) + unat n < 2 ^ 48 \<Longrightarrow> unat (etime (rtc_tick n s)) = unat (etime s) + unat n"
  by (simp add: rtc_tick_def unat_and_48 unat_word_ariths)

lemma rtc_tick_ok: "rtc_ok s \<Longrightarrow> rtc_ok (rtc_tick n s)"
  using rtc.step_inv [of s "Rtc_Tick n"] by simp

lemma rtc_tick_frame [simp]:
  "ecmp (rtc_tick n s) = ecmp s" "elapsed_compare_armed (rtc_tick n s) = elapsed_compare_armed s"
  by (simp_all add: rtc_tick_def)

lemma rtc_ticks:
  assumes "rtc_ok s" and "unat (etime s) + sum_list (map unat ts) < 2 ^ 48"
  shows "unat (etime (fold rtc_tick ts s)) = unat (etime s) + sum_list (map unat ts)"
    and "elapsed_compare_fired (fold rtc_tick ts s) \<longleftrightarrow> elapsed_compare_fired s \<or>
      (elapsed_compare_armed s \<and> unat (ecmp s) \<le> unat (etime s) + sum_list (map unat ts))"
    and "rtcint (fold rtc_tick ts s) =
      (if elapsed_compare_fired (fold rtc_tick ts s) \<and> \<not> elapsed_compare_fired s
       then rtcint s OR RTCINT_ELAPSEDTIME_INT else rtcint s)"
  using assms
proof (induction ts arbitrary: s)
  case Nil
  { case 1 then show ?case by simp }
  { case 2 then show ?case by (auto simp: wf_simps word_le_nat_alt) }
  { case 3 then show ?case by simp }
next
  case (Cons n ts)
  { case 1
    then have "unat (etime (rtc_tick n s)) = unat (etime s) + unat n"
      by (intro rtc_tick_etime) simp
    then show ?case using 1 Cons.IH(1) [of "rtc_tick n s"] by (simp add: rtc_tick_ok) }
  { case 2
    then have "unat (etime (rtc_tick n s)) = unat (etime s) + unat n"
      by (intro rtc_tick_etime) simp
    moreover have "elapsed_compare_fired (rtc_tick n s) \<longleftrightarrow> elapsed_compare_fired s \<or>
        (elapsed_compare_armed s \<and> unat (ecmp s) \<le> unat (etime (rtc_tick n s)))"
      by (auto simp: rtc_tick_def rtc_update_fired word_le_nat_alt)
    ultimately show ?case using 2 Cons.IH(2) [of "rtc_tick n s"] by (auto simp: rtc_tick_ok) }
  { case 3
    then have e: "unat (etime (rtc_tick n s)) = unat (etime s) + unat n"
      by (intro rtc_tick_etime) simp
    have f: "elapsed_compare_fired (rtc_tick n s) \<longleftrightarrow> elapsed_compare_fired s \<or>
        (elapsed_compare_armed s \<and> unat (ecmp s) \<le> unat (etime (rtc_tick n s)))"
      by (auto simp: rtc_tick_def rtc_update_fired word_le_nat_alt)
    have i: "rtcint (rtc_tick n s) =
        (if elapsed_compare_fired (rtc_tick n s) \<and> \<not> elapsed_compare_fired s
         then rtcint s OR RTCINT_ELAPSEDTIME_INT else rtcint s)"
      by (auto simp: rtc_tick_def rtc_update_fired rtc_update_int)
    show ?case using 3 e f i Cons.IH(2,3) [of "rtc_tick n s"] by (auto simp: rtc_tick_ok) }
qed

section \<open>Writing a counter by halves\<close>

lemma bit_halves_cases:
  fixes n :: nat
  obtains "n < 16" | m where "n = 16 + m" "m < 16" | m where "n = 32 + m"
  by (cases "n < 16"; cases "n < 32") (auto simp: not_less le_iff_add)

lemma rtc_write_halves:
  assumes "fits 48 v"
  shows "rtc_write_48bit (rtc_write_48bit (rtc_write_48bit w 0x00 2 (ucast v)) 0x02 2 (ucast (drop_bit 16 v)))
     0x04 2 (ucast (drop_bit 32 v)) = v"
proof (rule bit_word_eqI)
  fix n :: nat
  have "bit v n \<Longrightarrow> n < 48" using assms by (simp add: fits_bits)
  then show "bit (rtc_write_48bit (rtc_write_48bit (rtc_write_48bit w 0x00 2 (ucast v)) 0x02 2
      (ucast (drop_bit 16 v))) 0x04 2 (ucast (drop_bit 32 v))) n = bit v n"
    unfolding rtc_write_48bit_def rtc_48bit_mask_def mask_lits Let_def
    by (cases n rule: bit_halves_cases) (auto simp: bit_simps simp del: push_bit_and)
qed

lemma rtc_read_halves:
  assumes "fits 48 (etime s)"
  shows "(ucast (rtc_read s 0x00 2) :: u64) OR push_bit 16 (ucast (rtc_read s 0x02 2)) OR
     push_bit 32 (ucast (rtc_read s 0x04 2)) = etime s"
proof (rule bit_word_eqI)
  fix n :: nat
  have "bit (etime s) n \<Longrightarrow> n < 48" using assms by (simp add: fits_bits)
  then show "bit ((ucast (rtc_read s 0x00 2) :: u64) OR push_bit 16 (ucast (rtc_read s 0x02 2)) OR
     push_bit 32 (ucast (rtc_read s 0x04 2))) n = bit (etime s) n"
    unfolding rtc_read_def rtc_read_etime_def mask_lits Let_def
    by (cases n rule: bit_halves_cases) (auto simp: bit_simps simp del: push_bit_and)
qed

section \<open>Date to ticks\<close>

lemma days_before_year_mono: "y \<le> y' \<Longrightarrow> days_before_year y \<le> days_before_year y'"
  by (induction y' rule: int_ge_induct) (auto simp: days_before_year_Suc)

lemma day_number_year:
  assumes "valid_date y m d"
  shows "days_before_year y \<le> day_number y m d" "day_number y m d < days_before_year (y + 1)"
proof -
  have m: "1 \<le> m" "m \<le> 12" "1 \<le> d" "d \<le> rtc_days_in_month y m"
    using assms by (auto simp: wf_simps)
  have nonneg: "0 \<le> rtc_days_in_month y i" if "i \<in> {1..<13}" for i
    using days_in_month_cases [of i y] that by auto
  have "days_before_month y (m + 1) \<le> days_before_month y 13"
    unfolding days_before_month_def using m nonneg by (intro sum_mono2) auto
  then have "days_before_month y m + d \<le> (if rtc_is_leap_year y then 366 else 365)"
    using m days_before_month_Suc [of m y] by (simp only: days_in_year)
  then show "day_number y m d < days_before_year (y + 1)"
    by (simp only: day_number_def days_before_year_Suc)
  have "0 \<le> days_before_month y m"
    unfolding days_before_month_def using m nonneg by (intro sum_nonneg) auto
  then show "days_before_year y \<le> day_number y m d" using m by (simp add: day_number_def)
qed

lemma day_number_bounds:
  assumes "valid_date y m d" and "y \<le> 2121"
  shows "0 \<le> day_number y m d" "day_number y m d < 99346"
proof -
  have y: "1850 \<le> y" using assms(1) by (simp add: wf_simps)
  have "days_before_year 1850 = 0" "days_before_year 2122 = 99346"
    by (simp_all add: days_before_year_def leaps_upto_def)
  then show "0 \<le> day_number y m d" "day_number y m d < 99346"
    using day_number_year [OF assms(1)] days_before_year_mono [OF y]
      days_before_year_mono [of "y + 1" 2122] assms(2) by auto
qed

lemma rtc_ymdhms_ticks:
  assumes v: "valid_date year month day" and y: "year \<le> 2121"
    and h: "0 \<le> hour" "hour \<le> 23" and mi: "0 \<le> minute" "minute \<le> 59"
    and sec: "0 \<le> second" "second \<le> 60"
  shows "\<exists>s. rtc_init_from_ymdhms year month day hour minute second = Some s \<and>
    uint (etime s) = 32768 * (86400 * day_number year month day + 3600 * hour + 60 * minute + second) \<and>
    etime_latched s = etime s \<and> \<not> elapsed_compare_armed s"
proof -
  let ?t = "86400 * day_number year month day + 3600 * hour + 60 * minute + second"
  have t: "0 \<le> ?t" "32768 * ?t < 2 ^ 48"
    using day_number_bounds [OF v y] h mi sec by auto
  have "((of_int (day_number year month day) * 86400 + of_int hour * 3600 + of_int minute * 60 +
      of_int second) * 32768 :: u64) = of_int (32768 * ?t)"
    by (simp add: algebra_simps)
  moreover have "uint ((of_int (32768 * ?t) :: u64) AND rtc_48bit_mask) = 32768 * ?t"
  proof -
    have u: "uint (of_int (32768 * ?t) :: u64) = 32768 * ?t"
      using t by (simp add: uint_word_of_int take_bit_int_eq_self del: of_int_mult of_int_add)
    show ?thesis unfolding uint_and_48 u using t by (intro mod_pos_pos_trivial) auto
  qed
  ultimately show ?thesis using h mi sec
    by (simp add: rtc_init_from_ymdhms_def rtc_days_eq v Let_def rtc_init_def del: of_int_mult of_int_add)
qed

section \<open>Properties\<close>

text \<open>The Gregorian calendar, on its own: the length of a month, the dates there are, the next day.\<close>

definition gregorian_length :: "int \<Rightarrow> int \<Rightarrow> int" where
  "gregorian_length y m =
     (if m = 2 then (if 400 dvd y \<or> 4 dvd y \<and> \<not> 100 dvd y then 29 else 28)
      else if m \<in> {4, 6, 9, 11} then 30 else 31)"

definition gregorian_date :: "int \<Rightarrow> int \<Rightarrow> int \<Rightarrow> bool" where
  "gregorian_date y m d \<longleftrightarrow> 1 \<le> m \<and> m \<le> 12 \<and> 1 \<le> d \<and> d \<le> gregorian_length y m"

definition gregorian_next :: "int \<Rightarrow> int \<Rightarrow> int \<Rightarrow> int \<times> int \<times> int" where
  "gregorian_next y m d =
     (if d < gregorian_length y m then (y, m, d + 1) else if m < 12 then (y, m + 1, 1) else (y + 1, 1, 1))"

lemma gregorian_month:
  assumes "1 \<le> m" "m \<le> 12"
  shows "rtc_days_in_month y m = gregorian_length y m"
proof -
  have "m = 1 \<or> m = 2 \<or> m = 3 \<or> m = 4 \<or> m = 5 \<or> m = 6 \<or> m = 7 \<or> m = 8 \<or> m = 9 \<or> m = 10 \<or> m = 11 \<or> m = 12"
    using assms by presburger
  moreover have "rtc_is_leap_year y \<longleftrightarrow> 400 dvd y \<or> 4 dvd y \<and> \<not> 100 dvd y"
    unfolding rtc_is_leap_year_def dvd_eq_mod_eq_0 by (rule disj_commute)
  ultimately show ?thesis
    by (elim disjE) (simp_all only: rtc_days_in_month_def rtc_month_days_def gregorian_length_def, simp_all)
qed

lemma gregorian_valid: "valid_date y m d \<longleftrightarrow> 1850 \<le> y \<and> gregorian_date y m d"
  using gregorian_month [of m y] by (auto simp: wf_simps gregorian_date_def)

lemma gregorian_next_date: "gregorian_date y m d \<Longrightarrow> next_date (y, m, d) = gregorian_next y m d"
  using gregorian_month [of m y] by (simp add: gregorian_date_def next_date_def gregorian_next_def)

text \<open>C22: the calendar loops number the days of the Gregorian calendar. Exactly its dates from 1850 on have a
  number, 1850-01-01 has 0, and the day after a date, over month ends, leap days, century years and
  year ends, has the next number.\<close>

theorem rtc_calendar_counts_days:
  "rtc_days_since_wince_epoch 1850 1 1 = Some 0 \<and>
   (case rtc_days_since_wince_epoch y m d of
      None \<Rightarrow> \<not> (1850 \<le> y \<and> gregorian_date y m d)
    | Some n \<Rightarrow> 1850 \<le> y \<and> gregorian_date y m d \<and>
        (case gregorian_next y m d of (y', m', d') \<Rightarrow> rtc_days_since_wince_epoch y' m' d' = Some (n + 1)))"
proof -
  have z: "valid_date 1850 1 1 \<and> day_number 1850 1 1 = 0"
    by (simp add: wf_simps day_number_def days_before_year_def days_before_month_def
      rtc_days_in_month_def rtc_month_days_def)
  show ?thesis
  proof (cases "valid_date y m d")
    case True
    obtain y' m' d' where n: "next_date (y, m, d) = (y', m', d')" by (cases "next_date (y, m, d)")
    then have g: "gregorian_next y m d = (y', m', d')" using gregorian_next_date True by (simp add: gregorian_valid)
    show ?thesis
      using z True next_date_valid [OF True n] next_date_number [OF True n] gregorian_valid [of y m d]
      by (simp add: rtc_days_eq g)
  next
    case False
    then show ?thesis using z gregorian_valid [of y m d] by (auto simp: rtc_days_eq)
  qed
qed

text \<open>C23: a host date before 2122 is loaded without losing a tick: the 48-bit mask in
  \<open>rtc_init_from_ymdhms\<close> drops nothing, so the counter is exactly 32768 ticks for every second
  since 1850-01-01, and the alarm is disarmed.\<close>

theorem rtc_host_date_exact:
  assumes "rtc_days_since_wince_epoch year month day = Some days" and "year \<le> 2121"
    and "0 \<le> hour" "hour \<le> 23" "0 \<le> minute" "minute \<le> 59" "0 \<le> second" "second \<le> 60"
  shows "\<exists>s. rtc_init_from_ymdhms year month day hour minute second = Some s \<and>
    uint (etime s) = 32768 * (86400 * uint days + 3600 * hour + 60 * minute + second) \<and>
    \<not> elapsed_compare_armed s"
proof -
  have v: "valid_date year month day" and n: "days = of_int (day_number year month day)"
    using assms(1) by (auto simp: rtc_days_eq split: if_splits)
  have "uint days = day_number year month day"
    using day_number_bounds [OF v assms(2)] n
    by (simp add: uint_word_of_int take_bit_int_eq_self)
  then show ?thesis
    using rtc_ymdhms_ticks [OF v assms(2) assms(3-8)] by auto
qed

theorem rtc_host_date_exact_witness:
  "\<exists>s. rtc_init_from_ymdhms 1850 3 1 12 30 15 = Some s \<and>
    uint (etime s) = 32768 * (86400 * 59 + 45015) \<and> \<not> elapsed_compare_armed s"
proof -
  have "rtc_days_since_wince_epoch 1850 3 1 = Some 59"
    by (simp add: rtc_days_since_wince_epoch_def rtc_count_years.simps rtc_count_months.simps
      rtc_days_in_month_def rtc_month_days_def rtc_is_leap_year_def)
  from rtc_host_date_exact [OF this, of 12 30 15] show ?thesis by simp
qed

text \<open>C24: the elapsed-time compare is exact and one-shot. After any bus accesses from reset, and
  however the following ticks are batched, the interrupt has fired when the counter has reached
  the compare value and not before; the status bit is raised on that transition only, so a bit
  the guest cleared stays clear until it writes the compare register again.\<close>

theorem rtc_alarm_exact:
  assumes "s = fold rtc_step es rtc_init"
    and "unat (etime s) + sum_list (map unat ts) < 2 ^ 48"
  shows "(elapsed_compare_fired (fold rtc_tick ts s) \<longleftrightarrow> elapsed_compare_fired s \<or>
      (elapsed_compare_armed s \<and> unat (ecmp s) \<le> unat (etime s) + sum_list (map unat ts))) \<and>
    rtcint (fold rtc_tick ts s) =
      (if elapsed_compare_fired (fold rtc_tick ts s) \<and> \<not> elapsed_compare_fired s
       then rtcint s OR RTCINT_ELAPSEDTIME_INT else rtcint s)"
proof -
  have "rtc_ok s" unfolding assms(1) by (rule rtc.run_inv [OF rtc_init_ok])
  then show ?thesis using rtc_ticks(2,3) [OF _ assms(2)] by blast
qed

theorem rtc_alarm_exact_witness:
  "\<exists>s. s = fold rtc_step [Rtc_Write 0x08 2 100, Rtc_Tick 40] rtc_init \<and>
    \<not> elapsed_compare_fired (fold rtc_tick [30, 29] s) \<and>
    elapsed_compare_fired (fold rtc_tick [30, 30] s) \<and> rtcint (fold rtc_tick [30, 30] s) = 1"
proof -
  let ?s = "fold rtc_step [Rtc_Write 0x08 2 100, Rtc_Tick 40] rtc_init"
  have s: "etime ?s = 40" "ecmp ?s = 100" "elapsed_compare_armed ?s"
    "\<not> elapsed_compare_fired ?s" "rtcint ?s = 0"
    by (simp_all add: rtc_write_def rtc_tick_def rtc_init_def rtc_write_48bit_def Let_def
      rtc_rearm_elapsed_irq_def rtc_update_elapsed_irq_def rtc_48bit_mask_def)
  show ?thesis
    using rtc_alarm_exact [OF refl, of "[Rtc_Write 0x08 2 100, Rtc_Tick 40]" "[30, 29]"]
      rtc_alarm_exact [OF refl, of "[Rtc_Write 0x08 2 100, Rtc_Tick 40]" "[30, 30]"] s
    by (intro exI [of _ ?s]) simp
qed

text \<open>a counter written by its three 16-bit registers holds exactly the value written,
  whatever it held before, and reading the three registers back, while no tick intervenes,
  reassembles that value.\<close>

theorem rtc_halves_roundtrip:
  assumes "fits 48 v"
    and "s' = fold rtc_step [Rtc_Write 0x00 2 (ucast v), Rtc_Write 0x02 2 (ucast (drop_bit 16 v)),
      Rtc_Write 0x04 2 (ucast (drop_bit 32 v))] s"
  shows "etime s' = v \<and>
    (ucast (rtc_read s' 0x00 2) :: u64) OR push_bit 16 (ucast (rtc_read s' 0x02 2)) OR
      push_bit 32 (ucast (rtc_read s' 0x04 2)) = v"
proof -
  have "etime s' = v"
    by (simp add: assms(2) rtc_write_def Let_def rtc_write_halves [OF assms(1)])
  then show ?thesis using rtc_read_halves [of s'] assms(1) by simp
qed

theorem rtc_halves_roundtrip_witness:
  "\<exists>a b c. etime (fold rtc_step [Rtc_Write 0x00 2 a, Rtc_Write 0x02 2 b, Rtc_Write 0x04 2 c] rtc_init) =
     0x9ABC12345678"
proof -
  have "fits 48 (0x9ABC12345678 :: u64)" by (simp add: fits_def)
  from rtc_halves_roundtrip [OF this refl, of rtc_init] show ?thesis by blast
qed

text \<open>The reads see the live counter: \<open>etime_latched\<close>, which the header calls a stable snapshot
  across a multi-read sequence, is never read. A tick between the low and the middle read yields
  a value the counter never held.\<close>

theorem rtc_torn_read:
  "let s = fold rtc_step [Rtc_Tick 0xFFFF] rtc_init; s' = rtc_tick 1 s in
     etime s = 0xFFFF \<and> etime s' = 0x10000 \<and>
     (ucast (rtc_read s 0x00 2) :: u64) OR push_bit 16 (ucast (rtc_read s' 0x02 2)) = 0x1FFFF"
proof -
  have "etime (fold rtc_step [Rtc_Tick 0xFFFF] rtc_init) = 0xFFFF"
    by (simp add: rtc_tick_def rtc_init_def rtc_48bit_mask_def rtc_update_elapsed_irq_def)
  then show ?thesis
    by (simp add: Let_def rtc_tick_def [of 1] rtc_48bit_mask_def rtc_read_def rtc_read_etime_def)
qed

end
