(* ===== verification/Pmu.thy ===== *)
theory Pmu
  imports Prelude
begin

text \<open>
  The VR4131 power management unit, \<open>src/hw/pmu.c\<close>: reset-cause register, control registers and
  the HALTimer, the watchdog that cold-resets the CPU unless software acknowledges within its
  window. The \<open>cold_reset\<close> thunk bridges to the CPU core outside this program; a tick returns
  whether it was called. \<open>cpu_opaque\<close> is only handed back to it and is left out.
\<close>

section \<open>State\<close>

record pmu_state =
  pmuintreg :: u16
  pmucntreg :: u16
  pmutclkdivreg :: u16
  pmucnt2reg :: u16
  pmuwaitreg :: u16
  pmudivreg :: u16
  last_count_sample :: u64
  haltimer_remaining_cycles :: u64
  haltimer_arm_cycles :: u64
  haltimer_window :: u64
  dcd_high :: bool
  pending_reset_cause :: u32
  softrst_pending :: bool
  has_cold_reset :: bool \<comment> \<open>\<open>cold_reset != NULL\<close>\<close>

abbreviation (input) PMUINTREG_RSTSW :: u32 where "PMUINTREG_RSTSW \<equiv> 0x0008"
abbreviation (input) PMUINTREG_RTCRST :: u16 where "PMUINTREG_RTCRST \<equiv> 0x0010"
abbreviation (input) PMUINTREG_TIMOUTRST :: u32 where "PMUINTREG_TIMOUTRST \<equiv> 0x0020"
abbreviation (input) PMUINTREG_MEMO :: u32 where "PMUINTREG_MEMO \<equiv> 0x00C0"
abbreviation (input) PMUINTREG_DCDST :: u32 where "PMUINTREG_DCDST \<equiv> 0x0400"
abbreviation (input) PMUINTREG_RFU2 :: u32 where "PMUINTREG_RFU2 \<equiv> 0x0004"

section \<open>Operations\<close>

text \<open>\<open>pmu_init\<close> assigns every field but \<open>haltimer_window\<close>.\<close>

definition pmu_init :: "pmu_state \<Rightarrow> pmu_state" where
  "pmu_init s = s\<lparr>pmuintreg := PMUINTREG_RTCRST, dcd_high := True, pmucntreg := 0,
     pmutclkdivreg := 0, pmucnt2reg := 0, pmuwaitreg := 0, pmudivreg := 0,
     last_count_sample := 0, haltimer_remaining_cycles := 0, haltimer_arm_cycles := 0,
     pending_reset_cause := 0, softrst_pending := False, has_cold_reset := False\<rparr>"

definition pmu_arm_initial :: "u64 \<Rightarrow> u64 \<Rightarrow> bool \<Rightarrow> pmu_state \<Rightarrow> pmu_state" where
  "pmu_arm_initial initial_count arm_cycles cold_reset s =
     s\<lparr>haltimer_arm_cycles := arm_cycles, haltimer_window := arm_cycles,
       haltimer_remaining_cycles := arm_cycles, last_count_sample := initial_count,
       has_cold_reset := cold_reset\<rparr>"

definition pmu_apply_pending_reset_state :: "u64 \<Rightarrow> pmu_state \<Rightarrow> pmu_state" where
  "pmu_apply_pending_reset_state cur_count s =
     s\<lparr>pmuintreg := pmuintreg s OR ucast (pending_reset_cause s), pending_reset_cause := 0,
       haltimer_remaining_cycles := 0, last_count_sample := cur_count\<rparr>"

definition pmu_read :: "pmu_state \<Rightarrow> u32 \<Rightarrow> u32" where
  "pmu_read s offset =
     (if offset = 0x00 then
        ucast (ucast ((ucast (pmuintreg s) AND NOT (PMUINTREG_DCDST OR PMUINTREG_RFU2))
          OR (if dcd_high s then PMUINTREG_DCDST else 0)) :: u16)
      else if offset = 0x02 then ucast (pmucntreg s)
      else if offset = 0x04 then ucast (pmutclkdivreg s)
      else if offset = 0x06 then ucast (pmucnt2reg s)
      else if offset = 0x08 then ucast (pmuwaitreg s)
      else if offset = 0x0C then ucast (pmudivreg s)
      else 0)"

definition pmu_write :: "u32 \<Rightarrow> u32 \<Rightarrow> pmu_state \<Rightarrow> pmu_state" where
  "pmu_write offset val s =
     (if offset = 0x00 then
        let s = s\<lparr>pmuintreg := pmuintreg s AND
              ucast (NOT (val AND NOT (PMUINTREG_DCDST OR PMUINTREG_MEMO OR PMUINTREG_RFU2)))\<rparr>
        in s\<lparr>pmuintreg := ucast ((ucast (pmuintreg s) AND NOT PMUINTREG_MEMO) OR (val AND PMUINTREG_MEMO))\<rparr>
      else if offset = 0x02 then
        let s = s\<lparr>pmucntreg := ucast val\<rparr>
        in if val AND 0x04 \<noteq> 0
           then s\<lparr>haltimer_remaining_cycles := 0, haltimer_arm_cycles := 0\<rparr> else s
      else if offset = 0x04 then s\<lparr>pmutclkdivreg := ucast val\<rparr>
      else if offset = 0x06 then
        let s = s\<lparr>pmucnt2reg := ucast val\<rparr>
        in if val AND 0x10 \<noteq> 0
           then s\<lparr>pending_reset_cause := PMUINTREG_RSTSW, softrst_pending := True\<rparr> else s
      else if offset = 0x08 then s\<lparr>pmuwaitreg := ucast val\<rparr>
      else if offset = 0x0C then s\<lparr>pmudivreg := ucast val\<rparr>
      else s)"

text \<open>The result's first component says whether the cold-reset thunk was called.\<close>

definition pmu_tick :: "u64 \<Rightarrow> pmu_state \<Rightarrow> bool \<times> pmu_state" where
  "pmu_tick cur_count s =
     (if haltimer_remaining_cycles s = 0 then (False, s)
      else
        let delta32 = (ucast cur_count - ucast (last_count_sample s)) :: u32;
            s = s\<lparr>last_count_sample := cur_count\<rparr>
        in if (ucast delta32 :: u64) > haltimer_arm_cycles s div 2 then (False, s)
           else
             let delta = (ucast delta32 :: u64)
             in if delta \<ge> haltimer_remaining_cycles s then
                  let s = s\<lparr>haltimer_remaining_cycles := 0, pending_reset_cause := PMUINTREG_TIMOUTRST\<rparr>;
                      s = pmu_apply_pending_reset_state cur_count s
                  in (has_cold_reset s, s)
                else (False, s\<lparr>haltimer_remaining_cycles := haltimer_remaining_cycles s - delta\<rparr>))"

definition pmu_reset_switch :: "pmu_state \<Rightarrow> pmu_state" where
  "pmu_reset_switch s = s\<lparr>pending_reset_cause := PMUINTREG_RSTSW\<rparr>"

definition pmu_hibernate_wake :: "u32 \<Rightarrow> u64 \<Rightarrow> pmu_state \<Rightarrow> pmu_state" where
  "pmu_hibernate_wake cause cur_count s =
     s\<lparr>pmuintreg := pmuintreg s OR ucast cause,
       haltimer_remaining_cycles := haltimer_window s, haltimer_arm_cycles := haltimer_window s,
       last_count_sample := cur_count\<rparr>"

section \<open>The HALTimer over a run\<close>

datatype pmu_event = Pmu_Write u32 u32 | Pmu_Tick u64 | Pmu_Apply u64 | Pmu_Reset_Switch
  | Pmu_Wake u32 u64

text \<open>A run's state is the unit and the number of cold resets issued so far.\<close>

fun pmu_step :: "pmu_event \<Rightarrow> pmu_state \<times> nat \<Rightarrow> pmu_state \<times> nat" where
  "pmu_step (Pmu_Write offset val) (s, n) = (pmu_write offset val s, n)"
| "pmu_step (Pmu_Tick count) (s, n) =
     (case pmu_tick count s of (fired, s') \<Rightarrow> (s', if fired then Suc n else n))"
| "pmu_step (Pmu_Apply count) (s, n) = (pmu_apply_pending_reset_state count s, n)"
| "pmu_step Pmu_Reset_Switch (s, n) = (pmu_reset_switch s, n)"
| "pmu_step (Pmu_Wake cause count) (s, n) = (pmu_hibernate_wake cause count s, n)"

definition pmu_awake :: "pmu_event \<Rightarrow> bool" where
  "pmu_awake e \<longleftrightarrow> (case e of Pmu_Wake _ _ \<Rightarrow> False | _ \<Rightarrow> True)"

definition haltimer_off :: "nat \<Rightarrow> pmu_state \<times> nat \<Rightarrow> bool" where
  "haltimer_off n sn \<longleftrightarrow> haltimer_remaining_cycles (fst sn) = 0 \<and> snd sn = n"

lemma pmu_write_remaining:
  "haltimer_remaining_cycles s = 0 \<Longrightarrow> haltimer_remaining_cycles (pmu_write offset val s) = 0"
  by (simp add: pmu_write_def Let_def)

definition pmu_awake_step :: "pmu_event \<Rightarrow> pmu_state \<times> nat \<Rightarrow> pmu_state \<times> nat" where
  "pmu_awake_step e sn = (if pmu_awake e then pmu_step e sn else sn)"

interpretation pmu_off: device pmu_awake_step "haltimer_off n" for n
proof unfold_locales
  fix sn e assume "haltimer_off n sn"
  then show "haltimer_off n (pmu_awake_step e sn)"
    by (cases sn; cases e) (auto simp: haltimer_off_def pmu_awake_step_def pmu_awake_def
      pmu_write_remaining pmu_tick_def pmu_apply_pending_reset_state_def pmu_reset_switch_def)
qed

lemma fold_pmu_awake_step:
  "list_all pmu_awake es \<Longrightarrow> fold pmu_awake_step es sn = fold pmu_step es sn"
  by (induction es arbitrary: sn) (auto simp: pmu_awake_step_def)

text \<open>Samples of Count after each of a list of increments, as the 32-bit counter wraps.\<close>

fun count_samples :: "u64 \<Rightarrow> u32 list \<Rightarrow> u64 list" where
  "count_samples c [] = []"
| "count_samples c (d # ds) = (let c' = c + ucast d in c' # count_samples c' ds)"

definition haltimer_armed :: "u64 \<Rightarrow> u64 \<Rightarrow> pmu_state \<Rightarrow> bool" where
  "haltimer_armed w c s \<longleftrightarrow> haltimer_arm_cycles s = w \<and> last_count_sample s = c \<and> has_cold_reset s"

lemma ucast_count_delta: "(ucast (c + ucast d) - ucast c :: u32) = d" for c :: u64 and d :: u32
proof -
  have "unat (ucast (c + ucast d) :: u32) = unat (ucast c + d)"
    by (simp add: unsigned_ucast_eq take_bit_eq_mod unat_word_ariths mod_mod_cancel mod_simps)
  then have "(ucast (c + ucast d) :: u32) = ucast c + d" by (simp only: word_unat_eq_iff)
  then show ?thesis by simp
qed

lemma haltimer_tick:
  fixes d :: u32
  assumes "haltimer_armed w c s" and "haltimer_remaining_cycles s \<noteq> 0" and "unat d \<le> unat w div 2"
  shows "pmu_tick (c + ucast d) s =
    (if unat d \<ge> unat (haltimer_remaining_cycles s)
     then (True, snd (pmu_tick (c + ucast d) s))
     else (False, s\<lparr>last_count_sample := c + ucast d,
       haltimer_remaining_cycles := haltimer_remaining_cycles s - ucast d\<rparr>))"
    and "unat d \<ge> unat (haltimer_remaining_cycles s) \<Longrightarrow>
      haltimer_remaining_cycles (snd (pmu_tick (c + ucast d) s)) = 0 \<and>
      bit (pmuintreg (snd (pmu_tick (c + ucast d) s))) 5"
proof -
  have "\<not> (ucast d :: u64) > w div 2"
    using assms(3) by (simp add: word_less_nat_alt unat_div)
  moreover have "(ucast d :: u64) \<ge> haltimer_remaining_cycles s \<longleftrightarrow>
      unat d \<ge> unat (haltimer_remaining_cycles s)"
    by (simp add: word_le_nat_alt)
  ultimately show "pmu_tick (c + ucast d) s =
    (if unat d \<ge> unat (haltimer_remaining_cycles s)
     then (True, snd (pmu_tick (c + ucast d) s))
     else (False, s\<lparr>last_count_sample := c + ucast d,
       haltimer_remaining_cycles := haltimer_remaining_cycles s - ucast d\<rparr>))"
    and "unat d \<ge> unat (haltimer_remaining_cycles s) \<Longrightarrow>
      haltimer_remaining_cycles (snd (pmu_tick (c + ucast d) s)) = 0 \<and>
      bit (pmuintreg (snd (pmu_tick (c + ucast d) s))) 5"
    using assms(1,2)
    by (auto simp: pmu_tick_def haltimer_armed_def ucast_count_delta Let_def
      pmu_apply_pending_reset_state_def bit_simps)
qed

lemma haltimer_run:
  assumes "haltimer_armed w c s" and "haltimer_remaining_cycles s \<noteq> 0"
    and "\<forall>d \<in> set ds. unat d \<le> unat w div 2"
  shows "snd (fold pmu_step (map Pmu_Tick (count_samples c ds)) (s, n)) =
    n + (if unat (haltimer_remaining_cycles s) \<le> sum_list (map unat ds) then 1 else 0)"
  using assms
proof (induction ds arbitrary: c s)
  case Nil
  then show ?case by (simp add: unat_eq_zero)
next
  case (Cons d ds)
  have d: "unat d \<le> unat w div 2" using Cons.prems(3) by simp
  note t = haltimer_tick [OF Cons.prems(1,2) d]
  let ?es = "map Pmu_Tick (count_samples (c + ucast d) ds)"
  show ?case
  proof (cases "unat d \<ge> unat (haltimer_remaining_cycles s)")
    case True
    let ?s = "snd (pmu_tick (c + ucast d) s)"
    have "haltimer_off (Suc n) (?s, Suc n)" using t(2) True by (simp add: haltimer_off_def)
    then have "haltimer_off (Suc n) (fold pmu_awake_step ?es (?s, Suc n))"
      by (rule pmu_off.run_inv)
    then have "haltimer_off (Suc n) (fold pmu_step ?es (?s, Suc n))"
      by (subst (asm) fold_pmu_awake_step) (auto simp: list_all_iff pmu_awake_def)
    moreover have "fst (pmu_tick (c + ucast d) s)" using t(1) True by (metis fst_conv)
    ultimately show ?thesis using True by (simp add: Let_def split_beta haltimer_off_def)
  next
    case False
    let ?s = "s\<lparr>last_count_sample := c + ucast d,
       haltimer_remaining_cycles := haltimer_remaining_cycles s - ucast d\<rparr>"
    have le: "(ucast d :: u64) \<le> haltimer_remaining_cycles s"
      using False by (simp add: word_le_nat_alt)
    have r: "unat (haltimer_remaining_cycles ?s) = unat (haltimer_remaining_cycles s) - unat d"
      using unat_sub [OF le] by simp
    have "haltimer_remaining_cycles ?s \<noteq> 0" using r False by (metis unat_0 zero_less_diff less_irrefl not_le)
    moreover have "haltimer_armed w (c + ucast d) ?s"
      using Cons.prems(1) by (simp add: haltimer_armed_def)
    ultimately have "snd (fold pmu_step ?es (?s, n)) =
        n + (if unat (haltimer_remaining_cycles ?s) \<le> sum_list (map unat ds) then 1 else 0)"
      using Cons.prems(3) by (intro Cons.IH) auto
    moreover have "unat (haltimer_remaining_cycles ?s) \<le> sum_list (map unat ds) \<longleftrightarrow>
        unat (haltimer_remaining_cycles s) \<le> unat d + sum_list (map unat ds)"
      unfolding r using False by linarith
    ultimately show ?thesis using t(1) False by (simp add: Let_def)
  qed
qed

section \<open>Properties\<close>

text \<open>C25: the HALTimer fires exactly when its window has elapsed, and once. Armed with a window at
  any Count sample, and ticked at increments of Count no larger than half the window (the rest is
  taken for a Count write), the number of cold resets is 1 when the increments sum to the window or
  more and 0 before, across wraps of the 32-bit Count.\<close>

theorem haltimer_fires_once_at_window:
  assumes "w \<noteq> 0" and "\<forall>d \<in> set ds. unat d \<le> unat w div 2"
  shows "snd (fold pmu_step (map Pmu_Tick (count_samples c ds)) (pmu_arm_initial c w True s, 0)) =
    (if unat w \<le> sum_list (map unat ds) then 1 else 0)"
  using haltimer_run [of w c "pmu_arm_initial c w True s" ds 0] assms
  by (simp add: haltimer_armed_def pmu_arm_initial_def)

theorem haltimer_fires_once_at_window_witness:
  "\<forall>s. snd (fold pmu_step (map Pmu_Tick (count_samples 0xFFFFFFFE [4, 5]))
       (pmu_arm_initial 0xFFFFFFFE 10 True s, 0)) = 0 \<and>
     snd (fold pmu_step (map Pmu_Tick (count_samples 0xFFFFFFFE [4, 5, 1, 5]))
       (pmu_arm_initial 0xFFFFFFFE 10 True s, 0)) = 1"
  using haltimer_fires_once_at_window [of 10 "[4, 5]" "0xFFFFFFFE"]
    haltimer_fires_once_at_window [of 10 "[4, 5, 1, 5]" "0xFFFFFFFE"]
  by (simp del: fold_simps count_samples.simps)

text \<open>the acknowledge is permanent. Once software writes HALTIMERRST, no later sequence of
  register writes, Count samples, resets and reset-state updates makes the HALTimer fire; only a
  Hibernate wake arms it again.\<close>

theorem haltimer_acknowledge_permanent:
  assumes "val AND 0x04 \<noteq> 0" and "list_all pmu_awake es"
  shows "snd (fold pmu_step es (pmu_write 0x02 val s, n)) = n"
proof -
  have "haltimer_off n (pmu_write 0x02 val s, n)"
    using assms(1) by (simp add: haltimer_off_def pmu_write_def)
  then have "haltimer_off n (fold pmu_step es (pmu_write 0x02 val s, n))"
    using pmu_off.run_inv fold_pmu_awake_step [OF assms(2)] by metis
  then show ?thesis by (simp add: haltimer_off_def)
qed

theorem haltimer_acknowledge_permanent_witness:
  "\<forall>s. snd (fold pmu_step [Pmu_Tick 5, Pmu_Write 0x06 0x10, Pmu_Apply 9, Pmu_Tick 100]
     (pmu_write 0x02 0x06 s, 0)) = 0"
  using haltimer_acknowledge_permanent
    [of "0x06" "[Pmu_Tick 5, Pmu_Write 0x06 0x10, Pmu_Apply 9, Pmu_Tick 100]" _ 0]
  by (simp add: pmu_awake_def del: fold_simps)

text \<open>PMUINTREG as software sees it. After a write, a cause bit reads 1 only if it was set and
  not written 1; the memo bits 7:6 read what was written; DCDST shows the pin whatever is written;
  bit 2 reads 0. No write sets a cause bit.\<close>

theorem pmuintreg_write_then_read:
  "bit (pmu_read (pmu_write 0x00 val s) 0x00) k \<longleftrightarrow>
     (if k = 10 then dcd_high s
      else if k = 2 then False
      else if k = 6 \<or> k = 7 then bit val k
      else bit (pmuintreg s) k \<and> \<not> bit val k)"
proof (cases "k < 16")
  case True
  then have "k \<in> set [0..<16]" by simp
  then show ?thesis
    by (simp add: upt_rec pmu_read_def pmu_write_def Let_def, elim disjE)
      (simp_all add: bit_simps)
next
  case False
  then show ?thesis
    by (auto simp: pmu_read_def bit_simps dest: bit_imp_le_length)
qed

text \<open>The header promises that applying a reset re-arms the HALTimer; the code disarms it.\<close>

theorem pmu_reset_disarms:
  "haltimer_remaining_cycles (pmu_apply_pending_reset_state c s) = 0 \<and>
   fst (pmu_tick c' (pmu_apply_pending_reset_state c s)) = False"
  by (simp add: pmu_apply_pending_reset_state_def pmu_tick_def)

end
