(* ===== verification/Battery.thy ===== *)
theory Battery
  imports Prelude
begin

text \<open>
  The battery and charger model of \<open>src/hw/battery.c\<close>: charge in thousandths of a percent,
  drained or charged as emulated time advances in whole steps, and its two readings, the GPIO pins
  and the A/D voltage on Windows CE's scale.
\<close>

section \<open>State and operations\<close>

datatype battery_mode = BATTERY_AC | BATTERY_CHARGING | BATTERY_DISCHARGING

record battery_state =
  mode :: battery_mode
  milli_pct :: u32
  drain_milli_per_min :: u32
  last_ns :: u64
  started :: bool

definition battery_init :: "u32 \<Rightarrow> battery_mode \<Rightarrow> u32 \<Rightarrow> battery_state" where
  "battery_init pct m drain_pct_per_min =
     \<lparr>mode = m, milli_pct = (if pct > 100 then 100 else pct) * 1000,
      drain_milli_per_min = drain_pct_per_min * 1000, last_ns = 0, started = False\<rparr>"

definition battery_advance :: "u64 \<Rightarrow> battery_state \<Rightarrow> battery_state" where
  "battery_advance now_ns s =
     (if \<not> started s \<or> now_ns < last_ns s then s\<lparr>started := True, last_ns := now_ns\<rparr>
      else if drain_milli_per_min s = 0 \<or> mode s = BATTERY_AC then s\<lparr>last_ns := now_ns\<rparr>
      else
        let ns_per_step = 60000000000 div ucast (drain_milli_per_min s);
            delta = (now_ns - last_ns s) div ns_per_step
        in if delta = 0 then s
           else
             let s = s\<lparr>last_ns := last_ns s + delta * ns_per_step\<rparr>
             in if mode s = BATTERY_DISCHARGING then
                  s\<lparr>milli_pct := (if delta \<ge> ucast (milli_pct s) then 0
                                 else milli_pct s - ucast delta)\<rparr>
                else if delta \<ge> ucast (100000 - milli_pct s) then
                  s\<lparr>milli_pct := 100000, mode := BATTERY_AC\<rparr>
                else s\<lparr>milli_pct := milli_pct s + ucast delta\<rparr>)"

definition battery_gpio :: "battery_state \<Rightarrow> u16 \<Rightarrow> u16" where
  "battery_gpio s pins =
     (let pins = pins AND NOT (0x1000 OR 0x0004)
      in if mode s = BATTERY_DISCHARGING then pins OR 0x1000
         else if mode s = BATTERY_CHARGING then pins OR 0x0004
         else pins)"

definition battery_at :: "int list" where
  "battery_at = (let span = 0x0D96 - 0x0BF8 in
     [0x0BF8 - span * 3 div 5, 0x0BF8 - span div 10, 0x0BF8,
      0x0D96 - span * 4 div 5, 0x0D96 - span * 2 div 5, 0x0D96])"

definition battery_milli :: "int list" where
  "battery_milli = [0, 10000, 25000, 50000, 75000, 100000]"

text \<open>All operands of the divisions are non-negative, where C's rounding is \<open>div\<close>'s.\<close>

definition battery_adc :: "battery_state \<Rightarrow> u16" where
  "battery_adc s =
     (let m = sint (milli_pct s) in
      case find (\<lambda>i. m \<le> battery_milli ! i) [1..<6] of
        Some i \<Rightarrow> of_int (battery_at ! (i - 1) +
          ((battery_at ! i - battery_at ! (i - 1)) * (m - battery_milli ! (i - 1)) +
           (battery_milli ! i - battery_milli ! (i - 1)) div 2)
          div (battery_milli ! i - battery_milli ! (i - 1)))
      | None \<Rightarrow> 0x0D96)"

definition battery_pct :: "battery_state \<Rightarrow> u32" where
  "battery_pct s = milli_pct s div 1000"

definition battery_parse_mode :: "string \<Rightarrow> battery_mode option" where
  "battery_parse_mode name =
     (if name = ''ac'' then Some BATTERY_AC
      else if name = ''charging'' then Some BATTERY_CHARGING
      else if name = ''battery'' then Some BATTERY_DISCHARGING
      else None)"

section \<open>Charge over time\<close>

definition battery_ok :: "battery_state \<Rightarrow> bool" where
  [wf_simps]: "battery_ok s \<longleftrightarrow> unat (milli_pct s) \<le> 100000"

definition step_ns :: "battery_state \<Rightarrow> nat" where
  "step_ns s = 60000000000 div unat (drain_milli_per_min s)"

text \<open>What the rest of the machine observes.\<close>

definition charge :: "battery_state \<Rightarrow> battery_mode \<times> nat" where
  "charge s = (mode s, unat (milli_pct s))"

lemma step_ns_pos: "drain_milli_per_min s \<noteq> 0 \<Longrightarrow> 0 < step_ns s"
proof -
  assume "drain_milli_per_min s \<noteq> 0"
  then have "0 < unat (drain_milli_per_min s)" by (simp add: unat_gt_0)
  moreover have "unat (drain_milli_per_min s) < 2 ^ 32"
    using unat_lt2p [of "drain_milli_per_min s"] by simp
  ultimately show ?thesis by (simp add: step_ns_def div_greater_zero_iff)
qed

text \<open>The steps of a poll at \<open>now\<close>, in natural numbers.\<close>

definition steps :: "u64 \<Rightarrow> battery_state \<Rightarrow> nat" where
  "steps now s = (unat now - unat (last_ns s)) div step_ns s"

lemma steps_bound: "last_ns s \<le> now \<Longrightarrow> unat (last_ns s) + steps now s * step_ns s \<le> unat now"
proof -
  assume "last_ns s \<le> now"
  then have "unat (last_ns s) \<le> unat now" by (simp add: word_le_nat_alt)
  moreover have "steps now s * step_ns s \<le> unat now - unat (last_ns s)"
    unfolding steps_def by (rule div_times_less_eq_dividend)
  ultimately show ?thesis by linarith
qed

lemma unat_ucast_32: "unat x < 2 ^ 32 \<Longrightarrow> unat (ucast (x :: u64) :: u32) = unat x"
  by (simp add: unsigned_ucast_eq take_bit_nat_eq_self)

lemma battery_advance_eq:
  assumes st: "started s" and le: "last_ns s \<le> now" and dr: "drain_milli_per_min s \<noteq> 0"
    and md: "mode s \<noteq> BATTERY_AC" and ok: "battery_ok s"
  shows "unat (last_ns (battery_advance now s)) = unat (last_ns s) + steps now s * step_ns s"
    "charge (battery_advance now s) =
      (if steps now s = 0 then charge s
       else if mode s = BATTERY_DISCHARGING then (BATTERY_DISCHARGING, unat (milli_pct s) - steps now s)
       else if 100000 \<le> unat (milli_pct s) + steps now s then (BATTERY_AC, 100000)
       else (BATTERY_CHARGING, unat (milli_pct s) + steps now s))"
proof -
  let ?ns = "60000000000 div ucast (drain_milli_per_min s) :: u64"
  let ?delta = "(now - last_ns s) div ?ns"
  have ns: "unat ?ns = step_ns s" by (simp add: unat_div step_ns_def)
  have delta: "unat ?delta = steps now s"
    using le by (simp add: unat_div [of "now - last_ns s"] ns unat_sub steps_def)
  have zero: "?delta = 0 \<longleftrightarrow> steps now s = 0" using delta by (metis unat_eq_zero)
  have "steps now s * step_ns s < 2 ^ 64"
    using steps_bound [OF le] unat_lt2p [of now] by simp
  then have "unat (?delta * ?ns) = steps now s * step_ns s"
    by (subst unat_word_ariths(2)) (simp only: delta ns mod_less, simp)
  then have last: "unat (last_ns s + ?delta * ?ns) = unat (last_ns s) + steps now s * step_ns s"
    using steps_bound [OF le] unat_lt2p [of now] unfolding unat_word_ariths(1) by simp
  have lt: "\<not> now < last_ns s" using le by simp
  show "unat (last_ns (battery_advance now s)) = unat (last_ns s) + steps now s * step_ns s"
    using st lt dr md last zero by (auto simp: battery_advance_def Let_def)
  have pct: "unat (milli_pct s) \<le> 100000" using ok by (simp add: wf_simps)
  then have sub: "unat (100000 - milli_pct s) = 100000 - unat (milli_pct s)"
    by (simp add: unat_sub word_le_nat_alt)
  have d1: "ucast (milli_pct s) \<le> ?delta \<longleftrightarrow> unat (milli_pct s) \<le> steps now s"
    using delta by (simp add: word_le_nat_alt)
  have d2: "ucast (100000 - milli_pct s) \<le> ?delta \<longleftrightarrow> 100000 - unat (milli_pct s) \<le> steps now s"
    using delta sub by (simp add: word_le_nat_alt)
  have s1: "unat (milli_pct s - ucast ?delta) = unat (milli_pct s) - steps now s"
    if "\<not> unat (milli_pct s) \<le> steps now s"
    using that pct delta by (simp add: unat_sub word_le_nat_alt unat_ucast_32)
  have s2: "unat (milli_pct s + ucast ?delta) = unat (milli_pct s) + steps now s"
    if "\<not> 100000 - unat (milli_pct s) \<le> steps now s"
    using that pct delta by (simp add: unat_word_ariths unat_ucast_32)
  show "charge (battery_advance now s) =
      (if steps now s = 0 then charge s
       else if mode s = BATTERY_DISCHARGING then (BATTERY_DISCHARGING, unat (milli_pct s) - steps now s)
       else if 100000 \<le> unat (milli_pct s) + steps now s then (BATTERY_AC, 100000)
       else (BATTERY_CHARGING, unat (milli_pct s) + steps now s))"
    using st lt dr md zero d1 d2 s1 s2 pct
    by (cases "mode s") (auto simp: battery_advance_def Let_def charge_def)
qed

text \<open>States that polls cannot tell apart: the sample time only matters while the charge moves.\<close>

definition battery_sim :: "battery_state \<Rightarrow> battery_state \<Rightarrow> bool" where
  "battery_sim s t \<longleftrightarrow> mode s = mode t \<and> milli_pct s = milli_pct t \<and>
     drain_milli_per_min s = drain_milli_per_min t \<and> started s \<and> started t \<and> battery_ok s \<and>
     (mode s = BATTERY_AC \<or> drain_milli_per_min s = 0 \<or> last_ns s = last_ns t)"

lemma charge_eq: "charge s = charge t \<longleftrightarrow> mode s = mode t \<and> milli_pct s = milli_pct t"
  by (simp add: charge_def word_unat_eq_iff)

lemma battery_advance_frame [simp]:
  "started s \<Longrightarrow> started (battery_advance now s)"
  "drain_milli_per_min (battery_advance now s) = drain_milli_per_min s"
  by (auto simp: battery_advance_def Let_def)

lemma battery_advance_ok: "battery_ok s \<Longrightarrow> battery_ok (battery_advance now s)"
proof -
  assume ok: "battery_ok s"
  consider (moves) "started s" "last_ns s \<le> now" "drain_milli_per_min s \<noteq> 0" "mode s \<noteq> BATTERY_AC"
    | (still) "\<not> started s \<or> now < last_ns s \<or> drain_milli_per_min s = 0 \<or> mode s = BATTERY_AC"
    by fastforce
  then show ?thesis
  proof cases
    case moves
    then have "snd (charge (battery_advance now s)) \<le> 100000"
      using ok unfolding battery_advance_eq(2) [OF moves ok] by (auto simp: charge_def wf_simps)
    then show ?thesis by (simp add: charge_def wf_simps)
  next
    case still
    then have "milli_pct (battery_advance now s) = milli_pct s" by (auto simp: battery_advance_def)
    then show ?thesis using ok by (simp add: wf_simps)
  qed
qed

lemma battery_sim_advance:
  assumes "battery_sim s t" and "last_ns s \<le> now" and "last_ns t \<le> now"
  shows "battery_sim (battery_advance now s) (battery_advance now t)"
proof (cases "mode s = BATTERY_AC \<or> drain_milli_per_min s = 0")
  case True
  then show ?thesis using assms by (auto simp: battery_sim_def battery_advance_def wf_simps)
next
  case False
  then have "last_ns s = last_ns t" using assms by (auto simp: battery_sim_def)
  then have "s = t" using assms(1) by (auto simp: battery_sim_def intro!: battery_state.equality)
  then show ?thesis using assms(1)
    by (auto simp: battery_sim_def battery_advance_ok)
qed

lemma battery_last_le:
  assumes "started s" and "last_ns s \<le> now" and "battery_ok s"
  shows "last_ns (battery_advance now s) \<le> now"
proof (cases "drain_milli_per_min s = 0 \<or> mode s = BATTERY_AC")
  case True
  then show ?thesis using assms by (auto simp: battery_advance_def)
next
  case False
  then show ?thesis
    using steps_bound [OF assms(2)] battery_advance_eq(1) [OF assms(1,2) _ _ assms(3)]
    by (simp add: word_le_nat_alt)
qed

lemma div_minus_mult: "q * k \<le> x \<Longrightarrow> 0 < k \<Longrightarrow> (x - q * k) div k = x div k - (q::nat)"
proof -
  assume le: "q * k \<le> x" and pos: "0 < k"
  have "x div k = ((x - q * k) + q * k) div k" using le by simp
  also have "\<dots> = q + (x - q * k) div k" using pos by (intro div_mult_self1) simp
  finally show ?thesis by simp
qed

text \<open>A poll at \<open>t1\<close> on the way to \<open>t2\<close> is not noticed at \<open>t2\<close>.\<close>

lemma battery_advance_twice:
  assumes st: "started s" and ok: "battery_ok s" and le1: "last_ns s \<le> t1" and le2: "t1 \<le> t2"
  shows "battery_sim (battery_advance t2 (battery_advance t1 s)) (battery_advance t2 s)"
proof (cases "drain_milli_per_min s = 0 \<or> mode s = BATTERY_AC")
  case True
  then show ?thesis using assms by (auto simp: battery_sim_def battery_advance_def wf_simps)
next
  case False
  then have dr: "drain_milli_per_min s \<noteq> 0" and md: "mode s \<noteq> BATTERY_AC" by auto
  have le: "last_ns s \<le> t2" using le1 le2 by simp
  define u where "u = battery_advance t1 s"
  have ust: "started u" "battery_ok u" "last_ns u \<le> t1"
    using st ok le1 by (simp_all add: u_def battery_advance_ok battery_last_le)
  then have ule: "last_ns u \<le> t2" using le2 by simp
  have udr: "drain_milli_per_min u \<noteq> 0" "step_ns u = step_ns s"
    using dr by (simp_all add: u_def step_ns_def)
  note pos = step_ns_pos [OF dr]
  note u = battery_advance_eq [OF st le1 dr md ok, folded u_def]
  note t = battery_advance_eq [OF st le dr md ok]
  have le_n: "unat (last_ns s) \<le> unat t1" "unat t1 \<le> unat t2"
    using le1 le2 by (simp_all add: word_le_nat_alt)
  have more: "steps t1 s \<le> steps t2 s"
    using le_n unfolding steps_def by (intro div_le_mono) simp
  have split: "steps t2 u = steps t2 s - steps t1 s"
  proof -
    have "unat t2 - unat (last_ns u) = unat t2 - unat (last_ns s) - steps t1 s * step_ns s"
      using u(1) by simp
    moreover have "steps t1 s * step_ns s \<le> unat t2 - unat (last_ns s)"
      using steps_bound [OF le1] le_n by linarith
    ultimately show ?thesis
      unfolding steps_def [of t2] udr using pos by (simp only: div_minus_mult)
  qed
  have pct: "unat (milli_pct s) \<le> 100000" using ok by (simp add: wf_simps)
  have frames: "started (battery_advance t2 u)" "battery_ok (battery_advance t2 u)"
    "started (battery_advance t2 s)"
    "drain_milli_per_min (battery_advance t2 u) = drain_milli_per_min (battery_advance t2 s)"
    using ust st by (simp_all add: battery_advance_ok u_def)
  show ?thesis
  proof (cases "mode u = BATTERY_AC")
    case True
    have cu: "charge u = (BATTERY_AC, 100000)" and "100000 \<le> unat (milli_pct s) + steps t1 s"
      and "steps t1 s \<noteq> 0" and "mode s = BATTERY_CHARGING"
      using u(2) True md by (cases "mode s"; auto simp: charge_def split: if_splits)+
    then have "charge (battery_advance t2 s) = (BATTERY_AC, 100000)" using t(2) more by auto
    moreover have "charge (battery_advance t2 u) = charge u"
      using True ust by (simp add: battery_advance_def charge_def)
    ultimately have "charge (battery_advance t2 u) = charge (battery_advance t2 s)"
      "mode (battery_advance t2 u) = BATTERY_AC"
      using cu by (auto simp: charge_def)
    then show ?thesis using frames by (simp add: battery_sim_def u_def charge_eq)
  next
    case False
    note u' = battery_advance_eq [OF ust(1) ule udr(1) False ust(2)]
    have "unat (last_ns (battery_advance t2 u)) = unat (last_ns (battery_advance t2 s))"
      using u'(1) t(1) u(1) split more by (simp add: udr diff_mult_distrib)
    moreover have "charge (battery_advance t2 u) = charge (battery_advance t2 s)"
      using u'(2) t(2) u(2) split more False md pct
      by (cases "mode s") (auto simp: charge_def split: if_splits)
    ultimately show ?thesis
      using frames by (simp add: battery_sim_def u_def charge_eq word_unat_eq_iff)
  qed
qed

section \<open>Readings\<close>

lemma battery_lits:
  "battery_at = [2816, 3023, 3064, 3147, 3313, 3478]" "[Suc 0..<6] = [1, 2, 3, 4, 5]"
  by (simp_all add: battery_at_def Let_def upt_rec)

text \<open>The divider output by charge band.\<close>

definition band :: "int \<Rightarrow> int" where
  "band m = (if m \<le> 10000 then 2816 + (207 * m + 5000) div 10000
     else if m \<le> 25000 then 3023 + (41 * (m - 10000) + 7500) div 15000
     else if m \<le> 50000 then 3064 + (83 * (m - 25000) + 12500) div 25000
     else if m \<le> 75000 then 3147 + (166 * (m - 50000) + 12500) div 25000
     else 3313 + (165 * (m - 75000) + 12500) div 25000)"

lemma band_cases:
  "m \<le> 10000 \<Longrightarrow> band m = 2816 + (207 * m + 5000) div 10000"
  "10000 < m \<Longrightarrow> m \<le> 25000 \<Longrightarrow> band m = 3023 + (41 * (m - 10000) + 7500) div 15000"
  "25000 < m \<Longrightarrow> m \<le> 50000 \<Longrightarrow> band m = 3064 + (83 * (m - 25000) + 12500) div 25000"
  "50000 < m \<Longrightarrow> m \<le> 75000 \<Longrightarrow> band m = 3147 + (166 * (m - 50000) + 12500) div 25000"
  "75000 < m \<Longrightarrow> band m = 3313 + (165 * (m - 75000) + 12500) div 25000"
  by (simp_all add: band_def)

lemma line_bounds:
  fixes x :: int
  assumes "a \<le> x" and "x \<le> b" and "0 \<le> k" and "0 < d"
  shows "(k * (a - e) + h) div d \<le> (k * (x - e) + h) div d \<and>
    (k * (x - e) + h) div d \<le> (k * (b - e) + h) div d"
  using assms by (intro conjI zdiv_mono1 add_mono mult_left_mono) auto

lemma band_range:
  "0 \<le> m \<Longrightarrow> m \<le> 10000 \<Longrightarrow> 2816 \<le> band m \<and> band m \<le> 3023"
  "10000 < m \<Longrightarrow> m \<le> 25000 \<Longrightarrow> 3023 \<le> band m \<and> band m \<le> 3064"
  "25000 < m \<Longrightarrow> m \<le> 50000 \<Longrightarrow> 3064 \<le> band m \<and> band m \<le> 3147"
  "50000 < m \<Longrightarrow> m \<le> 75000 \<Longrightarrow> 3147 \<le> band m \<and> band m \<le> 3313"
  "75000 < m \<Longrightarrow> m \<le> 100000 \<Longrightarrow> 3313 \<le> band m \<and> band m \<le> 3478"
  using line_bounds [of 0 m 10000 207 10000 0 5000] line_bounds [of 10000 m 25000 41 15000 10000 7500]
    line_bounds [of 25000 m 50000 83 25000 25000 12500]
    line_bounds [of 50000 m 75000 166 25000 50000 12500]
    line_bounds [of 75000 m 100000 165 25000 75000 12500]
  by (simp_all add: band_cases)

lemma band_split:
  fixes m :: int
  obtains "m \<le> 10000" | "10000 < m" "m \<le> 25000" | "25000 < m" "m \<le> 50000"
    | "50000 < m" "m \<le> 75000" | "75000 < m"
  by linarith

lemma band_le:
  assumes "0 \<le> m"
  shows "m \<le> 10000 \<Longrightarrow> band m \<le> 3023" and "m \<le> 25000 \<Longrightarrow> band m \<le> 3064"
    and "m \<le> 50000 \<Longrightarrow> band m \<le> 3147" and "m \<le> 75000 \<Longrightarrow> band m \<le> 3313"
    and "m \<le> 100000 \<Longrightarrow> band m \<le> 3478"
  by (cases m rule: band_split; use assms band_range [of m] in force)+

lemma band_ge:
  assumes "m \<le> 100000"
  shows "0 \<le> m \<Longrightarrow> 2816 \<le> band m" and "10000 < m \<Longrightarrow> 3023 \<le> band m"
    and "25000 < m \<Longrightarrow> 3064 \<le> band m" and "50000 < m \<Longrightarrow> 3147 \<le> band m"
    and "75000 < m \<Longrightarrow> 3313 \<le> band m"
  by (cases m rule: band_split; use assms band_range [of m] in force)+

lemma band_mono:
  assumes le: "m \<le> m'" and r: "0 \<le> m" "m' \<le> 100000" shows "band m \<le> band m'"
proof -
  note edge = order_trans [OF band_le(1) [OF r(1)] band_ge(2) [OF r(2)]]
    order_trans [OF band_le(2) [OF r(1)] band_ge(3) [OF r(2)]]
    order_trans [OF band_le(3) [OF r(1)] band_ge(4) [OF r(2)]]
    order_trans [OF band_le(4) [OF r(1)] band_ge(5) [OF r(2)]]
  consider "m' \<le> 10000" | "10000 < m" "m' \<le> 25000" | "25000 < m" "m' \<le> 50000"
    | "50000 < m" "m' \<le> 75000" | "75000 < m"
    | "m \<le> 10000" "10000 < m'" | "m \<le> 25000" "25000 < m'" | "m \<le> 50000" "50000 < m'"
    | "m \<le> 75000" "75000 < m'"
    by linarith
  then show ?thesis
    by cases (simp_all add: edge, use le in \<open>simp_all add: band_cases zdiv_mono1\<close>)
qed

lemma battery_adc_band:
  assumes "battery_ok s" shows "uint (battery_adc s) = band (int (unat (milli_pct s)))"
proof -
  let ?m = "int (unat (milli_pct s))"
  have m: "0 \<le> ?m" "?m \<le> 100000" using assms unfolding wf_simps by linarith+
  have sint: "sint (milli_pct s) = ?m" using assms by (intro sint_small) (simp add: wf_simps)
  have "battery_adc s = of_int (band ?m)"
    unfolding battery_adc_def sint Let_def using m
    by (simp add: battery_lits battery_milli_def band_def)
  moreover have "uint (of_int (band ?m) :: u16) = band ?m"
    using band_ge(1) [OF m(2,1)] band_le(5) [OF m] by (simp add: uint_word_of_int_eq take_bit_int_eq_self)
  ultimately show ?thesis by simp
qed

section \<open>Properties\<close>

text \<open>C26: The emulated charge does not depend on when the machine samples the battery: after any
  increasing sequence of polls, charge and charger state are those of a single poll at the last
  time (the remainder of a step is carried in \<open>last_ns\<close>, never lost).\<close>

theorem battery_poll_schedule_independent:
  assumes "started s" and "battery_ok s" and "sorted (last_ns s # ts)" and "ts \<noteq> []"
  shows "charge (fold battery_advance ts s) = charge (battery_advance (last ts) s)"
  using assms
proof (induction ts arbitrary: s)
  case Nil
  then show ?case by simp
next
  case (Cons t ts)
  show ?case
  proof (cases "ts = []")
    case True
    then show ?thesis by simp
  next
    case False
    have t: "last_ns s \<le> t" "t \<le> last ts" using Cons.prems False by auto
    have "last_ns (battery_advance t s) \<le> t"
      using Cons.prems t by (simp add: battery_last_le)
    then have "charge (fold battery_advance ts (battery_advance t s)) =
        charge (battery_advance (last ts) (battery_advance t s))"
      using Cons.prems False by (intro Cons.IH) (auto simp: battery_advance_ok)
    also have "\<dots> = charge (battery_advance (last ts) s)"
      using battery_advance_twice [OF _ _ t] Cons.prems by (simp add: battery_sim_def charge_eq)
    finally show ?thesis using False by simp
  qed
qed

text \<open>One percent per minute drains a thousandth every 60 ms.\<close>

theorem battery_poll_schedule_independent_witness:
  "charge (fold battery_advance [100000000, 190000000]
     (battery_advance 0 (battery_init 50 BATTERY_DISCHARGING 1))) = (BATTERY_DISCHARGING, 49997)"
proof -
  let ?s = "battery_advance 0 (battery_init 50 BATTERY_DISCHARGING 1)"
  have "charge (fold battery_advance [100000000, 190000000] ?s) =
      charge (battery_advance (last [100000000, 190000000]) ?s)"
    by (rule battery_poll_schedule_independent)
      (simp_all add: battery_advance_def battery_init_def wf_simps)
  then show ?thesis by (simp add: battery_advance_def battery_init_def charge_def Let_def)
qed

text \<open>The A/D reading grows with the charge and stays between the cut-off voltage and the
  full-battery calibration point; at Windows CE's band edges it is the calibrated value.\<close>

theorem battery_adc_monotone:
  assumes "battery_ok s" and "battery_ok t" and "milli_pct s \<le> milli_pct t"
  shows "battery_adc s \<le> battery_adc t \<and> 0xB00 \<le> battery_adc s \<and> battery_adc t \<le> 0xD96"
proof -
  define ms mt where "ms = int (unat (milli_pct s))" and "mt = int (unat (milli_pct t))"
  have m: "0 \<le> ms" "ms \<le> mt" "mt \<le> 100000"
    using assms unfolding ms_def mt_def wf_simps word_le_nat_alt by linarith+
  have "uint (battery_adc s) = band ms" "uint (battery_adc t) = band mt"
    using assms by (simp_all only: battery_adc_band ms_def mt_def)
  then show ?thesis
    using band_mono [OF m(2,1,3)] band_ge(1) [of ms] band_le(5) [of mt] m
    by (simp add: word_le_def)
qed

theorem battery_adc_monotone_witness:
  "battery_adc (battery_init 10 BATTERY_AC 0) \<le> battery_adc (battery_init 25 BATTERY_AC 0) \<and>
   battery_adc (battery_init 10 BATTERY_AC 0) = 3023 \<and>
   battery_adc (battery_init 25 BATTERY_AC 0) = 0xBF8"
proof -
  have "battery_adc (battery_init 10 BATTERY_AC 0) \<le> battery_adc (battery_init 25 BATTERY_AC 0)"
    using battery_adc_monotone [of "battery_init 10 BATTERY_AC 0" "battery_init 25 BATTERY_AC 0"]
    by (simp add: battery_init_def wf_simps)
  then show ?thesis
    by (simp add: battery_adc_def battery_init_def battery_lits battery_milli_def)
qed

end
