(* ===== verification/Cmcu.thy ===== *)
theory Cmcu
  imports Prelude
begin

text \<open>
  The watchdog in the power microcontroller's window, \<open>src/hw/cmcu.c\<close>, and the clock mask unit
  \<open>src/hw/cmu.c\<close>. The guest starts the watchdog with a command pair, feeds it by rewriting
  TIMEOUT and stops it with another command pair; \<open>machine_be300.c\<close> resets the machine when a
  poll says it has expired.
\<close>

section \<open>Watchdog\<close>

record cmcu_state =
  regs :: "u32 list"
  running :: bool
  reloaded_ns :: u64

definition cmcu_init :: cmcu_state where
  "cmcu_init = \<lparr>regs = replicate 16 0, running = False, reloaded_ns = 0\<rparr>"

definition cmcu_read :: "cmcu_state \<Rightarrow> u32 \<Rightarrow> u32" where
  "cmcu_read s off =
     (let off = off AND 0x3F
      in if off = 0x34 then (if running s then 3 else 0) else regs s ! (unat off div 4))"

definition cmcu_write :: "u32 \<Rightarrow> u32 \<Rightarrow> u64 \<Rightarrow> cmcu_state \<Rightarrow> cmcu_state" where
  "cmcu_write off val now_ns s =
     (let off = off AND 0x3C;
          s = s\<lparr>regs := (regs s)[unat off div 4 := val]\<rparr>
      in if off = 0x00 then
           (if val AND 0xFF = 0x5C \<and> (regs s ! 1) AND 0xFF = 0x35 then s\<lparr>running := False\<rparr> else s)
         else if off = 0x08 then
           (if val AND 0xFF = 0x3A \<and> (regs s ! 3) AND 0xFF = 0x53
            then s\<lparr>running := True, reloaded_ns := now_ns\<rparr> else s)
         else if off = 0x14 then s\<lparr>reloaded_ns := now_ns\<rparr>
         else s)"

definition cmcu_expired :: "u64 \<Rightarrow> cmcu_state \<Rightarrow> bool \<times> cmcu_state" where
  "cmcu_expired now_ns s =
     (let seconds = ucast ((regs s ! 5) AND 0xFFFF) :: u64
      in if \<not> running s \<or> seconds = 0 \<or> now_ns - reloaded_ns s < seconds * 1000000000
         then (False, s) else (True, s\<lparr>running := False\<rparr>))"

section \<open>Clock mask\<close>

record cmu_state =
  clkmsk :: u16
  sticky_bits :: u16

definition cmu_init :: cmu_state where
  "cmu_init = \<lparr>clkmsk = 0, sticky_bits = 0\<rparr>"

definition cmu_read :: "cmu_state \<Rightarrow> u32 \<Rightarrow> nat \<Rightarrow> u32" where
  "cmu_read s off sz =
     (if off = 0x00 \<or> off = 0x02 then
        let v = ucast (clkmsk s) in if sz \<ge> 4 then push_bit 16 v OR v else v
      else 0)"

definition cmu_write :: "u32 \<Rightarrow> u32 \<Rightarrow> cmu_state \<Rightarrow> cmu_state" where
  "cmu_write off val s = (if off = 0x00 \<or> off = 0x02 then s\<lparr>clkmsk := ucast val\<rparr> else s)"

section \<open>Watchdog lemmas\<close>

text \<open>Guest stores and the polls of the run loop.\<close>

datatype cmcu_event = Cmcu_write u32 u32 u64 | Cmcu_poll u64

fun cmcu_step :: "cmcu_event \<Rightarrow> cmcu_state \<Rightarrow> cmcu_state" where
  "cmcu_step (Cmcu_write off val now) s = cmcu_write off val now s"
| "cmcu_step (Cmcu_poll now) s = snd (cmcu_expired now s)"

definition cmcu_ok :: "cmcu_state \<Rightarrow> bool" where
  [wf_simps]: "cmcu_ok s \<longleftrightarrow> length (regs s) = 16"

text \<open>A start attempt is a store to CMD with the start code; CMD has sixteen aliases.\<close>

fun starts :: "cmcu_event \<Rightarrow> bool" where
  "starts (Cmcu_write off val _) \<longleftrightarrow> off AND 0x3C = 0x08 \<and> val AND 0xFF = 0x3A"
| "starts (Cmcu_poll _) \<longleftrightarrow> False"

lemma cmcu_step_regs [simp]: "length (regs (cmcu_step e s)) = length (regs s)"
  by (cases e) (auto simp: cmcu_write_def cmcu_expired_def Let_def)

interpretation cmcu: device cmcu_step cmcu_ok
  by unfold_locales (simp add: wf_simps)

lemma cmcu_step_stays_stopped: "\<not> starts e \<Longrightarrow> \<not> running s \<Longrightarrow> \<not> running (cmcu_step e s)"
  by (cases e) (auto simp: cmcu_write_def cmcu_expired_def Let_def)

lemma cmcu_run_stays_stopped:
  "list_all (\<lambda>e. \<not> starts e) es \<Longrightarrow> \<not> running s \<Longrightarrow> \<not> running (fold cmcu_step es s)"
  by (induction es arbitrary: s) (auto dest: cmcu_step_stays_stopped)

lemma cmcu_stopped_silent: "\<not> running s \<Longrightarrow> cmcu_expired now s = (False, s)"
  by (simp add: cmcu_expired_def)

definition cmcu_timeout_ns :: "cmcu_state \<Rightarrow> nat" where
  "cmcu_timeout_ns s = unat (regs s ! 5 AND 0xFFFF) * 1000000000"

lemma cmcu_timeout_word:
  "unat (ucast (regs s ! 5 AND 0xFFFF) * 1000000000 :: u64) = cmcu_timeout_ns s"
proof -
  have "unat (regs s ! 5 AND 0xFFFF) < 2 ^ 16"
    using fits_mask [of 16 16, where 'a = 32] fits_and [of 16 "regs s ! 5" "0xFFFF"]
    by (simp add: mask_lits(5) fits_def)
  then show ?thesis by (simp add: unat_word_ariths(2) cmcu_timeout_ns_def)
qed

lemma cmcu_expired_eq:
  assumes "reloaded_ns s \<le> now"
  shows "fst (cmcu_expired now s) \<longleftrightarrow>
    running s \<and> cmcu_timeout_ns s \<noteq> 0 \<and> unat (reloaded_ns s) + cmcu_timeout_ns s \<le> unat now"
proof -
  have "now - reloaded_ns s < ucast (regs s ! 5 AND 0xFFFF) * 1000000000 \<longleftrightarrow>
      unat now < unat (reloaded_ns s) + cmcu_timeout_ns s"
    using assms by (auto simp: word_less_nat_alt cmcu_timeout_word unat_sub word_le_nat_alt)
  moreover have "(ucast (regs s ! 5 AND 0xFFFF) :: u64) = 0 \<longleftrightarrow> cmcu_timeout_ns s = 0"
    unfolding word_unat_eq_iff cmcu_timeout_ns_def by simp
  ultimately show ?thesis unfolding cmcu_expired_def Let_def by auto
qed

text \<open>The polls that report an expiry.\<close>

fun cmcu_fired :: "u64 list \<Rightarrow> cmcu_state \<Rightarrow> u64 list" where
  "cmcu_fired [] s = []"
| "cmcu_fired (t # ts) s =
     (case cmcu_expired t s of (b, s') \<Rightarrow> (if b then [t] else []) @ cmcu_fired ts s')"

lemma cmcu_fired_stopped: "\<not> running s \<Longrightarrow> cmcu_fired ts s = []"
  by (induction ts) (simp_all add: cmcu_stopped_silent)

lemma cmcu_expired_cases: "cmcu_expired t s = (False, s) \<or> cmcu_expired t s = (True, s\<lparr>running := False\<rparr>)"
  by (simp add: cmcu_expired_def Let_def)

section \<open>Properties\<close>

text \<open>C27: A guest that sends the stop pair (0x35 to ARG0, 0x5C to CMD0) has silenced the watchdog:
  whatever it stores and however the machine polls afterwards, no poll reports an expiry and STATUS
  reads 0, until it sends the start code.\<close>

theorem cmcu_stop_silences:
  assumes "cmcu_ok s" and "list_all (\<lambda>e. \<not> starts e) es"
  shows "let t = fold cmcu_step es (cmcu_write 0 0x5C t2 (cmcu_write 4 0x35 t1 s))
    in \<not> fst (cmcu_expired now t) \<and> cmcu_read t 0x34 = 0"
proof -
  let ?t = "fold cmcu_step es (cmcu_write 0 0x5C t2 (cmcu_write 4 0x35 t1 s))"
  have "\<not> running (cmcu_write 0 0x5C t2 (cmcu_write 4 0x35 t1 s))"
    using assms(1) by (simp add: cmcu_write_def wf_simps)
  then have "\<not> running ?t" using assms(2) by (rule cmcu_run_stays_stopped [rotated])
  then show ?thesis by (simp add: cmcu_stopped_silent cmcu_read_def)
qed

theorem cmcu_stop_silences_witness:
  "cmcu_read (fold cmcu_step [Cmcu_write 0x14 1 5, Cmcu_poll 9000000000]
     (cmcu_write 0 0x5C 2 (cmcu_write 4 0x35 1 cmcu_init))) 0x34 = 0"
proof -
  have "cmcu_ok cmcu_init" by (simp add: wf_simps cmcu_init_def)
  moreover have "list_all (\<lambda>e. \<not> starts e) [Cmcu_write 0x14 1 5, Cmcu_poll 9000000000]" by simp
  ultimately show ?thesis by (rule cmcu_stop_silences [unfolded Let_def, THEN conjunct2])
qed

text \<open>Polled at increasing times after its last reload, a running watchdog with a non-zero
  timeout fires at exactly the first poll that is late by the timeout or more, and only there; polls
  before that never fire, and without a late poll nothing fires.\<close>

theorem cmcu_fires_at_first_late_poll:
  assumes "running s" and "cmcu_timeout_ns s \<noteq> 0" and "sorted (reloaded_ns s # ts)"
  shows "cmcu_fired ts s =
    (case filter (\<lambda>t. unat (reloaded_ns s) + cmcu_timeout_ns s \<le> unat t) ts of
      [] \<Rightarrow> [] | t # _ \<Rightarrow> [t])"
  using assms(3)
proof (induction ts)
  case Nil
  then show ?case by simp
next
  case (Cons t ts)
  have "reloaded_ns s \<le> t" using Cons.prems by simp
  note late = cmcu_expired_eq [OF this]
  show ?case
  proof (cases "unat (reloaded_ns s) + cmcu_timeout_ns s \<le> unat t")
    case True
    then have "cmcu_expired t s = (True, s\<lparr>running := False\<rparr>)"
      using late assms(1,2) cmcu_expired_cases [of t s] by auto
    then show ?thesis using True by (simp add: cmcu_fired_stopped)
  next
    case False
    then have "cmcu_expired t s = (False, s)"
      using late cmcu_expired_cases [of t s] by auto
    then show ?thesis using False Cons by simp
  qed
qed

theorem cmcu_fires_at_first_late_poll_witness:
  "cmcu_fired [1000000001, 2000000000, 3000000000]
     \<lparr>regs = (replicate 16 0)[5 := 2], running = True, reloaded_ns = 0\<rparr> = [2000000000]"
  using cmcu_fires_at_first_late_poll
    [of "\<lparr>regs = (replicate 16 0)[5 := 2], running = True, reloaded_ns = 0\<rparr>"
        "[1000000001, 2000000000, 3000000000]"]
  by (simp add: cmcu_timeout_ns_def)

end
