(* ===== verification/Eeprom.thy ===== *)
theory Eeprom
  imports Prelude
begin

text \<open>
  The serial EEPROM on the bit-banged bus, \<open>src/hw/eeprom.c\<close>: a two-wire slave driven by clock and
  data edges. The bus master (\<open>eeprom.dll\<close> in the guest) is written out as the sequences of pin
  changes the protocol prescribes, so that the properties speak of whole transactions.
\<close>

section \<open>State and operations\<close>

datatype eeprom_phase =
  EEPROM_IDLE | EEPROM_DEVICE | EEPROM_WORD | EEPROM_WRITE | EEPROM_READ

record eeprom_state =
  mem :: "u8 list"
  scl :: bool
  sda_master :: bool
  sda_slave :: bool
  phase :: eeprom_phase
  next_phase :: eeprom_phase
  ack_slot :: bool
  mack_slot :: bool
  master_nack :: bool
  shift :: u8
  bits :: u8
  addr :: u8

definition eeprom_init :: eeprom_state where
  "eeprom_init =
     \<lparr>mem = replicate 256 0xFF, scl = True, sda_master = True, sda_slave = True,
      phase = EEPROM_IDLE, next_phase = EEPROM_IDLE, ack_slot = False, mack_slot = False,
      master_nack = False, shift = 0, bits = 0, addr = 0\<rparr>"

definition drive_bit :: "eeprom_state \<Rightarrow> eeprom_state" where
  "drive_bit s = s\<lparr>sda_slave := bit (mem s ! unat (addr s)) (7 - unat (bits s))\<rparr>"

text \<open>A device byte for another address is not acknowledged.\<close>

definition byte_received :: "eeprom_state \<Rightarrow> eeprom_state" where
  "byte_received s =
     (let ack = (\<lambda>s. s\<lparr>sda_slave := False, ack_slot := True\<rparr>) in
      case phase s of
        EEPROM_DEVICE \<Rightarrow>
          if shift s AND 0xFE \<noteq> 0xA0 then s\<lparr>phase := EEPROM_IDLE\<rparr>
          else ack (s\<lparr>next_phase := if shift s AND 1 \<noteq> 0 then EEPROM_READ else EEPROM_WORD\<rparr>)
      | EEPROM_WORD \<Rightarrow> ack (s\<lparr>addr := shift s, next_phase := EEPROM_WRITE\<rparr>)
      | EEPROM_WRITE \<Rightarrow>
          ack (s\<lparr>mem := (mem s)[unat (addr s) := shift s], addr := addr s + 1,
                 next_phase := EEPROM_WRITE\<rparr>)
      | _ \<Rightarrow> s)"

definition scl_rises :: "eeprom_state \<Rightarrow> eeprom_state" where
  "scl_rises s =
     (if phase s = EEPROM_READ then
        (if mack_slot s then s\<lparr>master_nack := sda_master s\<rparr> else s\<lparr>bits := bits s + 1\<rparr>)
      else if phase s \<noteq> EEPROM_IDLE \<and> \<not> ack_slot s \<and> bits s < 8 then
        s\<lparr>shift := push_bit 1 (shift s) OR (if sda_master s then 1 else 0), bits := bits s + 1\<rparr>
      else s)"

definition scl_falls :: "eeprom_state \<Rightarrow> eeprom_state" where
  "scl_falls s =
     (if ack_slot s then
        let s = s\<lparr>ack_slot := False, sda_slave := True, phase := next_phase s, bits := 0, shift := 0\<rparr>
        in if phase s = EEPROM_READ then drive_bit s else s
      else if phase s = EEPROM_READ then
        (if mack_slot s then
           let s = s\<lparr>mack_slot := False\<rparr>
           in if master_nack s then s\<lparr>phase := EEPROM_IDLE, sda_slave := True\<rparr>
              else drive_bit (s\<lparr>addr := addr s + 1, bits := 0\<rparr>)
         else if bits s = 8 then s\<lparr>sda_slave := True, mack_slot := True\<rparr>
         else drive_bit s)
      else if phase s \<noteq> EEPROM_IDLE \<and> bits s = 8 then byte_received s
      else s)"

definition eeprom_set_scl :: "bool \<Rightarrow> eeprom_state \<Rightarrow> eeprom_state" where
  "eeprom_set_scl level s =
     (if level = scl s then s
      else let s = s\<lparr>scl := level\<rparr> in if level then scl_rises s else scl_falls s)"

definition eeprom_set_sda :: "bool \<Rightarrow> eeprom_state \<Rightarrow> eeprom_state" where
  "eeprom_set_sda level s =
     (if level = sda_master s then s
      else
        let s = s\<lparr>sda_master := level\<rparr>
        in if \<not> scl s then s
           else s\<lparr>ack_slot := False, mack_slot := False, sda_slave := True, bits := 0, shift := 0,
                  phase := (if level then EEPROM_IDLE else EEPROM_DEVICE)\<rparr>)"

definition eeprom_sda :: "eeprom_state \<Rightarrow> bool" where
  "eeprom_sda s \<longleftrightarrow> sda_master s \<and> sda_slave s"

section \<open>The bus master\<close>

definition bus_start :: "eeprom_state \<Rightarrow> eeprom_state" where
  "bus_start s =
     eeprom_set_scl False (eeprom_set_sda False (eeprom_set_scl True (eeprom_set_sda True s)))"

definition bus_stop :: "eeprom_state \<Rightarrow> eeprom_state" where
  "bus_stop s = eeprom_set_sda True (eeprom_set_scl True (eeprom_set_sda False s))"

definition send_bit :: "bool \<Rightarrow> eeprom_state \<Rightarrow> eeprom_state" where
  "send_bit b s = eeprom_set_scl False (eeprom_set_scl True (eeprom_set_sda b s))"

definition byte_bits :: "u8 \<Rightarrow> bool list" where
  "byte_bits v = map (bit v) [7, 6, 5, 4, 3, 2, 1, 0]"

text \<open>A byte and its acknowledge clock; the first component is whether the slave pulled SDA low.\<close>

definition send_byte :: "u8 \<Rightarrow> eeprom_state \<Rightarrow> bool \<times> eeprom_state" where
  "send_byte v s =
     (let s = eeprom_set_scl True (eeprom_set_sda True (fold send_bit (byte_bits v) s))
      in (\<not> eeprom_sda s, eeprom_set_scl False s))"

fun send_bytes :: "u8 list \<Rightarrow> eeprom_state \<Rightarrow> bool \<times> eeprom_state" where
  "send_bytes [] s = (True, s)"
| "send_bytes (v # vs) s =
     (let (a, s) = send_byte v s; (b, s) = send_bytes vs s in (a \<and> b, s))"

definition recv_bit :: "eeprom_state \<Rightarrow> bool \<times> eeprom_state" where
  "recv_bit s = (let s = eeprom_set_scl True (eeprom_set_sda True s) in (eeprom_sda s, eeprom_set_scl False s))"

fun recv_bits :: "nat \<Rightarrow> eeprom_state \<Rightarrow> bool list \<times> eeprom_state" where
  "recv_bits 0 s = ([], s)"
| "recv_bits (Suc n) s =
     (let (b, s) = recv_bit s; (bs, s) = recv_bits n s in (b # bs, s))"

definition recv_byte :: "bool \<Rightarrow> eeprom_state \<Rightarrow> bool list \<times> eeprom_state" where
  "recv_byte cont s =
     (let (bs, s) = recv_bits 8 s
      in (bs, eeprom_set_scl False (eeprom_set_scl True (eeprom_set_sda (\<not> cont) s))))"

text \<open>Every byte but the last is acknowledged.\<close>

fun recv_bytes :: "nat \<Rightarrow> eeprom_state \<Rightarrow> bool list list \<times> eeprom_state" where
  "recv_bytes 0 s = ([], s)"
| "recv_bytes (Suc n) s =
     (let (v, s) = recv_byte (n \<noteq> 0) s; (vs, s) = recv_bytes n s in (v # vs, s))"

definition master_write :: "u8 \<Rightarrow> u8 list \<Rightarrow> eeprom_state \<Rightarrow> bool \<times> eeprom_state" where
  "master_write a vs s =
     (let (ok, s) = send_bytes (0xA0 # a # vs) (bus_start s) in (ok, bus_stop s))"

text \<open>A random read: the word address by a dummy write, a repeated START, then the data.\<close>

definition master_read :: "u8 \<Rightarrow> nat \<Rightarrow> eeprom_state \<Rightarrow> bool \<times> bool list list \<times> eeprom_state" where
  "master_read a n s =
     (let (ok, s) = send_bytes [0xA0, a] (bus_start s);
          (ok', s) = send_byte 0xA1 (bus_start s);
          (vs, s) = recv_bytes n s
      in (ok \<and> ok', vs, bus_stop s))"

section \<open>Receiving\<close>

text \<open>Between bytes the clock is low and the receiver is empty.\<close>

definition ready :: "eeprom_phase \<Rightarrow> eeprom_state \<Rightarrow> bool" where
  "ready p s \<longleftrightarrow> phase s = p \<and> \<not> scl s \<and> \<not> ack_slot s \<and> \<not> mack_slot s \<and> bits s = 0 \<and> shift s = 0 \<and>
     sda_slave s \<and> length (mem s) = 256"

definition shift_in :: "bool \<Rightarrow> u8 \<Rightarrow> u8" where
  "shift_in b w = push_bit 1 w OR (if b then 1 else 0)"

lemma set_sda_low [simp]: "\<not> scl s \<Longrightarrow> eeprom_set_sda b s = s\<lparr>sda_master := b\<rparr>"
  by (cases s) (auto simp: eeprom_set_sda_def)

lemma set_scl_edge:
  "\<not> scl s \<Longrightarrow> eeprom_set_scl True s = scl_rises (s\<lparr>scl := True\<rparr>)"
  "scl s \<Longrightarrow> eeprom_set_scl False s = scl_falls (s\<lparr>scl := False\<rparr>)"
  by (simp_all add: eeprom_set_scl_def)

lemma scl_low_update [simp]: "\<not> scl s \<Longrightarrow> s\<lparr>scl := False\<rparr> = s"
  by (cases s) simp

lemma send_bit_receive:
  assumes "\<not> scl s" "\<not> ack_slot s" "phase s \<in> {EEPROM_DEVICE, EEPROM_WORD, EEPROM_WRITE}"
    and "bits s < 8"
  shows "send_bit b s =
    (let t = s\<lparr>sda_master := b, shift := shift_in b (shift s), bits := bits s + 1\<rparr>
     in if bits t = 8 then byte_received t else t)"
proof -
  have "send_bit b s =
    scl_falls (s\<lparr>sda_master := b, scl := False, shift := shift_in b (shift s), bits := bits s + 1\<rparr>)"
    using assms by (auto simp: send_bit_def set_scl_edge scl_rises_def shift_in_def)
  also have "s\<lparr>sda_master := b, scl := False, shift := shift_in b (shift s), bits := bits s + 1\<rparr> =
      s\<lparr>sda_master := b, shift := shift_in b (shift s), bits := bits s + 1\<rparr>"
    using assms(1) by (cases s) simp
  finally show ?thesis using assms by (auto simp: scl_falls_def Let_def)
qed

lemma bit_shift_in: "bit (shift_in b w) k \<longleftrightarrow> k < 8 \<and> (if k = 0 then b else bit w (k - 1))"
  unfolding shift_in_def bit_or_iff bit_push_bit_iff
  by (cases k) (auto dest: bit_imp_le_length)

lemma byte_bits_shift: "fold shift_in (byte_bits v) 0 = v"
proof (rule bit_word_eqI)
  fix k assume "k < LENGTH(8)"
  then have "k < 8" by simp
  from byte_index_cases [OF this] show "bit (fold shift_in (byte_bits v) 0) k = bit v k"
    by (elim disjE; simp add: byte_bits_def bit_shift_in)
qed

lemma send_bits8:
  assumes "ready p s" and "p \<in> {EEPROM_DEVICE, EEPROM_WORD, EEPROM_WRITE}"
  shows "fold send_bit (byte_bits v) s =
    byte_received (s\<lparr>sda_master := bit v 0, shift := v, bits := 8\<rparr>)"
proof -
  have "fold send_bit (byte_bits v) s = byte_received
      (s\<lparr>sda_master := bit v 0, shift := fold shift_in (byte_bits v) 0, bits := 8\<rparr>)"
    using assms by (simp add: ready_def byte_bits_def send_bit_receive)
  then show ?thesis by (simp add: byte_bits_shift)
qed

lemmas pin_defs = set_scl_edge scl_rises_def scl_falls_def Let_def

lemma send_byte_device:
  assumes "ready EEPROM_DEVICE s"
  shows "fst (send_byte 0xA0 s)"
    and "ready EEPROM_WORD (snd (send_byte 0xA0 s))"
    and "mem (snd (send_byte 0xA0 s)) = mem s"
  using assms
  by (simp_all add: send_byte_def send_bits8 [OF assms] byte_received_def pin_defs ready_def
      eeprom_sda_def)

lemma send_byte_word:
  assumes "ready EEPROM_WORD s"
  shows "fst (send_byte a s)" and "ready EEPROM_WRITE (snd (send_byte a s))"
    and "mem (snd (send_byte a s)) = mem s" and "addr (snd (send_byte a s)) = a"
  using assms
  by (simp_all add: send_byte_def send_bits8 [OF assms] byte_received_def pin_defs ready_def
      eeprom_sda_def)

lemma send_byte_data:
  assumes "ready EEPROM_WRITE s"
  shows "fst (send_byte v s)" and "ready EEPROM_WRITE (snd (send_byte v s))"
    and "mem (snd (send_byte v s)) = (mem s)[unat (addr s) := v]"
    and "addr (snd (send_byte v s)) = addr s + 1"
  using assms
  by (simp_all add: send_byte_def send_bits8 [OF assms] byte_received_def pin_defs ready_def
      eeprom_sda_def)

text \<open>Cells written by a transfer: the address wraps at 256.\<close>

fun store_from :: "u8 \<Rightarrow> u8 list \<Rightarrow> u8 list \<Rightarrow> u8 list" where
  "store_from a [] m = m"
| "store_from a (v # vs) m = store_from (a + 1) vs (m[unat a := v])"

lemma length_store_from [simp]: "length (store_from a vs m) = length m"
  by (induction a vs m rule: store_from.induct) auto

lemma send_bytes_data:
  "ready EEPROM_WRITE s \<Longrightarrow> fst (send_bytes vs s) \<and> ready EEPROM_WRITE (snd (send_bytes vs s)) \<and>
     mem (snd (send_bytes vs s)) = store_from (addr s) vs (mem s)"
proof (induction vs arbitrary: s)
  case Nil
  then show ?case by simp
next
  case (Cons v vs)
  show ?case
    using send_byte_data [OF Cons.prems, of v]
      Cons.IH [OF send_byte_data(2) [OF Cons.prems, of v]]
    by (simp add: case_prod_unfold Let_def)
qed

text \<open>A START resynchronises the slave from any state.\<close>

lemma set_sda_mem [simp]: "mem (eeprom_set_sda b s) = mem s"
  by (simp add: eeprom_set_sda_def Let_def)

lemma set_sda_level [simp]: "sda_master (eeprom_set_sda b s) = b" "scl (eeprom_set_sda b s) = scl s"
  by (simp_all add: eeprom_set_sda_def Let_def)

lemma scl_rises_frame [simp]:
  "mem (scl_rises s) = mem s" "sda_master (scl_rises s) = sda_master s" "scl (scl_rises s) = scl s"
  by (simp_all add: scl_rises_def)

lemma set_scl_high [simp]:
  "mem (eeprom_set_scl True s) = mem s" "sda_master (eeprom_set_scl True s) = sda_master s"
  "scl (eeprom_set_scl True s)"
  by (simp_all add: eeprom_set_scl_def)

lemma start_edge:
  assumes "scl u" and "sda_master u" and "length (mem u) = 256"
  shows "ready EEPROM_DEVICE (eeprom_set_scl False (eeprom_set_sda False u))"
    and "mem (eeprom_set_scl False (eeprom_set_sda False u)) = mem u"
  using assms by (simp_all add: eeprom_set_sda_def set_scl_edge scl_falls_def ready_def)

lemma bus_start_ready:
  assumes "length (mem s) = 256"
  shows "ready EEPROM_DEVICE (bus_start s)" and "mem (bus_start s) = mem s"
  using start_edge [of "eeprom_set_scl True (eeprom_set_sda True s)"] assms
  by (simp_all add: bus_start_def)

lemma bus_stop_mem [simp]: "mem (bus_stop s) = mem s"
  by (simp add: bus_stop_def)

section \<open>Sending\<close>

text \<open>Between the bits of a read the slave drives the bit number \<open>n\<close> of the cell at \<open>addr\<close>.\<close>

definition sending :: "nat \<Rightarrow> eeprom_state \<Rightarrow> bool" where
  "sending n s \<longleftrightarrow> phase s = EEPROM_READ \<and> \<not> scl s \<and> \<not> ack_slot s \<and> \<not> mack_slot s \<and> n < 8 \<and>
     bits s = of_nat n \<and> sda_slave s = bit (mem s ! unat (addr s)) (7 - n) \<and> length (mem s) = 256"

lemma send_byte_read:
  assumes "ready EEPROM_DEVICE s"
  shows "fst (send_byte 0xA1 s)" and "sending 0 (snd (send_byte 0xA1 s))"
    and "mem (snd (send_byte 0xA1 s)) = mem s" and "addr (snd (send_byte 0xA1 s)) = addr s"
  using assms
  by (simp_all add: send_byte_def send_bits8 [OF assms] byte_received_def pin_defs ready_def
      eeprom_sda_def sending_def drive_bit_def)

lemma bus_start_addr [simp]: "addr (bus_start s) = addr s" if "phase s = EEPROM_WRITE" "bits s = 0"
  using that
  by (auto simp: bus_start_def eeprom_set_sda_def eeprom_set_scl_def scl_rises_def scl_falls_def Let_def)

lemma small_count:
  "n < 8 \<Longrightarrow> unat (of_nat n + 1 :: u8) = Suc n" "n < 8 \<Longrightarrow> (of_nat n + 1 = (8 :: u8)) = (n = 7)"
proof -
  show *: "unat (of_nat n + 1 :: u8) = Suc n" if "n < 8"
    using that by (simp add: unat_word_ariths(1) unat_of_nat)
  show "(of_nat n + 1 = (8 :: u8)) = (n = 7)" if "n < 8"
    unfolding word_unat_eq_iff * [OF that] by simp
qed

lemma recv_bit_sends:
  assumes "sending n s" and "n < 7"
  shows "fst (recv_bit s) = bit (mem s ! unat (addr s)) (7 - n)" and "sending (Suc n) (snd (recv_bit s))"
    and "mem (snd (recv_bit s)) = mem s" and "addr (snd (recv_bit s)) = addr s"
  using assms small_count [of n]
  by (simp_all add: recv_bit_def sending_def set_scl_edge scl_rises_def scl_falls_def eeprom_sda_def
      drive_bit_def Let_def add.commute)

text \<open>After the eighth bit the slave releases SDA for the master's acknowledge.\<close>

definition sent :: "eeprom_state \<Rightarrow> bool" where
  "sent s \<longleftrightarrow> phase s = EEPROM_READ \<and> \<not> scl s \<and> \<not> ack_slot s \<and> mack_slot s \<and> length (mem s) = 256"

lemma recv_bit_last:
  assumes "sending 7 s"
  shows "fst (recv_bit s) = bit (mem s ! unat (addr s)) 0" and "sent (snd (recv_bit s))"
    and "mem (snd (recv_bit s)) = mem s" and "addr (snd (recv_bit s)) = addr s"
  using assms
  by (simp_all add: recv_bit_def sending_def sent_def set_scl_edge scl_rises_def scl_falls_def
      eeprom_sda_def Let_def)

lemma recv_bits_sends:
  assumes "sending k s" and "k + n = 8"
  shows "fst (recv_bits n s) = map (\<lambda>i. bit (mem s ! unat (addr s)) (7 - i)) [k..<8] \<and>
    sent (snd (recv_bits n s)) \<and> mem (snd (recv_bits n s)) = mem s \<and>
    addr (snd (recv_bits n s)) = addr s"
  using assms
proof (induction n arbitrary: k s)
  case 0
  then show ?case by (simp add: sending_def)
next
  case (Suc n)
  show ?case
  proof (cases "k = 7")
    case True
    then show ?thesis using Suc.prems recv_bit_last [of s]
      by (simp add: case_prod_unfold Let_def upt_rec)
  next
    case False
    then have k: "k < 7" "k < 8" using Suc.prems by simp_all
    note r = recv_bit_sends [OF Suc.prems(1) k(1)]
    have "Suc k + n = 8" using Suc.prems by simp
    from Suc.IH [OF r(2) this] show ?thesis
      using r k by (simp add: case_prod_unfold Let_def upt_conv_Cons)
  qed
qed

lemma recv_byte_sends:
  assumes "sending 0 s"
  shows "fst (recv_byte cont s) = byte_bits (mem s ! unat (addr s))"
    and "mem (snd (recv_byte cont s)) = mem s"
    and "cont \<Longrightarrow> sending 0 (snd (recv_byte cont s)) \<and> addr (snd (recv_byte cont s)) = addr s + 1"
  using recv_bits_sends [OF assms, of 8]
  by (auto simp: recv_byte_def case_prod_unfold Let_def byte_bits_def upt_rec sent_def sending_def
      set_scl_edge scl_rises_def scl_falls_def drive_bit_def)

lemma recv_bytes_sends:
  "sending 0 s \<Longrightarrow> fst (recv_bytes n s) =
     map (\<lambda>i. byte_bits (mem s ! unat (addr s + of_nat i))) [0..<n] \<and> mem (snd (recv_bytes n s)) = mem s"
proof (induction n arbitrary: s)
  case 0
  then show ?case by simp
next
  case (Suc n)
  note r = recv_byte_sends [OF Suc.prems, of "n \<noteq> 0"]
  have "fst (recv_bytes n (snd (recv_byte (n \<noteq> 0) s))) =
      map (\<lambda>i. byte_bits (mem s ! unat (addr s + of_nat (Suc i)))) [0..<n] \<and>
      mem (snd (recv_bytes n (snd (recv_byte (n \<noteq> 0) s)))) = mem s"
  proof (cases "n = 0")
    case False
    then show ?thesis using r Suc.IH [of "snd (recv_byte (n \<noteq> 0) s)"]
      by (simp add: add.assoc)
  qed (use r in simp)
  then show ?case
    using r by (simp add: case_prod_unfold Let_def map_upt_Suc del: upt_Suc)
qed

section \<open>Transactions\<close>

lemma send_bytes_address:
  fixes a :: u8
  assumes "length (mem s) = 256"
  defines "t \<equiv> snd (send_bytes [0xA0, a] (bus_start s))"
  shows "fst (send_bytes [0xA0, a] (bus_start s))" and "ready EEPROM_WRITE t"
    and "addr t = a" and "mem t = mem s"
proof -
  note st = bus_start_ready [OF assms(1)]
  note dv = send_byte_device [OF st(1)]
  note wd = send_byte_word [OF dv(2), of a]
  show "fst (send_bytes [0xA0, a] (bus_start s))" "ready EEPROM_WRITE t" "addr t = a" "mem t = mem s"
    using st dv wd by (simp_all add: t_def case_prod_unfold Let_def)
qed

lemma send_bytes_append:
  "send_bytes (us @ vs) s = (let (a, s) = send_bytes us s; (b, s) = send_bytes vs s in (a \<and> b, s))"
  by (induction us arbitrary: s) (simp_all add: case_prod_unfold Let_def)

lemma master_write_stores:
  assumes "length (mem s) = 256"
  shows "fst (master_write a vs s) \<and> mem (snd (master_write a vs s)) = store_from a vs (mem s)"
  using send_bytes_address [OF assms, of a]
    send_bytes_data [OF send_bytes_address(2) [OF assms, of a], of vs]
    send_bytes_append [of "[0xA0, a]" vs "bus_start s", unfolded append_Cons append_Nil]
  by (simp add: master_write_def case_prod_unfold Let_def del: send_bytes.simps)

lemma master_read_loads:
  assumes "length (mem s) = 256"
  shows "fst (master_read a n s) \<and>
    fst (snd (master_read a n s)) = map (\<lambda>i. byte_bits (mem s ! unat (a + of_nat i))) [0..<n] \<and>
    mem (snd (snd (master_read a n s))) = mem s"
proof -
  define t where "t = snd (send_bytes [0xA0, a] (bus_start s))"
  note ad = send_bytes_address [OF assms, of a, folded t_def]
  have t: "length (mem t) = 256" "phase t = EEPROM_WRITE" "bits t = 0"
    using ad assms by (simp_all add: ready_def)
  note rd = send_byte_read [OF bus_start_ready(1) [OF t(1)]]
  have "addr (bus_start t) = a" "mem (bus_start t) = mem s"
    using ad(3,4) bus_start_addr [OF t(2,3)] bus_start_ready(2) [OF t(1)] by simp_all
  then show ?thesis
    using recv_bytes_sends [OF rd(2), of n] rd ad(1)
    by (simp add: master_read_def case_prod_unfold Let_def del: send_bytes.simps flip: t_def)
qed

lemma store_from_other:
  assumes "\<forall>i < length vs. x \<noteq> unat (a + of_nat i)"
  shows "store_from a vs m ! x = m ! x"
  using assms
proof (induction a vs m rule: store_from.induct)
  case (2 a v vs m)
  have "\<forall>i < length vs. x \<noteq> unat (a + 1 + of_nat i)"
    using 2(2) by (auto simp: add.assoc dest: spec [of _ "Suc _"])
  moreover have "x \<noteq> unat a" using 2(2) [rule_format, of 0] by simp
  ultimately show ?case using 2(1) by simp
qed simp

lemma store_from_nth:
  assumes "i < length vs" and "length vs \<le> 256" and "length m = 256"
  shows "store_from a vs m ! unat (a + of_nat i) = vs ! i"
  using assms
proof (induction a vs m arbitrary: i rule: store_from.induct)
  case (2 a v vs m)
  show ?case
  proof (cases i)
    case 0
    have "unat a \<noteq> unat (a + 1 + of_nat j)" if "j < length vs" for j
    proof
      assume "unat a = unat (a + 1 + of_nat j)"
      then have "of_nat (Suc j) = (0 :: u8)" by (simp add: word_unat_eq_iff [symmetric] add.assoc)
      then have "unat (of_nat (Suc j) :: u8) = 0" by simp
      then show False using that 2(3) by (simp add: unat_of_nat del: of_nat_Suc)
    qed
    moreover have "unat a < 256" using unat_lt2p [of a] by simp
    ultimately show ?thesis using 0 2(4) by (simp add: store_from_other)
  next
    case (Suc j)
    then show ?thesis using 2(1) [of j] 2(2-4) by (simp add: add.assoc)
  qed
qed simp

text \<open>Bus activity without a START.\<close>

inductive quiet :: "eeprom_state \<Rightarrow> eeprom_state \<Rightarrow> bool" for s where
  refl: "quiet s s"
| clock: "quiet s t \<Longrightarrow> quiet s (eeprom_set_scl b t)"
| data: "quiet s t \<Longrightarrow> \<not> (scl t \<and> sda_master t \<and> \<not> b) \<Longrightarrow> quiet s (eeprom_set_sda b t)"

definition released :: "u8 list \<Rightarrow> eeprom_state \<Rightarrow> bool" where
  "released m s \<longleftrightarrow> phase s = EEPROM_IDLE \<and> \<not> ack_slot s \<and> sda_slave s \<and> mem s = m"

lemma quiet_released: "quiet s t \<Longrightarrow> released m s \<Longrightarrow> released m t"
proof (induction rule: quiet.induct)
  case (clock t b)
  then show ?case
    by (auto simp: released_def eeprom_set_scl_def scl_rises_def scl_falls_def Let_def)
next
  case (data t b)
  then show ?case by (auto simp: released_def eeprom_set_sda_def Let_def)
qed

lemma send_byte_foreign:
  assumes "ready EEPROM_DEVICE s" and "d AND 0xFE \<noteq> 0xA0"
  shows "\<not> fst (send_byte d s)" and "released (mem s) (snd (send_byte d s))"
  using assms
  by (simp_all add: send_byte_def send_bits8 [OF assms(1)] byte_received_def pin_defs ready_def
      eeprom_sda_def released_def)

section \<open>No state is out of range\<close>

datatype eeprom_event = Scl bool | Sda bool

fun eeprom_step :: "eeprom_event \<Rightarrow> eeprom_state \<Rightarrow> eeprom_state" where
  "eeprom_step (Scl b) = eeprom_set_scl b"
| "eeprom_step (Sda b) = eeprom_set_sda b"

definition eeprom_ok :: "eeprom_state \<Rightarrow> bool" where
  [wf_simps]: "eeprom_ok s \<longleftrightarrow> length (mem s) = 256 \<and> bits s \<le> 8 \<and>
     (phase s = EEPROM_READ \<and> \<not> mack_slot s \<and> \<not> scl s \<longrightarrow> bits s < 8) \<and>
     (ack_slot s \<longrightarrow> phase s \<noteq> EEPROM_READ)"

lemma count_up: "(b :: u8) < 8 \<Longrightarrow> b + 1 \<le> 8" "(b :: u8) \<le> 8 \<Longrightarrow> b \<noteq> 8 \<Longrightarrow> b < 8"
  by unat_arith+

lemma eeprom_set_scl_ok: "eeprom_ok s \<Longrightarrow> eeprom_ok (eeprom_set_scl b s)"
  by (auto simp: wf_simps eeprom_set_scl_def scl_rises_def scl_falls_def byte_received_def drive_bit_def
      Let_def count_up split: eeprom_phase.splits)

lemma eeprom_set_sda_ok: "eeprom_ok s \<Longrightarrow> eeprom_ok (eeprom_set_sda b s)"
  by (auto simp: wf_simps eeprom_set_sda_def Let_def)

interpretation eeprom: device eeprom_step eeprom_ok
proof
  fix s e assume "eeprom_ok s"
  then show "eeprom_ok (eeprom_step e s)"
    by (cases e) (simp_all add: eeprom_set_scl_ok eeprom_set_sda_ok)
qed

lemma eeprom_init_ok: "eeprom_ok eeprom_init"
  by (simp add: wf_simps eeprom_init_def)

lemma eeprom_run_mem: "length (mem (fold eeprom_step es eeprom_init)) = 256"
  using eeprom.run_inv [OF eeprom_init_ok, of es] by (simp add: wf_simps)

section \<open>Properties\<close>

text \<open>C28: What a master writes it reads back. From any state of the bus, a page write of at most 256
  bytes at any word address is acknowledged throughout, changes exactly the addressed cells (the
  address wraps), and a later random read of the same range is acknowledged and delivers, most
  significant bit first, the bytes written, without changing the memory.\<close>

theorem eeprom_write_read_roundtrip:
  assumes "eeprom_ok s" and "length vs \<le> 256"
  shows "let (ok, t) = master_write a vs s; (ok', ws, u) = master_read a (length vs) t in
    ok \<and> ok' \<and> ws = map byte_bits vs \<and> mem u = mem t \<and>
    (\<forall>x. (\<forall>i < length vs. x \<noteq> unat (a + of_nat i)) \<longrightarrow> mem t ! x = mem s ! x)"
proof -
  have len: "length (mem s) = 256" using assms(1) by (simp add: wf_simps)
  note w = master_write_stores [OF len, of a vs]
  then have "length (mem (snd (master_write a vs s))) = 256" using len by simp
  note r = master_read_loads [OF this, of a "length vs"]
  have "map (\<lambda>i. byte_bits (store_from a vs (mem s) ! unat (a + of_nat i))) [0..<length vs] =
      map byte_bits vs"
    using store_from_nth [OF _ assms(2) len] by (auto intro!: nth_equalityI)
  then show ?thesis
    using w r by (simp add: case_prod_unfold Let_def store_from_other)
qed

theorem eeprom_write_read_roundtrip_witness:
  "fst (snd (master_read 0xFF 2 (snd (master_write 0xFF [0x5A, 0xC3] eeprom_init)))) =
     [byte_bits 0x5A, byte_bits 0xC3]"
  using eeprom_write_read_roundtrip [OF eeprom_init_ok, of "[0x5A, 0xC3]" "0xFF"]
  by (simp add: case_prod_unfold Let_def numeral_2_eq_2)

text \<open>C29: The slave answers to its own address only. After a START from any state, a device byte
  other than 0xA0 and 0xA1 is not acknowledged, and until the next START no activity on the two
  lines changes a memory cell or makes the slave hold SDA low.\<close>

theorem eeprom_ignores_other_devices:
  assumes "eeprom_ok s" and "d AND 0xFE \<noteq> 0xA0" and "quiet (snd (send_byte d (bus_start s))) t"
  shows "\<not> fst (send_byte d (bus_start s)) \<and> mem t = mem s \<and> eeprom_sda t = sda_master t"
proof -
  have len: "length (mem s) = 256" using assms(1) by (simp add: wf_simps)
  note f = send_byte_foreign [OF bus_start_ready(1) [OF len] assms(2)]
  show ?thesis
    using f(1) quiet_released [OF assms(3) f(2)] bus_start_ready(2) [OF len]
    by (simp add: released_def eeprom_sda_def)
qed

theorem eeprom_ignores_other_devices_witness:
  "mem (eeprom_set_scl False (eeprom_set_sda True (snd (send_byte 0xB0 (bus_start eeprom_init))))) =
     replicate 256 0xFF"
proof -
  let ?t = "snd (send_byte 0xB0 (bus_start eeprom_init))"
  have "quiet ?t (eeprom_set_scl False (eeprom_set_sda True ?t))"
    by (intro quiet.intros) simp
  from eeprom_ignores_other_devices [OF eeprom_init_ok _ this] show ?thesis
    by (simp add: eeprom_init_def)
qed

end
