(* ===== verification/Audio_Pcm.thy ===== *)
theory Audio_Pcm
  imports Byte_Ring "HOL-Library.Signed_Division" "HOL-Library.Monad_Syntax"
begin

text \<open>
  The host audio stream of \<open>src/audio_pcm.c\<close>: the streaming resampler, which retains one source
  frame and an integer phase across calls, and the frame ring between the emulation and the host's
  audio thread. A stereo frame is a pair of 16-bit samples; the flat \<open>int16_t\<close> arrays of the code
  are only ever addressed by whole frames.
\<close>

type_synonym s16 = "16 word"
type_synonym frame = "s16 \<times> s16"

section \<open>The resampler\<close>

record resampler =
  rate :: u32
  channels :: u8
  primed :: bool
  phase :: u64
  previous :: frame

definition audio_pcm_reset :: resampler where
  "audio_pcm_reset = \<lparr>rate = 0, channels = 0, primed = False, phase = 0, previous = (0, 0)\<rparr>"

text \<open>One output sample: signed 64-bit arithmetic, C's truncating division, and the cast.\<close>

definition weigh :: "int \<Rightarrow> s16 \<Rightarrow> s16 \<Rightarrow> s16" where
  "weigh fraction prev cur =
     of_int ((sint prev * (44100 - fraction) + sint cur * fraction) sdiv 44100)"

definition interpolate :: "u64 \<Rightarrow> frame \<Rightarrow> frame \<Rightarrow> frame" where
  "interpolate ph prev cur =
     (weigh (sint ph) (fst prev) (fst cur), weigh (sint ph) (snd prev) (snd cur))"

text \<open>
  The output buffer of 512 frames and the calls of \<open>sink\<close>, oldest first. \<open>emit\<close> appends a frame,
  \<open>full_block\<close> hands a full buffer over.
\<close>

record pcm_out =
  obuf :: "frame list"
  sunk :: "frame list list"

definition full_block :: "pcm_out \<Rightarrow> pcm_out" where
  "full_block ou = (if length (obuf ou) = 512 then \<lparr>obuf = [], sunk = sunk ou @ [obuf ou]\<rparr> else ou)"

definition emit :: "frame \<Rightarrow> pcm_out \<Rightarrow> pcm_out" where
  "emit f ou = ou\<lparr>obuf := obuf ou @ [f]\<rparr>"

text \<open>The \<open>while\<close> over the phase; not returning is \<open>None\<close>.\<close>

partial_function (option) fill_loop ::
  "u32 \<Rightarrow> frame \<Rightarrow> resampler \<Rightarrow> pcm_out \<Rightarrow> (resampler \<times> pcm_out) option" where
  "fill_loop r cur s ou =
     (if phase s \<le> 44100
      then fill_loop r cur (s\<lparr>phase := phase s + ucast r\<rparr>)
             (full_block (emit (interpolate (phase s) (previous s) cur) ou))
      else Some (s, ou))"

definition convert_frame :: "u32 \<Rightarrow> frame \<Rightarrow> resampler \<times> pcm_out \<Rightarrow> (resampler \<times> pcm_out) option" where
  "convert_frame r cur so =
     (let (s, ou) = so in
      do {
        (s, ou) \<leftarrow> (if \<not> primed s then Some (s\<lparr>phase := ucast r, primed := True\<rparr>, emit cur ou)
                   else do {
                     (s, ou) \<leftarrow> fill_loop r cur s ou;
                     Some (s\<lparr>phase := phase s - 44100\<rparr>, ou)
                   });
        Some (s\<lparr>previous := cur\<rparr>, full_block ou)
      })"

fun convert_frames :: "u32 \<Rightarrow> frame list \<Rightarrow> resampler \<times> pcm_out \<Rightarrow> (resampler \<times> pcm_out) option" where
  "convert_frames r [] so = Some so"
| "convert_frames r (f # fs) so = convert_frame r f so \<bind> convert_frames r fs"

text \<open>
  A NULL state, input or sink returns at once in the code; here they are always present. The
  result is the new state and the blocks passed to \<open>sink\<close>, in order.
\<close>

definition audio_pcm_convert ::
  "s16 list \<Rightarrow> nat \<Rightarrow> u32 \<Rightarrow> u8 \<Rightarrow> resampler \<Rightarrow> (resampler \<times> frame list list) option" where
  "audio_pcm_convert input frames rate' channels' s =
     (if frames = 0 then Some (s, [])
      else
        let rate' = (if rate' = 0 then 44100 else rate');
            channels' = (if channels' = 0 then 1 else channels')
        in if channels' > 2 then Some (s, [])
           else
             let s = (if rate s \<noteq> rate' \<or> channels s \<noteq> channels'
                      then audio_pcm_reset\<lparr>rate := rate', channels := channels'\<rparr> else s);
                 ch = unat channels';
                 fs = map (\<lambda>i. (input ! (i * ch), input ! (i * ch + ch - 1))) [0..<frames]
             in do {
                  (s, ou) \<leftarrow> convert_frames rate' fs (s, \<lparr>obuf = [], sunk = []\<rparr>);
                  Some (s, sunk ou @ (if obuf ou \<noteq> [] then [obuf ou] else []))
                })"

section \<open>The output buffer\<close>

definition out_ok :: "pcm_out \<Rightarrow> bool" where
  [wf_simps]: "out_ok ou \<longleftrightarrow> length (obuf ou) < 512 \<and> (\<forall>b \<in> set (sunk ou). length b = 512)"

definition frames_out :: "pcm_out \<Rightarrow> frame list" where
  "frames_out ou = concat (sunk ou) @ obuf ou"

lemma full_block_emit [simp]:
  "frames_out (full_block (emit f ou)) = frames_out ou @ [f]"
  "out_ok ou \<Longrightarrow> out_ok (full_block (emit f ou))"
  by (auto simp: frames_out_def full_block_def emit_def wf_simps)

lemma full_block_ok [simp]: "out_ok ou \<Longrightarrow> full_block ou = ou"
  by (simp add: full_block_def wf_simps)

section \<open>The phase loop\<close>

function samples :: "nat \<Rightarrow> nat \<Rightarrow> nat list" where
  "samples r p = (if r = 0 \<or> 44100 < p then [] else p # samples r (p + r))"
  by auto
termination by (relation "measure (\<lambda>(r, p). 44101 - p)") auto

declare samples.simps [simp del]

lemma fill_loop_samples:
  assumes "r \<noteq> 0" and "unat (phase s) \<le> 44100 + unat r" and "out_ok ou"
  shows "\<exists>ou'. fill_loop r cur s ou =
      Some (s\<lparr>phase := of_nat (unat (phase s) + length (samples (unat r) (unat (phase s))) * unat r)\<rparr>, ou') \<and>
    out_ok ou' \<and> frames_out ou' = frames_out ou @
      map (\<lambda>p. interpolate (of_nat p) (previous s) cur) (samples (unat r) (unat (phase s)))"
  using assms(2,3)
proof (induction "unat r" "unat (phase s)" arbitrary: s ou rule: samples.induct)
  case 1
  note IH = 1(1) and bound = 1(2) and ok = 1(3)
  have r: "unat r \<noteq> 0" using assms(1) by (simp add: unat_eq_zero)
  show ?case
  proof (cases "phase s \<le> 44100")
    case False
    then have "44100 < unat (phase s)" by (simp add: word_le_nat_alt)
    then have "samples (unat r) (unat (phase s)) = []" by (subst samples.simps) simp
    then show ?thesis using False ok by (subst fill_loop.simps) simp
  next
    case True
    then have le: "unat (phase s) \<le> 44100" by (simp add: word_le_nat_alt)
    let ?s = "s\<lparr>phase := phase s + ucast r\<rparr>"
    let ?ou = "full_block (emit (interpolate (phase s) (previous s) cur) ou)"
    have ph: "unat (phase ?s) = unat (phase s) + unat r"
      using le unat_lt2p [of r] by (simp add: unat_word_ariths(1))
    have rec: "samples (unat r) (unat (phase s)) =
        unat (phase s) # samples (unat r) (unat (phase s) + unat r)"
      using le r by (subst samples.simps) simp
    obtain ou' where "fill_loop r cur ?s ?ou =
        Some (?s\<lparr>phase := of_nat (unat (phase ?s) + length (samples (unat r) (unat (phase ?s))) * unat r)\<rparr>, ou')"
      "out_ok ou'" "frames_out ou' = frames_out ?ou @
        map (\<lambda>p. interpolate (of_nat p) (previous ?s) cur) (samples (unat r) (unat (phase ?s)))"
      using IH [of ?s ?ou] le r ok ph by auto
    then show ?thesis using True unfolding rec ph
      by (subst fill_loop.simps) (simp add: algebra_simps)
  qed
qed

lemma samples_eq:
  "0 < r \<Longrightarrow> samples r p = map (\<lambda>k. p + k * r) [0..<(if p \<le> 44100 then Suc ((44100 - p) div r) else 0)]"
proof (induction r p rule: samples.induct)
  case (1 r p)
  show ?case
  proof (cases "p \<le> 44100")
    case False
    then show ?thesis by (subst samples.simps) simp
  next
    case True
    have "(if p + r \<le> 44100 then Suc ((44100 - (p + r)) div r) else 0) = (44100 - p) div r"
    proof (cases "p + r \<le> 44100")
      case True
      then have "44100 - p = (44100 - (p + r)) + r" by simp
      then show ?thesis using True 1(2) by (metis div_add_self2 less_not_refl2 add.commute Suc_eq_plus1_left)
    qed (use True in simp)
    then show ?thesis using 1 True
      by (subst samples.simps) (simp add: map_upt_Suc algebra_simps del: upt_Suc)
  qed
qed

section \<open>What the stream should be\<close>

text \<open>
  Reading a stream at position \<open>q\<close>, counted in 1/44100 of a source frame from the first one, is
  linear interpolation between the two frames around it; the resampled stream reads it at every
  multiple of the source rate up to its last frame.
\<close>

definition read_at :: "frame list \<Rightarrow> nat \<Rightarrow> frame" where
  "read_at fs q =
     (if q = 0 then hd fs
      else let j = (q - 1) div 44100
           in interpolate (of_nat (q - j * 44100)) (fs ! j) (fs ! Suc j))"

definition out_count :: "nat \<Rightarrow> nat \<Rightarrow> nat" where
  "out_count r n = (if n = 0 then 0 else Suc ((n - 1) * 44100 div r))"

definition resampled :: "nat \<Rightarrow> frame list \<Rightarrow> frame list" where
  "resampled r fs = map (\<lambda>k. read_at fs (k * r)) [0..<out_count r (length fs)]"

lemma out_count_step:
  assumes "0 < r" and "0 < n" and "unat_p + (n - 1) * 44100 = out_count r n * r"
  shows "out_count r (Suc n) =
    out_count r n + (if unat_p \<le> 44100 then Suc ((44100 - unat_p) div r) else 0)"
proof (cases "unat_p \<le> 44100")
  case True
  let ?e = "out_count r n"
  have "n * 44100 = (44100 - unat_p) + ?e * r"
    using True assms(2,3) by (cases n) simp_all
  then have "n * 44100 div r = (44100 - unat_p) div r + ?e"
    using assms(1) by simp
  then show ?thesis using True by (simp add: out_count_def [of r "Suc n"])
next
  case False
  then have "n * 44100 < Suc ((n - 1) * 44100 div r) * r"
    using assms(2,3) by (cases n) (simp_all add: out_count_def)
  then have "n * 44100 div r < Suc ((n - 1) * 44100 div r)"
    by (simp add: less_mult_imp_div_less)
  moreover have "(n - 1) * 44100 div r \<le> n * 44100 div r" by (intro div_le_mono) simp
  ultimately have "n * 44100 div r = (n - 1) * 44100 div r" by linarith
  then show ?thesis using False assms(2) by (simp add: out_count_def)
qed

lemma read_at_snoc:
  assumes "q \<le> (length fs - 1) * 44100" and "fs \<noteq> []"
  shows "read_at (fs @ [f]) q = read_at fs q"
proof (cases "q = 0")
  case False
  define j where "j = (q - 1) div 44100"
  have "j < length fs - 1"
    using assms False unfolding j_def by (intro less_mult_imp_div_less) auto
  then have "j < length fs" "Suc j < length fs" by simp_all
  then show ?thesis using False
    unfolding read_at_def Let_def j_def [symmetric] by (simp add: nth_append)
qed (use assms in \<open>simp add: read_at_def\<close>)

lemma read_at_last:
  assumes "fs \<noteq> []" and "0 < p" and "p \<le> 44100"
  shows "read_at (fs @ [f]) (p + (length fs - 1) * 44100) = interpolate (of_nat p) (last fs) f"
proof -
  have "p + (length fs - 1) * 44100 - 1 = p - 1 + (length fs - 1) * 44100" using assms(2) by linarith
  then have "(p + (length fs - 1) * 44100 - 1) div 44100 = length fs - 1" using assms(2,3) by simp
  then show ?thesis using assms unfolding read_at_def Let_def
    by (simp add: nth_append last_conv_nth)
qed

text \<open>The state after a prefix of the stream.\<close>

definition position :: "nat \<Rightarrow> frame list \<Rightarrow> resampler \<Rightarrow> bool" where
  "position r fs s \<longleftrightarrow>
     (if fs = [] then \<not> primed s
      else primed s \<and> previous s = last fs \<and>
        unat (phase s) + (length fs - 1) * 44100 = out_count r (length fs) * r)"

lemma out_count_bounds:
  assumes "0 < r" and "0 < n"
  shows "(n - 1) * 44100 < out_count r n * r" and "out_count r n * r \<le> (n - 1) * 44100 + r"
proof -
  define x q where "x = (n - 1) * 44100" and "q = (n - 1) * 44100 div r"
  have "q * r + x mod r = x" "x mod r < r" using assms(1) by (simp_all add: x_def q_def)
  moreover have "out_count r n * r = q * r + r" using assms(2) by (simp add: out_count_def q_def)
  ultimately show "(n - 1) * 44100 < out_count r n * r" "out_count r n * r \<le> (n - 1) * 44100 + r"
    unfolding x_def [symmetric] by linarith+
qed

lemma resampled_snoc:
  assumes r: "0 < r" and ne: "fs \<noteq> []" and p: "p + (length fs - 1) * 44100 = out_count r (length fs) * r"
  shows "resampled r (fs @ [f]) =
    resampled r fs @ map (\<lambda>p. interpolate (of_nat p) (last fs) f) (samples r p)"
proof -
  let ?n = "length fs" and ?e = "out_count r (length fs)"
  let ?c = "if p \<le> 44100 then Suc ((44100 - p) div r) else 0"
  have len: "0 < ?n" using ne by simp
  have old: "read_at (fs @ [f]) (k * r) = read_at fs (k * r)" if "k < ?e" for k
  proof -
    have "k \<le> (?n - 1) * 44100 div r" using that len by (simp add: out_count_def)
    then have "k * r \<le> (?n - 1) * 44100 div r * r" by simp
    also have "\<dots> \<le> (?n - 1) * 44100" by (rule div_times_less_eq_dividend)
    finally show ?thesis using read_at_snoc ne by blast
  qed
  have new: "read_at (fs @ [f]) ((?e + k) * r) = interpolate (of_nat (p + k * r)) (last fs) f"
    if "k < ?c" for k
  proof -
    have "0 < p" using p out_count_bounds(1) [OF r len] by linarith
    moreover have "k * r \<le> 44100 - p"
    proof -
      have "k \<le> (44100 - p) div r" using that by (simp split: if_splits)
      then have "k * r \<le> (44100 - p) div r * r" by simp
      then show ?thesis using div_times_less_eq_dividend order_trans by blast
    qed
    moreover have "p \<le> 44100" using that by (simp split: if_splits)
    ultimately have "0 < p + k * r" "p + k * r \<le> 44100" by linarith+
    note at = read_at_last [OF ne this, of f]
    have "(?e + k) * r = p + k * r + (?n - 1) * 44100"
      unfolding add_mult_distrib p [symmetric] by linarith
    then show ?thesis by (simp only: at)
  qed
  have "resampled r (fs @ [f]) = map (\<lambda>k. read_at (fs @ [f]) (k * r)) [0..<?e + ?c]"
    using out_count_step [OF r len p] by (simp add: resampled_def)
  also have "[0..<?e + ?c] = [0..<?e] @ map (\<lambda>k. ?e + k) [0..<?c]"
    by (rule upt_shift)
  also have "map (\<lambda>k. read_at (fs @ [f]) (k * r)) \<dots> =
      map (\<lambda>k. read_at (fs @ [f]) (k * r)) [0..<?e] @
      map (\<lambda>k. read_at (fs @ [f]) ((?e + k) * r)) [0..<?c]"
    unfolding map_append map_map comp_def ..
  also have "\<dots> = resampled r fs @ map (\<lambda>k. interpolate (of_nat (p + k * r)) (last fs) f) [0..<?c]"
    using old new unfolding resampled_def by (intro arg_cong2 [where f = append] map_cong) auto
  finally show ?thesis unfolding samples_eq [OF r] map_map comp_def .
qed

section \<open>The code's loop follows the stream\<close>

text \<open>One call extends the stream: \<open>fs\<close> went before, \<open>gs\<close> are its frames.\<close>

definition extends :: "nat \<Rightarrow> frame list \<Rightarrow> frame list \<Rightarrow> resampler \<times> pcm_out \<Rightarrow> resampler \<times> pcm_out \<Rightarrow> bool" where
  "extends r fs gs so so' \<longleftrightarrow>
     position r (fs @ gs) (fst so') \<and> out_ok (snd so') \<and>
     rate (fst so') = rate (fst so) \<and> channels (fst so') = channels (fst so) \<and>
     (\<exists>new. frames_out (snd so') = frames_out (snd so) @ new \<and>
            resampled r (fs @ gs) = resampled r fs @ new)"

lemma convert_frame_step:
  assumes r: "r \<noteq> 0" and pos: "position (unat r) fs s" and ok: "out_ok ou"
  shows "\<exists>so'. convert_frame r f (s, ou) = Some so' \<and> extends (unat r) fs [f] (s, ou) so'"
proof (cases "fs = []")
  case True
  have new: "resampled (unat r) [f] = [f]" by (simp add: resampled_def out_count_def read_at_def)
  have "position (unat r) [f] (s\<lparr>phase := ucast r, primed := True, previous := f\<rparr>)"
    by (simp add: position_def out_count_def)
  then show ?thesis
    using True pos ok new
    by (simp add: convert_frame_def extends_def position_def resampled_def out_count_def)
next
  case False
  let ?R = "unat r" and ?p = "unat (phase s)" and ?n = "length fs"
  let ?ss = "samples ?R ?p"
  have R: "0 < ?R" using r by (simp add: unat_gt_0)
  have n: "0 < ?n" using False by simp
  have st: "primed s" "previous s = last fs" and p: "?p + (?n - 1) * 44100 = out_count ?R ?n * ?R"
    using pos False by (simp_all add: position_def)
  have "?p \<le> 44100 + ?R" using p out_count_bounds(2) [OF R n] by linarith
  from fill_loop_samples [OF r this ok] obtain ou' where ou':
    "fill_loop r f s ou = Some (s\<lparr>phase := of_nat (?p + length ?ss * ?R)\<rparr>, ou')" "out_ok ou'"
    "frames_out ou' = frames_out ou @ map (\<lambda>p. interpolate (of_nat p) (previous s) f) ?ss"
    by blast
  have len: "out_count ?R (Suc ?n) = out_count ?R ?n + length ?ss"
    unfolding samples_eq [OF R] using out_count_step [OF R n p] by simp
  have tot: "?p + length ?ss * ?R + (?n - 1) * 44100 = out_count ?R (Suc ?n) * ?R"
    using p by (simp add: len add_mult_distrib)
  have lo: "?n * 44100 < out_count ?R (Suc ?n) * ?R" "out_count ?R (Suc ?n) * ?R \<le> ?n * 44100 + ?R"
    using out_count_bounds [OF R, of "Suc ?n"] by simp_all
  have n1: "(?n - 1) * 44100 + 44100 = ?n * 44100" using n by (cases ?n) simp_all
  then have range: "44100 \<le> ?p + length ?ss * ?R" "?p + length ?ss * ?R \<le> 44100 + ?R"
    using tot lo by linarith+
  then have "unat (of_nat (?p + length ?ss * ?R) :: u64) = ?p + length ?ss * ?R"
    using unat_lt2p [of r] by (simp add: unat_of_nat del: of_nat_add of_nat_mult)
  then have "unat (of_nat (?p + length ?ss * ?R) - 44100 :: u64) = ?p + length ?ss * ?R - 44100"
    using range by (simp add: unat_sub word_le_nat_alt del: of_nat_add of_nat_mult)
  moreover have "?p + length ?ss * ?R - 44100 + ?n * 44100 = out_count ?R (Suc ?n) * ?R"
    using tot n1 range by linarith
  ultimately have pos': "position ?R (fs @ [f])
      (s\<lparr>phase := of_nat (?p + length ?ss * ?R) - 44100, previous := f\<rparr>)"
    using st by (simp add: position_def del: of_nat_add of_nat_mult)
  have "convert_frame r f (s, ou) =
      Some (s\<lparr>phase := of_nat (?p + length ?ss * ?R) - 44100, previous := f\<rparr>, ou')"
    using st ou' by (simp add: convert_frame_def del: of_nat_add of_nat_mult)
  moreover have "extends ?R fs [f] (s, ou)
      (s\<lparr>phase := of_nat (?p + length ?ss * ?R) - 44100, previous := f\<rparr>, ou')"
    unfolding extends_def using pos' ou' resampled_snoc [OF R False p, of f] st
    by (simp del: of_nat_add of_nat_mult)
  ultimately show ?thesis by blast
qed

lemma convert_frames_extends:
  assumes "r \<noteq> 0"
  shows "position (unat r) fs (fst so) \<Longrightarrow> out_ok (snd so) \<Longrightarrow>
    \<exists>so'. convert_frames r gs so = Some so' \<and> extends (unat r) fs gs so so'"
proof (induction gs arbitrary: fs so)
  case Nil
  then show ?case by (simp add: extends_def)
next
  case (Cons g gs)
  from convert_frame_step [OF assms Cons.prems, of g] obtain so1 where
    1: "convert_frame r g so = Some so1" "extends (unat r) fs [g] so so1" by auto
  then have "position (unat r) (fs @ [g]) (fst so1)" "out_ok (snd so1)"
    by (simp_all add: extends_def)
  from Cons.IH [OF this] obtain so' where
    2: "convert_frames r gs so1 = Some so'" "extends (unat r) (fs @ [g]) gs so1 so'" by auto
  have "extends (unat r) fs (g # gs) so so'"
    using 1(2) 2(2) unfolding extends_def by auto
  then show ?case using 1(1) 2(1) by simp
qed

section \<open>Streams of calls\<close>

definition eff_rate :: "u32 \<Rightarrow> u32" where
  "eff_rate r = (if r = 0 then 44100 else r)"

definition eff_channels :: "u8 \<Rightarrow> u8" where
  "eff_channels c = (if c = 0 then 1 else c)"

definition frames_of :: "u8 \<Rightarrow> s16 list \<times> nat \<Rightarrow> frame list" where
  "frames_of c = (\<lambda>(input, n).
     map (\<lambda>i. (input ! (i * unat c), input ! (i * unat c + unat c - 1))) [0..<n])"

definition in_stream :: "u32 \<Rightarrow> u8 \<Rightarrow> frame list \<Rightarrow> resampler \<Rightarrow> bool" where
  "in_stream r c fs s \<longleftrightarrow>
     (if rate s = r \<and> channels s = c then position (unat r) fs s else fs = [])"

lemma audio_pcm_convert_extends:
  assumes "in_stream (eff_rate r) (eff_channels c) fs s" and "eff_channels c \<le> 2"
  shows "\<exists>s' bs new. audio_pcm_convert input n r c s = Some (s', bs) \<and>
    in_stream (eff_rate r) (eff_channels c) (fs @ frames_of (eff_channels c) (input, n)) s' \<and>
    concat bs = new \<and> (\<forall>b \<in> set bs. b \<noteq> [] \<and> length b \<le> 512) \<and>
    resampled (unat (eff_rate r)) (fs @ frames_of (eff_channels c) (input, n)) =
      resampled (unat (eff_rate r)) fs @ new"
proof (cases "n = 0")
  case True
  then show ?thesis using assms by (auto simp: audio_pcm_convert_def frames_of_def)
next
  case False
  let ?r = "eff_rate r" and ?c = "eff_channels c"
  let ?fs = "frames_of ?c (input, n)"
  let ?s = "if rate s \<noteq> ?r \<or> channels s \<noteq> ?c
    then audio_pcm_reset\<lparr>rate := ?r, channels := ?c\<rparr> else s"
  have r: "?r \<noteq> 0" by (simp add: eff_rate_def)
  have "position (unat ?r) fs ?s" "rate ?s = ?r" "channels ?s = ?c"
    using assms(1) by (auto simp: in_stream_def position_def audio_pcm_reset_def split: if_splits)
  with convert_frames_extends [OF r, of fs "(?s, \<lparr>obuf = [], sunk = []\<rparr>)" ?fs]
  obtain s' ou where so: "convert_frames ?r ?fs (?s, \<lparr>obuf = [], sunk = []\<rparr>) = Some (s', ou)"
    and ex: "extends (unat ?r) fs ?fs (?s, \<lparr>obuf = [], sunk = []\<rparr>) (s', ou)"
    by (auto simp: wf_simps)
  have "audio_pcm_convert input n r c s =
      Some (s', sunk ou @ (if obuf ou \<noteq> [] then [obuf ou] else []))"
    using False leD [OF assms(2)] so
    by (simp add: audio_pcm_convert_def Let_def frames_of_def
        flip: eff_rate_def eff_channels_def cong: if_cong)
  moreover have "concat (sunk ou @ (if obuf ou \<noteq> [] then [obuf ou] else [])) = frames_out ou"
    by (simp add: frames_out_def)
  moreover have "\<forall>b \<in> set (sunk ou @ (if obuf ou \<noteq> [] then [obuf ou] else [])). b \<noteq> [] \<and> length b \<le> 512"
    using ex by (auto simp: extends_def wf_simps)
  moreover have "in_stream ?r ?c (fs @ ?fs) s'"
    using ex \<open>rate ?s = ?r\<close> \<open>channels ?s = ?c\<close> by (simp add: extends_def in_stream_def)
  moreover have "resampled (unat ?r) (fs @ ?fs) = resampled (unat ?r) fs @ frames_out ou"
    using ex by (simp add: extends_def frames_out_def)
  ultimately show ?thesis by blast
qed

text \<open>A stream delivered in any number of calls.\<close>

fun audio_play ::
  "u32 \<Rightarrow> u8 \<Rightarrow> (s16 list \<times> nat) list \<Rightarrow> resampler \<Rightarrow> (resampler \<times> frame list list) option" where
  "audio_play r c [] s = Some (s, [])"
| "audio_play r c (ch # chs) s =
     do {
       (s, bs) \<leftarrow> audio_pcm_convert (fst ch) (snd ch) r c s;
       (s, bs') \<leftarrow> audio_play r c chs s;
       Some (s, bs @ bs')
     }"

lemma audio_play_extends:
  assumes "eff_channels c \<le> 2"
  shows "in_stream (eff_rate r) (eff_channels c) fs s \<Longrightarrow> \<exists>s' bs. audio_play r c chs s = Some (s', bs) \<and>
    (\<forall>b \<in> set bs. b \<noteq> [] \<and> length b \<le> 512) \<and>
    resampled (unat (eff_rate r)) (fs @ concat (map (frames_of (eff_channels c)) chs)) =
      resampled (unat (eff_rate r)) fs @ concat bs"
proof (induction chs arbitrary: fs s)
  case Nil
  then show ?case by simp
next
  case (Cons ch chs)
  obtain input n where ch: "ch = (input, n)" by (cases ch)
  from audio_pcm_convert_extends [OF Cons.prems assms, of input n] obtain s1 bs1 where
    1: "audio_pcm_convert input n r c s = Some (s1, bs1)"
      "in_stream (eff_rate r) (eff_channels c) (fs @ frames_of (eff_channels c) (input, n)) s1"
      "\<forall>b \<in> set bs1. b \<noteq> [] \<and> length b \<le> 512"
      "resampled (unat (eff_rate r)) (fs @ frames_of (eff_channels c) (input, n)) =
        resampled (unat (eff_rate r)) fs @ concat bs1"
    by blast
  from Cons.IH [OF 1(2)] obtain s2 bs2 where
    2: "audio_play r c chs s1 = Some (s2, bs2)" "\<forall>b \<in> set bs2. b \<noteq> [] \<and> length b \<le> 512"
      "resampled (unat (eff_rate r)) ((fs @ frames_of (eff_channels c) (input, n)) @
          concat (map (frames_of (eff_channels c)) chs)) =
        resampled (unat (eff_rate r)) (fs @ frames_of (eff_channels c) (input, n)) @ concat bs2"
    by blast
  then show ?case using 1 ch by auto
qed

section \<open>The frame ring\<close>

record pcm_ring =
  pcm :: "frame list"
  head :: nat
  frames :: nat

definition audio_pcm_ring_clear :: "pcm_ring \<Rightarrow> pcm_ring" where
  "audio_pcm_ring_clear r = r\<lparr>head := 0, frames := 0\<rparr>"

text \<open>\<open>memcpy\<close> to offset \<open>at\<close>.\<close>

definition blit :: "nat \<Rightarrow> 'a list \<Rightarrow> 'a list \<Rightarrow> 'a list" where
  "blit at xs b = take at b @ xs @ drop (at + length xs) b"

definition audio_pcm_ring_put :: "frame list \<Rightarrow> pcm_ring \<Rightarrow> pcm_ring" where
  "audio_pcm_ring_put xs r =
     (if xs = [] then r
      else
        let xs = (if length xs > 22050 then drop (length xs - 22050) xs else xs);
            first = (if 22050 - head r > length xs then length xs else 22050 - head r);
            r = r\<lparr>pcm := blit (head r) (take first xs) (pcm r)\<rparr>;
            r = r\<lparr>pcm := blit 0 (drop first xs) (pcm r)\<rparr>;
            r = r\<lparr>head := (head r + length xs) mod 22050\<rparr>;
            r = r\<lparr>frames := frames r + length xs\<rparr>
        in if frames r > 22050 then r\<lparr>frames := 22050\<rparr> else r)"

definition audio_pcm_ring_drain :: "nat \<Rightarrow> pcm_ring \<Rightarrow> frame list \<times> pcm_ring" where
  "audio_pcm_ring_drain max_frames r =
     (let n = (if frames r < max_frames then frames r else max_frames);
          tail = (head r + 22050 - frames r) mod 22050;
          first = (if 22050 - tail > n then n else 22050 - tail)
      in (take first (drop tail (pcm r)) @ take (n - first) (pcm r), r\<lparr>frames := frames r - n\<rparr>))"

definition ring_ok :: "pcm_ring \<Rightarrow> bool" where
  [wf_simps]: "ring_ok r \<longleftrightarrow> length (pcm r) = 22050 \<and> head r < 22050 \<and> frames r \<le> 22050"

definition ring_items :: "pcm_ring \<Rightarrow> frame list" where
  "ring_items r = ring_list (pcm r) (head r + 22050 - frames r) (frames r)"

lemma nth_blit:
  "at + length xs \<le> length b \<Longrightarrow> i < length b \<Longrightarrow>
     blit at xs b ! i = (if at \<le> i \<and> i < at + length xs then xs ! (i - at) else b ! i)"
  by (auto simp: blit_def nth_append)

lemma length_blit [simp]: "at + length xs \<le> length b \<Longrightarrow> length (blit at xs b) = length b"
  by (simp add: blit_def)

text \<open>Two copies, to the end of the buffer and from its start, write cyclically.\<close>

lemma blit_wrap:
  fixes b xs :: "'a list" and h :: nat
  assumes "h < length b" and "length xs \<le> length b"
  defines "k \<equiv> min (length xs) (length b - h)"
  defines "b' \<equiv> blit 0 (drop k xs) (blit h (take k xs) b)"
  shows "length b' = length b"
    and "i < length b \<Longrightarrow> b' ! ((h + i) mod length b) =
      (if i < length xs then xs ! i else b ! ((h + i) mod length b))"
proof -
  have k: "h + length (take k xs) \<le> length b" "length (drop k xs) \<le> h"
    using assms(1,2) by (auto simp: k_def)
  then have k': "length (drop k xs) \<le> length b" using assms(1) by linarith
  show "length b' = length b" using k k' by (simp add: b'_def)
  assume i: "i < length b"
  show "b' ! ((h + i) mod length b) = (if i < length xs then xs ! i else b ! ((h + i) mod length b))"
  proof (cases "h + i < length b")
    case True
    then show ?thesis using k k' i assms(1,2)
      by (auto simp: b'_def nth_blit k_def min_def split: if_splits)
  next
    case False
    then have "(h + i) mod length b = h + i - length b" using assms(1) i
      by (simp add: mod_if)
    then show ?thesis using False k k' i assms(1,2)
      by (auto simp: b'_def nth_blit k_def min_def split: if_splits)
  qed
qed

lemma ring_list_blit:
  fixes b b' xs :: "'a list"
  assumes N: "length b' = length b" and n: "n \<le> length b" and k: "length xs \<le> length b"
    and w: "\<And>i. i < length b \<Longrightarrow> b' ! ((h + i) mod length b) =
      (if i < length xs then xs ! i else b ! ((h + i) mod length b))"
  defines "n' \<equiv> min (length b) (n + length xs)"
  shows "ring_list b' ((h + length xs) mod length b + length b - n') n' =
    lastn (length b) (ring_list b (h + length b - n) n @ xs)"
proof (rule nth_equalityI)
  show "length (ring_list b' ((h + length xs) mod length b + length b - n') n') =
      length (lastn (length b) (ring_list b (h + length b - n) n @ xs))"
    by (simp add: n'_def)
next
  fix i assume "i < length (ring_list b' ((h + length xs) mod length b + length b - n') n')"
  then have i: "i < n'" by simp
  let ?N = "length b" and ?k = "length xs"
  have n': "n' \<le> ?N" "n' \<le> n + ?k" "?k \<le> n'" using k by (auto simp: n'_def)
  have N0: "0 < ?N" using i n' by linarith
  define j where "j = ?k + i + ?N - n'"
  have "(h + ?k) mod ?N + ?N - n' + i = (h + ?k) mod ?N + (?N - n' + i)" using n' by linarith
  then have "((h + ?k) mod ?N + ?N - n' + i) mod ?N = ((h + ?k) mod ?N + (?N - n' + i)) mod ?N"
    by (rule arg_cong)
  also have "\<dots> = (h + j) mod ?N"
  proof -
    have "h + ?k + (?N - n' + i) = h + j" using n' unfolding j_def by linarith
    then show ?thesis unfolding mod_add_left_eq by (rule arg_cong)
  qed
  finally have lhs: "ring_list b' ((h + ?k) mod ?N + ?N - n') n' ! i = b' ! ((h + j) mod ?N)"
    using i by (simp add: ring_list_def N)
  have "n + ?k - ?N = n + ?k - n'" unfolding n'_def by linarith
  then have "lastn ?N (ring_list b (h + ?N - n) n @ xs) = drop (n + ?k - n') (ring_list b (h + ?N - n) n @ xs)"
    by (simp only: lastn_def length_append length_ring_list)
  then have rhs: "lastn ?N (ring_list b (h + ?N - n) n @ xs) ! i =
      (ring_list b (h + ?N - n) n @ xs) ! (n + ?k - n' + i)"
    using i n' nth_drop [of "n + ?k - n'" "ring_list b (h + ?N - n) n @ xs" i]
    by (simp del: drop_append)
  show "ring_list b' ((h + ?k) mod ?N + ?N - n') n' ! i =
      lastn ?N (ring_list b (h + ?N - n) n @ xs) ! i"
  proof (cases "?k + i < n'")
    case True
    then have "j < ?N" "\<not> j < ?k" using n' by (auto simp: j_def)
    moreover have "n + ?k - n' + i < n" using True n' by linarith
    moreover from this have "(ring_list b (h + ?N - n) n) ! (n + ?k - n' + i) = b ! ((h + j) mod ?N)"
    proof -
      have "h + ?N - n + (n + ?k - n' + i) = h + j" using n n' by (simp add: j_def)
      then show ?thesis using \<open>n + ?k - n' + i < n\<close> by (simp add: ring_list_def)
    qed
    ultimately show ?thesis unfolding lhs rhs by (simp add: w nth_append)
  next
    case False
    then have j: "j = (?k + i - n') + ?N" using n' by (simp add: j_def)
    have "?k + i - n' < ?k" using i n' False by linarith
    moreover have "(h + j) mod ?N = (h + (?k + i - n')) mod ?N"
      unfolding j using mod_add_self2 [of "h + (?k + i - n')" ?N] by (simp only: add.assoc)
    moreover have "n + ?k - n' + i = n + (?k + i - n')" using False n' by linarith
    ultimately show ?thesis unfolding lhs rhs using k by (simp add: w nth_append)
  qed
qed

lemma ring_put_items:
  assumes "ring_ok r"
  shows "ring_ok (audio_pcm_ring_put xs r)"
    and "ring_items (audio_pcm_ring_put xs r) = lastn 22050 (ring_items r @ xs)"
proof -
  define ys where "ys = lastn 22050 xs"
  have ys: "length ys \<le> 22050" "length ys = min 22050 (length xs)" by (simp_all add: ys_def)
  have r: "length (pcm r) = 22050" "head r < 22050" "frames r \<le> 22050"
    using assms by (simp_all add: wf_simps)
  define b' where "b' = blit 0 (drop (min (length ys) (22050 - head r)) ys)
    (blit (head r) (take (min (length ys) (22050 - head r)) ys) (pcm r))"
  have put: "audio_pcm_ring_put xs r = r\<lparr>pcm := b', head := (head r + length ys) mod 22050,
      frames := min 22050 (frames r + length ys)\<rparr>" if "xs \<noteq> []"
    using that ys by (auto simp: audio_pcm_ring_put_def b'_def ys_def lastn_def Let_def min_def)
  note wrap = blit_wrap [of "head r" "pcm r" ys, unfolded r(1), folded b'_def, OF r(2) ys(1)]
  have ok: "ring_ok (audio_pcm_ring_put xs r)" if "xs \<noteq> []"
    using put [OF that] wrap(1) by (simp add: wf_simps)
  have "ring_list b' ((head r + length ys) mod 22050 + 22050 - min 22050 (frames r + length ys))
        (min 22050 (frames r + length ys)) = lastn 22050 (ring_items r @ ys)"
    using ring_list_blit [of b' "pcm r" "frames r" ys "head r"] wrap r ys
    by (simp add: ring_items_def)
  moreover have "lastn 22050 (ring_items r @ ys) = lastn 22050 (ring_items r @ xs)"
  proof (cases "length xs \<le> 22050")
    case False
    then have "lastn 22050 (ring_items r @ ys) = ys" "lastn 22050 (ring_items r @ xs) = ys"
      by (simp_all add: ys_def lastn_def)
    then show ?thesis by simp
  qed (simp add: ys_def)
  ultimately have items: "ring_items (audio_pcm_ring_put xs r) = lastn 22050 (ring_items r @ xs)"
    if "xs \<noteq> []"
    using put [OF that] by (simp add: ring_items_def)
  have "length (ring_items r) \<le> 22050" using r by (simp add: ring_items_def)
  then have nil: "audio_pcm_ring_put [] r = r" "lastn 22050 (ring_items r @ []) = ring_items r"
    by (simp_all only: audio_pcm_ring_put_def if_True append_Nil2 lastn_all refl)
  show "ring_ok (audio_pcm_ring_put xs r)"
    using ok nil(1) assms by (cases "xs = []") metis+
  show "ring_items (audio_pcm_ring_put xs r) = lastn 22050 (ring_items r @ xs)"
    using items nil by (cases "xs = []") metis+
qed

lemma if_min: "(if a < b then a else b) = min a b" "(if b > a then a else b) = min a (b :: nat)"
  by (simp_all add: min_def)

lemma two_parts:
  "m \<le> c \<Longrightarrow> t < c \<Longrightarrow> min (c - t) (min m (c - t)) + min c (m - min m (c - t)) = (m :: nat)"
  by (simp add: min_def) linarith

lemma ring_drain_items:
  assumes "ring_ok r"
  shows "fst (audio_pcm_ring_drain n r) = take n (ring_items r)"
    and "ring_items (snd (audio_pcm_ring_drain n r)) = drop n (ring_items r)"
    and "ring_ok (snd (audio_pcm_ring_drain n r))"
proof -
  have r: "length (pcm r) = 22050" "head r < 22050" "frames r \<le> 22050"
    using assms by (simp_all add: wf_simps)
  let ?m = "min (frames r) n"
  define t where "t = (head r + 22050 - frames r) mod 22050"
  have t: "t < 22050" by (simp add: t_def)
  have items: "ring_items r = ring_list (pcm r) t (frames r)"
    using ring_list_start_mod [of "pcm r" "head r + 22050 - frames r" "frames r"]
    by (simp add: ring_items_def t_def r)
  have nth: "(take (min ?m (22050 - t)) (drop t (pcm r)) @ take (?m - min ?m (22050 - t)) (pcm r)) ! i =
      pcm r ! ((t + i) mod 22050)" if "i < ?m" for i
  proof (cases "t + i < 22050")
    case True
    then have "i < 22050 - t" by linarith
    then show ?thesis using True that r t by (simp add: nth_append)
  next
    case False
    moreover have u: "t + i - 22050 < 22050" using that r t by linarith
    then have "(t + i) mod 22050 = t + i - 22050"
      using False le_mod_geq [of 22050 "t + i"] by (simp only: not_less mod_less)
    moreover have "\<not> i < 22050 - t" "i + t - 22050 = t + i - 22050" using False by linarith+
    ultimately show ?thesis using that r t by (simp add: nth_append min_def)
  qed
  have "fst (audio_pcm_ring_drain n r) =
      take (min ?m (22050 - t)) (drop t (pcm r)) @ take (?m - min ?m (22050 - t)) (pcm r)"
    unfolding audio_pcm_ring_drain_def Let_def t_def [symmetric] if_min fst_conv ..
  also have "\<dots> = take n (ring_items r)"
  proof (rule nth_equalityI)
    show len: "length (take (min ?m (22050 - t)) (drop t (pcm r)) @ take (?m - min ?m (22050 - t)) (pcm r)) =
        length (take n (ring_items r))"
    proof -
      have "?m \<le> 22050" using r(3) by simp
      then have "min (22050 - t) (min ?m (22050 - t)) + min 22050 (?m - min ?m (22050 - t)) = ?m"
        using t by (rule two_parts)
      then show ?thesis
        unfolding items length_append length_take length_drop length_ring_list r(1)
        by (simp only: min.commute)
    qed
    fix i assume "i < length (take (min ?m (22050 - t)) (drop t (pcm r)) @
        take (?m - min ?m (22050 - t)) (pcm r))"
    then have i: "i < ?m" unfolding len by (simp add: items min.commute)
    then have "take n (ring_items r) ! i = pcm r ! ((t + i) mod 22050)"
      by (simp add: items ring_list_def r(1))
    then show "(take (min ?m (22050 - t)) (drop t (pcm r)) @ take (?m - min ?m (22050 - t)) (pcm r)) ! i =
        take n (ring_items r) ! i"
      by (simp only: nth [OF i])
  qed
  finally show "fst (audio_pcm_ring_drain n r) = take n (ring_items r)" .
  have rest: "snd (audio_pcm_ring_drain n r) = r\<lparr>frames := frames r - ?m\<rparr>"
    unfolding audio_pcm_ring_drain_def Let_def if_min snd_conv ..
  have "head r + 22050 - (frames r - ?m) = head r + 22050 - frames r + ?m" "frames r - ?m = frames r - n"
    using r by linarith+
  then show "ring_items (snd (audio_pcm_ring_drain n r)) = drop n (ring_items r)"
    unfolding rest ring_items_def drop_ring_list by simp
  have "frames r - ?m \<le> 22050" using r(3) by linarith
  then show "ring_ok (snd (audio_pcm_ring_drain n r))" unfolding rest using r by (simp add: wf_simps)
qed

lemma ring_puts_items:
  "ring_ok r \<Longrightarrow> ring_items (fold audio_pcm_ring_put xss r) = lastn 22050 (ring_items r @ concat xss) \<and>
     ring_ok (fold audio_pcm_ring_put xss r)"
proof (induction xss arbitrary: r)
  case Nil
  then have "length (ring_items r) \<le> 22050" by (simp add: ring_items_def wf_simps)
  then show ?case using Nil by simp
next
  case (Cons xs xss)
  then show ?case using ring_put_items [OF Cons.prems, of xs] by simp
qed

section \<open>Interpolation stays between its frames\<close>

lemma sdiv_between:
  fixes a b w :: int
  assumes "a * 44100 \<le> w" and "w \<le> b * 44100"
  shows "a \<le> w sdiv 44100 \<and> w sdiv 44100 \<le> b"
proof (cases "0 \<le> w")
  case True
  then have "w sdiv 44100 = w div 44100" by (simp add: signed_divide_int_def sgn_if)
  then show ?thesis using assms by linarith
next
  case False
  then have "w sdiv 44100 = - ((- w) div 44100)" by (simp add: signed_divide_int_def sgn_if)
  then show ?thesis using assms by linarith
qed

lemma weighted_between:
  fixes p c f :: int
  assumes "0 \<le> f" and "f \<le> 44100"
  shows "min p c * 44100 \<le> p * (44100 - f) + c * f" and "p * (44100 - f) + c * f \<le> max p c * 44100"
proof -
  have "min p c * (44100 - f) \<le> p * (44100 - f)" "min p c * f \<le> c * f"
    "p * (44100 - f) \<le> max p c * (44100 - f)" "c * f \<le> max p c * f"
    using assms by (simp_all add: mult_right_mono)
  moreover have "x * (44100 - f) + x * f = x * 44100" for x by (simp add: algebra_simps)
  ultimately show "min p c * 44100 \<le> p * (44100 - f) + c * f" "p * (44100 - f) + c * f \<le> max p c * 44100"
    by (metis add_mono)+
qed

lemma weigh_between:
  assumes "0 \<le> f" and "f \<le> 44100"
  shows "min (sint p) (sint c) \<le> sint (weigh f p c) \<and> sint (weigh f p c) \<le> max (sint p) (sint c)"
proof -
  let ?w = "(sint p * (44100 - f) + sint c * f) sdiv 44100"
  have w: "min (sint p) (sint c) \<le> ?w \<and> ?w \<le> max (sint p) (sint c)"
    by (intro sdiv_between weighted_between assms)
  moreover have "- (2 ^ 15) \<le> sint p" "- (2 ^ 15) \<le> sint c" "sint p < 2 ^ 15" "sint c < 2 ^ 15"
    using sint_greater_eq [of p] sint_greater_eq [of c] sint_less [of p] sint_less [of c] by simp_all
  ultimately have "- (2 ^ 15) \<le> ?w" "?w < 2 ^ 15" by linarith+
  then have "sint (weigh f p c) = ?w"
    unfolding weigh_def sint_sbintrunc' by (intro signed_take_bit_int_eq_self) simp_all
  then show ?thesis using w by simp
qed

section \<open>Properties\<close>

text \<open>C31: The resampler delivers the resampled stream, however the guest splits it. From a reset, for
  mono or stereo input at any rate, the frames handed to the host over any sequence of calls are,
  in order, the linear interpolations of the whole input at every multiple of the source rate up to
  the last frame; every call returns (the phase loop ends) and every block has 1 to 512 frames.\<close>

theorem audio_resampler_split_independent:
  assumes "eff_channels c \<le> 2"
  shows "\<exists>s' bs. audio_play r c chunks audio_pcm_reset = Some (s', bs) \<and>
    concat bs = resampled (unat (eff_rate r)) (concat (map (frames_of (eff_channels c)) chunks)) \<and>
    (\<forall>b \<in> set bs. 0 < length b \<and> length b \<le> 512)"
proof -
  have "in_stream (eff_rate r) (eff_channels c) [] audio_pcm_reset"
    by (simp add: in_stream_def audio_pcm_reset_def position_def)
  from audio_play_extends [OF assms this, of chunks] show ?thesis
    by (fastforce simp: resampled_def [of _ "[]"] out_count_def)
qed

text \<open>Two mono samples, 0 and 100, at half the host rate: three frames.\<close>

theorem audio_resampler_split_independent_witness:
  "\<exists>s' bs. audio_play 22050 1 [([0], 1), ([100], 1)] audio_pcm_reset = Some (s', bs) \<and>
     concat bs = [(0, 0), (50, 50), (100, 100)]"
proof -
  have "resampled 22050 [(0, 0), (100, 100)] = [(0, 0), (50, 50), (100, 100)]"
    by (simp add: resampled_def out_count_def upt_rec read_at_def interpolate_def weigh_def
        signed_divide_int_def)
  then show ?thesis
    using audio_resampler_split_independent [of 1 22050 "[([0], 1), ([100], 1)]"]
    by (fastforce simp: eff_channels_def eff_rate_def frames_of_def)
qed

text \<open>An interpolated sample never leaves the range of the two source samples it lies between, so
  the cast to 16 bits loses nothing and the conversion cannot wrap around, at any phase the
  resampler uses.\<close>

theorem audio_interpolation_bounded:
  assumes "unat ph \<le> 44100"
  shows "min (sint (fst p)) (sint (fst c)) \<le> sint (fst (interpolate ph p c)) \<and>
    sint (fst (interpolate ph p c)) \<le> max (sint (fst p)) (sint (fst c)) \<and>
    min (sint (snd p)) (sint (snd c)) \<le> sint (snd (interpolate ph p c)) \<and>
    sint (snd (interpolate ph p c)) \<le> max (sint (snd p)) (sint (snd c))"
proof -
  have "sint ph = int (unat ph)" using assms by (intro sint_small) simp
  then have "0 \<le> sint ph" "sint ph \<le> 44100" using assms by linarith+
  then show ?thesis using weigh_between [of "sint ph"] by (simp add: interpolate_def)
qed

theorem audio_interpolation_bounded_witness:
  "sint (fst (interpolate 22050 (- 32768, 0) (- 32767, 0))) \<le> - 32767"
  using audio_interpolation_bounded [of 22050 "(- 32768, 0)" "(- 32767, 0)"] by simp

text \<open>Between the emulation and the audio thread nothing is reordered and only the oldest frames
  are lost: after any blocks put into a cleared ring, whatever its buffer held, draining \<open>n\<close> frames
  delivers the first \<open>n\<close> of the last 22050 (half a second), left and right together.\<close>

theorem audio_ring_keeps_newest:
  assumes "ring_ok r"
  shows "fst (audio_pcm_ring_drain n (fold audio_pcm_ring_put blocks (audio_pcm_ring_clear r))) =
    take n (lastn 22050 (concat blocks))"
proof -
  have c: "ring_ok (audio_pcm_ring_clear r)" "ring_items (audio_pcm_ring_clear r) = []"
    using assms by (simp_all add: audio_pcm_ring_clear_def wf_simps ring_items_def)
  note p = ring_puts_items [OF c(1), of blocks, unfolded c(2) append_Nil]
  show ?thesis by (simp only: ring_drain_items(1) [OF conjunct2 [OF p]] conjunct1 [OF p])
qed

theorem audio_ring_keeps_newest_witness:
  "fst (audio_pcm_ring_drain 5 (fold audio_pcm_ring_put [[(1, 2), (3, 4)], [(5, 6)]]
     (audio_pcm_ring_clear \<lparr>pcm = replicate 22050 (7, 7), head = 3, frames = 22050\<rparr>))) =
   [(1, 2), (3, 4), (5, 6)]"
proof -
  have "ring_ok \<lparr>pcm = replicate 22050 (7, 7), head = 3, frames = 22050\<rparr>" by (simp add: wf_simps)
  note audio_ring_keeps_newest [OF this, of 5 "[[(1, 2), (3, 4)], [(5, 6)]]"]
  also have "take 5 (lastn 22050 (concat [[(1, 2), (3, 4)], [(5, 6)]])) = [(1, 2), (3, 4), (5, 6)]"
    by (simp add: lastn_def)
  finally show ?thesis .
qed

end
