(* ===== verification/Stowaway.thy ===== *)
theory Stowaway
  imports Byte_Ring
begin

text \<open>
  The Stowaway keyboard dock, \<open>src/stowaway.c\<close>: host keys become bytes on the guest's serial port,
  after the driver's wake-up handshake. The two byte queues of the state (\<open>rx\<close>, \<open>head\<close>, \<open>tail\<close>,
  \<open>count\<close> and the four \<open>pending\<close> fields) are values of one ring type here. The call
  \<open>be300_stowaway_signal_uart_irq(1)\<close>, which wakes the guest's serial driver, is counted in \<open>irqs\<close>.
\<close>

section \<open>The queues\<close>

record key_ring =
  slots :: "u8 list"
  head :: nat
  tail :: nat
  count :: nat

definition key_ring_empty :: key_ring where
  "key_ring_empty = \<lparr>slots = replicate 4096 0, head = 0, tail = 0, count = 0\<rparr>"

definition ring_clear :: "key_ring \<Rightarrow> key_ring" where
  "ring_clear q = q\<lparr>head := 0, tail := 0, count := 0\<rparr>"

text \<open>\<open>stowaway_queue_byte\<close> and \<open>stowaway_queue_pending_byte\<close> are this operation on their queue.\<close>

definition ring_queue :: "u8 \<Rightarrow> key_ring \<Rightarrow> key_ring" where
  "ring_queue byte q =
     (let q = (if count q = 4096 then q\<lparr>tail := (tail q + 1) mod 4096, count := count q - 1\<rparr> else q);
          q = q\<lparr>slots := (slots q)[head q := byte]\<rparr>;
          q = q\<lparr>head := (head q + 1) mod 4096\<rparr>
      in q\<lparr>count := count q + 1\<rparr>)"

definition ring_take :: "key_ring \<Rightarrow> u8 \<times> key_ring" where
  "ring_take q = (slots q ! tail q, q\<lparr>tail := (tail q + 1) mod 4096, count := count q - 1\<rparr>)"

definition kring_ok :: "key_ring \<Rightarrow> bool" where
  [wf_simps]: "kring_ok q \<longleftrightarrow> length (slots q) = 4096 \<and> count q \<le> 4096 \<and> tail q < 4096 \<and>
     head q = (tail q + count q) mod 4096"

definition kring :: "key_ring \<Rightarrow> u8 list" where
  "kring q = ring_list (slots q) (tail q) (count q)"

definition kring_pop :: "key_ring \<Rightarrow> u8 option \<times> key_ring" where
  "kring_pop q = (if count q = 0 then (None, q) else map_prod Some id (ring_take q))"

lemma length_kring [simp]: "length (kring q) = count q"
  by (simp add: kring_def)

lemma kring_empty_iff: "kring q = [] \<longleftrightarrow> count q = 0"
  using length_kring [of q] by (metis length_0_conv)

lemma ring_take_cons:
  assumes "kring_ok q" and "0 < count q"
  shows "kring q = fst (ring_take q) # kring (snd (ring_take q))" and "kring_ok (snd (ring_take q))"
proof -
  have q: "length (slots q) = 4096" "tail q < 4096" using assms(1) by (simp_all add: wf_simps)
  show "kring q = fst (ring_take q) # kring (snd (ring_take q))"
    using ring_list_pop [OF assms(2), of "slots q" "tail q"] q by (simp add: kring_def ring_take_def)
  have "(Suc (tail q) mod 4096 + (count q - 1)) mod 4096 = (tail q + count q) mod 4096"
    unfolding mod_add_left_eq using assms(2) by simp
  then show "kring_ok (snd (ring_take q))"
    using assms by (auto simp: wf_simps ring_take_def)
qed

lemma ring_queue_items:
  assumes "kring_ok q"
  shows "kring (ring_queue b q) = lastn 4096 (kring q @ [b])" and "kring_ok (ring_queue b q)"
proof -
  have "kring (ring_queue b q) = lastn 4096 (kring q @ [b]) \<and> kring_ok (ring_queue b q)"
  proof (cases "count q = 4096")
    case False
    then have lt: "count q < 4096" using assms by (simp add: wf_simps)
    then show ?thesis
      using ring_list_push [of "count q" "slots q" "tail q" b] assms False
      by (auto simp: ring_queue_def kring_def wf_simps Let_def mod_Suc_eq)
  next
    case True
    have q: "length (slots q) = 4096" "tail q < 4096" "head q = tail q"
      using assms True by (simp_all add: wf_simps)
    have "lastn 4096 (kring q @ [b]) = tl (kring q) @ [b]"
      using True lastn_snoc [of 4096 "kring q" b] by simp
    also have "tl (kring q) = ring_list (slots q) (Suc (tail q)) 4095"
      using ring_list_pop [of "count q" "slots q" "tail q"] True q
        ring_list_start_mod [of "slots q" "Suc (tail q)" 4095]
      by (simp add: kring_def)
    also have "\<dots> @ [b] = ring_list ((slots q)[tail q := b]) (Suc (tail q)) 4096"
      using ring_list_push [of 4095 "slots q" "Suc (tail q)" b] q by simp
    also have "\<dots> = kring (ring_queue b q)"
      using True q ring_list_start_mod [of "(slots q)[tail q := b]" "Suc (tail q)" 4096]
      by (simp add: ring_queue_def kring_def Let_def)
    finally show ?thesis using True q by (auto simp: ring_queue_def wf_simps Let_def)
  qed
  then show "kring (ring_queue b q) = lastn 4096 (kring q @ [b])" "kring_ok (ring_queue b q)" by simp_all
qed

interpretation kr: drop_oldest_fifo kring_ok kring "\<lambda>_. 4096" kring_pop ring_queue
proof unfold_locales
  fix q assume "kring_ok q"
  then show "length (kring q) \<le> 4096" by (simp add: wf_simps)
next
  fix q assume "kring q = []"
  then show "kring_pop q = (None, q)" by (simp add: kring_pop_def kring_empty_iff)
next
  fix q x xs assume ok: "kring_ok q" and q: "kring q = x # xs"
  then have "0 < count q" using length_kring [of q] by simp
  then show "fst (kring_pop q) = Some x \<and> kring (snd (kring_pop q)) = xs \<and> kring_ok (snd (kring_pop q))"
    using ring_take_cons [OF ok] q by (simp add: kring_pop_def)
qed (simp_all add: ring_queue_items)

lemma ring_clear_items [simp]: "kring_ok q \<Longrightarrow> kring_ok (ring_clear q)" "kring (ring_clear q) = []"
  by (simp_all add: ring_clear_def wf_simps kring_def)

lemma key_ring_empty_items [simp]: "kring_ok key_ring_empty" "kring key_ring_empty = []"
  by (simp_all add: key_ring_empty_def wf_simps kring_def)

section \<open>The dock\<close>

record stowaway_state =
  enabled :: bool
  connected :: bool
  modem_wait_requested :: bool
  modem_delta_pending :: bool
  modem_events_delivered :: nat
  dtr_asserted :: bool
  rts_asserted :: bool
  probe_ack_pending :: bool
  probe_ack_seen :: nat
  rx :: key_ring
  pending :: key_ring
  fn_refs :: nat
  irqs :: nat

definition zeroed :: "bool \<Rightarrow> nat \<Rightarrow> nat \<Rightarrow> stowaway_state" where
  "zeroed en refs irq =
     \<lparr>enabled = en, connected = False, modem_wait_requested = False, modem_delta_pending = False,
      modem_events_delivered = 0, dtr_asserted = False, rts_asserted = False,
      probe_ack_pending = False, probe_ack_seen = 0, rx = key_ring_empty, pending = key_ring_empty,
      fn_refs = refs, irqs = irq\<rparr>"

definition signal_uart_irq :: "stowaway_state \<Rightarrow> stowaway_state" where
  "signal_uart_irq s = s\<lparr>irqs := irqs s + 1\<rparr>"

definition stowaway_queue_byte :: "u8 \<Rightarrow> stowaway_state \<Rightarrow> stowaway_state" where
  "stowaway_queue_byte byte s = s\<lparr>rx := ring_queue byte (rx s)\<rparr>"

definition stowaway_queue_pending_byte :: "u8 \<Rightarrow> stowaway_state \<Rightarrow> stowaway_state" where
  "stowaway_queue_pending_byte byte s = s\<lparr>pending := ring_queue byte (pending s)\<rparr>"

text \<open>The \<open>while\<close> runs once per pending byte.\<close>

fun flush_loop :: "nat \<Rightarrow> stowaway_state \<Rightarrow> stowaway_state" where
  "flush_loop 0 s = s"
| "flush_loop (Suc n) s =
     (let (byte, q) = ring_take (pending s) in flush_loop n (stowaway_queue_byte byte (s\<lparr>pending := q\<rparr>)))"

definition stowaway_flush_pending_keys :: "stowaway_state \<Rightarrow> bool \<times> stowaway_state" where
  "stowaway_flush_pending_keys s =
     (let moved = count (pending s) > 0;
          s = flush_loop (count (pending s)) s
      in (moved, if moved then signal_uart_irq s else s))"

definition stowaway_configure :: "bool \<Rightarrow> stowaway_state \<Rightarrow> stowaway_state" where
  "stowaway_configure en s = zeroed en 0 (irqs s)"

definition stowaway_ns16550_claims :: "string option \<Rightarrow> stowaway_state \<Rightarrow> bool" where
  "stowaway_ns16550_claims name s \<longleftrightarrow> enabled s \<and> name = Some ''vrc4173siu''"

definition stowaway_uart_reset :: "stowaway_state \<Rightarrow> stowaway_state" where
  "stowaway_uart_reset s = zeroed (enabled s) (fn_refs s) (irqs s)"

definition stowaway_uart_rx_available :: "stowaway_state \<Rightarrow> bool" where
  "stowaway_uart_rx_available s \<longleftrightarrow> enabled s \<and> count (rx s) > 0"

definition stowaway_uart_rx_count :: "stowaway_state \<Rightarrow> nat" where
  "stowaway_uart_rx_count s = (if enabled s then count (rx s) else 0)"

definition stowaway_uart_rx_pop :: "stowaway_state \<Rightarrow> int \<times> stowaway_state" where
  "stowaway_uart_rx_pop s =
     (if \<not> stowaway_uart_rx_available s then (- 1, s)
      else
        let (byte, q) = ring_take (rx s);
            s = s\<lparr>rx := q\<rparr>
        in (uint byte,
            if probe_ack_pending s then
              (if byte = 0xFA \<and> probe_ack_seen s = 0 then s\<lparr>probe_ack_seen := 1\<rparr>
               else if byte = 0xFD \<and> probe_ack_seen s = 1 then
                 snd (stowaway_flush_pending_keys
                   (s\<lparr>connected := True, probe_ack_pending := False, probe_ack_seen := 0\<rparr>))
               else s\<lparr>probe_ack_pending := False, probe_ack_seen := 0\<rparr>)
            else s))"

definition stowaway_uart_rx_clear :: "stowaway_state \<Rightarrow> stowaway_state" where
  "stowaway_uart_rx_clear s =
     (if \<not> enabled s then s
      else s\<lparr>rx := ring_clear (rx s), probe_ack_pending := False, probe_ack_seen := 0\<rparr>)"

definition stowaway_uart_tx_byte :: "u8 \<Rightarrow> stowaway_state \<Rightarrow> stowaway_state" where
  "stowaway_uart_tx_byte byte s = s"

definition stowaway_queue_probe_ack :: "stowaway_state \<Rightarrow> stowaway_state" where
  "stowaway_queue_probe_ack s =
     (if probe_ack_pending s then s
      else signal_uart_irq
        ((stowaway_queue_byte 0xFD (stowaway_queue_byte 0xFA s))
          \<lparr>probe_ack_pending := True, probe_ack_seen := 0\<rparr>))"

definition stowaway_uart_note_port_config :: "stowaway_state \<Rightarrow> stowaway_state" where
  "stowaway_uart_note_port_config s =
     (if \<not> enabled s then s
      else s\<lparr>connected := False, modem_wait_requested := False, modem_delta_pending := False,
             modem_events_delivered := 0, dtr_asserted := False, rts_asserted := False,
             probe_ack_pending := False, probe_ack_seen := 0,
             rx := ring_clear (rx s), pending := ring_clear (pending s)\<rparr>)"

definition stowaway_uart_note_modem_wait :: "stowaway_state \<Rightarrow> stowaway_state" where
  "stowaway_uart_note_modem_wait s = (if \<not> enabled s then s else s\<lparr>modem_wait_requested := True\<rparr>)"

definition stowaway_uart_note_modem_control :: "bool \<Rightarrow> bool \<Rightarrow> stowaway_state \<Rightarrow> stowaway_state" where
  "stowaway_uart_note_modem_control dtr rts s =
     (if \<not> enabled s then s
      else
        let old_rts = rts_asserted s;
            s = s\<lparr>dtr_asserted := dtr, rts_asserted := rts\<rparr>;
            s = (if \<not> dtr then s\<lparr>connected := False, probe_ack_pending := False, probe_ack_seen := 0\<rparr> else s)
        in if dtr \<and> rts \<and> \<not> old_rts then stowaway_queue_probe_ack s else s)"

definition stowaway_uart_take_modem_wait_request :: "stowaway_state \<Rightarrow> bool \<times> stowaway_state" where
  "stowaway_uart_take_modem_wait_request s =
     (if \<not> enabled s \<or> \<not> modem_wait_requested s \<or> modem_events_delivered s \<ge> 2 then (False, s)
      else (True, s\<lparr>modem_events_delivered := modem_events_delivered s + 1\<rparr>))"

definition stowaway_uart_take_modem_delta :: "stowaway_state \<Rightarrow> bool \<times> stowaway_state" where
  "stowaway_uart_take_modem_delta s =
     (if \<not> enabled s \<or> \<not> modem_delta_pending s then (False, s)
      else (True, s\<lparr>modem_delta_pending := False\<rparr>))"

definition key_byte :: "u32 \<Rightarrow> bool \<Rightarrow> u8" where
  "key_byte scancode release = (if release then ucast scancode OR 0x80 else ucast scancode)"

definition stowaway_queue_key :: "u32 \<Rightarrow> bool \<Rightarrow> stowaway_state \<Rightarrow> bool \<times> stowaway_state" where
  "stowaway_queue_key scancode release s =
     (if \<not> enabled s then (False, s)
      else if scancode > 0x7F then (False, s)
      else
        let byte = key_byte scancode release
        in if \<not> connected s \<or> \<not> dtr_asserted s then
             (if \<not> modem_wait_requested s then (False, s)
              else (True, signal_uart_irq ((stowaway_queue_byte byte s)\<lparr>modem_delta_pending := True\<rparr>)))
           else if \<not> rts_asserted s \<or> probe_ack_pending s then
             (True, stowaway_queue_pending_byte byte s)
           else (True, signal_uart_irq (stowaway_queue_byte byte s)))"

definition stowaway_queue_mapped_key :: "u32 \<Rightarrow> bool \<Rightarrow> stowaway_state \<Rightarrow> bool \<times> stowaway_state" where
  "stowaway_queue_mapped_key value release s =
     (let scancode = value AND NOT 0x100 in
      if value AND 0x100 = 0 then stowaway_queue_key scancode release s
      else if release then
        let (ok, s) = stowaway_queue_key scancode True s
        in if fn_refs s > 0 then
             let s = s\<lparr>fn_refs := fn_refs s - 1\<rparr>
             in (ok, if fn_refs s = 0 then snd (stowaway_queue_key 8 True s) else s)
           else (ok, s)
      else if fn_refs s = 0 then
        let (ok, s) = stowaway_queue_key 8 False (s\<lparr>fn_refs := 1\<rparr>)
        in if \<not> ok then (False, s\<lparr>fn_refs := 0\<rparr>) else stowaway_queue_key scancode False s
      else stowaway_queue_key scancode False (s\<lparr>fn_refs := fn_refs s + 1\<rparr>))"

section \<open>Events and invariant\<close>

datatype stowaway_event =
  Configure bool | Uart_reset | Rx_pop | Rx_clear | Port_config | Modem_wait | Modem_control bool bool
  | Take_wait | Take_delta | Key u32 bool | Mapped_key u32 bool

fun stowaway_step :: "stowaway_event \<Rightarrow> stowaway_state \<Rightarrow> stowaway_state" where
  "stowaway_step (Configure b) = stowaway_configure b"
| "stowaway_step Uart_reset = stowaway_uart_reset"
| "stowaway_step Rx_pop = snd \<circ> stowaway_uart_rx_pop"
| "stowaway_step Rx_clear = stowaway_uart_rx_clear"
| "stowaway_step Port_config = stowaway_uart_note_port_config"
| "stowaway_step Modem_wait = stowaway_uart_note_modem_wait"
| "stowaway_step (Modem_control dtr rts) = stowaway_uart_note_modem_control dtr rts"
| "stowaway_step Take_wait = snd \<circ> stowaway_uart_take_modem_wait_request"
| "stowaway_step Take_delta = snd \<circ> stowaway_uart_take_modem_delta"
| "stowaway_step (Key k release) = snd \<circ> stowaway_queue_key k release"
| "stowaway_step (Mapped_key v release) = snd \<circ> stowaway_queue_mapped_key v release"

definition stowaway_ok :: "stowaway_state \<Rightarrow> bool" where
  [wf_simps]: "stowaway_ok s \<longleftrightarrow> kring_ok (rx s) \<and> kring_ok (pending s) \<and>
     (connected s \<or> probe_ack_pending s \<longrightarrow> dtr_asserted s) \<and> modem_events_delivered s \<le> 2"

lemma flush_loop_eq:
  "kring_ok (rx s) \<Longrightarrow> kring_ok (pending s) \<Longrightarrow> n = count (pending s) \<Longrightarrow>
    \<exists>p. flush_loop n s = s\<lparr>rx := fold ring_queue (kring (pending s)) (rx s), pending := p\<rparr> \<and>
      kring_ok p \<and> kring p = []"
proof (induction n s rule: flush_loop.induct)
  case (1 s)
  then have "kring (pending s) = []" by (simp add: kring_empty_iff)
  then show ?case using 1 by (intro exI [of _ "pending s"]) simp
next
  case (2 n s)
  have pos: "0 < count (pending s)" using 2(4) by simp
  obtain b q where t: "ring_take (pending s) = (b, q)" by (cases "ring_take (pending s)")
  have q: "kring (pending s) = b # kring q" "kring_ok q"
    using ring_take_cons [OF 2(3) pos] t by simp_all
  then have "count q = n" using length_kring [of "pending s"] length_kring [of q] 2(4) by simp
  let ?s = "stowaway_queue_byte b (s\<lparr>pending := q\<rparr>)"
  have "\<exists>p. flush_loop n ?s = ?s\<lparr>rx := fold ring_queue (kring (pending ?s)) (rx ?s), pending := p\<rparr> \<and>
      kring_ok p \<and> kring p = []"
    using q 2(2) \<open>count q = n\<close>
    by (intro 2(1) [OF t [symmetric] refl]) (simp_all add: stowaway_queue_byte_def ring_queue_items)
  then show ?case using t q by (auto simp: stowaway_queue_byte_def)
qed

text \<open>What a flush does: the pending keys move behind what the driver has not read yet.\<close>

lemma flush_pending:
  assumes "kring_ok (rx s)" and "kring_ok (pending s)"
  obtains p where "snd (stowaway_flush_pending_keys s) =
      s\<lparr>rx := fold ring_queue (kring (pending s)) (rx s), pending := p,
        irqs := irqs s + (if kring (pending s) = [] then 0 else 1)\<rparr>"
    and "kring_ok p" and "kring p = []"
proof -
  from flush_loop_eq [OF assms refl] obtain p where p:
    "flush_loop (count (pending s)) s = s\<lparr>rx := fold ring_queue (kring (pending s)) (rx s), pending := p\<rparr>"
    "kring_ok p" "kring p = []"
    by blast
  then have "snd (stowaway_flush_pending_keys s) =
      s\<lparr>rx := fold ring_queue (kring (pending s)) (rx s), pending := p,
        irqs := irqs s + (if kring (pending s) = [] then 0 else 1)\<rparr>"
    by (simp add: stowaway_flush_pending_keys_def Let_def kring_empty_iff signal_uart_irq_def)
  then show ?thesis using that p by blast
qed

lemma rx_pop_ok: "stowaway_ok s \<Longrightarrow> stowaway_ok (snd (stowaway_uart_rx_pop s))"
proof -
  assume ok: "stowaway_ok s"
  show ?thesis
  proof (cases "stowaway_uart_rx_available s")
    case False
    then show ?thesis using ok by (simp add: stowaway_uart_rx_pop_def)
  next
    case True
    then have pos: "0 < count (rx s)" by (simp add: stowaway_uart_rx_available_def)
    obtain b q where t: "ring_take (rx s) = (b, q)" by (cases "ring_take (rx s)")
    have q: "kring_ok q" using ring_take_cons(2) [OF _ pos] ok t by (simp add: wf_simps)
    let ?s = "s\<lparr>rx := q, connected := True, probe_ack_pending := False, probe_ack_seen := 0\<rparr>"
    obtain p where p: "snd (stowaway_flush_pending_keys ?s) =
      ?s\<lparr>rx := fold ring_queue (kring (pending ?s)) (rx ?s), pending := p,
        irqs := irqs ?s + (if kring (pending ?s) = [] then 0 else 1)\<rparr>" "kring_ok p"
      using flush_pending [of ?s] ok q by (auto simp: stowaway_ok_def)
    show ?thesis using True t q ok p kr.push_all [OF q]
      by (auto simp: stowaway_uart_rx_pop_def Let_def stowaway_ok_def)
  qed
qed

lemma queue_key_ok: "stowaway_ok s \<Longrightarrow> stowaway_ok (snd (stowaway_queue_key k r s))"
  by (simp add: stowaway_queue_key_def Let_def stowaway_ok_def stowaway_queue_byte_def
      stowaway_queue_pending_byte_def signal_uart_irq_def ring_queue_items)

lemma fn_refs_ok [simp]: "stowaway_ok (s\<lparr>fn_refs := n\<rparr>) = stowaway_ok s"
  by (simp add: stowaway_ok_def)

lemma mapped_key_ok: "stowaway_ok s \<Longrightarrow> stowaway_ok (snd (stowaway_queue_mapped_key v r s))"
  by (simp add: stowaway_queue_mapped_key_def Let_def case_prod_unfold queue_key_ok)

interpretation stowaway: device stowaway_step stowaway_ok
proof
  fix s e assume ok: "stowaway_ok s"
  show "stowaway_ok (stowaway_step e s)"
  proof (cases e)
    case (Modem_control dtr rts)
    then show ?thesis using ok
      by (auto simp: stowaway_uart_note_modem_control_def stowaway_queue_probe_ack_def Let_def
          stowaway_ok_def stowaway_queue_byte_def signal_uart_irq_def ring_queue_items)
  next
    case Rx_pop
    then show ?thesis using ok by (simp add: rx_pop_ok)
  next
    case (Key k r)
    then show ?thesis using ok by (simp add: queue_key_ok)
  next
    case (Mapped_key v r)
    then show ?thesis using ok by (simp add: mapped_key_ok)
  qed (use ok in \<open>simp_all add: stowaway_ok_def
      stowaway_configure_def stowaway_uart_reset_def zeroed_def stowaway_uart_rx_clear_def
      stowaway_uart_note_port_config_def stowaway_uart_note_modem_wait_def
      stowaway_uart_take_modem_wait_request_def stowaway_uart_take_modem_delta_def\<close>)
qed

section \<open>No byte arrives unannounced\<close>

definition woken :: "stowaway_state \<Rightarrow> stowaway_state \<Rightarrow> bool" where
  "woken s t \<longleftrightarrow> irqs s \<le> irqs t \<and>
     (irqs s < irqs t \<or> (\<exists>k. kring (rx t) = drop k (kring (rx s))))"

lemma woken_trans: "woken s t \<Longrightarrow> woken t u \<Longrightarrow> woken s u"
  unfolding woken_def by (auto simp: add.commute)

lemma woken_drop: "irqs t = irqs s \<Longrightarrow> kring (rx t) = drop k (kring (rx s)) \<Longrightarrow> woken s t"
  by (auto simp: woken_def)

lemma woken_irq: "irqs s < irqs t \<Longrightarrow> woken s t"
  by (simp add: woken_def)

lemma woken_same: "irqs t = irqs s \<Longrightarrow> rx t = rx s \<Longrightarrow> woken s t"
  by (rule woken_drop [of _ _ 0]) simp_all

lemma queue_key_woken: "woken s (snd (stowaway_queue_key k r s))"
  by (auto simp: stowaway_queue_key_def Let_def stowaway_queue_byte_def stowaway_queue_pending_byte_def
      signal_uart_irq_def intro: woken_irq woken_same)

lemma fn_refs_woken [simp]: "woken s (t\<lparr>fn_refs := n\<rparr>) = woken s t" "woken (s\<lparr>fn_refs := n\<rparr>) t = woken s t"
  by (simp_all add: woken_def)

lemma mapped_key_woken: "woken s (snd (stowaway_queue_mapped_key v r s))"
proof -
  have two: "woken s (snd (stowaway_queue_key k r ((snd (stowaway_queue_key k' r' s'))\<lparr>fn_refs := n\<rparr>)))"
    if "woken s s'" for s s' k k' r r' n
    using woken_trans [OF woken_trans [OF that queue_key_woken] queue_key_woken]
      queue_key_woken [of "(snd (stowaway_queue_key k' r' s'))\<lparr>fn_refs := n\<rparr>" k r]
      woken_trans [OF that queue_key_woken [of s' k' r']] woken_trans fn_refs_woken(2) by metis
  have one: "woken s (snd (stowaway_queue_key k r (s\<lparr>fn_refs := n\<rparr>)))" for s k r n
    using queue_key_woken [of "s\<lparr>fn_refs := n\<rparr>" k r] by simp
  show ?thesis
    using queue_key_woken one
      woken_trans [OF one queue_key_woken] two [OF woken_same]
    by (auto simp: stowaway_queue_mapped_key_def Let_def case_prod_unfold)
qed

lemma rx_pop_woken:
  assumes ok: "stowaway_ok s" shows "woken s (snd (stowaway_uart_rx_pop s))"
proof (cases "stowaway_uart_rx_available s")
  case False
  then show ?thesis by (simp add: stowaway_uart_rx_pop_def woken_same)
next
  case True
  then have pos: "0 < count (rx s)" by (simp add: stowaway_uart_rx_available_def)
  obtain b q where t: "ring_take (rx s) = (b, q)" by (cases "ring_take (rx s)")
  have q: "kring_ok q" "kring q = drop 1 (kring (rx s))"
    using ring_take_cons [OF _ pos] ok t by (simp_all add: wf_simps)
  let ?s = "s\<lparr>rx := q, connected := True, probe_ack_pending := False, probe_ack_seen := 0\<rparr>"
  obtain p where p: "snd (stowaway_flush_pending_keys ?s) =
    ?s\<lparr>rx := fold ring_queue (kring (pending ?s)) (rx ?s), pending := p,
      irqs := irqs ?s + (if kring (pending ?s) = [] then 0 else 1)\<rparr>"
    using flush_pending [of ?s] ok q by (auto simp: stowaway_ok_def)
  show ?thesis using True t q p
    by (auto simp: stowaway_uart_rx_pop_def Let_def intro: woken_irq woken_drop [of _ _ 1])
qed

section \<open>Fn chords\<close>

text \<open>Follows the dock's Fn key through a byte stream; \<open>None\<close> when it is pressed or released twice.\<close>

fun fn_trace :: "bool \<Rightarrow> u8 list \<Rightarrow> bool option" where
  "fn_trace down [] = Some down"
| "fn_trace down (b # bs) =
     (if b = 0x08 then (if down then None else fn_trace True bs)
      else if b = 0x88 then (if down then fn_trace False bs else None)
      else fn_trace down bs)"

lemma fn_trace_append: "fn_trace d (bs @ cs) = (case fn_trace d bs of None \<Rightarrow> None | Some d' \<Rightarrow> fn_trace d' cs)"
  by (induction d bs rule: fn_trace.induct) auto

definition ready :: "stowaway_state \<Rightarrow> bool" where
  "ready s \<longleftrightarrow> stowaway_ok s \<and> enabled s \<and> connected s \<and> dtr_asserted s \<and> rts_asserted s \<and> \<not> probe_ack_pending s"

lemma queue_key_ready:
  assumes "ready s" and "k \<le> 0x7F" and "length (kring (rx s)) < 4096"
  shows "\<exists>s'. stowaway_queue_key k r s = (True, s') \<and> ready s' \<and> kring (rx s') = kring (rx s) @ [key_byte k r] \<and>
    fn_refs s' = fn_refs s"
proof -
  have "kring (ring_queue (key_byte k r) (rx s)) = kring (rx s) @ [key_byte k r]"
    using assms by (simp add: ready_def stowaway_ok_def ring_queue_items)
  then show ?thesis using assms
    by (auto simp: ready_def stowaway_queue_key_def Let_def stowaway_queue_byte_def signal_uart_irq_def
        stowaway_ok_def ring_queue_items)
qed

lemma key_byte_not_fn:
  assumes "k \<le> 0x7F" and "k \<noteq> 8"
  shows "key_byte k r \<noteq> 0x08" and "key_byte k r \<noteq> 0x88"
proof -
  have small: "\<not> bit k n" if "7 \<le> n" for n
  proof -
    have "fits 7 k" using assms(1) by (simp add: fits_def word_le_nat_alt)
    then show ?thesis using that by (auto simp: fits_bits)
  qed
  have k8: "k = 8" if eq: "\<And>n. n < 7 \<Longrightarrow> bit (key_byte k r) n = bit (8 :: u8) n"
  proof (rule bit_word_eqI)
    fix n assume "n < LENGTH(32)"
    show "bit k n = bit (8 :: u32) n"
    proof (cases "n < 7")
      case True
      then have "bit (key_byte k r) n = bit k n"
        by (auto simp: key_byte_def bit_simps numeral_eq_Suc bit_1_iff less_Suc_eq)
      then have "bit k n = bit (8 :: u8) n" using eq [OF True] by simp
      moreover have "n = 0 \<or> n = 1 \<or> n = 2 \<or> n = 3 \<or> n = 4 \<or> n = 5 \<or> n = 6 \<or> n = 7"
        using True by (intro byte_index_cases) simp
      ultimately show ?thesis by (elim disjE) simp_all
    next
      case False
      moreover have "(8 :: u32) = 2 ^ 3" by simp
      ultimately have "\<not> bit (8 :: u32) n" by (simp only: bit_exp_iff) simp
      then show ?thesis using False small by simp
    qed
  qed
  show "key_byte k r \<noteq> 0x08" using k8 assms(2) by auto
  show "key_byte k r \<noteq> 0x88"
  proof
    assume "key_byte k r = 0x88"
    then have "k = 8"
      by (intro k8) (auto simp: less_Suc_eq numeral_eq_Suc)
    then show False using assms(2) by simp
  qed
qed

text \<open>How many Fn chords the host holds; a release without its press counts for nothing.\<close>

fun held_chords :: "nat \<Rightarrow> (u32 \<times> bool) list \<Rightarrow> nat" where
  "held_chords n [] = n"
| "held_chords n ((v, release) # ks) =
     held_chords (if v AND 0x100 = 0 then n else if release then n - 1 else n + 1) ks"

lemma mapped_key_fn:
  assumes r: "ready s" and k: "v AND NOT 0x100 \<le> 0x7F" "v AND NOT 0x100 \<noteq> 8"
    and room: "length (kring (rx s)) + 2 \<le> 4096"
    and fn: "fn_trace False (kring (rx s)) = Some (0 < fn_refs s)"
  shows "\<exists>s'. snd (stowaway_queue_mapped_key v rel s) = s' \<and> ready s' \<and>
    length (kring (rx s')) \<le> length (kring (rx s)) + 2 \<and>
    fn_trace False (kring (rx s')) = Some (0 < fn_refs s') \<and> fn_refs s' = held_chords (fn_refs s) [(v, rel)]"
proof -
  let ?k = "v AND NOT 0x100"
  note nf = key_byte_not_fn [OF k]
  have upd: "ready (t\<lparr>fn_refs := n\<rparr>) = ready t" for t n by (simp add: ready_def)
  have l8: "(8 :: u32) \<le> 0x7F" by simp
  consider (plain) "v AND 0x100 = 0" | (up) "v AND 0x100 \<noteq> 0" "rel" | (down) "v AND 0x100 \<noteq> 0" "\<not> rel"
    by blast
  then show ?thesis
  proof cases
    case plain
    obtain s' where "stowaway_queue_key ?k rel s = (True, s')" "ready s'"
      "kring (rx s') = kring (rx s) @ [key_byte ?k rel]" "fn_refs s' = fn_refs s"
      using queue_key_ready [OF r k(1), of rel] room by auto
    then show ?thesis using plain nf [of rel] fn
      by (simp add: stowaway_queue_mapped_key_def fn_trace_append flip: length_kring)
  next
    case up
    obtain s1 where 1: "stowaway_queue_key ?k True s = (True, s1)" "ready s1"
      "kring (rx s1) = kring (rx s) @ [key_byte ?k True]" "fn_refs s1 = fn_refs s"
      using queue_key_ready [OF r k(1), of True] room by auto
    obtain s2 where 2: "stowaway_queue_key 8 True (s1\<lparr>fn_refs := 0\<rparr>) = (True, s2)" "ready s2"
      "kring (rx s2) = kring (rx s1) @ [key_byte 8 True]" "fn_refs s2 = 0"
      using queue_key_ready [of "s1\<lparr>fn_refs := 0\<rparr>" 8 True] 1 room upd by auto
    have "key_byte 8 True = 0x88" by (simp add: key_byte_def)
    then show ?thesis using up 1 2 nf [of True] fn upd
      by (cases "fn_refs s")
        (auto simp: stowaway_queue_mapped_key_def fn_trace_append Let_def simp flip: length_kring)
  next
    case down
    obtain s1 where 1: "stowaway_queue_key 8 False (s\<lparr>fn_refs := 1\<rparr>) = (True, s1)" "ready s1"
      "kring (rx s1) = kring (rx s) @ [key_byte 8 False]" "fn_refs s1 = 1"
      using queue_key_ready [of "s\<lparr>fn_refs := 1\<rparr>" 8 False] r room upd by auto
    obtain s2 where 2: "stowaway_queue_key ?k False s1 = (True, s2)" "ready s2"
      "kring (rx s2) = kring (rx s1) @ [key_byte ?k False]" "fn_refs s2 = 1"
      using queue_key_ready [OF 1(2) k(1), of False] 1 room by auto
    obtain s3 where 3: "stowaway_queue_key ?k False (s\<lparr>fn_refs := fn_refs s + 1\<rparr>) = (True, s3)" "ready s3"
      "kring (rx s3) = kring (rx s) @ [key_byte ?k False]" "fn_refs s3 = fn_refs s + 1"
      using queue_key_ready [of "s\<lparr>fn_refs := fn_refs s + 1\<rparr>" ?k False] r k(1) room upd by auto
    have "key_byte 8 False = 0x08" by (simp add: key_byte_def)
    then show ?thesis using down 1 2 3 nf [of False] fn
      by (cases "fn_refs s")
        (auto simp: stowaway_queue_mapped_key_def fn_trace_append Let_def simp flip: length_kring)
  qed
qed

section \<open>The driver's reads\<close>

fun rx_read :: "nat \<Rightarrow> stowaway_state \<Rightarrow> int list \<times> stowaway_state" where
  "rx_read 0 s = ([], s)"
| "rx_read (Suc n) s = (let (b, s) = stowaway_uart_rx_pop s; (bs, s) = rx_read n s in (b # bs, s))"

lemma rx_pop_cons:
  assumes "stowaway_ok s" and "enabled s" and "kring (rx s) = b # bs"
  obtains q where "ring_take (rx s) = (b, q)" and "kring q = bs" and "kring_ok q"
    and "stowaway_uart_rx_available s"
proof -
  have pos: "0 < count (rx s)" using assms(3) length_kring [of "rx s"] by simp
  have "kring_ok (rx s)" using assms(1) by (simp add: wf_simps)
  note t = ring_take_cons [OF this pos]
  show ?thesis
    using that [of "snd (ring_take (rx s))"] t assms pos
    by (simp add: stowaway_uart_rx_available_def prod_eq_iff)
qed

lemma rx_read_plain:
  "stowaway_ok s \<Longrightarrow> enabled s \<Longrightarrow> \<not> probe_ack_pending s \<Longrightarrow> kring (rx s) = bs \<Longrightarrow>
     fst (rx_read (length bs) s) = map uint bs"
proof (induction bs arbitrary: s)
  case Nil
  then show ?case by simp
next
  case (Cons b bs)
  obtain q where q: "ring_take (rx s) = (b, q)" "kring q = bs" "kring_ok q" "stowaway_uart_rx_available s"
    using rx_pop_cons [OF Cons.prems(1,2,4)] .
  have pop: "stowaway_uart_rx_pop s = (uint b, s\<lparr>rx := q\<rparr>)"
    using q Cons.prems(3) by (simp add: stowaway_uart_rx_pop_def)
  have "fst (rx_read (length bs) (s\<lparr>rx := q\<rparr>)) = map uint bs"
    using Cons.prems q by (intro Cons.IH) (simp_all add: wf_simps)
  then show ?case using pop by (simp add: case_prod_unfold Let_def)
qed

text \<open>A connected dock that may not send: RTS is down or a probe is being answered.\<close>

definition held :: "stowaway_state \<Rightarrow> bool" where
  "held s \<longleftrightarrow> stowaway_ok s \<and> enabled s \<and> connected s \<and> dtr_asserted s \<and>
     (\<not> rts_asserted s \<or> probe_ack_pending s)"

lemma queue_keys_held:
  "held s \<Longrightarrow> \<forall>(k, r) \<in> set ks. k \<le> 0x7F \<Longrightarrow> count (pending s) + length ks \<le> 4096 \<Longrightarrow>
     \<exists>p. fold stowaway_step (map (\<lambda>(k, r). Key k r) ks) s = s\<lparr>pending := p\<rparr> \<and> kring_ok p \<and>
       kring p = kring (pending s) @ map (\<lambda>(k, r). key_byte k r) ks"
proof (induction ks arbitrary: s)
  case Nil
  then show ?case by (intro exI [of _ "pending s"]) (simp add: held_def wf_simps)
next
  case (Cons kr ks)
  obtain k r where kr: "kr = (k, r)" by (cases kr)
  have ok: "kring_ok (pending s)" using Cons.prems(1) by (simp add: held_def wf_simps)
  let ?p = "ring_queue (key_byte k r) (pending s)"
  have p: "kring ?p = kring (pending s) @ [key_byte k r]" "kring_ok ?p"
    using ring_queue_items [OF ok, of "key_byte k r"] Cons.prems(3) by simp_all
  then have cnt: "count ?p = count (pending s) + 1"
    using length_kring [of ?p] length_kring [of "pending s"] by simp
  have step: "snd (stowaway_queue_key k r s) = s\<lparr>pending := ?p\<rparr>"
    using Cons.prems kr
    by (auto simp: held_def stowaway_queue_key_def Let_def stowaway_queue_pending_byte_def)
  have "held (s\<lparr>pending := ?p\<rparr>)" using Cons.prems(1) p by (simp add: held_def stowaway_ok_def)
  from Cons.IH [OF this] obtain p' where
    "fold stowaway_step (map (\<lambda>(k, r). Key k r) ks) (s\<lparr>pending := ?p\<rparr>) = s\<lparr>pending := p'\<rparr>"
    "kring_ok p'" "kring p' = kring ?p @ map (\<lambda>(k, r). key_byte k r) ks"
    using Cons.prems cnt by auto
  then show ?case using kr step p by auto
qed

text \<open>Reading the two bytes of an acknowledgement releases the held keys.\<close>

lemma rx_read_ack:
  assumes ok: "stowaway_ok s" and en: "enabled s" and ack: "probe_ack_pending s" "probe_ack_seen s = 0"
    and rx: "kring (rx s) = [0xFA, 0xFD]"
  obtains s' where "rx_read 2 s = ([0xFA, 0xFD], s')" and "stowaway_ok s'" and "enabled s'"
    and "\<not> probe_ack_pending s'" and "connected s'" and "kring (rx s') = kring (pending s)"
    and "kring (pending s') = []"
proof -
  obtain q where q: "ring_take (rx s) = (0xFA, q)" "kring q = [0xFD]" "kring_ok q"
      "stowaway_uart_rx_available s"
    using rx_pop_cons [OF ok en rx] .
  let ?s1 = "s\<lparr>rx := q, probe_ack_seen := 1\<rparr>"
  have pop1: "stowaway_uart_rx_pop s = (0xFA, ?s1)"
    using q ack by (simp add: stowaway_uart_rx_pop_def Let_def)
  have ok1: "stowaway_ok ?s1" "enabled ?s1" "kring (rx ?s1) = [0xFD]"
    using ok en q by (simp_all add: stowaway_ok_def)
  obtain q' where q': "ring_take (rx ?s1) = (0xFD, q')" "kring q' = []" "kring_ok q'"
      "stowaway_uart_rx_available ?s1"
    using rx_pop_cons [OF ok1] .
  let ?s2 = "?s1\<lparr>rx := q', connected := True, probe_ack_pending := False, probe_ack_seen := 0\<rparr>"
  have ok2: "kring_ok (rx ?s2)" "kring_ok (pending ?s2)" using ok q' by (simp_all add: wf_simps)
  obtain p where p: "snd (stowaway_flush_pending_keys ?s2) =
      ?s2\<lparr>rx := fold ring_queue (kring (pending ?s2)) (rx ?s2), pending := p,
        irqs := irqs ?s2 + (if kring (pending ?s2) = [] then 0 else 1)\<rparr>" "kring_ok p" "kring p = []"
    using flush_pending [OF ok2] .
  have pop2: "stowaway_uart_rx_pop ?s1 = (0xFD, snd (stowaway_flush_pending_keys ?s2))"
    using q' ack by (simp add: stowaway_uart_rx_pop_def Let_def)
  have "length (kring (pending s)) \<le> 4096" using ok by (simp add: wf_simps)
  then have "kring (fold ring_queue (kring (pending s)) q') = kring (pending s)"
    "kring_ok (fold ring_queue (kring (pending s)) q')"
    using kr.push_all [OF q'(3), of "kring (pending s)"] q'(2) by simp_all
  moreover have "dtr_asserted s" using ok ack by (simp add: wf_simps)
  ultimately show ?thesis
    using that [of "snd (stowaway_flush_pending_keys ?s2)"] pop1 pop2 p ok en q'
    by (simp add: numeral_2_eq_2 case_prod_unfold Let_def stowaway_ok_def)
qed

section \<open>Properties\<close>

text \<open>C32: A connected dock answers a probe before anything else and loses no key over it. When RTS of a connected
  dock rises after every received byte was read, the driver reads 0xFA 0xFD first and then every key held
  back so far and typed before and after the rise until the acknowledgement is read, in the order typed.\<close>

theorem stowaway_probe_keeps_keys:
  assumes "stowaway_ok s" "enabled s" "connected s" "dtr_asserted s" "\<not> rts_asserted s"
    "\<not> probe_ack_pending s" "kring (rx s) = []"
    and "\<forall>(k, r) \<in> set (ks @ ks'). k \<le> 0x7F" and "count (pending s) + length (ks @ ks') \<le> 4096"
  shows "fst (rx_read (2 + count (pending s) + length (ks @ ks'))
      (fold stowaway_step (map (\<lambda>(k, r). Key k r) ks')
        (stowaway_step (Modem_control True True)
          (fold stowaway_step (map (\<lambda>(k, r). Key k r) ks) s)))) =
    [0xFA, 0xFD] @ map uint (kring (pending s)) @ map (\<lambda>(k, r). uint (key_byte k r)) (ks @ ks')"
proof -
  have h: "held s" using assms by (simp add: held_def)
  obtain p where p: "fold stowaway_step (map (\<lambda>(k, r). Key k r) ks) s = s\<lparr>pending := p\<rparr>"
    "kring_ok p" "kring p = kring (pending s) @ map (\<lambda>(k, r). key_byte k r) ks"
    using queue_keys_held [OF h, of ks] assms(8,9) by auto
  let ?s1 = "s\<lparr>pending := p\<rparr>"
  define s2 where "s2 = stowaway_step (Modem_control True True) ?s1"
  have rx: "kring_ok (rx s)" using assms(1) by (simp add: wf_simps)
  have s2: "enabled s2" "connected s2" "dtr_asserted s2" "probe_ack_pending s2" "probe_ack_seen s2 = 0"
    "kring (rx s2) = [0xFA, 0xFD]" "pending s2 = p" "stowaway_ok s2"
    using assms p rx
    by (simp_all add: s2_def stowaway_uart_note_modem_control_def stowaway_queue_probe_ack_def Let_def
        stowaway_queue_byte_def signal_uart_irq_def ring_queue_items stowaway_ok_def)
  then have "held s2" by (simp add: held_def)
  moreover have "count (pending s2) = count (pending s) + length ks" using p(3) s2(7) length_kring [of p] by simp
  ultimately obtain p' where p': "fold stowaway_step (map (\<lambda>(k, r). Key k r) ks') s2 = s2\<lparr>pending := p'\<rparr>"
    "kring_ok p'" "kring p' = kring p @ map (\<lambda>(k, r). key_byte k r) ks'"
    using queue_keys_held [of s2 ks'] assms(8,9) s2(7) by auto
  let ?s3 = "s2\<lparr>pending := p'\<rparr>"
  have s3: "stowaway_ok ?s3" "enabled ?s3" "probe_ack_pending ?s3" "probe_ack_seen ?s3 = 0"
    "kring (rx ?s3) = [0xFA, 0xFD]"
    using s2 p' by (simp_all add: stowaway_ok_def)
  obtain s4 where s4: "rx_read 2 ?s3 = ([0xFA, 0xFD], s4)" "stowaway_ok s4" "enabled s4"
    "\<not> probe_ack_pending s4" "kring (rx s4) = kring (pending ?s3)"
    using rx_read_ack [OF s3] by metis
  have "kring (rx s4) = kring (pending s) @ map (\<lambda>(k, r). key_byte k r) (ks @ ks')" using s4(5) p'(3) p(3) by simp
  from rx_read_plain [OF s4(2,3,4) this] have
    "fst (rx_read (count (pending s) + length (ks @ ks')) s4) =
      map uint (kring (pending s)) @ map (\<lambda>(k, r). uint (key_byte k r)) (ks @ ks')"
    by (simp add: case_prod_unfold comp_def)
  moreover have "rx_read (2 + n) t =
      (fst (rx_read 2 t) @ fst (rx_read n (snd (rx_read 2 t))), snd (rx_read n (snd (rx_read 2 t))))" for n t
    by (simp add: numeral_2_eq_2 case_prod_unfold Let_def)
  ultimately show ?thesis unfolding p(1) s2_def [symmetric] p'(1) add.assoc using s4(1) by simp
qed

text \<open>A byte still unread when RTS rises is read before the acknowledgement and ends the probe: the keys held
  back are then not released by the acknowledgement.\<close>

lemma stowaway_stale_byte_ends_probe:
  assumes "stowaway_ok s" "enabled s" "probe_ack_pending s" "probe_ack_seen s = 0" "kring (rx s) = b # bs" "b \<noteq> 0xFA"
  shows "\<not> probe_ack_pending (snd (stowaway_uart_rx_pop s))" "pending (snd (stowaway_uart_rx_pop s)) = pending s"
proof -
  obtain q where "ring_take (rx s) = (b, q)" "stowaway_uart_rx_available s" using rx_pop_cons [OF assms(1,2,5)] .
  then show "\<not> probe_ack_pending (snd (stowaway_uart_rx_pop s))" "pending (snd (stowaway_uart_rx_pop s)) = pending s"
    using assms by (simp_all add: stowaway_uart_rx_pop_def Let_def)
qed

theorem stowaway_probe_keeps_keys_witness:
  "fst (rx_read 4 (fold stowaway_step [Key 0x20 True]
     (stowaway_step (Modem_control True True)
       (fold stowaway_step [Key 0x20 False]
         ((zeroed True 0 0)\<lparr>connected := True, dtr_asserted := True\<rparr>))))) = [0xFA, 0xFD, 0x20, 0xA0]"
proof -
  have c: "count key_ring_empty = 0" by (simp add: key_ring_empty_def)
  have four: "Suc (Suc (Suc (Suc 0))) = 4" by simp
  show ?thesis
    using stowaway_probe_keeps_keys [of "(zeroed True 0 0)\<lparr>connected := True, dtr_asserted := True\<rparr>"
        "[(0x20, False)]" "[(0x20, True)]"]
    by (simp add: zeroed_def stowaway_ok_def key_byte_def four c del: rx_read.simps)
qed

text \<open>C33: No byte reaches the serial port unannounced. In every state the dock can be in, whatever
  happens next, either the receive queue only loses bytes from its front or the guest's serial
  interrupt is raised.\<close>

theorem stowaway_no_lost_wakeup:
  "let s = fold stowaway_step es (stowaway_configure en s0) in
     irqs s < irqs (stowaway_step e s) \<or> (\<exists>k. kring (rx (stowaway_step e s)) = drop k (kring (rx s)))"
proof -
  define s where "s = fold stowaway_step es (stowaway_configure en s0)"
  have "stowaway_ok (stowaway_configure en s0)"
    by (simp add: stowaway_configure_def zeroed_def stowaway_ok_def)
  then have ok: "stowaway_ok s" unfolding s_def by (rule stowaway.run_inv)
  have nil: "\<exists>k. [] = drop k (kring (rx s))" by (rule exI [of _ "length (kring (rx s))"]) simp
  have "woken s (stowaway_step e s)"
  proof (cases e)
    case Rx_pop
    then show ?thesis using rx_pop_woken [OF ok] by simp
  next
    case (Key k r)
    then show ?thesis by (simp add: queue_key_woken)
  next
    case (Mapped_key v r)
    then show ?thesis by (simp add: mapped_key_woken)
  next
    case (Modem_control dtr rts)
    then show ?thesis
      by (auto simp: stowaway_uart_note_modem_control_def stowaway_queue_probe_ack_def Let_def
          stowaway_queue_byte_def signal_uart_irq_def intro: woken_irq woken_same)
  qed (use nil in \<open>simp_all add: woken_def stowaway_configure_def stowaway_uart_reset_def zeroed_def
      stowaway_uart_rx_clear_def stowaway_uart_note_port_config_def stowaway_uart_note_modem_wait_def
      stowaway_uart_take_modem_wait_request_def stowaway_uart_take_modem_delta_def exI [of _ 0]\<close>)
  then show ?thesis unfolding woken_def by (auto simp: Let_def simp flip: s_def)
qed

text \<open>C34: Fn follows the chords the host holds. From a dock that is ready to send, with Fn up and the
  receive queue empty, after any presses and releases of mapped keys the bytes sent alternate Fn down
  and Fn up, and Fn is down exactly while more chords were pressed than released.\<close>

theorem stowaway_fn_balanced:
  assumes "ready s" and "kring (rx s) = []" and "fn_refs s = 0"
    and "\<forall>(v, r) \<in> set ks. v AND NOT 0x100 \<le> 0x7F \<and> v AND NOT 0x100 \<noteq> 8"
    and "2 * length ks \<le> 4096"
  shows "fn_trace False (kring (rx (fold stowaway_step (map (\<lambda>(v, r). Mapped_key v r) ks) s))) = Some (0 < held_chords 0 ks)"
proof -
  have "ready t \<Longrightarrow> fn_trace False (kring (rx t)) = Some (0 < fn_refs t) \<Longrightarrow>
      length (kring (rx t)) + 2 * length ks \<le> 4096 \<Longrightarrow>
      fn_trace False (kring (rx (fold stowaway_step (map (\<lambda>(v, r). Mapped_key v r) ks) t))) =
        Some (0 < held_chords (fn_refs t) ks)" for t
    using assms(4)
  proof (induction ks arbitrary: t)
    case Nil
    then show ?case by simp
  next
    case (Cons vr ks)
    obtain v r where vr: "vr = (v, r)" by (cases vr)
    from mapped_key_fn [OF Cons.prems(1), of v r] obtain u where
      u: "snd (stowaway_queue_mapped_key v r t) = u" "ready u"
      "length (kring (rx u)) \<le> length (kring (rx t)) + 2"
      "fn_trace False (kring (rx u)) = Some (0 < fn_refs u)" "fn_refs u = held_chords (fn_refs t) [(v, r)]"
      using Cons.prems vr by auto
    have "held_chords (fn_refs t) (vr # ks) = held_chords (fn_refs u) ks" by (simp add: u(5) vr)
    then show ?case using Cons.IH [of u] Cons.prems vr u by simp
  qed
  moreover have "count (rx s) = 0" using assms(2) by (simp add: kring_empty_iff)
  ultimately show ?thesis using assms by simp
qed

theorem stowaway_fn_balanced_witness:
  "fn_trace False (kring (rx (fold stowaway_step [Mapped_key 0x110 False, Mapped_key 0x111 False, Mapped_key 0x110 True]
     ((zeroed True 0 0)\<lparr>connected := True, dtr_asserted := True, rts_asserted := True\<rparr>)))) = Some True"
  using stowaway_fn_balanced [of "(zeroed True 0 0)\<lparr>connected := True, dtr_asserted := True, rts_asserted := True\<rparr>"
      "[(0x110, False), (0x111, False), (0x110, True)]"]
  by (simp add: ready_def zeroed_def stowaway_ok_def del: fold_simps)

end
