(* ===== verification/Usbf.thy ===== *)
theory Usbf
  imports Byte_Ring
begin

text \<open>
  The USB function controller, \<open>src/hw/usbf.c\<close>: the register window \<open>usb.dll\<close> drives on one side
  and the USB host (usbredir) on the other, with packet queues between them. Guest RAM is a byte
  map in the state; the \<open>ram\<close> callback, which the machine supplies, is the parameter \<open>ram\<close> that
  says whether a range is RAM. The other callbacks (interrupt level changed, IN packet ready,
  control transfer done) only report; the calls are logged in \<open>events\<close>, latest last.
\<close>

section \<open>State\<close>

record usbf_packet =
  pdata :: "u8 list"
  plen :: u8

datatype usbf_event = Irq_changed | In_ready | Ctrl_done int

record usbf_state =
  unit_en :: u8
  dma_en :: u8
  dma_dir :: u8
  dma_hi :: u8
  dma_len :: u8
  dma_addr :: u32
  top_latched :: u8
  top_en :: u8
  core_en :: u8
  ep1_off :: bool
  ep0_ctrl :: u8
  intstat :: "u8 list"
  intmask :: "u8 list"
  ep1_ctrl :: u8
  other :: "u32 list"
  address :: u8
  config :: u8
  desc :: "u8 list"
  setup_fifo :: "u8 list"
  setup_pos :: u8
  ctrl_pending :: bool
  out :: "usbf_packet list"
  out_head :: nat
  out_count :: nat
  out_pos :: u8
  in_stage :: usbf_packet
  in_q :: "usbf_packet list"
  in_head :: nat
  in_count :: nat
  ep3_stage :: usbf_packet
  ep3 :: usbf_packet
  ep3_ready :: bool
  attached :: bool
  gmem :: "nat \<Rightarrow> u8"
  events :: "usbf_event list"

abbreviation (input) USBF_CTRL_OK :: int where "USBF_CTRL_OK \<equiv> 0"
abbreviation (input) USBF_CTRL_STALL :: int where "USBF_CTRL_STALL \<equiv> - 1"
abbreviation (input) USBF_CTRL_PENDING :: int where "USBF_CTRL_PENDING \<equiv> 1"

section \<open>Interrupts\<close>

definition usbf_word :: "u32 \<Rightarrow> nat" where
  "usbf_word off = unat ((off - 0x1300) div 4)"

definition usbf_notify :: "usbf_state \<Rightarrow> usbf_state" where
  "usbf_notify u = u\<lparr>events := events u @ [Irq_changed]\<rparr>"

definition usbf_out_pending :: "usbf_state \<Rightarrow> bool" where
  "usbf_out_pending u \<longleftrightarrow> out_count u \<noteq> 0"

definition usbf_intstat :: "usbf_state \<Rightarrow> nat \<Rightarrow> u8" where
  "usbf_intstat u i =
     (let v = intstat u ! i;
          v = (if i = 0 \<and> in_count u = 0 \<and> \<not> ep1_off u then v OR 0x04 else v)
      in if i = 1 \<and> usbf_out_pending u then v OR 0x04 else v)"

definition usbf_core_pending :: "usbf_state \<Rightarrow> bool" where
  "usbf_core_pending u \<longleftrightarrow> list_ex (\<lambda>i. usbf_intstat u i AND NOT (intmask u ! i) \<noteq> 0) [0..<3]"

definition usbf_top_stat :: "usbf_state \<Rightarrow> u8" where
  "usbf_top_stat u =
     (let v = top_latched u;
          v = (if ep1_ctrl u AND 0x80 \<noteq> 0 \<and> in_count u < 2 then v OR 0x08 else v);
          v = (if usbf_out_pending u then v OR 0x04 else v)
      in if usbf_core_pending u then v OR 0x10 else v)"

definition usbf_irq_pending :: "usbf_state \<Rightarrow> bool" where
  "usbf_irq_pending u \<longleftrightarrow> unit_en u \<noteq> 0 \<and> usbf_top_stat u AND top_en u \<noteq> 0"

section \<open>Resets\<close>

definition usbf_flush_fifos :: "usbf_state \<Rightarrow> usbf_state" where
  "usbf_flush_fifos u =
     u\<lparr>out_head := 0, out_count := 0, out_pos := 0, in_head := 0, in_count := 0,
       in_stage := (in_stage u)\<lparr>plen := 0\<rparr>, ep3_stage := (ep3_stage u)\<lparr>plen := 0\<rparr>,
       ep3_ready := False, setup_pos := 0\<rparr>"

definition usbf_finish_control :: "int \<Rightarrow> usbf_state \<Rightarrow> usbf_state" where
  "usbf_finish_control status u =
     (if \<not> ctrl_pending u then u
      else u\<lparr>ctrl_pending := False, events := events u @ [Ctrl_done status]\<rparr>)"

definition zero_packet :: usbf_packet where
  "zero_packet = \<lparr>pdata = replicate 64 0, plen = 0\<rparr>"

text \<open>\<open>memset\<close> and the three masks; the callbacks and what lies behind them stay.\<close>

definition usbf_init :: "usbf_state \<Rightarrow> usbf_state" where
  "usbf_init u =
     \<lparr>unit_en = 0, dma_en = 0, dma_dir = 0, dma_hi = 0, dma_len = 0, dma_addr = 0, top_latched = 0,
      top_en = 0, core_en = 0, ep1_off = False, ep0_ctrl = 0, intstat = [0, 0, 0],
      intmask = [0xFF, 0xFF, 0xFF], ep1_ctrl = 0, other = replicate 256 0, address = 0, config = 0,
      desc = replicate 57 0, setup_fifo = replicate 8 0, setup_pos = 0, ctrl_pending = False,
      out = replicate 4 zero_packet, out_head = 0, out_count = 0, out_pos = 0,
      in_stage = zero_packet, in_q = replicate 2 zero_packet, in_head = 0, in_count = 0,
      ep3_stage = zero_packet, ep3 = zero_packet, ep3_ready = False, attached = False,
      gmem = gmem u, events = events u\<rparr>"

definition usbf_reset :: "usbf_state \<Rightarrow> usbf_state" where
  "usbf_reset u =
     usbf_notify ((usbf_init (usbf_finish_control USBF_CTRL_STALL u))\<lparr>attached := attached u\<rparr>)"

definition usbf_handles :: "u32 \<Rightarrow> bool" where
  "usbf_handles off \<longleftrightarrow> off \<ge> 0x1300 \<and> off < 0x1700"

section \<open>Guest side\<close>

definition usbf_out_byte :: "usbf_state \<Rightarrow> u8 \<times> usbf_state" where
  "usbf_out_byte u =
     (if \<not> usbf_out_pending u then (0, u)
      else
        let p = out u ! out_head u;
            b = (if out_pos u < plen p then pdata p ! unat (out_pos u) else 0);
            u = u\<lparr>out_pos := out_pos u + 1\<rparr>
        in (b, if out_pos u \<ge> plen p
               then u\<lparr>out_head := (out_head u + 1) mod 4, out_count := out_count u - 1, out_pos := 0\<rparr>
               else u))"

definition usbf_out_remaining :: "usbf_state \<Rightarrow> u8" where
  "usbf_out_remaining u = (if \<not> usbf_out_pending u then 0 else plen (out u ! out_head u) - out_pos u)"

definition usbf_setup_pop :: "usbf_state \<Rightarrow> u8 \<times> usbf_state" where
  "usbf_setup_pop u =
     (let b = setup_fifo u ! unat (setup_pos u AND 7) in
      if setup_pos u < 8 then
        let u = u\<lparr>setup_pos := setup_pos u + 1\<rparr>
        in (b, if setup_pos u = 8
               then usbf_notify (u\<lparr>intstat := (intstat u)[1 := intstat u ! 1 AND NOT 0x01]\<rparr>)
               else u)
      else (b, u))"

definition usbf_read :: "u32 \<Rightarrow> usbf_state \<Rightarrow> u32 \<times> usbf_state" where
  "usbf_read off u =
     (let off = off AND NOT 3;
          val = (\<lambda>v :: u8. (ucast v :: u32, u))
      in if off \<ge> 0x153C \<and> off < 0x153C + 4 * 57 then val (desc u ! unat ((off - 0x153C) div 4))
         else if off = 0x1300 then val (unit_en u)
         else if off = 0x1308 then val (dma_en u)
         else if off = 0x130C then (0, u)
         else if off = 0x1310 then val (dma_dir u)
         else if off = 0x1318 then val (dma_hi u)
         else if off = 0x131C then val (dma_len u)
         else if off = 0x1320 then (dma_addr u AND 0x1FFFFFFF, u)
         else if off = 0x1324 then val (usbf_top_stat u)
         else if off = 0x132C then val (top_en u)
         else if off = 0x1444 then val (core_en u)
         else if off = 0x1450 then ((if config u \<noteq> 0 then 0x80 else 0), u)
         else if off = 0x1454 then
           ((if usbf_out_pending u then 0x08 else 0) OR (if ep3_ready u then 0x10 else 0), u)
         else if off = 0x1460 then val (ep0_ctrl u)
         else if off = 0x1464 then val (usbf_intstat u 0)
         else if off = 0x1468 then val (usbf_intstat u 1)
         else if off = 0x146C then val (usbf_intstat u 2)
         else if off = 0x1470 then val (intmask u ! 0)
         else if off = 0x1474 then val (intmask u ! 1)
         else if off = 0x1478 then val (intmask u ! 2)
         else if off = 0x1488 then val (ep1_ctrl u)
         else if off = 0x148C then (0, u)
         else if off = 0x1490 then (0, u)
         else if off = 0x14CC then (case usbf_setup_pop u of (b, u) \<Rightarrow> (ucast b, u))
         else if off = 0x14D4 then (case usbf_out_byte u of (b, u) \<Rightarrow> (ucast b, usbf_notify u))
         else if off = 0x14D8 then val (usbf_out_remaining u)
         else if off = 0x1530 then val (address u)
         else if off = 0x1534 then val (config u)
         else (other u ! usbf_word off, u))"

definition usbf_queue_in :: "usbf_state \<Rightarrow> usbf_state" where
  "usbf_queue_in u =
     (let u = (if in_count u < 2
               then u\<lparr>in_q := (in_q u)[(in_head u + in_count u) mod 2 := in_stage u],
                      in_count := in_count u + 1\<rparr>
               else u);
          u = u\<lparr>in_stage := (in_stage u)\<lparr>plen := 0\<rparr>\<rparr>
      in u\<lparr>events := events u @ [In_ready]\<rparr>)"

text \<open>The receive loop: at most \<open>n\<close> bytes from position \<open>i\<close>, stored when the range is RAM.\<close>

fun rx_dma :: "bool \<Rightarrow> nat \<Rightarrow> nat \<Rightarrow> nat \<Rightarrow> usbf_state \<Rightarrow> usbf_state" where
  "rx_dma is_ram pa i 0 u = u"
| "rx_dma is_ram pa i (Suc n) u =
     (if usbf_out_pending u then
        let (b, u) = usbf_out_byte u;
            u = (if is_ram then u\<lparr>gmem := (gmem u)(pa + i := b)\<rparr> else u)
        in rx_dma is_ram pa (i + 1) n u
      else u)"

definition read_mem :: "(nat \<Rightarrow> u8) \<Rightarrow> nat \<Rightarrow> nat \<Rightarrow> u8 list" where
  "read_mem m pa n = map (\<lambda>i. m (pa + i)) [0..<n]"

definition usbf_dma :: "(nat \<Rightarrow> nat \<Rightarrow> bool) \<Rightarrow> usbf_state \<Rightarrow> usbf_state" where
  "usbf_dma ram u =
     (let pa = unat (dma_addr u AND 0x1FFFFFFF);
          n = (if unat (dma_len u) > 64 then 64 else unat (dma_len u));
          is_ram = (n \<noteq> 0 \<and> ram pa n)
      in if dma_dir u AND 0x01 \<noteq> 0 then
           let u = u\<lparr>in_stage := (in_stage u)\<lparr>plen := of_nat n\<rparr>\<rparr>;
               u = (if is_ram
                    then u\<lparr>in_stage := (in_stage u)\<lparr>pdata := read_mem (gmem u) pa n @
                             drop n (pdata (in_stage u))\<rparr>\<rparr>
                    else u);
               u = (if n = 64 then usbf_queue_in u else u)
           in u\<lparr>top_latched := top_latched u OR 0x02\<rparr>
         else
           let u = rx_dma is_ram pa 0 n u
           in u\<lparr>top_latched := top_latched u OR 0x01\<rparr>)"

definition usbf_commit :: "u8 \<Rightarrow> usbf_state \<Rightarrow> usbf_state" where
  "usbf_commit val u =
     (let u = (if val AND 0x01 \<noteq> 0
               then usbf_finish_control USBF_CTRL_OK (u\<lparr>intstat := (intstat u)[2 := intstat u ! 2 OR 0x08]\<rparr>)
               else u);
          u = (if val AND 0x02 \<noteq> 0 then usbf_queue_in u else u)
      in if val AND 0x04 \<noteq> 0
         then let u = u\<lparr>ep3 := ep3_stage u, ep3_ready := True, ep3_stage := (ep3_stage u)\<lparr>plen := 0\<rparr>\<rparr>
              in u\<lparr>events := events u @ [In_ready]\<rparr>
         else u)"

definition usbf_unit_reset :: "usbf_state \<Rightarrow> usbf_state" where
  "usbf_unit_reset u =
     (usbf_flush_fifos (usbf_finish_control USBF_CTRL_STALL u))
       \<lparr>intstat := [0, 0, 0], top_latched := 0, ep1_off := False\<rparr>"

definition ep3_put :: "u8 \<Rightarrow> usbf_state \<Rightarrow> usbf_state" where
  "ep3_put b u =
     (let p = ep3_stage u in
      if plen p < 64
      then u\<lparr>ep3_stage := \<lparr>pdata = (pdata p)[unat (plen p) := b], plen = plen p + 1\<rparr>\<rparr> else u)"

definition usbf_write :: "(nat \<Rightarrow> nat \<Rightarrow> bool) \<Rightarrow> u32 \<Rightarrow> u32 \<Rightarrow> usbf_state \<Rightarrow> usbf_state" where
  "usbf_write ram off val u =
     (let b = ucast val :: u8;
          off = off AND NOT 3
      in if off \<ge> 0x153C \<and> off < 0x153C + 4 * 57
         then u\<lparr>desc := (desc u)[unat ((off - 0x153C) div 4) := b]\<rparr>
         else usbf_notify
           (if off = 0x1300 then u\<lparr>unit_en := b AND 1\<rparr>
            else if off = 0x1308 then u\<lparr>dma_en := b\<rparr>
            else if off = 0x130C then (if b AND 1 \<noteq> 0 \<and> b AND 0x10 = 0 then usbf_dma ram u else u)
            else if off = 0x1310 then u\<lparr>dma_dir := b\<rparr>
            else if off = 0x1318 then u\<lparr>dma_hi := b\<rparr>
            else if off = 0x131C then u\<lparr>dma_len := b\<rparr>
            else if off = 0x1320 then u\<lparr>dma_addr := val\<rparr>
            else if off = 0x1328 then u\<lparr>top_latched := top_latched u AND NOT b\<rparr>
            else if off = 0x132C then u\<lparr>top_en := b\<rparr>
            else if off = 0x1338 then (if b AND 1 \<noteq> 0 then usbf_unit_reset u else u)
            else if off = 0x1444 then u\<lparr>core_en := b AND 1\<rparr>
            else if off = 0x1448 then (if b AND 0x02 \<noteq> 0 then u\<lparr>ep1_off := True\<rparr> else u)
            else if off = 0x1460 then
              (if b AND 0x08 \<noteq> 0 \<and> ctrl_pending u then usbf_finish_control USBF_CTRL_STALL u else u)
                \<lparr>ep0_ctrl := b AND NOT 0x08\<rparr>
            else if off = 0x147C then u\<lparr>intstat := (intstat u)[0 := intstat u ! 0 AND b]\<rparr>
            else if off = 0x1480 then u\<lparr>intstat := (intstat u)[1 := intstat u ! 1 AND b]\<rparr>
            else if off = 0x1484 then u\<lparr>intstat := (intstat u)[2 := intstat u ! 2 AND b]\<rparr>
            else if off = 0x1470 then u\<lparr>intmask := (intmask u)[0 := b]\<rparr>
            else if off = 0x1474 then u\<lparr>intmask := (intmask u)[1 := b]\<rparr>
            else if off = 0x1478 then u\<lparr>intmask := (intmask u)[2 := b]\<rparr>
            else if off = 0x1488 then u\<lparr>ep1_ctrl := b\<rparr>
            else if off = 0x148C then
              (if b AND 0x04 \<noteq> 0 then u\<lparr>in_stage := (in_stage u)\<lparr>plen := 0\<rparr>\<rparr> else u)
            else if off = 0x1490 then usbf_commit b u
            else if off = 0x14E0 then ep3_put b u
            else if off = 0x1530 \<or> off = 0x1534 \<or> off = 0x1324 \<or> off = 0x14CC \<or> off = 0x14D4 \<or>
                    off = 0x14D8 then u
            else u\<lparr>other := (other u)[usbf_word off := val]\<rparr>))"

section \<open>Host side\<close>

definition usbf_descriptors_ready :: "usbf_state \<Rightarrow> bool" where
  "usbf_descriptors_ready u \<longleftrightarrow>
     unit_en u \<noteq> 0 \<and> desc u ! 0 = 18 \<and> desc u ! 1 = 1 \<and> desc u ! 18 = 9 \<and> desc u ! 19 = 2"

definition usbf_host_attach :: "bool \<Rightarrow> usbf_state \<Rightarrow> usbf_state" where
  "usbf_host_attach att u =
     (if attached u = att then u
      else
        let u = u\<lparr>attached := att\<rparr>;
            u = (if \<not> att
                 then (usbf_flush_fifos (usbf_finish_control USBF_CTRL_STALL u))\<lparr>address := 0, config := 0\<rparr>
                 else u)
        in usbf_notify u)"

definition usbf_host_bus_reset :: "usbf_state \<Rightarrow> usbf_state" where
  "usbf_host_bus_reset u =
     (let u = (usbf_flush_fifos (usbf_finish_control USBF_CTRL_STALL u))\<lparr>address := 0, config := 0\<rparr>
      in usbf_notify (u\<lparr>intstat := (intstat u)[2 := intstat u ! 2 OR 0x02]\<rparr>))"

definition usbf_descriptor_copy :: "usbf_state \<Rightarrow> u8 \<Rightarrow> nat \<Rightarrow> u8 list" where
  "usbf_descriptor_copy u type max_len =
     (if type = 1 \<or> type = 2 then
        let start = (if type = 1 then 0 else 18);
            n = (if type = 1 then unat (desc u ! 0) else unat (desc u ! 20) + 256 * unat (desc u ! 21));
            n = (if start + n > 57 then 57 - start else n);
            n = (if n > max_len then max_len else n)
        in take n (drop start (desc u))
      else [])"

text \<open>The result is the status, the data stage and the new state.\<close>

definition usbf_standard_request :: "u8 list \<Rightarrow> usbf_state \<Rightarrow> int \<times> u8 list \<times> usbf_state" where
  "usbf_standard_request s u =
     (let rt = s ! 0; req = s ! 1;
          value = (ucast (s ! 2) OR push_bit 8 (ucast (s ! 3))) :: u16;
          wlen = unat (s ! 6) + 256 * unat (s ! 7)
      in if req = 0x06 then
           (if rt \<noteq> 0x80 then (USBF_CTRL_STALL, [], u)
            else
              let d = usbf_descriptor_copy u (ucast (drop_bit 8 value)) wlen
              in if d = [] then (USBF_CTRL_STALL, [], u) else (USBF_CTRL_OK, d, u))
         else if req = 0x05 then (USBF_CTRL_OK, [], u\<lparr>address := ucast (value AND 0x7F)\<rparr>)
         else if req = 0x09 then
           (if value > ucast (desc u ! 17) then (USBF_CTRL_STALL, [], u)
            else (USBF_CTRL_OK, [],
                  usbf_notify (u\<lparr>config := ucast value, intstat := (intstat u)[2 := intstat u ! 2 OR 0x04]\<rparr>)))
         else if req = 0x08 then (USBF_CTRL_OK, if wlen \<noteq> 0 then [config u] else [], u)
         else if req = 0x00 then
           (USBF_CTRL_OK,
            if wlen \<ge> 2 then [if rt = 0x80 \<and> desc u ! 25 AND 0x40 \<noteq> 0 then 1 else 0, 0] else [], u)
         else if req = 0x0A then (USBF_CTRL_OK, if wlen \<noteq> 0 then [0] else [], u)
         else if req = 0x0B then (if value = 0 then USBF_CTRL_OK else USBF_CTRL_STALL, [], u)
         else if req = 0x01 \<or> req = 0x03 then (USBF_CTRL_OK, [], u)
         else (USBF_CTRL_STALL, [], u))"

definition usbf_host_control :: "u8 list \<Rightarrow> usbf_state \<Rightarrow> int \<times> u8 list \<times> usbf_state" where
  "usbf_host_control s u =
     (if \<not> attached u \<or> \<not> usbf_descriptors_ready u then (USBF_CTRL_STALL, [], u)
      else if s ! 0 AND 0x60 = 0 then usbf_standard_request s u
      else
        let u = (if ctrl_pending u then usbf_finish_control USBF_CTRL_STALL u else u);
            u = u\<lparr>setup_fifo := take 8 s, setup_pos := 0, ctrl_pending := True,
                  intstat := (intstat u)[1 := intstat u ! 1 OR (0x01 OR 0x10 OR 0x20)]\<rparr>
        in (USBF_CTRL_PENDING, [], usbf_notify u))"

definition usbf_host_out :: "u8 list \<Rightarrow> usbf_state \<Rightarrow> bool \<times> usbf_state" where
  "usbf_host_out dat u =
     (if \<not> attached u \<or> config u = 0 \<or> length dat > 64 \<or> out_count u \<ge> 4 then (False, u)
      else if dat = [] then (True, u)
      else
        let slot = (out_head u + out_count u) mod 4;
            p = out u ! slot;
            p = \<lparr>pdata = dat @ drop (length dat) (pdata p), plen = of_nat (length dat)\<rparr>
        in (True, usbf_notify (u\<lparr>out := (out u)[slot := p], out_count := out_count u + 1\<rparr>)))"

text \<open>A negative acknowledge is \<open>None\<close>.\<close>

definition usbf_host_in :: "nat \<Rightarrow> usbf_state \<Rightarrow> u8 list option \<times> usbf_state" where
  "usbf_host_in max_len u =
     (if \<not> attached u \<or> config u = 0 \<or> in_count u = 0 then (None, u)
      else
        let p = in_q u ! in_head u;
            n = (if unat (plen p) < max_len then unat (plen p) else max_len)
        in (Some (take n (pdata p)),
            usbf_notify (u\<lparr>in_head := (in_head u + 1) mod 2, in_count := in_count u - 1\<rparr>)))"

definition usbf_host_intr_in :: "nat \<Rightarrow> usbf_state \<Rightarrow> u8 list option \<times> usbf_state" where
  "usbf_host_intr_in max_len u =
     (if \<not> attached u \<or> config u = 0 \<or> \<not> ep3_ready u then (None, u)
      else
        let n = (if unat (plen (ep3 u)) < max_len then unat (plen (ep3 u)) else max_len)
        in (Some (take n (pdata (ep3 u))), usbf_notify (u\<lparr>ep3_ready := False\<rparr>)))"

section \<open>Well-formed states\<close>

definition pk_ok :: "usbf_packet \<Rightarrow> bool" where
  "pk_ok p \<longleftrightarrow> length (pdata p) = 64 \<and> unat (plen p) \<le> 64"

definition bytes_of :: "usbf_packet \<Rightarrow> u8 list" where
  "bytes_of p = take (unat (plen p)) (pdata p)"

definition regs_ok :: "usbf_state \<Rightarrow> bool" where
  [wf_simps]: "regs_ok u \<longleftrightarrow> length (intstat u) = 3 \<and> length (intmask u) = 3 \<and> length (other u) = 256 \<and>
     length (desc u) = 57 \<and> length (setup_fifo u) = 8 \<and> fits 2 (top_latched u)"

text \<open>Packets the guest can still read are not empty, and the read position is inside the first.\<close>

definition outs_ok :: "usbf_state \<Rightarrow> bool" where
  [wf_simps]: "outs_ok u \<longleftrightarrow> length (out u) = 4 \<and> (\<forall>p \<in> set (out u). pk_ok p) \<and> out_head u < 4 \<and>
     out_count u \<le> 4 \<and> (\<forall>p \<in> set (ring_list (out u) (out_head u) (out_count u)). plen p \<noteq> 0) \<and>
     (if out_count u = 0 then out_pos u = 0 else out_pos u < plen (out u ! out_head u))"

definition ins_ok :: "usbf_state \<Rightarrow> bool" where
  [wf_simps]: "ins_ok u \<longleftrightarrow> length (in_q u) = 2 \<and> (\<forall>p \<in> set (in_q u). pk_ok p) \<and> in_head u < 2 \<and>
     in_count u \<le> 2 \<and> pk_ok (in_stage u) \<and> pk_ok (ep3_stage u) \<and> pk_ok (ep3 u)"

definition usbf_ok :: "usbf_state \<Rightarrow> bool" where
  "usbf_ok u \<longleftrightarrow> regs_ok u \<and> outs_ok u \<and> ins_ok u"

text \<open>What the guest has still to read, and what the host has.\<close>

definition out_stream :: "usbf_state \<Rightarrow> u8 list" where
  "out_stream u =
     drop (unat (out_pos u)) (concat (map bytes_of (ring_list (out u) (out_head u) (out_count u))))"

definition in_packets :: "usbf_state \<Rightarrow> u8 list list" where
  "in_packets u = map bytes_of (ring_list (in_q u) (in_head u) (in_count u))"

lemma pk_ok_zero [simp]: "pk_ok zero_packet" "pk_ok p \<Longrightarrow> pk_ok (p\<lparr>plen := 0\<rparr>)"
  by (simp_all add: pk_ok_def zero_packet_def)

lemma length_bytes_of: "pk_ok p \<Longrightarrow> length (bytes_of p) = unat (plen p)"
  by (simp add: pk_ok_def bytes_of_def)

lemma ok_updates [simp]:
  "outs_ok (u\<lparr>events := es\<rparr>) = outs_ok u" "ins_ok (u\<lparr>events := es\<rparr>) = ins_ok u"
  "regs_ok (u\<lparr>events := es\<rparr>) = regs_ok u" "out_stream (u\<lparr>events := es\<rparr>) = out_stream u"
  "in_packets (u\<lparr>events := es\<rparr>) = in_packets u"
  "outs_ok (u\<lparr>ctrl_pending := c\<rparr>) = outs_ok u" "ins_ok (u\<lparr>ctrl_pending := c\<rparr>) = ins_ok u"
  "regs_ok (u\<lparr>ctrl_pending := c\<rparr>) = regs_ok u"
  "outs_ok (u\<lparr>intstat := is\<rparr>) = outs_ok u" "ins_ok (u\<lparr>intstat := is\<rparr>) = ins_ok u"
  "outs_ok (u\<lparr>gmem := m\<rparr>) = outs_ok u" "ins_ok (u\<lparr>gmem := m\<rparr>) = ins_ok u"
  "regs_ok (u\<lparr>gmem := m\<rparr>) = regs_ok u" "out_stream (u\<lparr>gmem := m\<rparr>) = out_stream u"
  "outs_ok (u\<lparr>top_latched := t\<rparr>) = outs_ok u" "ins_ok (u\<lparr>top_latched := t\<rparr>) = ins_ok u"
  by (simp_all add: wf_simps out_stream_def in_packets_def)

lemma usbf_notify_ok [simp]: "usbf_ok (usbf_notify u) = usbf_ok u"
  by (simp add: usbf_notify_def usbf_ok_def)

lemma usbf_finish_ok [simp]: "usbf_ok (usbf_finish_control st u) = usbf_ok u"
  by (simp add: usbf_finish_control_def usbf_ok_def)

lemma usbf_flush_ok: "usbf_ok u \<Longrightarrow> usbf_ok (usbf_flush_fifos u)"
  by (simp add: usbf_flush_fifos_def usbf_ok_def wf_simps)

lemma usbf_init_ok [simp]: "usbf_ok (usbf_init u)"
  by (simp add: usbf_init_def usbf_ok_def wf_simps)

section \<open>The OUT pipe is a byte stream\<close>

lemma out_ring_head:
  assumes "outs_ok u" and "out_count u \<noteq> 0"
  shows "ring_list (out u) (out_head u) (out_count u) =
    out u ! out_head u # ring_list (out u) ((out_head u + 1) mod 4) (out_count u - 1)"
  using assms ring_list_pop [of "out_count u" "out u" "out_head u"] by (simp add: wf_simps)

lemma usbf_out_byte_stream:
  assumes ok: "outs_ok u" and p: "usbf_out_pending u"
  shows "out_stream u = fst (usbf_out_byte u) # out_stream (snd (usbf_out_byte u))"
    and "outs_ok (snd (usbf_out_byte u))"
proof -
  let ?p = "out u ! out_head u" and ?rest = "ring_list (out u) ((out_head u + 1) mod 4) (out_count u - 1)"
  have c: "out_count u \<noteq> 0" using p by (simp add: usbf_out_pending_def)
  note ring = out_ring_head [OF ok c]
  have o: "length (out u) = 4" "out_head u < 4" "out_count u \<le> 4" "out_pos u < plen ?p"
    "\<forall>p \<in> set (out u). pk_ok p"
    using ok c by (simp_all add: wf_simps)
  then have pk: "pk_ok ?p" by simp
  have pos: "unat (out_pos u) < unat (plen ?p)" using o by (simp add: word_less_nat_alt)
  have inc: "unat (out_pos u + 1) = unat (out_pos u) + 1"
    using pos pk by (simp add: pk_ok_def unat_word_ariths(1))
  have str: "out_stream u = drop (unat (out_pos u)) (bytes_of ?p @ concat (map bytes_of ?rest))"
    by (simp add: out_stream_def ring)
  have hd: "drop (unat (out_pos u)) (bytes_of ?p) =
      pdata ?p ! unat (out_pos u) # drop (unat (out_pos u) + 1) (bytes_of ?p)"
    using pos pk length_bytes_of [OF pk] Cons_nth_drop_Suc [of "unat (out_pos u)" "bytes_of ?p"]
    by (simp add: bytes_of_def)
  have byte: "fst (usbf_out_byte u) = pdata ?p ! unat (out_pos u)"
    using p o by (simp add: usbf_out_byte_def Let_def)
  have nz: "\<forall>p \<in> set ?rest. plen p \<noteq> 0" using ok ring by (simp add: wf_simps)
  show "out_stream u = fst (usbf_out_byte u) # out_stream (snd (usbf_out_byte u))"
    and "outs_ok (snd (usbf_out_byte u))"
  proof (atomize (full), cases "plen ?p \<le> out_pos u + 1")
    case True
    let ?v = "u\<lparr>out_head := (out_head u + 1) mod 4, out_count := out_count u - 1, out_pos := 0\<rparr>"
    have v: "snd (usbf_out_byte u) = ?v"
      using p True by (simp add: usbf_out_byte_def Let_def)
    have "unat (out_pos u) + 1 = unat (plen ?p)"
      using True pos inc by (simp add: word_le_nat_alt)
    then have "out_stream u = pdata ?p ! unat (out_pos u) # concat (map bytes_of ?rest)"
      unfolding str drop_append hd using length_bytes_of [OF pk] pos by simp
    moreover have "out_stream ?v = concat (map bytes_of ?rest)" by (simp add: out_stream_def)
    moreover have "0 < plen (out u ! ((out_head u + 1) mod 4))" if "out_count u - 1 \<noteq> 0"
    proof -
      have "out u ! ((out_head u + 1) mod 4) \<in> set ?rest"
        using ring_list_pop [of "out_count u - 1" "out u" "(out_head u + 1) mod 4"] that o by simp
      then show ?thesis using nz by (simp add: word_neq_0_conv)
    qed
    ultimately show "out_stream u = fst (usbf_out_byte u) # out_stream (snd (usbf_out_byte u)) \<and>
        outs_ok (snd (usbf_out_byte u))"
      unfolding v byte using ok nz o by (auto simp: wf_simps)
  next
    case False
    have v: "snd (usbf_out_byte u) = u\<lparr>out_pos := out_pos u + 1\<rparr>"
      using p False by (simp add: usbf_out_byte_def Let_def)
    have "out_stream (u\<lparr>out_pos := out_pos u + 1\<rparr>) =
        drop (unat (out_pos u) + 1) (bytes_of ?p) @ concat (map bytes_of ?rest)"
      using False length_bytes_of [OF pk] inc
      by (simp add: out_stream_def ring word_le_nat_alt)
    moreover have "out_stream u = pdata ?p ! unat (out_pos u) #
        drop (unat (out_pos u) + 1) (bytes_of ?p) @ concat (map bytes_of ?rest)"
      unfolding str drop_append hd using length_bytes_of [OF pk] pos by simp
    ultimately show "out_stream u = fst (usbf_out_byte u) # out_stream (snd (usbf_out_byte u)) \<and>
        outs_ok (snd (usbf_out_byte u))"
      unfolding v byte using ok c False by (simp add: wf_simps)
  qed
qed

lemma out_stream_empty: "outs_ok u \<Longrightarrow> usbf_out_pending u \<longleftrightarrow> out_stream u \<noteq> []"
  using usbf_out_byte_stream(1) [of u]
  by (cases "usbf_out_pending u") (auto simp: usbf_out_pending_def out_stream_def)

lemma usbf_out_byte_frame [simp]:
  "regs_ok (snd (usbf_out_byte u)) = regs_ok u" "ins_ok (snd (usbf_out_byte u)) = ins_ok u"
  "gmem (snd (usbf_out_byte u)) = gmem u" "events (snd (usbf_out_byte u)) = events u"
  "ctrl_pending (snd (usbf_out_byte u)) = ctrl_pending u"
  "top_latched (snd (usbf_out_byte u)) = top_latched u"
  by (simp_all add: usbf_out_byte_def Let_def wf_simps)

text \<open>Bytes stored at \<open>pa\<close>.\<close>

definition store_bytes :: "nat \<Rightarrow> u8 list \<Rightarrow> (nat \<Rightarrow> u8) \<Rightarrow> nat \<Rightarrow> u8" where
  "store_bytes pa bs m a = (if pa \<le> a \<and> a < pa + length bs then bs ! (a - pa) else m a)"

lemma store_bytes_Nil [simp]: "store_bytes pa [] m = m"
  by (auto simp: store_bytes_def fun_eq_iff)

lemma store_bytes_Cons: "store_bytes pa (b # bs) m = store_bytes (Suc pa) bs (m(pa := b))"
  by (auto simp: store_bytes_def fun_eq_iff nth_Cons' not_less_eq_eq)

lemma rx_dma_stream:
  "outs_ok u \<Longrightarrow> outs_ok (rx_dma r pa i n u) \<and>
    out_stream (rx_dma r pa i n u) = drop n (out_stream u) \<and>
    gmem (rx_dma r pa i n u) =
      (if r then store_bytes (pa + i) (take n (out_stream u)) (gmem u) else gmem u) \<and>
    events (rx_dma r pa i n u) = events u \<and> ctrl_pending (rx_dma r pa i n u) = ctrl_pending u \<and>
    top_latched (rx_dma r pa i n u) = top_latched u \<and>
    regs_ok (rx_dma r pa i n u) = regs_ok u \<and> ins_ok (rx_dma r pa i n u) = ins_ok u"
proof (induction n arbitrary: i u)
  case 0
  then show ?case by simp
next
  case (Suc n)
  show ?case
  proof (cases "usbf_out_pending u")
    case False
    then have "out_stream u = []" using out_stream_empty [OF Suc.prems] by simp
    then show ?thesis using False Suc.prems by simp
  next
    case True
    obtain b v where bv: "usbf_out_byte u = (b, v)" by (cases "usbf_out_byte u")
    note s = usbf_out_byte_stream [OF Suc.prems True, unfolded bv fst_conv snd_conv]
    note fr = usbf_out_byte_frame [of u, unfolded bv fst_conv snd_conv]
    define w where "w = (if r then v\<lparr>gmem := (gmem v)(pa + i := b)\<rparr> else v)"
    have w: "outs_ok w" "out_stream w = out_stream v" "events w = events u"
      "ctrl_pending w = ctrl_pending u" "top_latched w = top_latched u"
      "regs_ok w = regs_ok u" "ins_ok w = ins_ok u"
      "gmem w = (if r then (gmem u)(pa + i := b) else gmem u)"
      using s fr by (simp_all add: w_def)
    have step: "rx_dma r pa i (Suc n) u = rx_dma r pa (Suc i) n w" using True bv by (simp add: w_def)
    show ?thesis
      unfolding step using Suc.IH [OF w(1), of "Suc i"] w s(1)
      by (simp add: store_bytes_Cons)
  qed
qed

lemma host_out_stream:
  assumes ok: "usbf_ok u"
  shows "usbf_ok (snd (usbf_host_out d u))"
    and "out_stream (snd (usbf_host_out d u)) =
      out_stream u @ (if fst (usbf_host_out d u) then d else [])"
proof -
  have "usbf_ok (snd (usbf_host_out d u)) \<and> out_stream (snd (usbf_host_out d u)) =
      out_stream u @ (if fst (usbf_host_out d u) then d else [])"
  proof (cases "\<not> attached u \<or> config u = 0 \<or> length d > 64 \<or> out_count u \<ge> 4 \<or> d = []")
    case True
    then show ?thesis using ok by (auto simp: usbf_host_out_def)
  next
    case False
    let ?h = "out_head u" and ?c = "out_count u"
    define slot where "slot = (?h + ?c) mod 4"
    define p where "p = \<lparr>pdata = d @ drop (length d) (pdata (out u ! slot)), plen = of_nat (length d)\<rparr>"
    have o: "length (out u) = 4" "?h < 4" "\<forall>p \<in> set (out u). pk_ok p" "?c < 4"
      using ok False by (simp_all add: usbf_ok_def wf_simps)
    have slot: "slot < 4" by (simp add: slot_def)
    then have "pk_ok (out u ! slot)" using o by simp
    then have pk: "pk_ok p" "bytes_of p = d" "plen p \<noteq> 0"
      using False by (simp_all add: pk_ok_def bytes_of_def p_def unat_of_nat word_unat_eq_iff)
    have ring: "ring_list ((out u)[slot := p]) ?h (Suc ?c) = ring_list (out u) ?h ?c @ [p]"
      using ring_list_push [of ?c "out u" ?h p] o by (simp add: slot_def)
    have step: "usbf_host_out d u =
        (True, usbf_notify (u\<lparr>out := (out u)[slot := p], out_count := Suc ?c\<rparr>))"
      using False by (simp add: usbf_host_out_def Let_def slot_def p_def)
    have pos: "unat (out_pos u) \<le> length (concat (map bytes_of (ring_list (out u) ?h ?c)))"
    proof (cases "?c = 0")
      case True
      then show ?thesis using ok by (simp add: usbf_ok_def wf_simps)
    next
      case c: False
      have "outs_ok u" using ok by (simp add: usbf_ok_def)
      note out_ring_head [OF this c]
      moreover have "unat (out_pos u) < unat (plen (out u ! ?h))"
        using ok c by (simp add: usbf_ok_def wf_simps word_less_nat_alt)
      moreover have "length (bytes_of (out u ! ?h)) = unat (plen (out u ! ?h))"
        using o by (intro length_bytes_of) simp
      ultimately show ?thesis by simp
    qed
    have "out_stream (u\<lparr>out := (out u)[slot := p], out_count := Suc ?c\<rparr>) = out_stream u @ d"
      using pos by (simp add: out_stream_def ring pk)
    moreover have "usbf_ok (u\<lparr>out := (out u)[slot := p], out_count := Suc ?c\<rparr>)"
    proof -
      have head: "out_pos u < plen ((out u)[slot := p] ! ?h)"
      proof (cases "?c = 0")
        case True
        then have "out_pos u = 0" "slot = ?h" using ok o by (simp_all add: usbf_ok_def wf_simps slot_def)
        then show ?thesis using slot o pk by (simp add: word_neq_0_conv)
      next
        case c: False
        have "slot \<noteq> ?h"
          using ring_slots_distinct [of 0 ?c 4 ?h] c o by (simp add: slot_def)
        then show ?thesis using ok c by (simp add: usbf_ok_def wf_simps)
      qed
      have "\<forall>q \<in> set ((out u)[slot := p]). pk_ok q"
        using o(3) pk(1) set_update_subset_insert [of "out u" slot p] by auto
      then show ?thesis using ok o head pk(3)
        by (auto simp: usbf_ok_def wf_simps ring)
    qed
    ultimately show ?thesis using step by (simp add: usbf_notify_def usbf_ok_def)
  qed
  then show "usbf_ok (snd (usbf_host_out d u))" "out_stream (snd (usbf_host_out d u)) =
      out_stream u @ (if fst (usbf_host_out d u) then d else [])" by simp_all
qed

text \<open>The OUT port as the driver polls it: OUT_STATE bit 3, then the FIFO.\<close>

definition out_port_pop :: "usbf_state \<Rightarrow> u8 option \<times> usbf_state" where
  "out_port_pop u =
     (if bit (fst (usbf_read 0x1454 u)) 3
      then (case usbf_read 0x14D4 u of (b, u) \<Rightarrow> (Some (ucast b), u)) else (None, u))"

lemma usbf_read_out_state: "bit (fst (usbf_read 0x1454 u)) 3 = usbf_out_pending u"
  by (simp add: usbf_read_def Let_def bit_simps)

lemma usbf_read_out_fifo:
  "usbf_read 0x14D4 u = (ucast (fst (usbf_out_byte u)), usbf_notify (snd (usbf_out_byte u)))"
  by (simp add: usbf_read_def Let_def case_prod_unfold)

lemma ucast_ucast_byte [simp]: "ucast (ucast (b :: u8) :: u32) = b"
  by (rule bit_word_eqI) (simp add: bit_simps)

interpretation usbf_out: byte_fifo usbf_ok out_stream "\<lambda>u. length (out_stream u)" out_port_pop
proof
  fix u assume ok: "usbf_ok u" and nil: "out_stream u = []"
  then show "out_port_pop u = (None, u)"
    using out_stream_empty [of u] by (simp add: out_port_pop_def usbf_read_out_state usbf_ok_def)
next
  fix u x xs assume ok: "usbf_ok u" and q: "out_stream u = x # xs"
  then have p: "usbf_out_pending u" using out_stream_empty [of u] by (simp add: usbf_ok_def)
  have "outs_ok u" using ok by (simp add: usbf_ok_def)
  note s = usbf_out_byte_stream [OF this p]
  then show "fst (out_port_pop u) = Some x \<and> out_stream (snd (out_port_pop u)) = xs \<and>
      usbf_ok (snd (out_port_pop u))"
    using q p ok usbf_out_byte_frame [of u]
    by (simp add: out_port_pop_def usbf_read_out_state usbf_read_out_fifo usbf_notify_def usbf_ok_def)
qed simp

section \<open>The IN pipe is a queue of packets\<close>

lemma usbf_queue_in_packets:
  assumes ok: "usbf_ok u"
  shows "usbf_ok (usbf_queue_in u)"
    and "in_packets (usbf_queue_in u) =
      in_packets u @ (if in_count u < 2 then [bytes_of (in_stage u)] else [])"
proof -
  have i: "length (in_q u) = 2" "in_head u < 2" "pk_ok (in_stage u)"
    using ok by (simp_all add: usbf_ok_def wf_simps)
  have set: "\<forall>p \<in> set ((in_q u)[k := in_stage u]). pk_ok p" for k
    using ok i set_update_subset_insert [of "in_q u" k "in_stage u"] by (auto simp: usbf_ok_def wf_simps)
  show "usbf_ok (usbf_queue_in u)"
    using ok set by (auto simp: usbf_queue_in_def usbf_ok_def wf_simps Let_def)
  show "in_packets (usbf_queue_in u) =
      in_packets u @ (if in_count u < 2 then [bytes_of (in_stage u)] else [])"
    using ring_list_push [of "in_count u" "in_q u" "in_head u" "in_stage u"] i
    by (simp add: usbf_queue_in_def in_packets_def Let_def)
qed

lemma host_in_packets:
  assumes ok: "usbf_ok u" and n: "64 \<le> n"
  shows "usbf_ok (snd (usbf_host_in n u))"
    and "attached u \<Longrightarrow> config u \<noteq> 0 \<Longrightarrow> in_packets u = p # ps \<Longrightarrow>
      fst (usbf_host_in n u) = Some p \<and> in_packets (snd (usbf_host_in n u)) = ps"
proof -
  show "usbf_ok (snd (usbf_host_in n u))"
    using ok by (simp add: usbf_host_in_def Let_def usbf_ok_def wf_simps)
      (auto simp: usbf_notify_def)
  assume live: "attached u" "config u \<noteq> 0" and q: "in_packets u = p # ps"
  have c: "0 < in_count u" using q by (cases "in_count u = 0") (simp_all add: in_packets_def)
  have i: "length (in_q u) = 2" "in_head u < 2" "\<forall>p \<in> set (in_q u). pk_ok p"
    using ok by (simp_all add: usbf_ok_def wf_simps)
  have pk: "pk_ok (in_q u ! in_head u)" using i by simp
  have "in_packets u = bytes_of (in_q u ! in_head u) #
      map bytes_of (ring_list (in_q u) ((in_head u + 1) mod 2) (in_count u - 1))"
    using ring_list_pop [OF c, of "in_q u" "in_head u"] i by (simp add: in_packets_def)
  then show "fst (usbf_host_in n u) = Some p \<and> in_packets (snd (usbf_host_in n u)) = ps"
    using live c q pk n
    by (auto simp: usbf_host_in_def Let_def in_packets_def usbf_notify_def bytes_of_def pk_ok_def)
qed

lemma length_read_mem [simp]: "length (read_mem m pa n) = n"
  by (simp add: read_mem_def)

text \<open>A transmit DMA fills the stage, and sends it when it is full.\<close>

definition tx_len :: "usbf_state \<Rightarrow> nat" where
  "tx_len u = min 64 (unat (dma_len u))"

definition dma_pa :: "usbf_state \<Rightarrow> nat" where
  "dma_pa u = unat (dma_addr u AND 0x1FFFFFFF)"

definition tx_stage :: "(nat \<Rightarrow> nat \<Rightarrow> bool) \<Rightarrow> usbf_state \<Rightarrow> usbf_packet" where
  "tx_stage ram u =
     \<lparr>pdata = (if tx_len u \<noteq> 0 \<and> ram (dma_pa u) (tx_len u)
       then read_mem (gmem u) (dma_pa u) (tx_len u) @ drop (tx_len u) (pdata (in_stage u))
       else pdata (in_stage u)), plen = of_nat (tx_len u)\<rparr>"

lemma tx_stage_ok: "usbf_ok u \<Longrightarrow> pk_ok (tx_stage ram u)"
  by (auto simp: tx_stage_def usbf_ok_def wf_simps pk_ok_def tx_len_def unat_of_nat)

lemma tx_stage_bytes:
  "ram (dma_pa u) (tx_len u) \<Longrightarrow> bytes_of (tx_stage ram u) = read_mem (gmem u) (dma_pa u) (tx_len u)"
  by (auto simp: tx_stage_def bytes_of_def tx_len_def unat_of_nat read_mem_def)

lemma queue_in_top [simp]: "top_latched (usbf_queue_in v) = top_latched v"
  by (simp add: usbf_queue_in_def Let_def)

lemma tx_dma_stage:
  assumes tx: "dma_dir u AND 0x01 \<noteq> 0"
  shows "usbf_dma ram u =
    (let v = u\<lparr>in_stage := tx_stage ram u\<rparr>; v = (if tx_len u = 64 then usbf_queue_in v else v)
     in v\<lparr>top_latched := top_latched u OR 0x02\<rparr>)"
proof -
  have n: "(if unat (dma_len u) > 64 then 64 else unat (dma_len u)) = tx_len u"
    by (simp add: tx_len_def)
  show ?thesis
    unfolding usbf_dma_def n Let_def dma_pa_def [symmetric]
    using tx by (cases "in_stage u") (simp add: tx_stage_def)
qed

lemma in_stage_ok [simp]: "usbf_ok u \<Longrightarrow> pk_ok p \<Longrightarrow> usbf_ok (u\<lparr>in_stage := p\<rparr>)"
  by (auto simp: usbf_ok_def wf_simps)

lemma in_stage_packets [simp]: "in_packets (u\<lparr>in_stage := p\<rparr>) = in_packets u"
  by (simp add: in_packets_def)

lemma top_latched_ok: "usbf_ok u \<Longrightarrow> fits 2 t \<Longrightarrow> usbf_ok (u\<lparr>top_latched := t\<rparr>)"
  by (simp add: usbf_ok_def wf_simps)

lemma usbf_ok_top: "usbf_ok u \<Longrightarrow> fits 2 (top_latched u)"
  by (simp add: usbf_ok_def wf_simps)

lemma fits_done: "fits 2 (1 :: u8)" "fits 2 (2 :: u8)"
  by (simp_all add: fits_def)

lemma usbf_dma_ok: "usbf_ok u \<Longrightarrow> usbf_ok (usbf_dma ram u)"
proof (cases "dma_dir u AND 0x01 \<noteq> 0")
  case True
  assume ok: "usbf_ok u"
  note t = tx_dma_stage [OF True, of ram]
  have "fits 2 (top_latched u OR 0x02)" using usbf_ok_top [OF ok] fits_done by (intro fits_or)
  then show ?thesis
    unfolding t Let_def using ok tx_stage_ok [OF ok, of ram] usbf_queue_in_packets(1)
    by (auto intro!: top_latched_ok)
next
  case False
  assume ok: "usbf_ok u"
  have "fits 2 (top_latched u OR 0x01)" using usbf_ok_top [OF ok] fits_done by (intro fits_or)
  then show ?thesis
    using False ok rx_dma_stream [of u]
    by (auto simp: usbf_dma_def Let_def usbf_ok_def wf_simps)
qed

section \<open>Every operation keeps the state well-formed\<close>

lemma plain_fields_ok [simp]:
  "usbf_ok (u\<lparr>unit_en := a\<rparr>) = usbf_ok u" "usbf_ok (u\<lparr>dma_en := a\<rparr>) = usbf_ok u"
  "usbf_ok (u\<lparr>dma_dir := a\<rparr>) = usbf_ok u" "usbf_ok (u\<lparr>dma_hi := a\<rparr>) = usbf_ok u"
  "usbf_ok (u\<lparr>dma_len := a\<rparr>) = usbf_ok u" "usbf_ok (u\<lparr>dma_addr := w\<rparr>) = usbf_ok u"
  "usbf_ok (u\<lparr>top_en := a\<rparr>) = usbf_ok u" "usbf_ok (u\<lparr>core_en := a\<rparr>) = usbf_ok u"
  "usbf_ok (u\<lparr>ep1_off := b\<rparr>) = usbf_ok u" "usbf_ok (u\<lparr>ep0_ctrl := a\<rparr>) = usbf_ok u"
  "usbf_ok (u\<lparr>ep1_ctrl := a\<rparr>) = usbf_ok u" "usbf_ok (u\<lparr>address := a\<rparr>) = usbf_ok u"
  "usbf_ok (u\<lparr>config := a\<rparr>) = usbf_ok u" "usbf_ok (u\<lparr>attached := b\<rparr>) = usbf_ok u"
  "usbf_ok (u\<lparr>setup_pos := a\<rparr>) = usbf_ok u" "usbf_ok (u\<lparr>ctrl_pending := b\<rparr>) = usbf_ok u"
  "usbf_ok (u\<lparr>ep3_ready := b\<rparr>) = usbf_ok u" "usbf_ok (u\<lparr>events := es\<rparr>) = usbf_ok u"
  "usbf_ok (u\<lparr>gmem := m\<rparr>) = usbf_ok u"
  unfolding usbf_ok_def wf_simps by simp_all

lemma usbf_ok_lengths:
  "usbf_ok u \<Longrightarrow> length (intstat u) = 3" "usbf_ok u \<Longrightarrow> length (intmask u) = 3"
  "usbf_ok u \<Longrightarrow> length (desc u) = 57" "usbf_ok u \<Longrightarrow> length (other u) = 256"
  unfolding usbf_ok_def wf_simps by simp_all

lemma list_fields_ok:
  "usbf_ok u \<Longrightarrow> length is = 3 \<Longrightarrow> usbf_ok (u\<lparr>intmask := is\<rparr>)"
  "usbf_ok u \<Longrightarrow> length ds = 57 \<Longrightarrow> usbf_ok (u\<lparr>desc := ds\<rparr>)"
  "usbf_ok u \<Longrightarrow> length ws = 256 \<Longrightarrow> usbf_ok (u\<lparr>other := ws\<rparr>)"
  "usbf_ok u \<Longrightarrow> length is = 3 \<Longrightarrow> usbf_ok (u\<lparr>intstat := is\<rparr>)"
  "usbf_ok u \<Longrightarrow> length st = 8 \<Longrightarrow> usbf_ok (u\<lparr>setup_fifo := st\<rparr>)"
  unfolding usbf_ok_def wf_simps by simp_all

text \<open>The register files are long chains of conditionals; these rules go through them.\<close>

lemma usbf_ok_if: "(c \<Longrightarrow> usbf_ok a) \<Longrightarrow> (\<not> c \<Longrightarrow> usbf_ok b) \<Longrightarrow> usbf_ok (if c then a else b)"
  by simp

lemma usbf_ok_if_snd:
  "(c \<Longrightarrow> usbf_ok (snd a)) \<Longrightarrow> (\<not> c \<Longrightarrow> usbf_ok (snd b)) \<Longrightarrow> usbf_ok (snd (if c then a else b))"
  by simp

lemma fits_and_left: "fits n w \<Longrightarrow> fits n (w AND v)"
  by (rule fits_and) simp

lemmas field_rules = list_fields_ok usbf_ok_lengths

lemma usbf_setup_pop_ok: "usbf_ok u \<Longrightarrow> usbf_ok (snd (usbf_setup_pop u))"
  by (simp add: usbf_setup_pop_def Let_def field_rules)

lemma usbf_out_byte_ok: "usbf_ok u \<Longrightarrow> usbf_ok (snd (usbf_out_byte u))"
  using usbf_out_byte_stream(2) [of u] usbf_out_byte_frame [of u]
  by (cases "usbf_out_pending u") (auto simp: usbf_ok_def usbf_out_byte_def)

lemma usbf_read_ok: "usbf_ok u \<Longrightarrow> usbf_ok (snd (usbf_read off u))"
  unfolding usbf_read_def Let_def
  by (intro usbf_ok_if_snd) (simp_all add: usbf_setup_pop_ok usbf_out_byte_ok case_prod_unfold)

lemma ep3_put_ok: "usbf_ok u \<Longrightarrow> usbf_ok (ep3_put b u)"
proof -
  assume ok: "usbf_ok u"
  have "unat (plen (ep3_stage u) + 1) \<le> 64" if "plen (ep3_stage u) < 64"
    using that by unat_arith
  then show ?thesis using ok
    by (auto simp: ep3_put_def Let_def usbf_ok_def wf_simps pk_ok_def)
qed

lemma usbf_commit_ok: "usbf_ok u \<Longrightarrow> usbf_ok (usbf_commit v u)"
proof -
  assume ok: "usbf_ok u"
  have ep3: "usbf_ok (w\<lparr>ep3 := ep3_stage w, ep3_ready := True, ep3_stage := (ep3_stage w)\<lparr>plen := 0\<rparr>\<rparr>)"
    if "usbf_ok w" for w
    using that by (auto simp: usbf_ok_def wf_simps)
  show ?thesis unfolding usbf_commit_def Let_def
    using ok by (intro usbf_ok_if) (simp_all add: ep3 field_rules usbf_queue_in_packets(1))
qed

lemma usbf_unit_reset_ok: "usbf_ok u \<Longrightarrow> usbf_ok (usbf_unit_reset u)"
  unfolding usbf_unit_reset_def by (simp add: usbf_flush_ok top_latched_ok field_rules)

lemma in_stage_clear_ok: "usbf_ok u \<Longrightarrow> usbf_ok (u\<lparr>in_stage := (in_stage u)\<lparr>plen := 0\<rparr>\<rparr>)"
  by (intro in_stage_ok pk_ok_zero) (simp_all add: usbf_ok_def wf_simps)

lemma usbf_write_ok: "usbf_ok u \<Longrightarrow> usbf_ok (usbf_write ram off val u)"
  unfolding usbf_write_def Let_def usbf_notify_ok
  by (intro usbf_ok_if iffD2 [OF usbf_notify_ok]) (simp_all add: usbf_dma_ok usbf_commit_ok usbf_unit_reset_ok ep3_put_ok
      top_latched_ok usbf_ok_top fits_and_left in_stage_clear_ok field_rules)

lemma usbf_standard_request_ok: "usbf_ok u \<Longrightarrow> usbf_ok (snd (snd (usbf_standard_request s u)))"
  unfolding usbf_standard_request_def Let_def by (simp add: field_rules)

lemma usbf_host_control_ok:
  "usbf_ok u \<Longrightarrow> length s = 8 \<Longrightarrow> usbf_ok (snd (snd (usbf_host_control s u)))"
  unfolding usbf_host_control_def Let_def by (simp add: usbf_standard_request_ok field_rules)

lemma usbf_host_in_ok: "usbf_ok u \<Longrightarrow> usbf_ok (snd (usbf_host_in n u))"
  by (simp add: usbf_host_in_def Let_def) (auto simp: usbf_ok_def wf_simps)

lemma usbf_host_intr_in_ok: "usbf_ok u \<Longrightarrow> usbf_ok (snd (usbf_host_intr_in n u))"
  by (simp add: usbf_host_intr_in_def Let_def)

text \<open>Everything that can happen to the controller; a setup packet is its eight bytes.\<close>

datatype usbf_op =
  Reg_read u32 | Reg_write u32 u32 | Unit_reset | Attach bool | Bus_reset | Control "nat \<Rightarrow> u8"
  | Out_packet "u8 list" | In_packet nat | Intr_packet nat

fun usbf_step :: "(nat \<Rightarrow> nat \<Rightarrow> bool) \<Rightarrow> usbf_op \<Rightarrow> usbf_state \<Rightarrow> usbf_state" where
  "usbf_step ram (Reg_read off) u = (if usbf_handles off then snd (usbf_read off u) else u)"
| "usbf_step ram (Reg_write off v) u = (if usbf_handles off then usbf_write ram off v u else u)"
| "usbf_step ram Unit_reset u = usbf_reset u"
| "usbf_step ram (Attach a) u = usbf_host_attach a u"
| "usbf_step ram Bus_reset u = usbf_host_bus_reset u"
| "usbf_step ram (Control s) u = snd (snd (usbf_host_control (map s [0..<8]) u))"
| "usbf_step ram (Out_packet d) u = snd (usbf_host_out d u)"
| "usbf_step ram (In_packet n) u = snd (usbf_host_in n u)"
| "usbf_step ram (Intr_packet n) u = snd (usbf_host_intr_in n u)"

lemma usbf_step_ok: "usbf_ok u \<Longrightarrow> usbf_ok (usbf_step ram e u)"
  by (cases e)
    (simp_all add: usbf_read_ok usbf_write_ok usbf_reset_def usbf_host_attach_def usbf_host_bus_reset_def
      usbf_host_control_ok host_out_stream usbf_host_in_ok usbf_host_intr_in_ok usbf_flush_ok Let_def
      field_rules)

interpretation usbf: device "usbf_step ram" usbf_ok for ram
  by unfold_locales (rule usbf_step_ok)

section \<open>Control transfers\<close>

text \<open>The statuses the completion callback has been called with, oldest first, and, with them, whether
  a request is outstanding. Most operations leave both.\<close>

definition statuses :: "usbf_state \<Rightarrow> int list" where
  "statuses u = concat (map (\<lambda>e. case e of Ctrl_done st \<Rightarrow> [st] | _ \<Rightarrow> []) (events u))"

definition request :: "usbf_state \<Rightarrow> int list \<times> bool" where
  "request u = (statuses u, ctrl_pending u)"

lemma request_cong: "events u = events v \<Longrightarrow> ctrl_pending u = ctrl_pending v \<Longrightarrow> request u = request v"
  by (simp add: request_def statuses_def)

lemma request_notify [simp]: "request (usbf_notify u) = request u"
  by (simp add: usbf_notify_def request_def statuses_def)

lemma request_finish [simp]:
  "request (usbf_finish_control st u) = (statuses u @ (if ctrl_pending u then [st] else []), False)"
  by (simp add: usbf_finish_control_def request_def statuses_def)

lemma request_flush [simp]: "request (usbf_flush_fifos u) = request u"
  by (rule request_cong) (simp_all add: usbf_flush_fifos_def)

lemma request_fields [simp]:
  "request (u\<lparr>unit_en := a\<rparr>) = request u" "request (u\<lparr>dma_en := a\<rparr>) = request u"
  "request (u\<lparr>dma_dir := a\<rparr>) = request u" "request (u\<lparr>dma_hi := a\<rparr>) = request u"
  "request (u\<lparr>dma_len := a\<rparr>) = request u" "request (u\<lparr>dma_addr := w\<rparr>) = request u"
  "request (u\<lparr>top_en := a\<rparr>) = request u" "request (u\<lparr>core_en := a\<rparr>) = request u"
  "request (u\<lparr>ep1_off := b\<rparr>) = request u" "request (u\<lparr>ep0_ctrl := a\<rparr>) = request u"
  "request (u\<lparr>ep1_ctrl := a\<rparr>) = request u" "request (u\<lparr>address := a\<rparr>) = request u"
  "request (u\<lparr>config := a\<rparr>) = request u" "request (u\<lparr>attached := b\<rparr>) = request u"
  "request (u\<lparr>intstat := is\<rparr>) = request u" "request (u\<lparr>intmask := is\<rparr>) = request u"
  "request (u\<lparr>other := ws\<rparr>) = request u" "request (u\<lparr>desc := ds\<rparr>) = request u"
  "request (u\<lparr>top_latched := a\<rparr>) = request u" "request (u\<lparr>in_stage := p\<rparr>) = request u"
  "request (u\<lparr>ep3_stage := p\<rparr>) = request u" "request (u\<lparr>setup_pos := a\<rparr>) = request u"
  by (simp_all add: request_def statuses_def)

lemma request_queue_in [simp]: "request (usbf_queue_in u) = request u"
  by (simp add: usbf_queue_in_def Let_def request_def statuses_def)

lemma request_out_byte [simp]: "request (snd (usbf_out_byte u)) = request u"
  by (rule request_cong) simp_all

lemma rx_dma_log [simp]: "events (rx_dma r pa i n u) = events u \<and> ctrl_pending (rx_dma r pa i n u) = ctrl_pending u"
  by (induction r pa i n u rule: rx_dma.induct) (auto simp: case_prod_unfold Let_def)

lemma request_dma [simp]: "request (usbf_dma ram u) = request u"
proof (cases "dma_dir u AND 0x01 \<noteq> 0")
  case True
  then show ?thesis unfolding tx_dma_stage [OF True] Let_def by simp
next
  case False
  then show ?thesis by (intro request_cong) (simp_all add: usbf_dma_def Let_def)
qed

text \<open>What ends an outstanding request, and with which status: the guest's EP0 commit accepts it; the
  guest's EP0 stall or reset command, a reset of the unit or of the bus, the cable pulled out and the
  next request refuse it. A request is handed to the guest when the host is told to wait.\<close>

definition hands_over :: "usbf_op \<Rightarrow> usbf_state \<Rightarrow> bool" where
  "hands_over e u \<longleftrightarrow> (case e of
     Control s \<Rightarrow> fst (usbf_host_control (map s [0..<8]) u) = USBF_CTRL_PENDING | _ \<Rightarrow> False)"

definition ending :: "usbf_op \<Rightarrow> usbf_state \<Rightarrow> int option" where
  "ending e u = (case e of
     Reg_write off v \<Rightarrow>
       (if \<not> usbf_handles off then None
        else if off AND NOT 3 = 0x1490 \<and> bit v 0 then Some USBF_CTRL_OK
        else if off AND NOT 3 = 0x1460 \<and> bit v 3 \<or> off AND NOT 3 = 0x1338 \<and> bit v 0
        then Some USBF_CTRL_STALL else None)
   | Unit_reset \<Rightarrow> Some USBF_CTRL_STALL
   | Bus_reset \<Rightarrow> Some USBF_CTRL_STALL
   | Attach a \<Rightarrow> (if attached u \<and> \<not> a then Some USBF_CTRL_STALL else None)
   | Control s \<Rightarrow> (if hands_over e u then Some USBF_CTRL_STALL else None)
   | _ \<Rightarrow> None)"

abbreviation ended :: "int option \<Rightarrow> usbf_state \<Rightarrow> int list \<times> bool" where
  "ended r u \<equiv> (case r of None \<Rightarrow> request u
     | Some st \<Rightarrow> (statuses u @ (if ctrl_pending u then [st] else []), False))"

lemma low_byte_bit:
  "ucast (v :: u32) AND (0x01 :: u8) \<noteq> 0 \<longleftrightarrow> bit v 0" "ucast (v :: u32) AND (0x08 :: u8) \<noteq> 0 \<longleftrightarrow> bit v 3"
  using bit_iff_and_push_bit_not_eq_0 [of "ucast v :: u8" 0] bit_iff_and_push_bit_not_eq_0 [of "ucast v :: u8" 3]
  by (simp_all add: bit_ucast_iff push_bit_eq_mult del: bit_0)

lemma request_commit: "request (usbf_commit b u) = ended (if b AND 1 \<noteq> 0 then Some USBF_CTRL_OK else None) u"
proof -
  have "request (w\<lparr>ep3 := p, ep3_ready := True, ep3_stage := q, events := events w @ [In_ready]\<rparr>) = request w"
    for w p q by (simp add: request_def statuses_def)
  moreover have "statuses (u\<lparr>intstat := is\<rparr>) = statuses u" for "is" by (simp add: statuses_def)
  ultimately show ?thesis unfolding usbf_commit_def Let_def by simp
qed

lemma request_write:
  "usbf_handles off \<Longrightarrow> request (usbf_write ram off v u) = ended (ending (Reg_write off v) u) u"
proof -
  assume handled: "usbf_handles off"
  let ?r = "off AND NOT 3"
  have reset: "request (usbf_unit_reset u) = ended (Some USBF_CTRL_STALL) u"
  proof -
    have "request (w\<lparr>intstat := is, top_latched := t, ep1_off := b\<rparr>) = request w" for w "is" t b
      by (simp add: request_def statuses_def)
    then show ?thesis unfolding usbf_unit_reset_def by simp
  qed
  show ?thesis
  proof (cases "?r = 0x1490 \<or> ?r = 0x1460 \<or> ?r = 0x1338")
    case True
    have stall: "request (w\<lparr>ep0_ctrl := x\<rparr>) = request w" for w x by simp
    consider "?r = 0x1490" | "?r = 0x1460" | "?r = 0x1338" using True by blast
    then show ?thesis
    proof cases
      case 1
      then have "usbf_write ram off v u = usbf_notify (usbf_commit (ucast v) u)"
        by (simp add: usbf_write_def)
      with 1 handled show ?thesis by (simp add: request_commit ending_def low_byte_bit)
    next
      case 2
      then have "usbf_write ram off v u =
          usbf_notify ((if bit v 3 \<and> ctrl_pending u then usbf_finish_control USBF_CTRL_STALL u else u)
            \<lparr>ep0_ctrl := ucast v AND NOT 0x08\<rparr>)"
        by (simp add: usbf_write_def low_byte_bit)
      with 2 handled show ?thesis by (simp add: stall ending_def request_def [symmetric])
        (simp add: request_def)
    next
      case 3
      then have "usbf_write ram off v u = usbf_notify (if bit v 0 then usbf_unit_reset u else u)"
        by (simp add: usbf_write_def low_byte_bit)
      with 3 handled show ?thesis by (simp add: reset ending_def)
    qed
  next
    case False
    have put: "request (ep3_put b u) = request u" for b by (simp add: ep3_put_def Let_def)
    have if_request: "(c \<Longrightarrow> request a = n) \<Longrightarrow> (\<not> c \<Longrightarrow> request b = n) \<Longrightarrow> request (if c then a else b) = n"
      for a b c n by simp
    have none: "ending (Reg_write off v) u = None" using False by (simp add: ending_def)
    show ?thesis unfolding none option.case usbf_write_def Let_def
      using False by (intro if_request trans [OF request_notify]) (simp_all add: put)
  qed
qed

lemma request_read [simp]: "request (snd (usbf_read off u)) = request u"
proof -
  have "request (snd (usbf_setup_pop u)) = request u" by (simp add: usbf_setup_pop_def Let_def)
  moreover have if_request: "request (snd a) = n \<Longrightarrow> request (snd b) = n \<Longrightarrow> request (snd (if c then a else b)) = n"
    for a b :: "u32 \<times> usbf_state" and c n by simp
  ultimately show ?thesis unfolding usbf_read_def Let_def
    by (intro if_request) (simp_all add: case_prod_unfold)
qed

lemma request_reset: "request (usbf_reset u) = ended (Some USBF_CTRL_STALL) u"
proof -
  have "\<not> ctrl_pending (usbf_finish_control st u)" for st by (simp add: usbf_finish_control_def)
  then have "request ((usbf_init (usbf_finish_control USBF_CTRL_STALL u))\<lparr>attached := a\<rparr>) =
      request (usbf_finish_control USBF_CTRL_STALL u)" for a
    by (intro request_cong) (simp_all add: usbf_init_def)
  then show ?thesis unfolding usbf_reset_def by simp
qed

lemma request_control:
  "request (snd (snd (usbf_host_control s u))) =
     (if fst (usbf_host_control s u) = USBF_CTRL_PENDING
      then (statuses u @ (if ctrl_pending u then [USBF_CTRL_STALL] else []), True) else request u)"
proof (cases "\<not> attached u \<or> \<not> usbf_descriptors_ready u \<or> s ! 0 AND 0x60 = 0")
  case True
  have "fst (usbf_standard_request s u) \<noteq> USBF_CTRL_PENDING"
    "request (snd (snd (usbf_standard_request s u))) = request u"
    unfolding usbf_standard_request_def Let_def by simp_all
  then show ?thesis using True by (auto simp: usbf_host_control_def)
next
  case False
  then show ?thesis
    by (simp add: usbf_host_control_def usbf_notify_def usbf_finish_control_def request_def statuses_def Let_def)
qed

lemma request_step:
  "request (usbf_step ram e u) =
     (fst (ended (ending e u) u), hands_over e u \<or> ctrl_pending u \<and> ending e u = None)"
proof (cases e)
  case (Reg_write off v)
  have "snd (ended r u) \<longleftrightarrow> ctrl_pending u \<and> r = None" for r by (cases r) (simp_all add: request_def)
  moreover have "request (usbf_step ram e u) = ended (ending e u) u"
    using Reg_write by (cases "usbf_handles off") (simp_all add: request_write ending_def [of "Reg_write off v"])
  ultimately show ?thesis using Reg_write by (simp add: prod_eq_iff hands_over_def)
next
  case (Control s)
  then show ?thesis using request_control [of "map s [0..<8]" u]
    by (simp add: hands_over_def ending_def request_def del: upt_Suc)
next
  case (Out_packet d)
  then show ?thesis
    by (simp add: hands_over_def ending_def usbf_host_out_def Let_def usbf_notify_def request_def statuses_def)
next
  case (In_packet n)
  then show ?thesis
    by (simp add: hands_over_def ending_def usbf_host_in_def Let_def usbf_notify_def request_def statuses_def)
next
  case (Intr_packet n)
  then show ?thesis
    by (simp add: hands_over_def ending_def usbf_host_intr_in_def Let_def usbf_notify_def request_def statuses_def)
next
  case Unit_reset
  then show ?thesis by (simp add: request_reset hands_over_def ending_def)
next
  case Bus_reset
  have "request (w\<lparr>address := a, config := c\<rparr>) = request w" for w a c by (simp add: request_def statuses_def)
  with Bus_reset show ?thesis by (simp add: usbf_host_bus_reset_def hands_over_def ending_def Let_def)
next
  case (Attach a)
  have "request (w\<lparr>address := d, config := c\<rparr>) = request w" for w d c by (simp add: request_def statuses_def)
  moreover have "statuses (u\<lparr>attached := b\<rparr>) = statuses u" for b by (simp add: statuses_def)
  ultimately have "request (usbf_host_attach a u) = ended (ending e u) u"
    using Attach by (cases a; cases "attached u") (simp_all add: usbf_host_attach_def ending_def Let_def)
  moreover have "snd (ended r u) \<longleftrightarrow> ctrl_pending u \<and> r = None" for r by (cases r) (simp_all add: request_def)
  ultimately show ?thesis using Attach by (simp add: prod_eq_iff hands_over_def)
next
  case (Reg_read off)
  then show ?thesis using request_read [of off u] by (simp add: hands_over_def ending_def request_def)
qed

section \<open>Runs\<close>

text \<open>The number of requests handed to the guest in a run; how a run ends a request that is outstanding
  when it begins; and how it ends those handed over in it, each ended by what comes after it.\<close>

fun handed_over :: "(nat \<Rightarrow> nat \<Rightarrow> bool) \<Rightarrow> usbf_op list \<Rightarrow> usbf_state \<Rightarrow> nat" where
  "handed_over ram [] u = 0"
| "handed_over ram (e # es) u =
     (if hands_over e u then 1 else 0) + handed_over ram es (usbf_step ram e u)"

fun first_ending :: "(nat \<Rightarrow> nat \<Rightarrow> bool) \<Rightarrow> usbf_op list \<Rightarrow> usbf_state \<Rightarrow> int list" where
  "first_ending ram [] u = []"
| "first_ending ram (e # es) u =
     (case ending e u of Some st \<Rightarrow> [st] | None \<Rightarrow> first_ending ram es (usbf_step ram e u))"

fun answers :: "(nat \<Rightarrow> nat \<Rightarrow> bool) \<Rightarrow> usbf_op list \<Rightarrow> usbf_state \<Rightarrow> int list" where
  "answers ram [] u = []"
| "answers ram (e # es) u =
     (let v = usbf_step ram e u
      in (if hands_over e u then first_ending ram es v else []) @ answers ram es v)"

lemma statuses_run:
  "statuses (fold (usbf_step ram) es u) =
     statuses u @ (if ctrl_pending u then first_ending ram es u else []) @ answers ram es u"
proof (induction es arbitrary: u)
  case Nil
  then show ?case by simp
next
  case (Cons e es)
  have "hands_over e u \<Longrightarrow> ending e u = Some USBF_CTRL_STALL"
    by (cases e) (simp_all add: ending_def, simp_all add: hands_over_def)
  moreover have "statuses (usbf_step ram e u) = fst (ended (ending e u) u)"
    "ctrl_pending (usbf_step ram e u) \<longleftrightarrow> hands_over e u \<or> ctrl_pending u \<and> ending e u = None"
    using request_step [of ram e u] by (simp_all add: request_def)
  ultimately show ?case using Cons.IH [of "usbf_step ram e u"]
    by (auto simp: Let_def request_def split: option.splits)
qed

lemma statuses_step_length:
  "length (statuses (usbf_step ram e u)) + of_bool (ctrl_pending (usbf_step ram e u)) =
     length (statuses u) + of_bool (ctrl_pending u) + of_bool (hands_over e u)"
proof -
  have "hands_over e u \<Longrightarrow> ending e u = Some USBF_CTRL_STALL"
    by (cases e) (simp_all add: ending_def, simp_all add: hands_over_def)
  moreover have "statuses (usbf_step ram e u) = fst (ended (ending e u) u)"
    "ctrl_pending (usbf_step ram e u) \<longleftrightarrow> hands_over e u \<or> ctrl_pending u \<and> ending e u = None"
    using request_step [of ram e u] by (simp_all add: request_def)
  ultimately show ?thesis by (auto simp: request_def split: option.splits)
qed

lemma answers_count:
  "length (statuses (fold (usbf_step ram) es u)) + of_bool (ctrl_pending (fold (usbf_step ram) es u)) =
     length (statuses u) + of_bool (ctrl_pending u) + handed_over ram es u"
  by (induction es arbitrary: u) (simp_all add: statuses_step_length)

text \<open>The host's packets and which of them were taken.\<close>

fun host_sends :: "u8 list list \<Rightarrow> usbf_state \<Rightarrow> bool list \<times> usbf_state" where
  "host_sends [] u = ([], u)"
| "host_sends (d # ds) u =
     (let (ok, u) = usbf_host_out d u; (oks, u) = host_sends ds u in (ok # oks, u))"

lemma host_sends_stream:
  "usbf_ok u \<Longrightarrow> usbf_ok (snd (host_sends ds u)) \<and> out_stream (snd (host_sends ds u)) =
     out_stream u @ concat (map snd (filter fst (zip (fst (host_sends ds u)) ds)))"
proof (induction ds arbitrary: u)
  case Nil
  then show ?case by simp
next
  case (Cons d ds)
  show ?case
    using Cons.IH [OF host_out_stream(1) [OF Cons.prems]] host_out_stream(2) [OF Cons.prems, of d]
    by (simp add: case_prod_unfold Let_def)
qed

section \<open>Properties\<close>

text \<open>C35: Every class or vendor request is completed exactly once, by the first operation after it that
  ends it and with that operation's status: OK when the guest commits endpoint 0, STALL when the guest
  refuses it or resets the unit, when the bus or the controller is reset, when the cable is pulled and
  when the next request overtakes it. In any run of register accesses, resets, attach changes and host
  traffic that starts with no request outstanding, the completion callback is called with exactly
  those statuses, in that order, and the one request it was not yet called for is the outstanding one.\<close>

theorem usbf_control_completes_once:
  assumes "\<not> ctrl_pending u"
  shows "let v = fold (usbf_step ram) es u in
    statuses v = statuses u @ answers ram es u \<and>
    length (answers ram es u) + (if ctrl_pending v then 1 else 0) = handed_over ram es u"
  using answers_count [of ram es u] assms by (simp add: statuses_run Let_def of_bool_def)

text \<open>An enumerated device is handed two class requests: the second overtakes the first, and the guest
  reads it and commits endpoint 0.\<close>

definition enumerated :: "usbf_state \<Rightarrow> usbf_state" where
  "enumerated u = (usbf_init u)\<lparr>unit_en := 1, attached := True, events := [],
     desc := [18, 1] @ replicate 16 0 @ [9, 2] @ replicate 37 0\<rparr>"

definition listening :: "usbf_state \<Rightarrow> bool" where
  "listening u \<longleftrightarrow> attached u \<and> usbf_descriptors_ready u"

lemma listening_takes: "listening u \<Longrightarrow> s 0 AND 0x60 \<noteq> 0 \<Longrightarrow> hands_over (Control s) u"
  by (simp add: listening_def hands_over_def usbf_host_control_def Let_def)

lemma listening_cong:
  "attached v = attached u \<Longrightarrow> unit_en v = unit_en u \<Longrightarrow> desc v = desc u \<Longrightarrow> listening v = listening u"
  by (simp add: listening_def usbf_descriptors_ready_def)

lemma listening_keeps:
  "listening u \<Longrightarrow> s 0 AND 0x60 \<noteq> 0 \<Longrightarrow> listening (usbf_step ram (Control s) u)"
  "listening u \<Longrightarrow> listening (usbf_step ram (Reg_read off) u)"
proof -
  assume "listening u" "s 0 AND 0x60 \<noteq> 0"
  moreover from this have "listening (usbf_step ram (Control s) u) = listening u"
    by (intro listening_cong)
      (simp_all add: listening_def usbf_host_control_def usbf_notify_def usbf_finish_control_def Let_def)
  ultimately show "listening (usbf_step ram (Control s) u)" by simp
next
  assume "listening u"
  moreover have "listening (snd (usbf_read off u)) = listening u"
    by (rule listening_cong) (simp_all add: usbf_read_def usbf_setup_pop_def usbf_out_byte_def
      usbf_notify_def case_prod_unfold Let_def)
  ultimately show "listening (usbf_step ram (Reg_read off) u)" by simp
qed

theorem usbf_control_completes_once_witness:
  "\<forall>u. let es = [Control (\<lambda>i. if i = 0 then 0x21 else 0x22), Reg_read 0x14CC, Control (\<lambda>i. if i = 0 then 0xA1 else 0x21),
       Reg_read 0x1454, Reg_write 0x1490 1, Bus_reset] in
   statuses (fold (usbf_step (\<lambda>_ _. True)) es (enumerated u)) = [USBF_CTRL_STALL, USBF_CTRL_OK] \<and>
   handed_over (\<lambda>_ _. True) es (enumerated u) = 2" (is "\<forall>u. ?P u")
proof
  fix u
  let ?es = "[Control (\<lambda>i. if i = 0 then 0x21 else 0x22), Reg_read 0x14CC,
    Control (\<lambda>i. if i = 0 then 0xA1 else 0x21), Reg_read 0x1454, Reg_write 0x1490 1, Bus_reset]"
  let ?ram = "\<lambda>_ _. True"
  have ready: "listening (enumerated u)" and idle: "\<not> ctrl_pending (enumerated u)"
    and fresh: "statuses (enumerated u) = []"
    by (simp_all add: listening_def enumerated_def usbf_init_def usbf_descriptors_ready_def statuses_def nth_append)
  have hand: "listening v \<Longrightarrow> hands_over (Control (\<lambda>i. if i = 0 then r else q)) v \<longleftrightarrow> r AND 0x60 \<noteq> 0"
    if "r = 0x21 \<or> r = 0xA1" for v r q
    using listening_takes [of v "\<lambda>i. if i = 0 then r else q"] that by auto
  have eval: "answers ?ram ?es (enumerated u) = [USBF_CTRL_STALL, USBF_CTRL_OK]"
    "handed_over ?ram ?es (enumerated u) = 2"
    using ready by (simp_all add: hand Let_def ending_def usbf_handles_def listening_keeps
      hands_over_def [of "Reg_read _"] hands_over_def [of "Reg_write _ _"] hands_over_def [of Bus_reset]
      del: usbf_step.simps)
  show "?P u"
    using usbf_control_completes_once [OF idle, of ?ram ?es] unfolding Let_def eval fresh by simp
qed

text \<open>C36: The OUT pipe loses and reorders nothing. Whatever packets the host sends, of which the
  controller may refuse some, a driver that polls OUT_STATE and reads the FIFO port gets the bytes
  of the accepted packets, in order, after those that were already waiting; packet boundaries and
  the four slots of the ring do not show.\<close>

theorem usbf_out_pipe_lossless:
  assumes "usbf_ok u"
  shows "fst (usbf_out.drain n (snd (host_sends ds u))) =
    take n (out_stream u @ concat (map snd (filter fst (zip (fst (host_sends ds u)) ds))))"
  using usbf_out.drain_items [OF conjunct1 [OF host_sends_stream [OF assms, of ds]], of n]
    host_sends_stream [OF assms, of ds] by simp

theorem usbf_out_pipe_lossless_witness:
  "\<forall>u. fst (usbf_out.drain 9
      (snd (host_sends [[1, 2], [], [3]] ((usbf_init u)\<lparr>attached := True, config := 1\<rparr>)))) = [1, 2, 3]"
proof
  fix u
  let ?u = "(usbf_init u)\<lparr>attached := True, config := 1\<rparr>"
  have "fst (host_sends [[1, 2], [], [3]] ?u) = [True, True, True]"
    by (simp add: usbf_host_out_def usbf_init_def Let_def usbf_notify_def)
  moreover have "out_stream ?u = []" by (simp add: out_stream_def usbf_init_def)
  ultimately show "fst (usbf_out.drain 9 (snd (host_sends [[1, 2], [], [3]] ?u))) = [1, 2, 3]"
    using usbf_out_pipe_lossless [of ?u 9 "[[1, 2], [], [3]]"]
    by (simp del: host_sends.simps)
qed

text \<open>C37: A receive DMA puts the next bytes of the OUT pipe into guest RAM at the programmed address,
  in order, takes exactly these from the pipe, touches no other byte of RAM and reports completion;
  a range that is not RAM discards the same bytes.\<close>

theorem usbf_rx_dma_exact:
  assumes "usbf_ok u" and "dma_dir u AND 0x01 = 0"
  shows "let v = usbf_write ram 0x130C 1 u; n = tx_len u in
    gmem v = (if n \<noteq> 0 \<and> ram (dma_pa u) n then store_bytes (dma_pa u) (take n (out_stream u)) (gmem u)
              else gmem u) \<and>
    out_stream v = drop n (out_stream u) \<and> bit (fst (usbf_read 0x1324 v)) 0"
proof -
  let ?r = "tx_len u \<noteq> 0 \<and> ram (dma_pa u) (tx_len u)"
  let ?w = "rx_dma ?r (dma_pa u) 0 (tx_len u) u"
  have n: "(if unat (dma_len u) > 64 then 64 else unat (dma_len u)) = tx_len u"
    by (simp add: tx_len_def)
  have v: "usbf_write ram 0x130C 1 u = usbf_notify (?w\<lparr>top_latched := top_latched ?w OR 0x01\<rparr>)"
    unfolding usbf_write_def usbf_dma_def n Let_def dma_pa_def [symmetric] using assms(2) by simp
  have "outs_ok u" using assms(1) by (simp add: usbf_ok_def)
  note rx = rx_dma_stream [OF this, of ?r "dma_pa u" 0 "tx_len u"]
  have "bit (usbf_top_stat w) 0" if "bit (top_latched w) 0" for w
    using that by (simp add: usbf_top_stat_def Let_def bit_simps)
  moreover have "fst (usbf_read 0x1324 w) = ucast (usbf_top_stat w)" for w
    by (simp add: usbf_read_def Let_def)
  ultimately show ?thesis
    unfolding v Let_def using rx
    by (simp add: usbf_notify_def out_stream_def bit_simps)
qed

theorem usbf_rx_dma_exact_witness:
  "\<forall>u. gmem (usbf_write (\<lambda>_ _. True) 0x130C 1 (snd (usbf_host_out [7, 8, 9]
      ((usbf_init u)\<lparr>attached := True, config := 1, dma_len := 2, dma_addr := 0x1000\<rparr>)))) 0x1001 = 8"
proof
  fix u
  let ?u = "(usbf_init u)\<lparr>attached := True, config := 1, dma_len := 2, dma_addr := 0x1000\<rparr>"
  let ?v = "snd (usbf_host_out [7, 8, 9] ?u)"
  have ok: "usbf_ok ?u" by simp
  have acc: "fst (usbf_host_out [7, 8, 9] ?u)"
    by (simp add: usbf_host_out_def usbf_init_def Let_def)
  have "out_stream ?u = []" by (simp add: out_stream_def usbf_init_def)
  then have str: "out_stream ?v = [7, 8, 9]" using host_out_stream(2) [OF ok, of "[7, 8, 9]"] acc by simp
  have regs: "dma_dir ?v AND 0x01 = 0" "tx_len ?v = 2" "dma_pa ?v = 0x1000"
    by (simp_all add: usbf_host_out_def usbf_init_def Let_def usbf_notify_def tx_len_def dma_pa_def)
  show "gmem (usbf_write (\<lambda>_ _. True) 0x130C 1 ?v) 0x1001 = 8"
    using usbf_rx_dma_exact [OF host_out_stream(1) [OF ok] regs(1), of "\<lambda>_ _. True"]
    unfolding regs str by (simp add: Let_def store_bytes_def numeral_2_eq_2)
qed

text \<open>C38: A driver that waits for TX_REQ loses no packet. When TOP_STAT shows the request, a transmit
  DMA of up to 64 bytes, followed by the commit when the packet is short, appends to the IN pipe
  one packet with exactly the bytes of guest RAM at the programmed address; the host takes the
  packets out in order and whole.\<close>

theorem usbf_in_pipe_lossless:
  assumes "usbf_ok u" and "bit (fst (usbf_read 0x1324 u)) 3" and "dma_dir u AND 0x01 \<noteq> 0"
    and "ram (dma_pa u) (tx_len u)" and "attached u" and "config u \<noteq> 0"
  shows "let v = usbf_write ram 0x130C 1 u; v = (if tx_len u = 64 then v else usbf_write ram 0x1490 0x02 v) in
    in_packets v = in_packets u @ [read_mem (gmem u) (dma_pa u) (tx_len u)] \<and>
    fst (usbf_host_in 64 v) = Some (hd (in_packets v)) \<and>
    in_packets (snd (usbf_host_in 64 v)) = tl (in_packets v)"
proof -
  have "\<not> bit (top_latched u) 3" using usbf_ok_top [OF assms(1)] by (auto simp: fits_bits)
  then have room: "in_count u < 2"
    using assms(2) by (simp add: usbf_read_def usbf_top_stat_def Let_def bit_simps split: if_splits)
  let ?st = "tx_stage ram u"
  have st: "pk_ok ?st" "bytes_of ?st = read_mem (gmem u) (dma_pa u) (tx_len u)"
    using tx_stage_ok [OF assms(1)] tx_stage_bytes [of ram, OF assms(4)] by simp_all
  define w where "w = u\<lparr>in_stage := ?st\<rparr>"
  have w: "usbf_ok w" "in_packets w = in_packets u" "in_stage w = ?st" "in_count w < 2"
    "attached w" "config w \<noteq> 0" "top_latched w = top_latched u"
    using assms st room by (simp_all add: w_def)
  define v where "v = (let v = usbf_write ram 0x130C 1 u in
    if tx_len u = 64 then v else usbf_write ram 0x1490 0x02 v)"
  have dma: "usbf_write ram 0x130C 1 u = usbf_notify
      ((if tx_len u = 64 then usbf_queue_in w else w)\<lparr>top_latched := top_latched u OR 0x02\<rparr>)"
    using tx_dma_stage [OF assms(3), of ram] by (simp add: usbf_write_def w_def Let_def)
  have com: "usbf_write ram 0x1490 0x02 x = usbf_notify (usbf_queue_in x)" for x
    by (simp add: usbf_write_def usbf_commit_def Let_def)
  have q: "in_packets (usbf_queue_in x) = in_packets u @ [bytes_of ?st] \<and> attached (usbf_queue_in x) \<and>
      config (usbf_queue_in x) \<noteq> 0"
    if "usbf_ok x" "in_packets x = in_packets u" "in_stage x = ?st" "in_count x < 2" "attached x" "config x \<noteq> 0" for x
    using usbf_queue_in_packets(2) [OF that(1)] that by (simp add: usbf_queue_in_def Let_def)
  have x: "usbf_ok (usbf_notify (w\<lparr>top_latched := top_latched u OR 0x02\<rparr>))"
    using w(1) usbf_ok_top [OF assms(1)] fits_done by (simp add: top_latched_ok fits_or)
  have "in_packets v = in_packets u @ [bytes_of ?st] \<and> attached v \<and> config v \<noteq> 0"
    unfolding v_def Let_def dma
    using q [OF w(1-6)] q [OF x] w com
    by (simp add: usbf_notify_def in_packets_def)
  moreover have "usbf_ok v" unfolding v_def Let_def using assms(1) by (simp add: usbf_write_ok)
  ultimately show ?thesis
    using host_in_packets(2) [of v 64 "hd (in_packets v)" "tl (in_packets v)"] st(2)
    by (simp add: v_def Let_def)
qed

theorem usbf_in_pipe_lossless_witness:
  "\<forall>u. fst (usbf_host_in 64 (usbf_write (\<lambda>_ _. True) 0x1490 0x02 (usbf_write (\<lambda>_ _. True) 0x130C 1
      ((usbf_init u)\<lparr>attached := True, config := 1, dma_dir := 1, dma_len := 2, ep1_ctrl := 0x80,
        gmem := (\<lambda>_. 0)(0 := 5, 1 := 6)\<rparr>)))) = Some [5, 6]"
proof
  fix u
  let ?u = "(usbf_init u)\<lparr>attached := True, config := 1, dma_dir := 1, dma_len := 2, ep1_ctrl := 0x80,
        gmem := (\<lambda>_. 0)(0 := 5, 1 := 6)\<rparr>"
  have ok: "usbf_ok ?u" by simp
  have "in_packets ?u = []" "tx_len ?u = 2" "dma_pa ?u = 0" "read_mem (gmem ?u) 0 2 = [5, 6]"
    by (simp_all add: in_packets_def tx_len_def dma_pa_def usbf_init_def read_mem_def upt_rec)
  moreover have "bit (fst (usbf_read 0x1324 ?u)) 3"
    by (simp add: usbf_read_def usbf_top_stat_def usbf_init_def Let_def bit_simps)
  ultimately show "fst (usbf_host_in 64 (usbf_write (\<lambda>_ _. True) 0x1490 0x02
      (usbf_write (\<lambda>_ _. True) 0x130C 1 ?u))) = Some [5, 6]"
    using usbf_in_pipe_lossless [OF ok, of "\<lambda>_ _. True"] by (simp add: Let_def)
qed

end
