(* ===== verification/Piu.thy ===== *)
theory Piu
  imports Prelude
begin

text \<open>
  The touch-panel interface, \<open>src/hw/piu.c\<close>: the scan sequencer, its double-buffered coordinate
  pages, the pen-change interrupt with its one-deep queue, and the A/D port scan.
\<close>

section \<open>State\<close>

record piu_state =
  regs :: "u16 list"
  padstate :: u16
  touch_down :: bool
  touch_x :: u16
  touch_y :: u16
  penstc :: bool
  queued_penchg :: bool
  queued_penstc :: bool
  data_armed :: bool
  data_ready_ns :: u64
  next_page :: nat
  adc :: "u16 list"
  page_adc :: "u16 list list"
  page_valid :: "bool list"
  adc_on :: bool
  aux_adc :: u16
  adport :: u16

abbreviation (input) PADSTATE_DISABLE :: u16 where "PADSTATE_DISABLE \<equiv> 0"
abbreviation (input) PADSTATE_STANDBY :: u16 where "PADSTATE_STANDBY \<equiv> 1"
abbreviation (input) PADSTATE_WAIT_PEN :: u16 where "PADSTATE_WAIT_PEN \<equiv> 4"
abbreviation (input) PADSTATE_PEN_DATA :: u16 where "PADSTATE_PEN_DATA \<equiv> 5"
abbreviation (input) PADSTATE_INTERVAL :: u16 where "PADSTATE_INTERVAL \<equiv> 6"
abbreviation (input) PENDING_PENCHG :: u16 where "PENDING_PENCHG \<equiv> 0x01"
abbreviation (input) PENDING_DATALOST :: u16 where "PENDING_DATALOST \<equiv> 0x04"
abbreviation (input) PENDING_PAGE0 :: u16 where "PENDING_PAGE0 \<equiv> 0x08"
abbreviation (input) PENDING_PAGE1 :: u16 where "PENDING_PAGE1 \<equiv> 0x10"
abbreviation (input) PENDING_ADPORT :: u16 where "PENDING_ADPORT \<equiv> 0x40"
abbreviation (input) PENDING_COORDINATE :: u16 where "PENDING_COORDINATE \<equiv> 0x1C"
abbreviation (input) PENDING_ANY :: u16 where "PENDING_ANY \<equiv> 0x5D"

section \<open>Operations\<close>

definition time_reached :: "u64 \<Rightarrow> u64 \<Rightarrow> bool" where
  "time_reached now_ns due_ns \<longleftrightarrow> sint (now_ns - due_ns) \<ge> 0"

definition conversion_delay_us :: "piu_state \<Rightarrow> u64" where
  "conversion_delay_us p =
     (let stable_units = ucast (regs p ! 3 AND 0x003F);
          conversions = (if regs p ! 0 AND 0x0020 \<noteq> 0 then 5 else 4)
      in stable_units * 30 + conversions * 10)"

definition interval_delay_us :: "piu_state \<Rightarrow> u64" where
  "interval_delay_us p = ucast (regs p ! 2 AND 0x07FF) * 30 + conversion_delay_us p"

definition arm_sample :: "u64 \<Rightarrow> u64 \<Rightarrow> piu_state \<Rightarrow> piu_state" where
  "arm_sample now_ns delay_us p = p\<lparr>data_armed := True, data_ready_ns := now_ns + delay_us * 1000\<rparr>"

definition reset_registers :: "piu_state \<Rightarrow> piu_state" where
  "reset_registers p =
     \<lparr>regs = (replicate 16 0)[2 := 0x00A7, 3 := 0x0007], padstate = 0, touch_down = touch_down p,
      touch_x = touch_x p, touch_y = touch_y p, penstc = False, queued_penchg = False,
      queued_penstc = False, data_armed = False, data_ready_ns = 0, next_page = 0,
      adc = replicate 4 0, page_adc = replicate 2 (replicate 4 0), page_valid = replicate 2 False,
      adc_on = False, aux_adc = 0, adport = 0\<rparr>"

definition piu_init :: "piu_state \<Rightarrow> piu_state" where
  "piu_init p = (reset_registers p)\<lparr>touch_down := False, touch_x := 0, touch_y := 0\<rparr>"

definition adc_x :: "u16 \<Rightarrow> u32" where
  "adc_x tx =
     (let x = ucast tx; x = (if x \<ge> 240 then 240 - 1 else x)
      in (x * (0x8D1B - 0x8300)) div (240 - 1))"

definition adc_y :: "u16 \<Rightarrow> u32" where
  "adc_y ty =
     (let y = ucast ty; y = (if y \<ge> 360 then 360 - 1 else y)
      in (y * (0x8E30 - 0x81E1)) div (360 - 1))"

definition latch_sample :: "piu_state \<Rightarrow> piu_state" where
  "latch_sample p =
     p\<lparr>adc := [ucast (0x81E1 + adc_y (touch_y p)), ucast (0x8E30 - adc_y (touch_y p)),
               ucast (0x8D1B - adc_x (touch_x p)), ucast (0x8300 + adc_x (touch_x p))]\<rparr>"

definition raise_penchg :: "bool \<Rightarrow> piu_state \<Rightarrow> piu_state" where
  "raise_penchg down p =
     (if regs p ! 1 AND PENDING_PENCHG \<noteq> 0 then p\<lparr>queued_penchg := True, queued_penstc := down\<rparr>
      else p\<lparr>penstc := down, regs := (regs p)[1 := regs p ! 1 OR PENDING_PENCHG]\<rparr>)"

definition clear_coordinate_state :: "piu_state \<Rightarrow> piu_state" where
  "clear_coordinate_state p =
     p\<lparr>regs := (regs p)[1 := regs p ! 1 AND NOT PENDING_COORDINATE], page_valid := [False, False],
       data_armed := False, data_ready_ns := 0, next_page := 0\<rparr>"

definition wait_pen_enabled :: "piu_state \<Rightarrow> bool" where
  "wait_pen_enabled p \<longleftrightarrow>
     (let ctl = regs p ! 0
      in ctl AND 0x0004 \<noteq> 0 \<and> ctl AND 0x0100 \<noteq> 0 \<and> ctl AND 0x0018 = 0 \<and> adc_on p)"

definition signal_pen_down :: "u64 \<Rightarrow> piu_state \<Rightarrow> piu_state" where
  "signal_pen_down now_ns p =
     (let p = clear_coordinate_state p;
          p = (if padstate p = PADSTATE_WAIT_PEN \<and> regs p ! 0 AND 0x0100 \<noteq> 0
               then (let p = p\<lparr>padstate := PADSTATE_PEN_DATA\<rparr>
                     in arm_sample now_ns (conversion_delay_us p) p)
               else p)
      in raise_penchg True (latch_sample p))"

definition signal_pen_up :: "piu_state \<Rightarrow> piu_state" where
  "signal_pen_up p =
     (let wait_enabled = wait_pen_enabled p;
          should_signal = (wait_enabled \<or> padstate p \<ge> PADSTATE_WAIT_PEN)
      in if wait_enabled \<and> padstate p \<ge> PADSTATE_PEN_DATA \<and> regs p ! 0 AND 0x0200 = 0
         then raise_penchg False p
         else
           let p = p\<lparr>data_armed := False, data_ready_ns := 0\<rparr>;
               p = (if wait_enabled then p\<lparr>padstate := PADSTATE_WAIT_PEN\<rparr>
                    else if padstate p > PADSTATE_STANDBY then p\<lparr>padstate := PADSTATE_STANDBY\<rparr>
                    else p)
           in if should_signal then raise_penchg False p else p)"

definition page_bit :: "nat \<Rightarrow> u16" where
  "page_bit page = (if page \<noteq> 0 then PENDING_PAGE1 else PENDING_PAGE0)"

definition page_available :: "piu_state \<Rightarrow> nat \<Rightarrow> bool" where
  "page_available p page \<longleftrightarrow> regs p ! 1 AND page_bit page = 0 \<and> \<not> page_valid p ! page"

definition select_page :: "piu_state \<Rightarrow> nat option" where
  "select_page p =
     (let page = next_page p mod 2; oth = (if page = 0 then 1 else 0)
      in if page_available p page then Some page
         else if page_available p oth then Some oth else None)"

definition queue_coordinate_sample :: "u64 \<Rightarrow> piu_state \<Rightarrow> piu_state" where
  "queue_coordinate_sample now_ns p =
     (if \<not> touch_down p \<or> padstate p < PADSTATE_PEN_DATA \<or> \<not> data_armed p \<or>
         \<not> time_reached now_ns (data_ready_ns p) then p
      else
        (case select_page p of
           None \<Rightarrow>
             p\<lparr>regs := (regs p)[1 := regs p ! 1 OR PENDING_DATALOST], padstate := PADSTATE_STANDBY,
               data_armed := False, data_ready_ns := 0\<rparr>
         | Some page \<Rightarrow>
             let p = latch_sample p;
                 p = p\<lparr>page_adc := (page_adc p)[page := adc p], page_valid := (page_valid p)[page := True],
                       next_page := (if page = 0 then 1 else 0),
                       regs := (regs p)[1 := regs p ! 1 OR page_bit page],
                       padstate := PADSTATE_INTERVAL\<rparr>
             in arm_sample now_ns (interval_delay_us p) p))"

definition refresh_control_state :: "u64 \<Rightarrow> piu_state \<Rightarrow> piu_state" where
  "refresh_control_state now_ns p =
     (let ctl = regs p ! 0;
          p = (if padstate p = PADSTATE_DISABLE \<and> ctl \<noteq> 0 then p\<lparr>padstate := PADSTATE_STANDBY\<rparr> else p)
      in if wait_pen_enabled p then
           (if padstate p = PADSTATE_STANDBY \<and> regs p ! 1 AND PENDING_COORDINATE \<noteq> 0 then p
            else
              let p = (if padstate p < PADSTATE_WAIT_PEN then p\<lparr>padstate := PADSTATE_WAIT_PEN\<rparr> else p)
              in if touch_down p \<and> padstate p = PADSTATE_WAIT_PEN then signal_pen_down now_ns p else p)
         else if ctl AND (0x0004 OR 0x0040) = (0x0004 OR 0x0040) \<and> ctl AND 0x0018 = 0 \<and> adc_on p \<and>
                 padstate p = PADSTATE_STANDBY then
           (let p = p\<lparr>padstate := PADSTATE_PEN_DATA\<rparr>
            in if touch_down p then arm_sample now_ns (conversion_delay_us p) p else p)
         else if ctl AND 0x0004 = 0 \<and> padstate p > PADSTATE_STANDBY then
           (clear_coordinate_state p)\<lparr>padstate := PADSTATE_STANDBY\<rparr>
         else p)"

definition piu_set_touch :: "bool \<Rightarrow> u16 \<Rightarrow> u16 \<Rightarrow> u64 \<Rightarrow> piu_state \<Rightarrow> piu_state" where
  "piu_set_touch down x y now_ns p =
     (let prev = touch_down p;
          p = p\<lparr>touch_down := down, touch_x := x, touch_y := y\<rparr>
      in if padstate p = PADSTATE_WAIT_PEN \<and> down \<and> \<not> prev then signal_pen_down now_ns p
         else if \<not> down \<and> prev then signal_pen_up p
         else if down then queue_coordinate_sample now_ns p
         else p)"

definition piu_tick :: "u64 \<Rightarrow> piu_state \<Rightarrow> piu_state" where
  "piu_tick = queue_coordinate_sample"

definition piu_write_cnt :: "u16 \<Rightarrow> u64 \<Rightarrow> piu_state \<Rightarrow> piu_state" where
  "piu_write_cnt value now_ns p =
     (if value AND 0x0001 \<noteq> 0 then reset_registers p
      else
        let p = refresh_control_state now_ns (p\<lparr>regs := (regs p)[0 := value AND 0x03FE]\<rparr>)
        in if value AND 0x0004 \<noteq> 0 \<and> value AND 0x0018 = 0x0008 \<and> adc_on p
           then p\<lparr>adport := aux_adc p AND 0x0FFF, regs := (regs p)[1 := regs p ! 1 OR PENDING_ADPORT]\<rparr>
           else p)"

definition ack_pages :: "u16 \<Rightarrow> piu_state \<Rightarrow> piu_state" where
  "ack_pages pending_ack p =
     (let p = (if pending_ack AND PENDING_PAGE0 \<noteq> 0 then p\<lparr>page_valid := (page_valid p)[0 := False]\<rparr> else p)
      in if pending_ack AND PENDING_PAGE1 \<noteq> 0 then p\<lparr>page_valid := (page_valid p)[1 := False]\<rparr> else p)"

definition ack_penchg :: "u16 \<Rightarrow> piu_state \<Rightarrow> piu_state" where
  "ack_penchg pending_ack p =
     (if pending_ack AND PENDING_PENCHG \<noteq> 0 then
        (if queued_penchg p then
           p\<lparr>penstc := queued_penstc p, queued_penchg := False,
             regs := (regs p)[1 := regs p ! 1 OR PENDING_PENCHG]\<rparr>
         else p\<lparr>penstc := touch_down p\<rparr>)
      else p)"

definition piu_write_int :: "u16 \<Rightarrow> u64 \<Rightarrow> piu_state \<Rightarrow> piu_state" where
  "piu_write_int value now_ns p =
     (let old_pending = regs p ! 1 AND 0x00FF;
          pending_ack = value AND 0x00FF;
          new_mask = drop_bit 8 value AND 0x00FF;
          data_acked = (old_pending AND pending_ack AND (PENDING_PAGE0 OR PENDING_PAGE1) \<noteq> 0);
          p = p\<lparr>regs := (regs p)[1 := regs p ! 1 AND NOT (pending_ack AND PENDING_ANY)]\<rparr>;
          p = p\<lparr>regs := (regs p)[1 := (regs p ! 1 AND 0x00FF) OR push_bit 8 new_mask]\<rparr>;
          p = ack_penchg pending_ack (ack_pages pending_ack p)
      in if data_acked \<and> touch_down p \<and> padstate p \<ge> PADSTATE_PEN_DATA \<and> \<not> data_armed p
         then arm_sample now_ns (interval_delay_us p) p else p)"

definition piu_write :: "u32 \<Rightarrow> u16 \<Rightarrow> u64 \<Rightarrow> piu_state \<Rightarrow> piu_state" where
  "piu_write offset value now_ns p =
     (if offset > 0x18 \<or> offset AND 3 \<noteq> 0 then p
      else if offset = 0x00 then piu_write_cnt value now_ns p
      else if offset = 0x04 then piu_write_int value now_ns p
      else p\<lparr>regs := (regs p)[unat offset div 4 := value]\<rparr>)"

definition piu_read_page :: "nat \<Rightarrow> u32 \<Rightarrow> piu_state \<Rightarrow> u16" where
  "piu_read_page page offset p =
     (let lane = offset AND 0x0F in
      if page_valid p ! page then
        (if lane = 0x00 then page_adc p ! page ! 0
         else if lane = 0x04 then page_adc p ! page ! 1
         else if lane = 0x08 then page_adc p ! page ! 2
         else if lane = 0x0C then page_adc p ! page ! 3
         else 0)
      else
        (if lane = 0x00 then 0x81E1
         else if lane = 0x04 then 0x8E30
         else if lane = 0x08 then 0x8300
         else if lane = 0x0C then 0x8D1B
         else 0))"

definition piu_read :: "u32 \<Rightarrow> u64 \<Rightarrow> piu_state \<Rightarrow> u16 \<times> piu_state" where
  "piu_read offset now_ns p =
     (let p = piu_tick now_ns p in
      (if offset = 0x00 then
         (regs p ! 0 AND 0x03FF) OR push_bit 10 (padstate p AND 7) OR
         (if (if regs p ! 1 AND PENDING_PENCHG \<noteq> 0 then penstc p else touch_down p) then 0x2000 else 0)
       else if offset = 0x04 then regs p ! 1
       else if offset \<le> 0x18 \<and> offset AND 3 = 0 then regs p ! (unat offset div 4)
       else if offset = 0x90 then adport p
       else if \<not> ((offset \<ge> 0x20 \<and> offset \<le> 0x2C) \<or> (offset \<ge> 0x50 \<and> offset \<le> 0x5C)) then 0
       else piu_read_page (if offset \<ge> 0x50 then 1 else 0) offset p, p))"

definition piu_irq_pending :: "piu_state \<Rightarrow> bool" where
  "piu_irq_pending p \<longleftrightarrow> regs p ! 1 AND drop_bit 8 (regs p ! 1) \<noteq> 0"

section \<open>Events and invariant\<close>

text \<open>Besides bus accesses, ticks and touches, the machine sets the A/D enable and input level.\<close>

datatype piu_event =
  Touch bool u16 u16 u64 | Tick u64 | Write u32 u16 u64 | Read u32 u64 | Adc_enable bool | Aux_level u16

fun piu_step :: "piu_event \<Rightarrow> piu_state \<Rightarrow> piu_state" where
  "piu_step (Touch down x y now) p = piu_set_touch down x y now p"
| "piu_step (Tick now) p = piu_tick now p"
| "piu_step (Write off v now) p = piu_write off v now p"
| "piu_step (Read off now) p = snd (piu_read off now p)"
| "piu_step (Adc_enable b) p = p\<lparr>adc_on := b\<rparr>"
| "piu_step (Aux_level a) p = p\<lparr>aux_adc := a\<rparr>"

text \<open>A coordinate page is valid exactly while its interrupt is pending.\<close>

definition piu_ok :: "piu_state \<Rightarrow> bool" where
  [wf_simps]: "piu_ok p \<longleftrightarrow> length (regs p) = 16 \<and> length (page_valid p) = 2 \<and> length (page_adc p) = 2 \<and>
     page_valid p ! 0 = bit (regs p ! 1) 3 \<and> page_valid p ! 1 = bit (regs p ! 1) 4 \<and>
     padstate p \<in> {PADSTATE_DISABLE, PADSTATE_STANDBY, PADSTATE_WAIT_PEN, PADSTATE_PEN_DATA, PADSTATE_INTERVAL}"

lemma bit_flag:
  "bit (1 :: u16) n \<longleftrightarrow> n = 0" "bit (4 :: u16) n \<longleftrightarrow> n = 2" "bit (8 :: u16) n \<longleftrightarrow> n = 3"
  "bit (0x10 :: u16) n \<longleftrightarrow> n = 4" "bit (0x40 :: u16) n \<longleftrightarrow> n = 6"
proof -
  have "(4 :: u16) = 2 ^ 2" "(8 :: u16) = 2 ^ 3" "(0x10 :: u16) = 2 ^ 4" "(0x40 :: u16) = 2 ^ 6" by simp_all
  then show "bit (1 :: u16) n \<longleftrightarrow> n = 0" "bit (4 :: u16) n \<longleftrightarrow> n = 2" "bit (8 :: u16) n \<longleftrightarrow> n = 3"
    "bit (0x10 :: u16) n \<longleftrightarrow> n = 4" "bit (0x40 :: u16) n \<longleftrightarrow> n = 6"
    by (auto simp only: bit_exp_iff possible_bit_def bit_1_iff) simp_all
qed

lemma flag_set: "(w :: u16) AND 1 \<noteq> 0 \<longleftrightarrow> bit w 0" "w AND 8 \<noteq> 0 \<longleftrightarrow> bit w 3"
  "w AND 0x10 \<noteq> 0 \<longleftrightarrow> bit w 4"
  unfolding bit_eq_iff by (simp only: bit_and_iff bit_flag; auto)+

lemma list2_cases: "length xs = 2 \<Longrightarrow> \<exists>a b. xs = [a, b]"
  by (auto simp: length_Suc_conv numeral_2_eq_2)

lemma raise_penchg_ok: "piu_ok p \<Longrightarrow> piu_ok (raise_penchg d p)"
  by (simp add: wf_simps raise_penchg_def bit_simps bit_flag)

lemma latch_sample_ok: "piu_ok p \<Longrightarrow> piu_ok (latch_sample p)"
  by (simp add: wf_simps latch_sample_def)

lemma clear_coordinate_ok: "piu_ok p \<Longrightarrow> piu_ok (clear_coordinate_state p)"
  by (simp add: wf_simps clear_coordinate_state_def bit_simps)

lemma arm_sample_ok [simp]: "piu_ok (arm_sample n d p) = piu_ok p"
  by (simp add: wf_simps arm_sample_def)

lemma padstate_ok:
  "piu_ok p \<Longrightarrow> t \<in> {0, 1, 4, 5, 6} \<Longrightarrow> piu_ok (p\<lparr>padstate := t\<rparr>)"
  by (simp add: wf_simps)

lemma other_fields_ok [simp]:
  "piu_ok (p\<lparr>touch_down := b\<rparr>) = piu_ok p" "piu_ok (p\<lparr>touch_x := v\<rparr>) = piu_ok p"
  "piu_ok (p\<lparr>touch_y := v\<rparr>) = piu_ok p" "piu_ok (p\<lparr>data_armed := b\<rparr>) = piu_ok p"
  "piu_ok (p\<lparr>data_ready_ns := t\<rparr>) = piu_ok p" "piu_ok (p\<lparr>adc_on := b\<rparr>) = piu_ok p"
  "piu_ok (p\<lparr>aux_adc := v\<rparr>) = piu_ok p" "piu_ok (p\<lparr>adport := v\<rparr>) = piu_ok p"
  "piu_ok (p\<lparr>penstc := b\<rparr>) = piu_ok p" "piu_ok (p\<lparr>queued_penchg := b\<rparr>) = piu_ok p"
  by (simp_all add: wf_simps)

lemma signal_pen_down_ok: "piu_ok p \<Longrightarrow> piu_ok (signal_pen_down now p)"
  by (simp add: signal_pen_down_def Let_def raise_penchg_ok latch_sample_ok clear_coordinate_ok padstate_ok)

lemma signal_pen_up_ok: "piu_ok p \<Longrightarrow> piu_ok (signal_pen_up p)"
  by (simp add: signal_pen_up_def Let_def raise_penchg_ok padstate_ok)

lemma select_page_range: "select_page p = Some k \<Longrightarrow> k < 2 \<and> page_available p k"
  by (auto simp: select_page_def Let_def split: if_splits)

lemma page_stored_ok:
  assumes "piu_ok p" and "k < 2"
  shows "piu_ok (p\<lparr>page_adc := (page_adc p)[k := a], page_valid := (page_valid p)[k := True],
    next_page := n, regs := (regs p)[1 := regs p ! 1 OR page_bit k], padstate := PADSTATE_INTERVAL\<rparr>)"
proof -
  have "k = 0 \<or> k = 1" using assms(2) by linarith
  then show ?thesis using assms(1)
    by (elim disjE) (simp_all add: wf_simps page_bit_def bit_or_iff bit_flag)
qed

lemma data_lost_ok:
  "piu_ok p \<Longrightarrow> piu_ok (p\<lparr>regs := (regs p)[1 := regs p ! 1 OR PENDING_DATALOST], padstate := PADSTATE_STANDBY,
     data_armed := b, data_ready_ns := t\<rparr>)"
  by (simp add: wf_simps bit_or_iff bit_flag)

lemma queue_coordinate_ok: "piu_ok p \<Longrightarrow> piu_ok (queue_coordinate_sample now p)"
proof -
  assume ok: "piu_ok p"
  show ?thesis
  proof (cases "select_page p")
    case None
    then show ?thesis using ok data_lost_ok by (simp add: queue_coordinate_sample_def)
  next
    case (Some k)
    then have "k < 2" using select_page_range by blast
    then show ?thesis using ok Some page_stored_ok [OF latch_sample_ok [OF ok]]
      by (simp add: queue_coordinate_sample_def Let_def del: fun_upd_apply)
  qed
qed

lemma refresh_ok: "piu_ok p \<Longrightarrow> piu_ok (refresh_control_state now p)"
proof -
  assume ok: "piu_ok p"
  have if_ok: "(c \<Longrightarrow> piu_ok a) \<Longrightarrow> (\<not> c \<Longrightarrow> piu_ok b) \<Longrightarrow> piu_ok (if c then a else b)" for a b c by simp
  show ?thesis unfolding refresh_control_state_def Let_def
    by (intro if_ok) (auto simp: ok padstate_ok signal_pen_down_ok clear_coordinate_ok)
qed

lemma reset_registers_ok: "piu_ok (reset_registers p)"
  by (simp add: wf_simps reset_registers_def)

lemma piu_write_cnt_ok: "piu_ok p \<Longrightarrow> piu_ok (piu_write_cnt v now p)"
proof -
  assume ok: "piu_ok p"
  have "piu_ok (p\<lparr>regs := (regs p)[0 := v AND 0x03FE]\<rparr>)" using ok by (simp add: wf_simps)
  note refresh_ok [OF this, of now]
  moreover have "piu_ok (q\<lparr>adport := a, regs := (regs q)[1 := regs q ! 1 OR PENDING_ADPORT]\<rparr>)"
    if "piu_ok q" for q a
    using that by (simp add: wf_simps bit_or_iff bit_flag)
  ultimately show ?thesis
    unfolding piu_write_cnt_def Let_def by (simp add: reset_registers_ok)
qed

text \<open>Writing the interrupt register: what is left pending, and the two pages.\<close>

definition int_left :: "u16 \<Rightarrow> u16 \<Rightarrow> u16" where
  "int_left v r = ((r AND NOT (v AND 0x00FF AND PENDING_ANY)) AND 0x00FF) OR push_bit 8 (drop_bit 8 v AND 0x00FF)"

lemma ack_flags:
  "v AND 0x00FF AND 0x08 \<noteq> 0 \<longleftrightarrow> bit v 3" "v AND 0x00FF AND 0x10 \<noteq> 0 \<longleftrightarrow> bit v 4"
  "(v :: u16) AND 0x00FF AND 0x01 \<noteq> 0 \<longleftrightarrow> bit v 0"
  by (simp_all add: flag_set)

lemma ack_pages_eq:
  "length (page_valid p) = 2 \<Longrightarrow> ack_pages (v AND 0x00FF) p =
     p\<lparr>page_valid := [page_valid p ! 0 \<and> \<not> bit v 3, page_valid p ! 1 \<and> \<not> bit v 4]\<rparr>"
  unfolding ack_pages_def and.assoc ack_flags Let_def
  by (cases p) (auto dest!: list2_cases)

lemma ack_penchg_eq:
  "length (regs p) = 16 \<Longrightarrow> ack_penchg (v AND 0x00FF) p =
     p\<lparr>penstc := (if bit v 0 then (if queued_penchg p then queued_penstc p else touch_down p) else penstc p),
       queued_penchg := (queued_penchg p \<and> \<not> bit v 0),
       regs := (if bit v 0 \<and> queued_penchg p then (regs p)[1 := regs p ! 1 OR PENDING_PENCHG] else regs p)\<rparr>"
  unfolding ack_penchg_def and.assoc ack_flags by (cases p) auto

lemma piu_write_int_eq:
  fixes v :: u16 and now :: u64
  assumes "length (regs p) = 16" and "length (page_valid p) = 2"
  shows "\<exists>b t. piu_write_int v now p =
    p\<lparr>regs := (regs p)[1 := int_left v (regs p ! 1) OR (if bit v 0 \<and> queued_penchg p then PENDING_PENCHG else 0)],
      page_valid := [page_valid p ! 0 \<and> \<not> bit v 3, page_valid p ! 1 \<and> \<not> bit v 4],
      penstc := (if bit v 0 then (if queued_penchg p then queued_penstc p else touch_down p) else penstc p),
      queued_penchg := (queued_penchg p \<and> \<not> bit v 0), data_armed := b, data_ready_ns := t\<rparr>"
proof -
  have arm: "\<exists>b t. (if c then arm_sample n (d q) q else q) = q\<lparr>data_armed := b, data_ready_ns := t\<rparr>" for c n d q
    by (cases q) (auto simp: arm_sample_def)
  let ?q = "p\<lparr>regs := (regs p)[1 := int_left v (regs p ! 1) OR (if bit v 0 \<and> queued_penchg p then PENDING_PENCHG else 0)],
      page_valid := [page_valid p ! 0 \<and> \<not> bit v 3, page_valid p ! 1 \<and> \<not> bit v 4],
      penstc := (if bit v 0 then (if queued_penchg p then queued_penstc p else touch_down p) else penstc p),
      queued_penchg := (queued_penchg p \<and> \<not> bit v 0)\<rparr>"
  have "ack_penchg (v AND 0x00FF) (ack_pages (v AND 0x00FF)
      (p\<lparr>regs := (regs p)[1 := int_left v (regs p ! 1)]\<rparr>)) = ?q"
  proof -
    let ?p1 = "p\<lparr>regs := (regs p)[1 := int_left v (regs p ! 1)]\<rparr>"
    have 1: "ack_pages (v AND 0x00FF) ?p1 =
        ?p1\<lparr>page_valid := [page_valid p ! 0 \<and> \<not> bit v 3, page_valid p ! 1 \<and> \<not> bit v 4]\<rparr>"
      using ack_pages_eq [of ?p1 v] assms(2) by simp
    show ?thesis unfolding 1 using assms(1)
      by (subst ack_penchg_eq, simp) (cases "bit v 0 \<and> queued_penchg p"; simp)
  qed
  moreover have "p\<lparr>regs := (regs p)[1 := regs p ! 1 AND NOT (v AND 0x00FF AND PENDING_ANY)]\<rparr>
      \<lparr>regs := (regs (p\<lparr>regs := (regs p)[1 := regs p ! 1 AND NOT (v AND 0x00FF AND PENDING_ANY)]\<rparr>))
        [1 := (regs (p\<lparr>regs := (regs p)[1 := regs p ! 1 AND NOT (v AND 0x00FF AND PENDING_ANY)]\<rparr>) ! 1 AND 0x00FF)
          OR push_bit 8 (drop_bit 8 v AND 0x00FF)]\<rparr> = p\<lparr>regs := (regs p)[1 := int_left v (regs p ! 1)]\<rparr>"
    using assms(1) by (simp add: int_left_def and.assoc)
  ultimately have "\<exists>c d. piu_write_int v now p = (if c then arm_sample now d ?q else ?q)"
    unfolding piu_write_int_def Let_def and.assoc by (simp only:) blast
  then obtain c d where "piu_write_int v now p = (if c then arm_sample now d ?q else ?q)" by blast
  also obtain b t where "\<dots> = ?q\<lparr>data_armed := b, data_ready_ns := t\<rparr>"
    using arm [of c now "\<lambda>_. d" ?q] by blast
  finally show ?thesis by (intro exI) assumption
qed

lemma int_left_bits:
  "bit (int_left v r) 3 \<longleftrightarrow> bit r 3 \<and> \<not> bit v 3" "bit (int_left v r) 4 \<longleftrightarrow> bit r 4 \<and> \<not> bit v 4"
  "bit (int_left v r) 0 \<longleftrightarrow> bit r 0 \<and> \<not> bit v 0"
  by (simp_all add: int_left_def bit_or_iff bit_and_iff bit_not_iff bit_push_bit_iff)

lemma piu_write_int_ok: "piu_ok p \<Longrightarrow> piu_ok (piu_write_int v now p)"
proof -
  assume ok: "piu_ok p"
  then have "length (regs p) = 16" "length (page_valid p) = 2" by (simp_all add: wf_simps)
  from piu_write_int_eq [OF this, of v now] obtain b t where eq: "piu_write_int v now p =
    p\<lparr>regs := (regs p)[1 := int_left v (regs p ! 1) OR (if bit v 0 \<and> queued_penchg p then PENDING_PENCHG else 0)],
      page_valid := [page_valid p ! 0 \<and> \<not> bit v 3, page_valid p ! 1 \<and> \<not> bit v 4],
      penstc := (if bit v 0 then (if queued_penchg p then queued_penstc p else touch_down p) else penstc p),
      queued_penchg := (queued_penchg p \<and> \<not> bit v 0), data_armed := b, data_ready_ns := t\<rparr>"
    by blast
  show ?thesis unfolding eq using ok by (simp add: piu_ok_def bit_or_iff bit_flag int_left_bits)
qed

lemma piu_write_reg_ok:
  fixes offset :: u32
  assumes "piu_ok p" and "offset \<le> 0x18" and "offset AND 3 = 0" and "offset \<noteq> 0x04"
  shows "piu_ok (p\<lparr>regs := (regs p)[unat offset div 4 := v]\<rparr>)"
proof -
  have "unat offset div 4 \<noteq> 1"
  proof
    assume "unat offset div 4 = 1"
    then have "unat offset = 4 \<or> unat offset = 5 \<or> unat offset = 6 \<or> unat offset = 7" by linarith
    then have "offset = 4 \<or> offset = 5 \<or> offset = 6 \<or> offset = 7" by (simp add: word_unat_eq_iff)
    then show False using assms(3,4) by auto
  qed
  then show ?thesis using assms(1) by (simp add: wf_simps)
qed

lemma piu_write_ok: "piu_ok p \<Longrightarrow> piu_ok (piu_write off v now p)"
  by (auto simp: piu_write_def piu_write_cnt_ok piu_write_int_ok not_less intro: piu_write_reg_ok)

lemma piu_step_ok: "piu_ok p \<Longrightarrow> piu_ok (piu_step e p)"
  by (cases e)
    (simp_all add: piu_set_touch_def piu_tick_def piu_read_def Let_def signal_pen_down_ok signal_pen_up_ok
      queue_coordinate_ok piu_write_ok)

interpretation piu: device piu_step piu_ok
  by unfold_locales (rule piu_step_ok)

lemma piu_init_ok: "piu_ok (piu_init p)"
  by (simp add: wf_simps piu_init_def reset_registers_def)

section \<open>Pages\<close>

definition stable :: "piu_state \<Rightarrow> piu_state \<Rightarrow> bool" where
  "stable p q \<longleftrightarrow> (\<forall>k < 2. page_valid p ! k \<and> page_valid q ! k \<longrightarrow> page_adc q ! k = page_adc p ! k)"

lemma stable_same: "page_adc q = page_adc p \<Longrightarrow> stable p q"
  by (simp add: stable_def)

lemma page_adc_frame [simp]:
  "page_adc (raise_penchg d p) = page_adc p" "page_adc (latch_sample p) = page_adc p"
  "page_adc (clear_coordinate_state p) = page_adc p" "page_adc (arm_sample n t p) = page_adc p"
  "page_adc (signal_pen_down n p) = page_adc p" "page_adc (signal_pen_up p) = page_adc p"
  by (simp_all add: raise_penchg_def latch_sample_def clear_coordinate_state_def arm_sample_def
      signal_pen_down_def signal_pen_up_def Let_def)

lemma page_adc_refresh [simp]: "page_adc (refresh_control_state n p) = page_adc p"
  by (simp add: refresh_control_state_def Let_def)

lemma queue_coordinate_stable:
  assumes "piu_ok p" shows "stable p (queue_coordinate_sample now p)"
proof (cases "select_page p")
  case None
  then show ?thesis by (intro stable_same) (simp add: queue_coordinate_sample_def)
next
  case (Some k)
  then have "k < 2" "\<not> page_valid p ! k" using select_page_range by (auto simp: page_available_def)
  then show ?thesis using Some assms
    by (auto simp: stable_def queue_coordinate_sample_def Let_def arm_sample_def latch_sample_def wf_simps
        nth_list_update)
qed

lemma piu_write_stable: "piu_ok p \<Longrightarrow> stable p (piu_write off v now p)"
proof -
  assume ok: "piu_ok p"
  then have len: "length (regs p) = 16" "length (page_valid p) = 2" by (simp_all add: wf_simps)
  have reset: "stable p (reset_registers p)"
    by (auto simp: stable_def reset_registers_def less_Suc_eq numeral_2_eq_2)
  have "page_adc (piu_write_int v now p) = page_adc p"
    using piu_write_int_eq [OF len, of v now] by force
  then show ?thesis
    using reset by (simp add: piu_write_def piu_write_cnt_def Let_def stable_same)
qed

lemma stable_cong: "page_valid p' = page_valid p \<Longrightarrow> page_adc p' = page_adc p \<Longrightarrow> stable p' q = stable p q"
  by (simp add: stable_def)

lemma piu_step_stable: "piu_ok p \<Longrightarrow> stable p (piu_step e p)"
proof (cases e)
  case (Touch d x y now)
  assume ok: "piu_ok p"
  let ?p = "p\<lparr>touch_down := d, touch_x := x, touch_y := y\<rparr>"
  have "stable ?p (queue_coordinate_sample now ?p)" using ok by (intro queue_coordinate_stable) simp
  then have "stable p (queue_coordinate_sample now ?p)" using stable_cong [of ?p p] by simp
  then show ?thesis using Touch by (cases d) (simp_all add: piu_set_touch_def Let_def stable_same)
qed (simp_all add: piu_tick_def piu_read_def Let_def queue_coordinate_stable piu_write_stable stable_same)

section \<open>Coordinates\<close>

definition px :: "u16 \<Rightarrow> nat" where "px x = min (unat x) 239"

definition py :: "u16 \<Rightarrow> nat" where "py y = min (unat y) 359"

lemma adc_xy: "unat (adc_x x) = px x * 2587 div 239" "unat (adc_y y) = py y * 3151 div 359"
proof -
  have "unat (adc_x x) = px x * 2587 div 239"
  proof (cases "unat x < 240")
    case True
    then have "unat (ucast x * 2587 :: u32) = unat x * 2587" by (simp add: unat_word_ariths(2))
    then show ?thesis using True by (simp add: adc_x_def px_def unat_div word_le_nat_alt)
  qed (simp add: adc_x_def px_def word_le_nat_alt)
  moreover have "unat (adc_y y) = py y * 3151 div 359"
  proof (cases "unat y < 360")
    case True
    then have "unat (ucast y * 3151 :: u32) = unat y * 3151" by (simp add: unat_word_ariths(2))
    then show ?thesis using True by (simp add: adc_y_def py_def unat_div word_le_nat_alt)
  qed (simp add: adc_y_def py_def word_le_nat_alt)
  ultimately show "unat (adc_x x) = px x * 2587 div 239" "unat (adc_y y) = py y * 3151 div 359" by simp_all
qed

text \<open>The step of the converter is wider than a pixel, so the pixel can be recovered.\<close>

lemma scale_inverse:
  fixes x s n :: nat
  assumes "0 < n" and "n \<le> s"
  shows "(x * s div n * n + s - 1) div s = x"
proof -
  define a where "a = x * s div n"
  have a: "a * n \<le> x * s" "x * s < a * n + n"
    using assms(1) by (simp_all add: a_def dividend_less_div_times add.commute)
  have "(a * n + s - 1) div s = x"
    using a assms by (intro div_nat_eqI) (simp_all add: algebra_simps)
  then show ?thesis by (simp add: a_def)
qed

lemma px_bound: "px x * 2587 div 239 \<le> 2587" "py y * 3151 div 359 \<le> 3151"
  by (simp_all add: px_def py_def min_def div_le_mono [of _ "239 * 2587" 239, simplified]
      div_le_mono [of _ "359 * 3151" 359, simplified])

lemma latch_values:
  "map unat (adc (latch_sample p)) =
     [0x81E1 + py (touch_y p) * 3151 div 359, 0x8E30 - py (touch_y p) * 3151 div 359,
      0x8D1B - px (touch_x p) * 2587 div 239, 0x8300 + px (touch_x p) * 2587 div 239]"
proof -
  have up: "unat (ucast (of_nat k + w :: u32) :: u16) = k + unat w" if "k \<le> 40000" "unat w \<le> 3151" for k w
    using that by (simp add: unsigned_ucast_eq unat_word_ariths(1) unat_of_nat take_bit_nat_eq_self)
  have down: "unat (ucast (of_nat k - w :: u32) :: u16) = k - unat w" if "unat w \<le> k" "k \<le> 40000" for k w
    using that by (simp add: unsigned_ucast_eq unat_sub word_le_nat_alt unat_of_nat take_bit_nat_eq_self)
  show ?thesis
    using up [of "0x81E1" "adc_y (touch_y p)"] down [of "adc_y (touch_y p)" "0x8E30"]
      down [of "adc_x (touch_x p)" "0x8D1B"] up [of "0x8300" "adc_x (touch_x p)"]
      px_bound(1) [of "touch_x p"] px_bound(2) [of "touch_y p"]
    by (simp add: latch_sample_def adc_xy)
qed

section \<open>Properties\<close>

text \<open>One touch: the pen may move, be lifted and stay away, but does not come down again, and PIUCNT,
  whose writes restart the scan, is left alone. The argument says whether the pen is down.\<close>

fun one_touch :: "bool \<Rightarrow> piu_event list \<Rightarrow> bool" where
  "one_touch down [] = True"
| "one_touch down (Touch d x y t # es) = ((d \<longrightarrow> down) \<and> one_touch d es)"
| "one_touch down (Write off v t # es) = (off \<noteq> 0 \<and> one_touch down es)"
| "one_touch down (e # es) = one_touch down es"

definition acknowledges :: "nat \<Rightarrow> piu_event \<Rightarrow> bool" where
  "acknowledges k e \<longleftrightarrow> (case e of Write off v t \<Rightarrow> off = 0x04 \<and> bit v (3 + k) | _ \<Rightarrow> False)"

lemma page_valid_frame [simp]:
  "page_valid (raise_penchg d p) = page_valid p" "page_valid (signal_pen_up p) = page_valid p"
  by (simp_all add: raise_penchg_def signal_pen_up_def Let_def)

lemma touch_down_frame [simp]:
  "touch_down (raise_penchg d p) = touch_down p" "touch_down (signal_pen_up p) = touch_down p"
  "touch_down (queue_coordinate_sample t p) = touch_down p" "touch_down (signal_pen_down t p) = touch_down p"
  by (simp_all add: raise_penchg_def signal_pen_up_def queue_coordinate_sample_def arm_sample_def
      latch_sample_def signal_pen_down_def clear_coordinate_state_def Let_def split: option.split)

lemma queue_coordinate_valid:
  "page_valid p ! k \<Longrightarrow> page_valid (queue_coordinate_sample now p) ! k"
proof -
  assume "page_valid p ! k"
  then have "(page_valid p)[a := True] ! k" for a
    by (cases "k < length (page_valid p)"; cases "a = k") (simp_all add: not_less list_update_beyond)
  with \<open>page_valid p ! k\<close> show ?thesis
    by (auto simp: queue_coordinate_sample_def Let_def arm_sample_def latch_sample_def split: option.split)
qed

lemma piu_write_int_valid:
  assumes "piu_ok p" and "k < 2"
  shows "page_valid (piu_write_int v now p) ! k \<longleftrightarrow> page_valid p ! k \<and> \<not> bit v (3 + k)"
    and "touch_down (piu_write_int v now p) = touch_down p"
proof -
  have "length (regs p) = 16" "length (page_valid p) = 2" using assms(1) by (simp_all add: wf_simps)
  from piu_write_int_eq [OF this, of v now] assms(2)
  show "page_valid (piu_write_int v now p) ! k \<longleftrightarrow> page_valid p ! k \<and> \<not> bit v (3 + k)"
    "touch_down (piu_write_int v now p) = touch_down p"
    by (force simp: less_2_cases_iff)+
qed

lemma one_touch_step:
  assumes "piu_ok p" and "k < 2" and "one_touch (touch_down p) (e # es)"
  shows "one_touch (touch_down (piu_step e p)) es"
    and "page_valid p ! k \<Longrightarrow> \<not> acknowledges k e \<Longrightarrow> page_valid (piu_step e p) ! k"
proof -
  have "one_touch (touch_down (piu_step e p)) es \<and>
    (page_valid p ! k \<and> \<not> acknowledges k e \<longrightarrow> page_valid (piu_step e p) ! k)"
  proof (cases e)
    case (Touch d x y t)
    then show ?thesis using assms(3)
      by (auto simp: piu_set_touch_def Let_def intro: queue_coordinate_valid)
  next
    case (Write off v t)
    then show ?thesis using assms by (auto simp: piu_write_def piu_write_int_valid acknowledges_def)
  qed (use assms(3) in \<open>auto simp: piu_tick_def piu_read_def Let_def intro: queue_coordinate_valid\<close>)
  then show "one_touch (touch_down (piu_step e p)) es"
    and "page_valid p ! k \<Longrightarrow> \<not> acknowledges k e \<Longrightarrow> page_valid (piu_step e p) ! k" by blast+
qed

lemma one_touch_keeps_page:
  assumes "piu_ok p" and "k < 2" and "page_valid p ! k" and "one_touch (touch_down p) es"
    and "\<not> list_ex (acknowledges k) es"
  shows "piu_ok (fold piu_step es p) \<and> page_valid (fold piu_step es p) ! k \<and>
    page_adc (fold piu_step es p) ! k = page_adc p ! k"
  using assms
proof (induction es arbitrary: p)
  case Nil
  then show ?case by simp
next
  case (Cons e es)
  note step = one_touch_step [OF Cons.prems(1,2,4)]
  have valid: "page_valid (piu_step e p) ! k" using step(2) Cons.prems(3,5) by simp
  have "page_adc (piu_step e p) ! k = page_adc p ! k"
    using piu_step_stable [OF Cons.prems(1), of e] Cons.prems(2,3) valid by (simp add: stable_def)
  then show ?case
    using Cons.IH [OF piu_step_ok [OF Cons.prems(1)] Cons.prems(2) valid step(1)] Cons.prems(5) by simp
qed

text \<open>C39: A coordinate the driver has not acknowledged survives the touch. From any reachable state,
  whatever happens until the pen next comes down or PIUCNT is written (moves and the lift of the pen,
  ticks, reads, other register writes, acknowledgements of the other page), a page that holds a
  sample keeps it, its interrupt stays pending and the driver reads the same four values from it,
  until PIUINT is written with the page's own bit.\<close>

theorem piu_pages_protected:
  assumes "p = fold piu_step es0 (piu_init p0)" and "k < 2" and "page_valid p ! k"
    and "one_touch (touch_down p) es" and "\<not> list_ex (acknowledges k) es"
  shows "let q = fold piu_step es p in
    page_valid q ! k \<and> bit (regs q ! 1) (3 + k) \<and> (\<forall>off. piu_read_page k off q = piu_read_page k off p)"
proof -
  have ok: "piu_ok p" unfolding assms(1) by (rule piu.run_inv [OF piu_init_ok])
  note kept = one_touch_keeps_page [OF ok assms(2-5)]
  then show ?thesis using assms(2,3) by (auto simp: wf_simps less_2_cases_iff Let_def piu_read_page_def)
qed

text \<open>A sample waits in page 0 while the next one fills page 1, which the driver acknowledges, a
  third one comes due and the pen is lifted.\<close>

theorem piu_pages_protected_witness:
  "\<forall>p0. let p = fold piu_step [Adc_enable True, Write 0 0x304 0, Touch True 10 20 0, Tick 1000000] (piu_init p0);
       q = fold piu_step [Touch True 30 40 2000000, Tick 7000000, Write 0x04 0x0010 7000000, Tick 14000000,
         Touch False 30 40 15000000] p
     in page_valid q = [True, True] \<and> (\<forall>off. piu_read_page 0 off q = piu_read_page 0 off p)"
  (is "\<forall>p0. ?P p0")
proof
  fix p0
  let ?es = "[Adc_enable True, Write 0 0x304 0, Touch True 10 20 0, Tick 1000000]"
  let ?fs = "[Touch True 30 40 2000000, Tick 7000000, Write 0x04 0x0010 7000000, Tick 14000000,
         Touch False 30 40 15000000]"
  let ?p = "fold piu_step ?es (piu_init p0)"
  have start: "page_valid ?p ! 0" and touch: "one_touch (touch_down ?p) ?fs" by code_simp+
  have quiet: "\<not> list_ex (acknowledges 0) ?fs" by code_simp
  have "page_valid (fold piu_step ?fs ?p) = [True, True]" by code_simp
  with piu_pages_protected [OF refl _ start touch quiet]
  show "?P p0" unfolding Let_def by (simp del: piu_step.simps fold_simps)
qed

lemma tick_penchg:
  assumes "length (regs p) = 16"
  shows "bit (regs (piu_tick now p) ! 1) 0 = bit (regs p ! 1) 0"
    and "touch_down (piu_tick now p) = touch_down p"
  using assms
  by (auto simp: piu_tick_def queue_coordinate_sample_def Let_def arm_sample_def latch_sample_def
      page_bit_def bit_or_iff bit_flag split: option.splits)

lemma piu_cnt_pen:
  assumes "length (regs p) = 16" and "\<not> bit (regs p ! 1) 0"
  shows "bit (fst (piu_read 0x00 now p)) 13 \<longleftrightarrow> touch_down p"
proof -
  note t = tick_penchg [OF assms(1), of now]
  have "\<not> (regs (piu_tick now p) ! 1 AND 0x01 \<noteq> 0)" unfolding flag_set using t(1) assms(2) by simp
  moreover have "\<not> bit (push_bit 10 (w AND 7) :: u16) 13" for w
    unfolding mask_lits(15) by (simp add: bit_push_bit_iff bit_and_iff bit_mask_iff)
  ultimately show ?thesis
    using t(2) by (simp add: piu_read_def Let_def bit_or_iff bit_and_iff)
qed

text \<open>One acknowledgement, from any state.\<close>

lemma ack_penchg_once:
  assumes "piu_ok p" and "bit v 0"
  shows "bit (regs (piu_write 0x04 v t p) ! 1) 0 = queued_penchg p"
    and "\<not> queued_penchg (piu_write 0x04 v t p)"
    and "touch_down (piu_write 0x04 v t p) = touch_down p"
proof -
  have len: "length (regs p) = 16" "length (page_valid p) = 2" using assms(1) by (simp_all add: wf_simps)
  from piu_write_int_eq [OF this, of v t] obtain b r where eq: "piu_write_int v t p =
    p\<lparr>regs := (regs p)[1 := int_left v (regs p ! 1) OR (if bit v 0 \<and> queued_penchg p then PENDING_PENCHG else 0)],
      page_valid := [page_valid p ! 0 \<and> \<not> bit v 3, page_valid p ! 1 \<and> \<not> bit v 4],
      penstc := (if bit v 0 then (if queued_penchg p then queued_penstc p else touch_down p) else penstc p),
      queued_penchg := (queued_penchg p \<and> \<not> bit v 0), data_armed := b, data_ready_ns := r\<rparr>"
    by blast
  have w: "piu_write 0x04 v t p = piu_write_int v t p" by (simp add: piu_write_def)
  show "bit (regs (piu_write 0x04 v t p) ! 1) 0 = queued_penchg p"
    "\<not> queued_penchg (piu_write 0x04 v t p)"
    "touch_down (piu_write 0x04 v t p) = touch_down p"
    unfolding w eq using assms(2) len by (simp_all add: bit_or_iff bit_flag int_left_bits)
qed

text \<open>C40: The pen state the driver reads converges. After two acknowledgements of the pen-change
  interrupt, with no touch in between, nothing is pending and PIUCNT shows whether the pen is down,
  however many changes there were and in whatever state the queue was.\<close>

theorem piu_penchg_converges:
  assumes "piu_ok p" and "bit v 0" and "bit v' 0"
  shows "let q = piu_write 0x04 v' t' (piu_write 0x04 v t p) in
    \<not> bit (regs q ! 1) 0 \<and> (bit (fst (piu_read 0x00 now q)) 13 \<longleftrightarrow> touch_down p)"
proof -
  note a = ack_penchg_once [OF assms(1,2), of t]
  have ok: "piu_ok (piu_write 0x04 v t p)" using assms(1) by (rule piu_write_ok)
  note b = ack_penchg_once [OF ok assms(3), of t']
  have "length (regs (piu_write 0x04 v' t' (piu_write 0x04 v t p))) = 16"
    using piu_write_ok [OF ok] by (simp add: wf_simps)
  from piu_cnt_pen [OF this, of now] show ?thesis using a b by (simp add: Let_def)
qed

text \<open>Down, up and down again before the driver runs.\<close>

theorem piu_penchg_converges_witness:
  "\<forall>p0. let q = piu_write 0x04 0x0101 0 (piu_write 0x04 0x0101 0
       (fold piu_step [Adc_enable True, Write 0 0x304 0, Touch True 1 1 0, Touch False 1 1 5, Touch True 2 2 9]
         (piu_init p0)))
     in \<not> bit (regs q ! 1) 0 \<and> bit (fst (piu_read 0x00 0 q)) 13"
proof
  fix p0
  let ?p = "fold piu_step [Adc_enable True, Write 0 0x304 0, Touch True 1 1 0, Touch False 1 1 5, Touch True 2 2 9]
         (piu_init p0)"
  have ok: "piu_ok ?p" by (rule piu.run_inv [OF piu_init_ok])
  have set_down: "touch_down (raise_penchg b q) = touch_down q"
    "touch_down (signal_pen_down t q) = touch_down q" "touch_down (signal_pen_up q) = touch_down q"
    "touch_down (queue_coordinate_sample t q) = touch_down q" for b t q
    by (simp_all add: raise_penchg_def signal_pen_down_def clear_coordinate_state_def arm_sample_def
        latch_sample_def Let_def signal_pen_up_def queue_coordinate_sample_def split: option.splits)
  have "touch_down (piu_set_touch d x y t q) = d" for d x y t q
    by (simp add: piu_set_touch_def Let_def set_down)
  then have "touch_down ?p" by simp
  moreover have "bit (0x0101 :: u16) 0" by simp
  ultimately show "let q = piu_write 0x04 0x0101 0 (piu_write 0x04 0x0101 0 ?p)
     in \<not> bit (regs q ! 1) 0 \<and> bit (fst (piu_read 0x00 0 q)) 13"
    using piu_penchg_converges [OF ok, of "0x0101" "0x0101" 0 0 0] by (simp add: Let_def del: fold_simps)
qed

text \<open>A sample determines the point. The four channels are complementary pairs inside the
  calibrated range, and from the second of each pair the driver can recover the touched pixel
  exactly, a point outside the panel being moved to its edge.\<close>

theorem piu_sample_exact:
  "let a = map unat (adc (latch_sample p)) in
     a ! 0 + a ! 1 = 0x81E1 + 0x8E30 \<and> a ! 2 + a ! 3 = 0x8D1B + 0x8300 \<and>
     0x81E1 \<le> a ! 0 \<and> a ! 0 \<le> 0x8E30 \<and> 0x8300 \<le> a ! 3 \<and> a ! 3 \<le> 0x8D1B \<and>
     ((a ! 0 - 0x81E1) * 359 + 3150) div 3151 = min (unat (touch_y p)) 359 \<and>
     ((a ! 3 - 0x8300) * 239 + 2586) div 2587 = min (unat (touch_x p)) 239"
  using scale_inverse [of 359 3151 "py (touch_y p)"] scale_inverse [of 239 2587 "px (touch_x p)"]
    px_bound(1) [of "touch_x p"] px_bound(2) [of "touch_y p"]
  unfolding latch_values Let_def py_def [symmetric] px_def [symmetric]
  by (simp add: add.commute)

section \<open>A restart the manual does not allow\<close>

text \<open>After a page-full data loss the comment in \<open>refresh_control_state\<close> requires software to clear the
  pages and PADDLOSTINTR before the scan restarts. Releasing and touching the panel restarts it all
  the same, and drops the unacknowledged pages and the data-lost flag.\<close>

theorem piu_data_loss_touch_restarts:
  assumes "wait_pen_enabled p" and "padstate p = PADSTATE_STANDBY" and "touch_down p"
    and "length (regs p) = 16" and "regs p ! 1 = PENDING_DATALOST OR PENDING_PAGE0 OR PENDING_PAGE1"
  shows "let q = piu_set_touch True x y t' (piu_set_touch False x y t p) in
    padstate q = PADSTATE_PEN_DATA \<and> regs q ! 1 AND PENDING_COORDINATE = 0 \<and> page_valid q = [False, False]"
proof -
  have less: "\<not> PADSTATE_PEN_DATA \<le> PADSTATE_STANDBY" by (simp add: word_le_nat_alt)
  show ?thesis using assms less
    by (simp add: piu_set_touch_def signal_pen_up_def signal_pen_down_def wait_pen_enabled_def
        raise_penchg_def clear_coordinate_state_def latch_sample_def arm_sample_def Let_def)
qed

end
