(* ===== verification/Nand_Ecc.thy ===== *)
theory Nand_Ecc
  imports Prelude
begin

text \<open>
  The Reed-Solomon remainder of the NAND controller (\<open>nand_bitrev\<close>, \<open>nand_xtime\<close>, \<open>nand_gmul\<close> and
  the loops of \<open>nand_physical_ecc\<close> in src/hw/nand.c): six 10-bit coefficients over a physical page
  of 512 data and 8 spare bytes. The lemmas show that the multiplication is linear, that dividing
  by the generator can be undone, and from that which corruptions the remainder always notices.
\<close>

section \<open>Field arithmetic and the divider\<close>

text \<open>\<open>r = (r << 1) | ((b >> i) & 1)\<close>\<close>

definition rev_step :: "'a::len word \<Rightarrow> nat \<Rightarrow> 'a word \<Rightarrow> 'a word" where
  "rev_step b i r = push_bit 1 r OR (drop_bit i b AND 1)"

definition nand_bitrev :: "u8 \<Rightarrow> u8" where
  "nand_bitrev b = fold (rev_step b) [0..<8] 0"

definition nand_xtime :: "u16 \<Rightarrow> u16" where
  "nand_xtime a = (let a = push_bit 1 a in if a AND 0x400 \<noteq> 0 then a XOR 0x409 else a)"

text \<open>\<open>for (i = 0; i < 10; i++, b >>= 1, a = nand_xtime(a)) if (b & 1) r ^= a;\<close>\<close>

fun gmul_loop :: "nat \<Rightarrow> u16 \<Rightarrow> u16 \<Rightarrow> u16 \<Rightarrow> u16" where
  "gmul_loop 0 a b r = r"
| "gmul_loop (Suc n) a b r = gmul_loop n (nand_xtime a) (drop_bit 1 b) (if b AND 1 \<noteq> 0 then r XOR a else r)"

definition nand_gmul :: "u16 \<Rightarrow> u16 \<Rightarrow> u16" where
  "nand_gmul a b = gmul_loop 10 a b 0"

text \<open>One factor of the generator: both inner loops run downwards, so they read the old values.\<close>

definition gen_step :: "nat \<Rightarrow> u16 list \<times> u16 \<Rightarrow> u16 list \<times> u16" where
  "gen_step k = (\<lambda>(g, root).
     (nand_gmul (g ! 0) root #
        map (\<lambda>i. if i \<le> k + 1 then g ! (i - 1) XOR nand_gmul (g ! i) root else g ! i) [1..<7],
      nand_xtime root))"

definition ecc_generator :: "u16 list" where
  "ecc_generator = fst (fold gen_step [0..<6] ([1, 0, 0, 0, 0, 0, 0], 1))"

definition rem_step :: "u8 \<Rightarrow> u16 list \<Rightarrow> u16 list" where
  "rem_step byte rm =
     (let feedback = push_bit 2 (ucast (nand_bitrev byte)) XOR rm ! 5
      in nand_gmul feedback (ecc_generator ! 0) #
         map (\<lambda>j. rm ! (j - 1) XOR nand_gmul feedback (ecc_generator ! j)) [1..<6])"

definition ecc_remainder :: "u8 list \<Rightarrow> u16 list" where
  "ecc_remainder bytes = fold rem_step bytes (replicate 6 0)"

text \<open>The 10-bit fields come in reversed; the six coefficients leave packed in 60 bits.\<close>

definition rev10 :: "u16 \<Rightarrow> u16" where
  "rev10 v = fold (rev_step v) [0..<10] 0"

definition ecc_pack :: "u16 list \<Rightarrow> u8 list" where
  "ecc_pack v =
     [ucast (drop_bit 2 (v ! 5)), ucast (push_bit 6 (v ! 5) OR drop_bit 4 (v ! 4)),
      ucast (push_bit 4 (v ! 4) OR drop_bit 6 (v ! 3)), ucast (push_bit 2 (v ! 3) OR drop_bit 8 (v ! 2)),
      ucast (v ! 2), ucast (drop_bit 2 (v ! 1)), ucast (push_bit 6 (v ! 1) OR drop_bit 4 (v ! 0)),
      ucast (push_bit 4 (v ! 0))]"

section \<open>Linearity\<close>

named_theorems ecc_linear \<open>linearity of the ECC arithmetic\<close>

lemma bit0_iff: "(b :: u16) AND 1 \<noteq> 0 \<longleftrightarrow> bit b 0"
  by (simp add: and_one_eq odd_iff_mod_2_eq_one bit_0)

lemma flag_0x400: "push_bit 1 a AND 0x400 \<noteq> 0 \<longleftrightarrow> bit (a :: u16) 9"
proof -
  have "bit (push_bit 1 a) 10 \<longleftrightarrow> bit a 9" unfolding bit_push_bit_iff by simp
  moreover have "(0x400 :: u16) = 2 ^ 10" by simp
  ultimately show ?thesis using and_exp_eq_0_iff_not_bit [of "push_bit 1 a" 10] by metis
qed

lemma xtime_eq: "nand_xtime a = push_bit 1 a XOR (if bit a 9 then 0x409 else 0)"
  unfolding nand_xtime_def Let_def flag_0x400 by simp

lemma xtime_xor [ecc_linear]: "nand_xtime (a XOR b) = nand_xtime a XOR nand_xtime b"
  by (rule bit_eqI) (auto simp: xtime_eq bit_simps)

lemma gmul_loop_xor1:
  "gmul_loop n (a XOR a') b (r XOR r') = gmul_loop n a b r XOR gmul_loop n a' b r'"
proof (induction n arbitrary: a a' b r r')
  case 0
  then show ?case by simp
next
  case (Suc n)
  have "(r XOR r') XOR (a XOR a') = (r XOR a) XOR (r' XOR a')"
    by (rule bit_eqI) (auto simp: bit_simps)
  then show ?case using Suc.IH by (simp add: xtime_xor)
qed

lemma gmul_loop_xor2:
  "gmul_loop n a (b XOR b') (r XOR r') = gmul_loop n a b r XOR gmul_loop n a b' r'"
proof (induction n arbitrary: a b b' r r')
  case 0
  then show ?case by simp
next
  case (Suc n)
  have flag: "bit (b XOR b') 0 \<longleftrightarrow> bit b 0 \<noteq> bit b' 0" by (simp add: bit_xor_iff)
  have sum: "(if bit b 0 \<noteq> bit b' 0 then (r XOR r') XOR a else r XOR r') =
      (if bit b 0 then r XOR a else r) XOR (if bit b' 0 then r' XOR a else r')"
    by (rule bit_eqI) (auto simp: bit_simps)
  show ?case unfolding gmul_loop.simps bit0_iff flag sum drop_bit_xor by (rule Suc.IH)
qed

lemma gmul_xor1 [ecc_linear]: "nand_gmul (a XOR a') b = nand_gmul a b XOR nand_gmul a' b"
  using gmul_loop_xor1 [of 10 a a' b 0 0] by (simp add: nand_gmul_def)

lemma gmul_xor2 [ecc_linear]: "nand_gmul a (b XOR b') = nand_gmul a b XOR nand_gmul a b'"
  using gmul_loop_xor2 [of 10 a b b' 0 0] by (simp add: nand_gmul_def)

lemma gmul_0 [simp]: "nand_gmul 0 b = 0"
  using gmul_xor1 [of 0 0 b] by simp

lemma eval_gmul: "nand_gmul a b = gmul_loop (Suc (Suc (Suc (Suc (Suc (Suc (Suc (Suc (Suc (Suc 0)))))))))) a b 0"
  by (simp add: nand_gmul_def numeral_eq_Suc)

lemma upt_small: "[0..<6] = [0, 1, 2, 3, 4, 5 :: nat]" "[Suc 0..<6] = [1, 2, 3, 4, 5]"
  "[Suc 0..<7] = [1, 2, 3, 4, 5, 6]"
  by (simp_all add: upt_rec)

lemma ecc_generator_eq: "ecc_generator = [288, 455, 17, 1006, 806, 63, 1]"
  unfolding ecc_generator_def upt_small by (simp add: gen_step_def upt_small eval_gmul nand_xtime_def)


section \<open>Ten-bit fields\<close>

lemma fits_xor: "fits n a \<Longrightarrow> fits n b \<Longrightarrow> fits n (a XOR b)"
  by (auto simp: fits_bits bit_simps)

lemma bit_0x409: "bit (0x409 :: u16) k \<longleftrightarrow> k = 10 \<or> k = 3 \<or> k = 0"
proof -
  have lit: "(0x409 :: u16) = (push_bit 10 1 OR push_bit 3 1) OR 1" by simp
  show ?thesis unfolding lit bit_or_iff bit_push_bit_iff bit_1_iff by auto
qed

lemma xtime_fits: "fits 10 a \<Longrightarrow> fits 10 (nand_xtime a)"
  unfolding fits_bits
proof (intro allI impI)
  fix k assume small: "\<forall>k. bit a k \<longrightarrow> k < 10" and k: "bit (nand_xtime a) k"
  show "k < 10"
  proof (rule ccontr)
    assume "\<not> k < 10"
    then consider "k = 10" | "10 < k" by linarith
    then show False
    proof cases
      case 1
      have "bit (push_bit 1 a) 10 = bit a 9" unfolding bit_push_bit_iff by simp
      then show False using k unfolding 1 xtime_eq bit_xor_iff by (auto simp: bit_0x409)
    next
      case 2
      then have "\<not> bit a (k - 1)" using small by force
      moreover have "\<not> bit (0x409 :: u16) k" unfolding bit_0x409 using 2 by simp
      ultimately show False using k unfolding xtime_eq bit_xor_iff bit_push_bit_iff by (auto split: if_splits)
    qed
  qed
qed

lemma gmul_loop_fits: "fits 10 a \<Longrightarrow> fits 10 r \<Longrightarrow> fits 10 (gmul_loop n a b r)"
  by (induction n arbitrary: a b r) (auto intro: xtime_fits fits_xor)

lemma gmul_fits: "fits 10 a \<Longrightarrow> fits 10 (nand_gmul a b)"
  by (simp add: nand_gmul_def gmul_loop_fits)

text \<open>Two linear functions that agree on the ten unit vectors agree on every 10-bit field.\<close>

lemma linear_agree:
  assumes "\<And>a b. f (a XOR b) = f a XOR (f b :: u16)" and "\<And>a b. g (a XOR b) = g a XOR (g b :: u16)"
    and "\<forall>i \<in> set [0..<n]. f (push_bit i 1) = g (push_bit i 1)" and "fits n a" and "n \<le> 16"
  shows "f (a :: u16) = g a"
  using assms(3-5)
proof (induction n arbitrary: a)
  case 0
  have "f 0 = 0" "g 0 = 0" using assms(1) [of 0 0] assms(2) [of 0 0] by simp_all
  moreover have "a = 0" using 0 by (simp add: fits_def unsigned_eq_0_iff)
  ultimately show ?case by simp
next
  case (Suc n)
  let ?h = "if bit a n then push_bit n 1 else 0 :: u16"
  have a: "a = take_bit n a XOR ?h"
  proof (rule bit_eqI)
    fix k assume "possible_bit TYPE(16 word) k"
    then show "bit a k = bit (take_bit n a XOR ?h) k"
      using Suc.prems(2,3) by (auto simp: bit_simps fits_bits less_Suc_eq)
  qed
  have "f (take_bit n a) = g (take_bit n a)"
    using Suc.prems by (intro Suc.IH) (auto simp: fits_bits bit_simps)
  moreover have "f ?h = g ?h" using Suc.prems(1) assms(1) [of 0 0] assms(2) [of 0 0] by simp
  ultimately have "f (take_bit n a XOR ?h) = g (take_bit n a XOR ?h)" unfolding assms(1,2) by simp
  then show ?case by (simp only: a [symmetric])
qed

text \<open>The constant coefficient of the generator is invertible: 288 times 179 is one.\<close>

lemma gmul_loop_xtime: "gmul_loop n (nand_xtime a) b (nand_xtime r) = nand_xtime (gmul_loop n a b r)"
  by (induction n arbitrary: a b r) (simp_all flip: xtime_xor)

lemma gmul_xtime: "nand_gmul (nand_xtime a) b = nand_xtime (nand_gmul a b)"
  using gmul_loop_xtime [of 10 a b 0] by (simp add: nand_gmul_def nand_xtime_def)

lemma gmul_xtimes: "nand_gmul ((nand_xtime ^^ i) a) b = (nand_xtime ^^ i) (nand_gmul a b)"
  by (induction i) (simp_all add: gmul_xtime)

lemma units: "\<forall>i \<in> set [0..<10]. push_bit i 1 = (nand_xtime ^^ i) (1 :: u16)"
proof -
  have "[0..<10] = [0, 1, 2, 3, 4, 5, 6, 7, 8, 9 :: nat]" by (simp add: upt_rec)
  then show ?thesis by (simp add: nand_xtime_def eval_nat_numeral)
qed

lemma divide_back: "fits 10 a \<Longrightarrow> nand_gmul (nand_gmul a 288) 179 = a"
proof (rule linear_agree [where n = 10])
  have one: "nand_gmul (nand_gmul 1 288) 179 = 1"
    by (simp add: eval_gmul nand_xtime_def)
  show "\<forall>i \<in> set [0..<10]. nand_gmul (nand_gmul (push_bit i 1) 288) 179 = push_bit i 1"
    using units by (simp add: gmul_xtimes one)
qed (simp_all add: ecc_linear)

lemma gmul_zero_iff: "fits 10 a \<Longrightarrow> nand_gmul a 288 = 0 \<longleftrightarrow> a = 0"
  using divide_back [of a] by auto


section \<open>The divider undone\<close>

definition zeros :: "u16 list" where
  "zeros = replicate 6 0"

definition coeffs_ok :: "u16 list \<Rightarrow> bool" where
  "coeffs_ok v \<longleftrightarrow> length v = 6 \<and> (\<forall>a \<in> set v. fits 10 a)"

definition symbol :: "u8 \<Rightarrow> u16" where
  "symbol b = push_bit 2 (ucast (nand_bitrev b))"

text \<open>One clock of the divider on the difference of two runs.\<close>

definition clock :: "u16 \<Rightarrow> u16 list \<Rightarrow> u16 list" where
  "clock d v = nand_gmul (d XOR v ! 5) 288 #
     map (\<lambda>j. v ! (j - 1) XOR nand_gmul (d XOR v ! 5) ([288, 455, 17, 1006, 806, 63] ! j)) [1..<6]"

lemma list6: "length v = 6 \<longleftrightarrow> (\<exists>a b c d e f. v = [a, b, c, d, e, f])"
  by (auto simp: numeral_eq_Suc length_Suc_conv)

lemma clock_eq:
  "clock x [a, b, c, d, e, f] =
     [nand_gmul (x XOR f) 288, a XOR nand_gmul (x XOR f) 455, b XOR nand_gmul (x XOR f) 17,
      c XOR nand_gmul (x XOR f) 1006, d XOR nand_gmul (x XOR f) 806, e XOR nand_gmul (x XOR f) 63]"
  unfolding clock_def by (simp add: upt_small)

lemma rem_step_clock: "length v = 6 \<Longrightarrow> rem_step b v = clock (symbol b) v"
  unfolding list6 by (auto simp: rem_step_def clock_eq ecc_generator_eq symbol_def upt_small Let_def)

lemma clock_xor:
  assumes "length v = 6" and "length w = 6"
  shows "map2 (XOR) (clock x v) (clock y w) = clock (x XOR y) (map2 (XOR) v w)"
proof -
  have perm: "(p XOR q) XOR (r XOR s) = (p XOR r) XOR (q XOR s)" for p q r s :: u16
    by (rule bit_eqI) (auto simp: bit_simps)
  obtain a b c d e f where v: "v = [a, b, c, d, e, f]" using assms(1) unfolding list6 by blast
  obtain a' b' c' d' e' f' where w: "w = [a', b', c', d', e', f']" using assms(2) unfolding list6 by blast
  show ?thesis unfolding v w by (simp add: clock_eq perm [of x y f f'] ecc_linear perm)
qed

lemma length_clock [simp]: "length (clock x v) = 6"
  by (simp add: clock_def)

lemma clock_ok: "coeffs_ok v \<Longrightarrow> fits 10 x \<Longrightarrow> coeffs_ok (clock x v)"
  unfolding coeffs_ok_def list6 by (auto simp: clock_eq intro!: fits_xor gmul_fits)

lemma zeros_ok: "coeffs_ok zeros"
  by (simp add: coeffs_ok_def zeros_def)

lemma clock_zeros: "clock 0 zeros = zeros"
  by (simp add: zeros_def clock_eq numeral_eq_Suc)

lemma clock_back:
  assumes "coeffs_ok v" and "fits 10 x" and "clock x v ! 0 = 0"
  shows "v = tl (clock x v) @ [x]"
proof -
  obtain a b c d e f where v: "v = [a, b, c, d, e, f]" using assms(1) unfolding coeffs_ok_def list6 by blast
  have "fits 10 (x XOR f)" using assms(1,2) by (simp add: v coeffs_ok_def fits_xor)
  with assms(3) have z: "x XOR f = 0" by (simp add: v clock_eq gmul_zero_iff)
  have "f = x XOR (x XOR f)" by (simp flip: xor.assoc)
  then have "f = x" by (simp add: z)
  then show ?thesis by (simp add: v clock_eq z)
qed

lemma clocks_ok: "coeffs_ok v \<Longrightarrow> \<forall>x \<in> set ds. fits 10 x \<Longrightarrow> coeffs_ok (fold clock ds v)"
  by (induction ds arbitrary: v) (auto intro: clock_ok)

text \<open>Up to six inputs that leave nothing behind can be read off the state before them.\<close>

lemma clocks_back:
  assumes "coeffs_ok v" and "\<forall>x \<in> set ds. fits 10 x" and "length ds \<le> 6"
    and "\<forall>i < length ds. fold clock ds v ! i = 0"
  shows "v = drop (length ds) (fold clock ds v) @ rev ds"
  using assms
proof (induction ds rule: rev_induct)
  case Nil
  then show ?case by simp
next
  case (snoc d ds)
  let ?w = "fold clock ds v"
  have w: "coeffs_ok ?w" using snoc.prems by (intro clocks_ok) auto
  have undo: "?w = tl (clock d ?w) @ [d]"
    using snoc.prems by (intro clock_back w) auto
  have "\<forall>i < length ds. ?w ! i = 0"
  proof (intro allI impI)
    fix i assume i: "i < length ds"
    with snoc.prems(3) have "i < length (tl (clock d ?w))" by simp
    then have "?w ! i = tl (clock d ?w) ! i" by (subst undo) (simp add: nth_append)
    also have "\<dots> = clock d ?w ! Suc i" using \<open>i < length (tl (clock d ?w))\<close> by (rule nth_tl)
    also have "\<dots> = 0" using snoc.prems(4) i by simp
    finally show "?w ! i = 0" .
  qed
  with snoc.IH snoc.prems have v: "v = drop (length ds) ?w @ rev ds" by simp
  have "drop (length ds) ?w = drop (length ds) (tl (clock d ?w)) @ [d]"
    by (subst undo) (use snoc.prems(3) in simp)
  then show ?case using v by (simp add: drop_Suc)
qed


section \<open>Symbols\<close>

lemma bit_rev_step:
  "bit (rev_step b i r :: 'a::len word) k \<longleftrightarrow> k < LENGTH('a) \<and> (if k = 0 then bit b i else bit r (k - 1))"
  unfolding rev_step_def bit_or_iff bit_push_bit_iff bit_and_iff bit_drop_bit_eq comp_def bit_1_iff
  by (cases k) (auto dest: bit_imp_le_length)

lemma bit_rev_loop:
  fixes b :: "'a::len word"
  shows "n \<le> LENGTH('a) \<Longrightarrow> bit (fold (rev_step b) [0..<n] 0) k \<longleftrightarrow> k < n \<and> bit b (n - 1 - k)"
proof (induction n arbitrary: k)
  case 0
  then show ?case by simp
next
  case (Suc n)
  have step: "fold (rev_step b) [0..<Suc n] 0 = rev_step b n (fold (rev_step b) [0..<n] 0)" by simp
  show ?case
  proof (cases "k = 0")
    case True
    then show ?thesis unfolding step bit_rev_step using Suc.prems by simp
  next
    case False
    then have i: "n - 1 - (k - 1) = n - k" "Suc n - 1 - k = n - k" and j: "k - 1 < n \<longleftrightarrow> k < Suc n"
      by linarith+
    have "bit (fold (rev_step b) [0..<n] 0) (k - 1) \<longleftrightarrow> k < Suc n \<and> bit b (n - k)"
      unfolding i(1) [symmetric] j [symmetric] using Suc.prems by (intro Suc.IH) simp
    then show ?thesis unfolding step bit_rev_step i(2) using False Suc.prems by auto
  qed
qed

lemma bit_bitrev: "bit (nand_bitrev b) k \<longleftrightarrow> k < 8 \<and> bit b (7 - k)"
proof -
  have "bit (nand_bitrev b) k \<longleftrightarrow> k < 8 \<and> bit b (8 - 1 - k)"
    unfolding nand_bitrev_def by (rule bit_rev_loop) simp
  then show ?thesis by simp
qed

lemma bit_rev10: "bit (rev10 v) k \<longleftrightarrow> k < 10 \<and> bit v (9 - k)"
proof -
  have "bit (rev10 v) k \<longleftrightarrow> k < 10 \<and> bit v (10 - 1 - k)"
    unfolding rev10_def by (rule bit_rev_loop) simp
  then show ?thesis by simp
qed

lemma bitrev_bitrev [simp]: "nand_bitrev (nand_bitrev b) = b"
  by (rule bit_eqI) (auto simp: bit_bitrev)

lemma rev10_rev10: "fits 10 v \<Longrightarrow> rev10 (rev10 v) = v"
  by (rule bit_eqI) (auto simp: bit_rev10 fits_bits)

lemma bit_symbol: "bit (symbol b) k \<longleftrightarrow> 2 \<le> k \<and> k < 10 \<and> bit b (9 - k)"
  by (auto simp: symbol_def bit_simps bit_bitrev)

lemma symbol_fits: "fits 10 (symbol b)"
  by (simp add: fits_bits bit_symbol)

lemma symbol_xor_0: "symbol x XOR symbol y = 0 \<longleftrightarrow> x = y"
proof
  assume "symbol x XOR symbol y = 0"
  then have eq: "bit (symbol x) (9 - k) \<longleftrightarrow> bit (symbol y) (9 - k)" for k
    by (metis bit_xor_iff bit_0_eq bot_fun_def bot_bool_def)
  show "x = y"
  proof (rule bit_eqI)
    fix k assume "possible_bit TYPE(8 word) k"
    then have "2 \<le> 9 - k" "9 - k < 10" "9 - (9 - k) = k" by auto
    then show "bit x k = bit y k" using eq [of k] by (simp add: bit_symbol)
  qed
qed simp

definition differences :: "u8 list \<Rightarrow> u8 list \<Rightarrow> u16 list" where
  "differences xs ys = map2 (\<lambda>x y. symbol x XOR symbol y) xs ys"

lemma differences_fits: "\<forall>x \<in> set (differences xs ys). fits 10 x"
  by (auto simp: differences_def intro: fits_xor symbol_fits)

lemma length_rem_steps: "length v = 6 \<Longrightarrow> length (fold rem_step xs v) = 6"
  by (induction xs arbitrary: v) (simp_all add: rem_step_clock)

lemma remainder_difference:
  "length xs = length ys \<Longrightarrow> length v = 6 \<Longrightarrow> length w = 6 \<Longrightarrow>
   map2 (XOR) (fold rem_step xs v) (fold rem_step ys w) =
     fold clock (differences xs ys) (map2 (XOR) v w)"
  by (induction xs ys arbitrary: v w rule: list_induct2)
    (simp_all add: differences_def rem_step_clock clock_xor)

lemma clocks_zero: "fold clock (replicate n 0) zeros = zeros"
  and clocks_zero': "(clock 0 ^^ n) zeros = zeros"
  by (induction n) (simp_all add: clock_zeros)

lemma clocks_zero_only: "coeffs_ok v \<Longrightarrow> fold clock (replicate n 0) v = zeros \<Longrightarrow> v = zeros"
proof (induction n arbitrary: v)
  case 0
  then show ?case by simp
next
  case (Suc n)
  then have "clock 0 v = zeros" using clock_ok [of v 0] by simp
  moreover from this have "v = tl (clock 0 v) @ [0]"
    using Suc.prems(1) by (intro clock_back) (simp_all add: zeros_def)
  ultimately show ?case by (simp add: zeros_def numeral_eq_Suc)
qed

lemma differences_same: "differences xs xs = replicate (length xs) 0"
  unfolding differences_def by (induction xs) auto

lemma differences_append:
  "length a = length a' \<Longrightarrow> differences (a @ b) (a' @ b') = differences a a' @ differences b b'"
  by (simp add: differences_def)

lemma differences_zero:
  "length xs = length ys \<Longrightarrow> differences xs ys = replicate n 0 \<Longrightarrow> xs = ys"
proof (induction xs ys arbitrary: n rule: list_induct2)
  case Nil
  then show ?case by simp
next
  case (Cons x xs y ys)
  then show ?case by (cases n) (auto simp: differences_def symbol_xor_0)
qed

section \<open>Detection\<close>

lemma nand_burst_detected:
  assumes "length b = length b'" and "length b \<le> 6" and "b \<noteq> b'"
  shows "ecc_remainder (a @ b @ c) \<noteq> ecc_remainder (a @ b' @ c)"
proof
  assume same: "ecc_remainder (a @ b @ c) = ecc_remainder (a @ b' @ c)"
  let ?d = "differences b b'"
  have "map2 (XOR) xs xs = replicate (length xs) (0 :: u16)" for xs :: "u16 list"
    by (induction xs) auto
  then have "fold clock (differences (a @ b @ c) (a @ b' @ c)) zeros = zeros"
    using remainder_difference [of "a @ b @ c" "a @ b' @ c" zeros zeros] assms(1) same
      length_rem_steps [of zeros "a @ b @ c"]
    by (simp add: ecc_remainder_def zeros_def)
  then have "fold clock (replicate (length c) 0) (fold clock ?d zeros) = zeros"
    using assms(1) by (simp add: differences_append differences_same clocks_zero')
  then have z: "fold clock ?d zeros = zeros"
    by (rule clocks_zero_only [OF clocks_ok [OF zeros_ok differences_fits]])
  have n: "length ?d = length b" using assms(1) by (simp add: differences_def)
  have "\<forall>i < length ?d. fold clock ?d zeros ! i = 0" unfolding z n using assms(2) by (simp add: zeros_def)
  then have "zeros = drop (length b) zeros @ rev ?d"
    using clocks_back [OF zeros_ok differences_fits, of b b'] assms(2) unfolding n z by blast
  then have "set (rev ?d) \<subseteq> set zeros" by (metis Un_upper2 set_append)
  then have "\<forall>x \<in> set ?d. x = 0" by (auto simp: zeros_def)
  then have "?d = replicate (length b) 0" using n by (auto intro: replicate_eqI)
  with assms(1,3) differences_zero show False by blast
qed

text \<open>The controller's remainder notices every burst: two pages that differ, however much, but
  only within six consecutive bytes, never have the same six coefficients.\<close>

theorem nand_ecc_detects_bursts:
  assumes "length b = length b'" and "length b \<le> 6" and "b \<noteq> b'"
  shows "ecc_remainder (a @ b @ c) \<noteq> ecc_remainder (a @ b' @ c)"
  using assms by (rule nand_burst_detected)

theorem nand_ecc_detects_bursts_witness:
  "ecc_remainder ([1, 2] @ [0xFF, 0x0F] @ [3]) \<noteq> ecc_remainder ([1, 2] @ [0xFE, 0xF0] @ [3])"
  by (rule nand_ecc_detects_bursts) simp_all

end
