(* ===== verification/Nand_Chip.thy ===== *)
theory Nand_Chip
  imports Prelude
begin

text \<open>
  The NAND flash of src/hw/nand.c: the state \<open>nand_state_t\<close> of nand.h, the reconstructed spare
  bytes, factory-bad blocks, and the two operations that change the medium, programming a page and
  erasing a block. The engines that drive them are in \<open>Nand_Restore\<close> and \<open>Nand\<close>. The arrays behind
  the pointers \<open>image\<close> and \<open>oob\<close> are functions from byte offsets, absent when the pointer is NULL;
  large fixed arrays are functions, small register files lists.
\<close>

section \<open>State\<close>

datatype nand_cmd_state =
  NAND_STATE_IDLE | NAND_STATE_READ_DATA | NAND_STATE_READ_OOB | NAND_STATE_READ_ID
| NAND_STATE_READ_STATUS | NAND_STATE_PROGRAM_DATA | NAND_STATE_ERASE_SETUP

record nand_medium =
  img :: "(nat \<Rightarrow> u8) option"
  image_size :: nat
  image_valid_size :: nat
  oob :: "(nat \<Rightarrow> u8) option"
  dirty :: bool
  block_data_state :: "nat \<Rightarrow> int"

record nand_state = nand_medium +
  state :: nand_cmd_state
  page_addr :: u32
  column :: u32
  nand_offset :: u32
  xfer_length :: u32
  xfer_cursor :: u32
  addr_cycle :: u8
  last_cmd :: u8
  ready :: bool
  enabled :: bool
  ctrl_regs :: "u32 list"
  strap_regs :: "u8 list"
  xfer_regs :: "u32 list"
  xfer_addr_bytes :: "u8 list"
  xfer_addr_count :: nat
  xfer_addr24 :: u32
  stream_page :: u32
  stream_col :: u32
  stream_base :: u32
  stream_cursor :: u32
  stream_limit :: u32
  stream_active :: bool
  burst_520 :: bool
  stream_stall :: bool
  boot_regs :: "u32 list"
  boot_addr_bytes :: "u8 list"
  boot_addr_count :: nat
  boot_ecc_words :: "u16 list"
  boot_ecc_count :: nat
  boot_mode :: u8
  boot_ready :: bool
  portctl :: u16
  legacy_regs :: "u8 list"
  legacy_dirty :: "bool list"
  legacy_read_since_write :: "u16 list"
  legacy_status7_event_reads :: u16
  legacy_status7_ff_armed :: bool
  xfer_buffer :: "u8 list"
  xfer_ecc_words :: "u16 list"
  xfer_ecc_count :: nat
  xfer_phase :: u8
  xfer_pending_byte :: u8
  xfer_last_cmd :: u8
  xfer_data_bytes :: "u8 list"
  xfer_data_count :: nat
  xfer_data_pos :: nat
  dio_mode :: u8
  dio_last_write :: u8
  status_value :: u8
  program_buffer :: "nat \<Rightarrow> u8"
  program_column :: u32
  program_length :: u32
  restore_regs :: "nat \<Rightarrow> u32"
  restore_page_buffer :: "nat \<Rightarrow> u8"
  restore_page_addr :: u32
  restore_stream_pos :: u32
  restore_stream_limit :: u32
  restore_stream_base :: u32
  restore_phase :: u8
  restore_mode :: u8
  restore_last_cmd :: u8
  restore_addr_bytes :: "u8 list"
  restore_addr_count :: nat
  restore_ecc_words :: "u16 list"
  restore_ecc_count :: nat
  restore_status_ok :: bool
  serial_out :: "u8 list"

abbreviation (input) NAND_BLOCK_COUNT :: nat where "NAND_BLOCK_COUNT \<equiv> 1024"
abbreviation (input) NAND_BLOCK_PAGES :: nat where "NAND_BLOCK_PAGES \<equiv> 32"
abbreviation (input) NAND_PAGE_COUNT :: nat where "NAND_PAGE_COUNT \<equiv> 32768"
abbreviation (input) NAND_PAGE_DATA :: nat where "NAND_PAGE_DATA \<equiv> 512"
abbreviation (input) NAND_PAGE_OOB :: nat where "NAND_PAGE_OOB \<equiv> 16"
abbreviation (input) NAND_PAGE_RAW :: nat where "NAND_PAGE_RAW \<equiv> 528"

section \<open>Reading the medium\<close>

definition nand_image_byte :: "'a nand_medium_scheme \<Rightarrow> u32 \<Rightarrow> u8" where
  "nand_image_byte s off =
     (case img s of None \<Rightarrow> 0xFF | Some im \<Rightarrow> if unat off \<ge> image_size s then 0xFF else im (unat off))"

definition nand_block_is_allocated :: "'a nand_medium_scheme \<Rightarrow> nat \<Rightarrow> bool" where
  "nand_block_is_allocated s block \<longleftrightarrow> (if block \<ge> NAND_BLOCK_COUNT then False else block_data_state s block > 0)"

text \<open>
  Spare byte \<open>idx\<close> of a page. A data-only image has none: the tag that the mapper of the loader
  looks for is made up on the first five pages of a block.
\<close>

definition nand_stream_oob_byte :: "'a nand_medium_scheme \<Rightarrow> nat \<Rightarrow> nat \<Rightarrow> u8" where
  "nand_stream_oob_byte s page idx =
     (let block = page div NAND_BLOCK_PAGES;
          page_in_block = page mod NAND_BLOCK_PAGES
      in if idx \<ge> NAND_PAGE_OOB \<or> page \<ge> NAND_PAGE_COUNT then 0xFF
         else case oob s of
           Some o' \<Rightarrow> o' (page * NAND_PAGE_OOB + idx)
         | None \<Rightarrow>
             if page_in_block < 5 \<and> block < NAND_BLOCK_COUNT then
               (let allocated = nand_block_is_allocated s block
                in if idx = 0 then 0xAA
                   else if idx = 1 then 0x55
                   else if idx = 2 then (if allocated then 0x0F else 0xFF)
                   else if idx = 4 then (if allocated then of_nat (block mod 256) else 0xFF)
                   else if idx = 5 then (if allocated then of_nat (block div 256 mod 256) else 0xFF)
                   else if idx = 6 \<or> idx = 7 then (if allocated then 0x00 else 0xFF)
                   else 0xFF)
             else 0xFF)"

text \<open>A factory-bad block: a bad mark in one of its first two pages that is not a logical tag.\<close>

definition nand_physical_bad :: "'a nand_medium_scheme \<Rightarrow> nat \<Rightarrow> bool" where
  "nand_physical_bad s block =
     (case oob s of
        None \<Rightarrow> False
      | Some o' \<Rightarrow>
          if block \<ge> NAND_BLOCK_COUNT then False
          else \<exists>p \<in> {0, 1}. let at = (block * NAND_BLOCK_PAGES + p) * NAND_PAGE_OOB
            in o' (at + 5) \<noteq> 0xFF \<and> \<not> (o' at = 0xAA \<and> o' (at + 1) = 0x55 \<and> o' (at + 2) = 0x0F))"

definition nand_stream_byte :: "nand_state \<Rightarrow> u32 \<Rightarrow> u8" where
  "nand_stream_byte s cursor_pos =
     (let absolute = stream_col s + cursor_pos;
          page = stream_page s + absolute div 528;
          in_page = absolute mod 528
      in if in_page < 512 then nand_image_byte s (page * 512 + in_page)
         else nand_stream_oob_byte s (unat page) (unat (in_page - 512)))"

text \<open>\<open>dest[i]\<close> for \<open>i < len\<close>, or nothing when no stream is open.\<close>

definition nand_stream_read_dma :: "nat \<Rightarrow> nand_state \<Rightarrow> u8 list option \<times> nand_state" where
  "nand_stream_read_dma len s =
     (if \<not> stream_active s then (None, s)
      else (Some (map (\<lambda>i. nand_stream_byte s (stream_cursor s + of_nat i)) [0..<len]),
            s\<lparr>stream_cursor := stream_cursor s + of_nat len\<rparr>))"

section \<open>Changing the medium\<close>

text \<open>\<open>memset\<close>, and the loop \<open>m[at i] &= buf[i]\<close> over the indices \<open>is\<close>.\<close>

definition fill :: "nat \<Rightarrow> nat \<Rightarrow> u8 \<Rightarrow> (nat \<Rightarrow> u8) \<Rightarrow> nat \<Rightarrow> u8" where
  "fill start n v m = (\<lambda>k. if start \<le> k \<and> k < start + n then v else m k)"

definition and_bytes :: "(nat \<Rightarrow> nat) \<Rightarrow> (nat \<Rightarrow> u8) \<Rightarrow> nat list \<Rightarrow> (nat \<Rightarrow> u8) \<Rightarrow> nat \<Rightarrow> u8" where
  "and_bytes at buf is m = fold (\<lambda>i m. m(at i := m (at i) AND buf i)) is m"

definition erase_block :: "nat \<Rightarrow> 'a nand_medium_scheme \<Rightarrow> 'a nand_medium_scheme" where
  "erase_block block s =
     (let start_page = block * NAND_BLOCK_PAGES
      in s\<lparr>oob := map_option (fill (start_page * NAND_PAGE_OOB) (NAND_BLOCK_PAGES * NAND_PAGE_OOB) 0xFF) (oob s),
           img := map_option (fill (start_page * NAND_PAGE_DATA) (NAND_BLOCK_PAGES * NAND_PAGE_DATA) 0xFF) (img s),
           dirty := True,
           block_data_state := (block_data_state s)(block := 0)\<rparr>)"

text \<open>How many of the programmed bytes go to the data area.\<close>

definition program_limit :: "nand_state \<Rightarrow> u32" where
  "program_limit s =
     (if program_column s + program_length s > 512
      then (if program_column s < 512 then 512 - program_column s else 0)
      else program_length s)"

definition nand_commit_program :: "nand_state \<Rightarrow> nand_state" where
  "nand_commit_program s =
     (case img s of
        None \<Rightarrow> s
      | Some im \<Rightarrow>
          if page_addr s \<ge> 32768 then s
          else if nand_physical_bad s (unat (page_addr s div 32)) then s\<lparr>status_value := 0xC1\<rparr>
          else
            let page_off = page_addr s * 512;
                pos = (\<lambda>j. program_column s + of_nat j);
                s = (case oob s of
                       None \<Rightarrow> s
                     | Some o' \<Rightarrow>
                         s\<lparr>oob := Some (and_bytes (\<lambda>j. unat (page_addr s * 16 + pos j - 512)) (program_buffer s)
                               [j \<leftarrow> takeWhile (\<lambda>j. pos j < 528) [0..<unat (program_length s)]. pos j \<ge> 512] o'),
                           dirty := (dirty s \<or> program_length s \<noteq> 0)\<rparr>);
                limit = program_limit s;
                s = s\<lparr>img := Some (and_bytes (\<lambda>i. unat (page_off + program_column s + of_nat i))
                        (program_buffer s) [0..<unat limit] im)\<rparr>
            in if limit > 0
               then s\<lparr>dirty := True,
                      block_data_state := (block_data_state s)(unat (page_addr s div 32) := 1)\<rparr>
               else s)"

definition nand_commit_erase :: "nand_state \<Rightarrow> nand_state" where
  "nand_commit_erase s =
     (if img s = None then s
      else
        let block = unat (page_addr s div 32)
        in if block \<ge> NAND_BLOCK_COUNT then s
           else if nand_physical_bad s block then s\<lparr>status_value := 0xC1\<rparr>
           else erase_block block s)"

section \<open>What the loops compute\<close>

lemma and_bytes_other: "(\<And>i. i \<in> set is \<Longrightarrow> at i \<noteq> k) \<Longrightarrow> and_bytes at buf is m k = m k"
  unfolding and_bytes_def by (induction "is" arbitrary: m) auto

lemma and_bytes_at:
  assumes "inj_on at (set is)" and "distinct is" and "i \<in> set is"
  shows "and_bytes at buf is m (at i) = m (at i) AND buf i"
  using assms unfolding and_bytes_def
proof (induction "is" arbitrary: m)
  case Nil
  then show ?case by simp
next
  case (Cons x xs)
  show ?case
  proof (cases "i = x")
    case True
    have "at x \<notin> at ` set xs" using Cons.prems(1,2) by simp
    then have "\<And>j. j \<in> set xs \<Longrightarrow> at j \<noteq> at x" by (metis imageI)
    then show ?thesis 
      using and_bytes_other [of xs at "at x" buf] True
      by (simp add: and_bytes_def fun_upd_same del: fun_upd_apply)
  next
    case False
    then have "at i \<noteq> at x" using Cons.prems by (metis inj_onD list.set_intros(1))
    then show ?thesis using Cons False by (simp add: fun_upd_other del: fun_upd_apply)
  qed
qed

lemma and_bytes_clears: "and_bytes at buf is m k AND m k = and_bytes at buf is m k"
proof -
  have "and_bytes at buf is m k AND m' k = and_bytes at buf is m k" if "m k AND m' k = m k" for m m'
    using that unfolding and_bytes_def
  proof (induction "is" arbitrary: m)
    case Nil
    then show ?case by simp
  next
    case (Cons x xs)
    have "(m(at x := m (at x) AND buf x)) k AND m' k = (m(at x := m (at x) AND buf x)) k"
      using Cons.prems by (simp add: and.assoc and.left_commute) (metis and.commute and.left_commute)
    then show ?case by (simp add: Cons.IH del: fun_upd_apply)
  qed
  then show ?thesis by simp
qed


section \<open>Wear\<close>

text \<open>
  What can happen to a flash array in one operation: bytes of a block that is not factory-bad lose
  bits, or the whole block becomes 0xFF; nothing else, and nothing past the 1024 blocks.
\<close>

definition array_wear :: "(nat \<Rightarrow> bool) \<Rightarrow> nat \<Rightarrow> (nat \<Rightarrow> u8) \<Rightarrow> (nat \<Rightarrow> u8) \<Rightarrow> bool" where
  "array_wear bad bs m m' \<longleftrightarrow>
     (\<forall>k. m' k = m k \<or>
        k < NAND_BLOCK_COUNT * bs \<and> \<not> bad (k div bs) \<and>
        (m' k AND m k = m' k \<or> (\<forall>j. j div bs = k div bs \<longrightarrow> m' j = 0xFF)))"

fun opt_wear :: "(nat \<Rightarrow> bool) \<Rightarrow> nat \<Rightarrow> (nat \<Rightarrow> u8) option \<Rightarrow> (nat \<Rightarrow> u8) option \<Rightarrow> bool" where
  "opt_wear bad bs None None = True"
| "opt_wear bad bs (Some m) (Some m') = array_wear bad bs m m'"
| "opt_wear bad bs _ _ = False"

definition wear :: "nand_state \<Rightarrow> nand_state \<Rightarrow> bool" where
  "wear s t \<longleftrightarrow> image_size t = image_size s \<and> opt_wear (nand_physical_bad s) 16384 (img s) (img t) \<and>
     opt_wear (nand_physical_bad s) 512 (oob s) (oob t)"

lemma array_wear_refl [simp]: "array_wear bad bs m m"
  by (simp add: array_wear_def)

lemma opt_wear_refl [simp]: "opt_wear bad bs m m"
  by (cases m) simp_all

lemma wear_same: "img t = img s \<Longrightarrow> oob t = oob s \<Longrightarrow> image_size t = image_size s \<Longrightarrow> wear s t"
  by (simp add: wear_def)

lemma and_bytes_wear:
  assumes "\<And>i. i \<in> set is \<Longrightarrow> at i div bs = block" and "block < NAND_BLOCK_COUNT" and "\<not> bad block" and "0 < bs"
  shows "array_wear bad bs m (and_bytes at buf is m)"
  unfolding array_wear_def
proof
  fix k
  show "and_bytes at buf is m k = m k \<or>
      k < NAND_BLOCK_COUNT * bs \<and> \<not> bad (k div bs) \<and>
      (and_bytes at buf is m k AND m k = and_bytes at buf is m k \<or>
       (\<forall>j. j div bs = k div bs \<longrightarrow> and_bytes at buf is m j = 0xFF))"
  proof (cases "\<exists>i \<in> set is. at i = k")
    case True
    then have "k div bs = block" using assms(1) by blast
    moreover from this have "k < NAND_BLOCK_COUNT * bs"
      using assms(2,4) by (metis div_less_iff_less_mult)
    ultimately show ?thesis using assms(3) by (simp add: and_bytes_clears)
  next
    case False
    then show ?thesis by (metis and_bytes_other)
  qed
qed

lemma fill_wear:
  assumes "block < NAND_BLOCK_COUNT" and "\<not> bad block" and "0 < bs"
  shows "array_wear bad bs m (fill (block * bs) bs 0xFF m)"
proof -
  have here: "block * bs \<le> k \<and> k < block * bs + bs \<longleftrightarrow> k div bs = block" for k
    using assms(3) by (metis add.commute div_nat_eqI mult.commute dividend_less_times_div
        le_add1 mult_Suc mult_div_mod_eq times_div_less_eq_dividend)
  have "k < NAND_BLOCK_COUNT * bs" if "k div bs = block" for k
    using assms(1,3) that by (metis div_less_iff_less_mult)
  then show ?thesis unfolding array_wear_def fill_def here using assms(2) by auto
qed

lemma page_index:
  assumes "page < (32768 :: u32)" and "unat c + i < 2048" and "n \<in> {16, 512}"
  shows "unat (page * of_nat n + c + of_nat i) = unat page * n + unat c + i"
proof -
  have "unat page < 32768" using assms(1) by (simp add: word_less_nat_alt)
  then have "unat page * n + unat c + i < 2 ^ 32" using assms(2,3) by auto
  moreover have "unat (of_nat i :: u32) = i" "unat (of_nat n :: u32) = n"
    using assms(2,3) by (auto simp: unat_of_nat)
  ultimately show ?thesis by (simp add: unat_word_ariths mod_add_eq)
qed

text \<open>The program position is inside a raw page; every operation of the engines keeps it there.\<close>

definition program_ok :: "nand_state \<Rightarrow> bool" where
  "program_ok s \<longleftrightarrow> unat (program_column s) < 512 \<and> unat (program_length s) \<le> 528 \<and> unat (column s) < 512"

lemma unat_div_pages: "unat (page div 32 :: u32) = unat page div 32"
  by (simp add: unat_div)

lemma bad_medium: "nand_physical_bad (s\<lparr>status_value := v\<rparr>) = nand_physical_bad (s :: nand_state)"
  by (simp add: nand_physical_bad_def fun_eq_iff)


lemma erase_block_fields [simp]:
  "img (erase_block b s) = map_option (fill (b * 16384) 16384 0xFF) (img s)"
  "oob (erase_block b s) = map_option (fill (b * 512) 512 0xFF) (oob s)"
  "image_size (erase_block b s) = image_size s"
  by (simp_all add: erase_block_def Let_def mult.assoc)

lemma erase_block_wear:
  "b < NAND_BLOCK_COUNT \<Longrightarrow> \<not> nand_physical_bad s b \<Longrightarrow> wear s (erase_block b s)"
  unfolding wear_def by (cases "img s"; cases "oob s") (simp_all add: fill_wear)

lemma erase_wear: "wear s (nand_commit_erase s)"
  unfolding nand_commit_erase_def Let_def
  by (auto intro!: erase_block_wear wear_same simp: not_le)

lemma wear_update_img:
  assumes "wear s t" and "img t = Some m" and "img s = Some m" and "array_wear (nand_physical_bad s) 16384 m m'"
  shows "wear s (t\<lparr>img := Some m'\<rparr>)"
  using assms by (simp add: wear_def)

lemma position:
  assumes "unat (c :: u32) < 512" and "j < 528"
  shows "unat (c + of_nat j) = unat c + j"
proof -
  have "unat (of_nat j :: u32) = j" using assms(2) by (simp add: unat_of_nat)
  moreover have "unat c + j < 2 ^ 32" using assms by simp
  ultimately show ?thesis by (simp add: unat_word_ariths)
qed

lemma oob_index:
  assumes "page < (32768 :: u32)" and "unat c < 512" and "j < 528" and "512 \<le> c + of_nat j"
  shows "unat (page * 16 + (c + of_nat j) - 512) = unat page * 16 + (unat c + j - 512)"
proof -
  have "512 \<le> unat c + j" using assms(4) position [OF assms(2,3)] by (simp add: word_le_nat_alt)
  moreover have "unat (page * 16 + c + of_nat j) = unat page * 16 + unat c + j"
    using page_index [OF assms(1), of c j 16] assms(2,3) by simp
  moreover from calculation have "(512 :: u32) \<le> page * 16 + c + of_nat j" by (simp add: word_le_nat_alt)
  ultimately show ?thesis by (simp add: unat_sub add.assoc)
qed

lemma program_limit_medium [simp]: "program_limit (s\<lparr>oob := v, dirty := d\<rparr>) = program_limit s"
  by (simp add: program_limit_def)

lemma program_wear:
  assumes "program_ok s"
  shows "wear s (nand_commit_program s)"
proof (cases "img s = None \<or> page_addr s \<ge> 32768 \<or> nand_physical_bad s (unat (page_addr s div 32))")
  case True
  then show ?thesis by (cases "img s") (auto simp: nand_commit_program_def intro: wear_same)
next
  case False
  then obtain im where im: "img s = Some im" and p: "page_addr s < 32768"
    and good: "\<not> nand_physical_bad s (unat (page_addr s) div 32)"
    by (auto simp: unat_div_pages not_le)
  have ok: "unat (program_column s) < 512" "unat (program_length s) \<le> 528"
    using assms by (simp_all add: program_ok_def)
  have b: "unat (page_addr s) div 32 < NAND_BLOCK_COUNT" using p by (simp add: word_less_nat_alt)
  let ?is = "[j \<leftarrow> takeWhile (\<lambda>j. program_column s + of_nat j < 528) [0..<unat (program_length s)].
      program_column s + of_nat j \<ge> 512]"
  have oob: "array_wear (nand_physical_bad s) 512 o'
      (and_bytes (\<lambda>j. unat (page_addr s * 16 + (program_column s + of_nat j) - 512)) (program_buffer s) ?is o')" for o'
  proof (rule and_bytes_wear [where bad = "nand_physical_bad s" and block = "unat (page_addr s) div 32"])
    fix j assume "j \<in> set ?is"
    then have j: "512 \<le> program_column s + of_nat j" "program_column s + of_nat j < 528" "j < 528"
      using ok(2) by (auto dest: set_takeWhileD)
    then have "unat (program_column s) + j < 528"
      using position [OF ok(1), of j] by (simp add: word_less_nat_alt)
    then show "unat (page_addr s * 16 + (program_column s + of_nat j) - 512) div 512 = unat (page_addr s) div 32"
      unfolding oob_index [OF p ok(1) j(3) j(1)] by linarith
  qed (use b good in simp_all)
  let ?limit = "program_limit s"
  have lim: "unat (program_column s) + unat ?limit \<le> 512"
  proof -
    have "unat (program_column s + program_length s) = unat (program_column s) + unat (program_length s)"
      using ok by (intro unat_add_lem [THEN iffD1]) simp
    then show ?thesis using ok by (auto simp: program_limit_def word_less_nat_alt unat_sub word_le_nat_alt)
  qed
  have data: "array_wear (nand_physical_bad s) 16384 im
      (and_bytes (\<lambda>i. unat (page_addr s * 512 + program_column s + of_nat i)) (program_buffer s) [0..<unat ?limit] im)"
  proof (rule and_bytes_wear [where bad = "nand_physical_bad s" and block = "unat (page_addr s) div 32"])
    fix i assume "i \<in> set [0..<unat ?limit]"
    then have "unat (program_column s) + i < 512" using lim by simp
    moreover have "unat (page_addr s * 512 + program_column s + of_nat i) = unat (page_addr s) * 512 + unat (program_column s) + i"
      using page_index [OF p, of "program_column s" i 512] calculation by simp
    ultimately show "unat (page_addr s * 512 + program_column s + of_nat i) div 16384 = unat (page_addr s) div 32"
      by simp
  qed (use b good in simp_all)
  show ?thesis
    using im p good oob data
    by (cases "oob s") (simp_all add: wear_def nand_commit_program_def Let_def unat_div_pages not_le)
qed


text \<open>What an operation that neither programs nor erases keeps.\<close>

definition same_medium :: "nand_state \<Rightarrow> nand_state \<Rightarrow> bool" where
  "same_medium s t \<longleftrightarrow> img t = img s \<and> oob t = oob s \<and> image_size t = image_size s"

definition same_program :: "nand_state \<Rightarrow> nand_state \<Rightarrow> bool" where
  "same_program s t \<longleftrightarrow> program_column t = program_column s \<and> program_length t = program_length s \<and> column t = column s"

lemmas same_defs = same_medium_def same_program_def

lemma same_medium_wear: "same_medium s t \<Longrightarrow> wear s t"
  by (auto simp: same_medium_def intro: wear_same)

lemma same_medium_trans: "same_medium s t \<Longrightarrow> same_medium t u \<Longrightarrow> same_medium s u"
  by (simp add: same_medium_def)

lemma same_medium_bad: "same_medium s t \<Longrightarrow> nand_physical_bad t = nand_physical_bad s"
  by (simp add: same_medium_def nand_physical_bad_def fun_eq_iff)

lemma wear_after: "same_medium s t \<Longrightarrow> wear t u \<Longrightarrow> wear s u"
  unfolding wear_def by (auto simp: same_medium_bad) (auto simp: same_medium_def)

lemma wear_before: "wear s t \<Longrightarrow> same_medium t u \<Longrightarrow> wear s u"
  unfolding wear_def by (auto simp: same_medium_def)

lemma same_program_ok: "same_program s t \<Longrightarrow> program_ok t = program_ok s"
  by (simp add: same_program_def program_ok_def)

definition harmless :: "nand_state \<Rightarrow> nand_state \<Rightarrow> bool" where
  "harmless s t \<longleftrightarrow> wear s t \<and> same_program s t"

lemma harmless_if:
  "(c \<Longrightarrow> harmless s t) \<Longrightarrow> (\<not> c \<Longrightarrow> harmless s u) \<Longrightarrow> harmless s (if c then t else u)"
  by simp

lemma harmless_keep: "same_medium s t \<and> same_program s t \<Longrightarrow> harmless s t"
  by (simp add: harmless_def same_medium_wear)

lemma harmless_after: "same_medium s t \<Longrightarrow> same_program s t \<Longrightarrow> harmless t u \<Longrightarrow> harmless s u"
  unfolding harmless_def same_program_def using wear_after by simp

lemma harmless_then: "harmless s t \<Longrightarrow> same_medium t u \<Longrightarrow> same_program t u \<Longrightarrow> harmless s u"
  unfolding harmless_def same_program_def by (metis wear_before)

text \<open>A factory-bad block stays as it is, and stays bad.\<close>

lemma wear_frozen:
  assumes "wear s t" and "nand_physical_bad s b"
  shows "nand_physical_bad t b"
    and "\<forall>k. k div 16384 = b \<longrightarrow> map_option (\<lambda>m. m k) (img t) = map_option (\<lambda>m. m k) (img s)"
    and "\<forall>k. k div 512 = b \<longrightarrow> map_option (\<lambda>m. m k) (oob t) = map_option (\<lambda>m. m k) (oob s)"
proof -
  show img: "\<forall>k. k div 16384 = b \<longrightarrow> map_option (\<lambda>m. m k) (img t) = map_option (\<lambda>m. m k) (img s)"
    using assms by (cases "img s"; cases "img t") (auto simp: wear_def array_wear_def)
  show oob: "\<forall>k. k div 512 = b \<longrightarrow> map_option (\<lambda>m. m k) (oob t) = map_option (\<lambda>m. m k) (oob s)"
    using assms by (cases "oob s"; cases "oob t") (auto simp: wear_def array_wear_def)
  obtain o1 where o1: "oob s = Some o1" and b: "b < NAND_BLOCK_COUNT"
    using assms(2) by (auto simp: nand_physical_bad_def split: option.splits if_splits)
  then obtain o2 where o2: "oob t = Some o2" using assms(1) by (cases "oob t") (auto simp: wear_def)
  have same: "o2 ((b * 32 + p) * 16 + i) = o1 ((b * 32 + p) * 16 + i)" if "p < 32" "i < 16" for p i
  proof -
    have "(b * 32 + p) * 16 + i = b * 512 + (p * 16 + i)" by (simp add: add_mult_distrib)
    then have "((b * 32 + p) * 16 + i) div 512 = b" using that by linarith
    then show ?thesis using oob o1 o2 by auto
  qed
  obtain p where p: "p \<in> {0, 1}" and marked: "let at = (b * 32 + p) * 16
      in o1 (at + 5) \<noteq> 0xFF \<and> \<not> (o1 at = 0xAA \<and> o1 (at + 1) = 0x55 \<and> o1 (at + 2) = 0x0F)"
    using assms(2) unfolding nand_physical_bad_def o1 option.case if_not_P [OF b [folded not_le]] by (rule bexE)
  have "p < 32" using p by auto
  note same = same [OF this, of 5] same [OF this, of 1] same [OF this, of 2] same [OF this, of 0]
  have "let at = (b * 32 + p) * 16
      in o2 (at + 5) \<noteq> 0xFF \<and> \<not> (o2 at = 0xAA \<and> o2 (at + 1) = 0x55 \<and> o2 (at + 2) = 0x0F)"
    using marked same unfolding Let_def add_0_right by simp
  then show "nand_physical_bad t b" using p
    unfolding nand_physical_bad_def o2 option.case if_not_P [OF b [folded not_le]] by (rule bexI)
qed

end
