(* ===== verification/Nand_Restore.thy ===== *)
theory Nand_Restore
  imports Nand_Chip
begin

text \<open>
  The NANDWRITER restore engine, src/hw/nand_restore.c: a page buffer behind a data window, command
  and address phases, and its own program and erase. It works on its own \<open>restore_\<close> fields of the
  NAND state; the lemmas show that it touches the medium only by wear, and that a page it programs
  reads back.
\<close>

abbreviation (input) NAND_CMD_READ0 :: u8 where "NAND_CMD_READ0 \<equiv> 0x00"
abbreviation (input) NAND_CMD_STATUS :: u8 where "NAND_CMD_STATUS \<equiv> 0x70"
abbreviation (input) NAND_CMD_SEQIN :: u8 where "NAND_CMD_SEQIN \<equiv> 0x80"
abbreviation (input) NAND_CMD_PAGEPROG :: u8 where "NAND_CMD_PAGEPROG \<equiv> 0x10"
abbreviation (input) NAND_CMD_ERASE1 :: u8 where "NAND_CMD_ERASE1 \<equiv> 0x60"
abbreviation (input) NAND_CMD_ERASE2 :: u8 where "NAND_CMD_ERASE2 \<equiv> 0xD0"

section \<open>Registers\<close>

definition nand_restore_reg_index :: "u32 \<Rightarrow> nat" where
  "nand_restore_reg_index offset = unat (drop_bit 2 offset)"

definition nand_restore_get_reg :: "nand_state \<Rightarrow> u32 \<Rightarrow> u32" where
  "nand_restore_get_reg s offset =
     (let idx = nand_restore_reg_index offset in if idx \<ge> 0x800 then 0 else restore_regs s idx)"

definition nand_restore_set_reg :: "u32 \<Rightarrow> u32 \<Rightarrow> nand_state \<Rightarrow> nand_state" where
  "nand_restore_set_reg offset value s =
     (let idx = nand_restore_reg_index offset
      in if idx < 0x800 then s\<lparr>restore_regs := (restore_regs s)(idx := value)\<rparr> else s)"

definition nand_restore_set_ready :: "bool \<Rightarrow> nand_state \<Rightarrow> nand_state" where
  "nand_restore_set_ready rdy s =
     (let reg = nand_restore_get_reg s 0x0C40;
          reg = (if rdy then reg OR 1 else reg AND NOT 1)
      in nand_restore_set_reg 0x0C40 reg s)"

definition nand_restore_seed_regs :: "nand_state \<Rightarrow> nand_state" where
  "nand_restore_seed_regs s =
     s\<lparr>restore_regs := (\<lambda>_. 0), restore_page_buffer := (\<lambda>_. 0xFF), restore_page_addr := 0,
       restore_stream_pos := 0, restore_stream_limit := 0, restore_stream_base := 0,
       restore_phase := 0, restore_mode := 0, restore_last_cmd := 0, restore_addr_count := 0,
       restore_ecc_count := 0, restore_status_ok := True\<rparr>"

section \<open>Addresses\<close>

definition nand_restore_page_from_addr :: "nand_state \<Rightarrow> u32" where
  "nand_restore_page_from_addr s =
     (if restore_addr_count s < 3 then restore_page_addr s
      else ucast (restore_addr_bytes s ! 1) OR push_bit 8 (ucast (restore_addr_bytes s ! 2)))"

definition nand_restore_block_from_addr :: "nand_state \<Rightarrow> u32" where
  "nand_restore_block_from_addr s =
     (if restore_addr_count s < 2 then restore_page_addr s div 32
      else (ucast (drop_bit 5 (restore_addr_bytes s ! 0)) AND 7) OR push_bit 3 (ucast (restore_addr_bytes s ! 1)))"

section \<open>Commands\<close>

definition nand_restore_fill_page_buffer :: "u32 \<Rightarrow> nand_state \<Rightarrow> nand_state" where
  "nand_restore_fill_page_buffer page s =
     (let s = s\<lparr>restore_page_buffer := (\<lambda>_. 0xFF)\<rparr>
      in case img s of
           None \<Rightarrow> s
         | Some im \<Rightarrow>
             if page \<ge> 32768 then s
             else
               let page_off = unat (page * 512);
                   buf = (if page_off + NAND_PAGE_DATA \<le> image_size s
                          then (\<lambda>i. if i < NAND_PAGE_DATA then im (page_off + i) else 0xFF)
                          else restore_page_buffer s);
                   buf = (\<lambda>i. if NAND_PAGE_DATA \<le> i \<and> i < NAND_PAGE_RAW
                              then nand_stream_oob_byte s (unat page) (i - NAND_PAGE_DATA) else buf i)
               in s\<lparr>restore_page_buffer := buf\<rparr>)"

definition nand_restore_begin_read :: "nand_state \<Rightarrow> nand_state" where
  "nand_restore_begin_read s =
     (let page = nand_restore_page_from_addr s;
          s = nand_restore_fill_page_buffer page (s\<lparr>restore_page_addr := page\<rparr>);
          s = s\<lparr>restore_stream_base := 0, restore_stream_pos := 0, restore_stream_limit := 0,
                restore_status_ok := page < 32768\<rparr>;
          s = nand_restore_set_reg 0x0C20 (if restore_status_ok s then 1 else 0) s
      in nand_restore_set_ready True s)"

definition nand_restore_begin_program :: "nand_state \<Rightarrow> nand_state" where
  "nand_restore_begin_program s =
     (let s = s\<lparr>restore_page_addr := nand_restore_page_from_addr s, restore_page_buffer := (\<lambda>_. 0xFF),
                restore_stream_base := 0, restore_stream_pos := 0, restore_stream_limit := 0,
                restore_status_ok := True\<rparr>
      in nand_restore_set_ready True (nand_restore_set_reg 0x0CC0 0 (nand_restore_set_reg 0x0C20 0 s)))"

text \<open>The refused commands: a missing image or an address past the chip, and a factory-bad block.\<close>

definition restore_fail_range :: "nand_state \<Rightarrow> nand_state" where
  "restore_fail_range s =
     nand_restore_set_ready True (nand_restore_set_reg 0x0C20 0 (s\<lparr>restore_status_ok := False\<rparr>))"

definition restore_fail_bad :: "nand_state \<Rightarrow> nand_state" where
  "restore_fail_bad s = nand_restore_set_ready True (s\<lparr>restore_status_ok := False\<rparr>)"

definition nand_restore_commit_program :: "nand_state \<Rightarrow> nand_state" where
  "nand_restore_commit_program s =
     (case img s of
        None \<Rightarrow> restore_fail_range s
      | Some im \<Rightarrow>
          if restore_page_addr s \<ge> 32768 then restore_fail_range s
          else if nand_physical_bad s (unat (restore_page_addr s div 32)) then restore_fail_bad s
          else
            let page = restore_page_addr s;
                page_off = page * 512;
                s = s\<lparr>oob := map_option (and_bytes (\<lambda>i. unat (page * 16 + of_nat i))
                        (\<lambda>i. restore_page_buffer s (NAND_PAGE_DATA + i)) [0..<NAND_PAGE_OOB]) (oob s)\<rparr>;
                s = s\<lparr>img := Some (and_bytes (\<lambda>i. unat (page_off + of_nat i)) (restore_page_buffer s)
                        (takeWhile (\<lambda>i. unat (page_off + of_nat i) < image_size s) [0..<NAND_PAGE_DATA]) im)\<rparr>;
                s = s\<lparr>dirty := True, block_data_state := (block_data_state s)(unat (page div 32) := 1),
                      restore_status_ok := True\<rparr>
            in nand_restore_set_ready True (nand_restore_set_reg 0x0C20 1 s))"

definition nand_restore_commit_erase :: "nand_state \<Rightarrow> nand_state" where
  "nand_restore_commit_erase s =
     (let block = unat (nand_restore_block_from_addr s)
      in if img s = None \<or> block \<ge> NAND_BLOCK_COUNT then restore_fail_range s
         else if nand_physical_bad s block then restore_fail_bad s
         else nand_restore_set_ready True (nand_restore_set_reg 0x0C20 1
                ((erase_block block s)\<lparr>restore_status_ok := True\<rparr>)))"

definition restore_zero_syndrome :: "nand_state \<Rightarrow> nand_state" where
  "restore_zero_syndrome s =
     nand_restore_set_reg 0x0CC0 1 (nand_restore_set_reg (0x0CA0 + 0x0C) 0 (nand_restore_set_reg (0x0CA0 + 0x08) 0
       (nand_restore_set_reg (0x0CA0 + 0x04) 0 (nand_restore_set_reg 0x0CA0 0 s))))"

definition nand_restore_prepare_mode :: "u8 \<Rightarrow> nand_state \<Rightarrow> nand_state" where
  "nand_restore_prepare_mode mode s =
     (let s = s\<lparr>restore_mode := mode, restore_stream_pos := 0, restore_ecc_count := 0\<rparr>
      in if mode = 0x04 then
           nand_restore_set_ready True (s\<lparr>restore_stream_base := 512 + 8, restore_stream_limit := 8\<rparr>)
         else if mode = 0x05 then
           (let s = (if restore_last_cmd s = NAND_CMD_READ0 then nand_restore_begin_read s else s)
            in nand_restore_set_ready True (s\<lparr>restore_stream_base := 0, restore_stream_limit := 512 + 8\<rparr>))
         else if mode = 0x06 then
           nand_restore_set_ready True
             ((restore_zero_syndrome s)\<lparr>restore_stream_base := 512, restore_stream_limit := 16\<rparr>)
         else if mode = 0x07 then
           nand_restore_set_ready True (s\<lparr>restore_stream_base := 0, restore_stream_limit := 512\<rparr>)
         else if mode = 0x01 then nand_restore_set_ready True (nand_restore_set_reg 0x0CC0 0 s)
         else nand_restore_set_ready True s)"

section \<open>The data window\<close>

fun restore_read_loop :: "nat \<Rightarrow> nat \<Rightarrow> u64 \<Rightarrow> nand_state \<Rightarrow> u64 \<times> nand_state" where
  "restore_read_loop i 0 val s = (val, s)"
| "restore_read_loop i (Suc n) val s =
     (let idx = restore_stream_base s + restore_stream_pos s;
          (byte, s) =
            (if restore_stream_pos s < restore_stream_limit s
             then ((if unat idx < NAND_PAGE_RAW then restore_page_buffer s (unat idx) else 0xFF),
                   s\<lparr>restore_stream_pos := restore_stream_pos s + 1\<rparr>)
             else (0xFF, s))
      in restore_read_loop (Suc i) n (val OR push_bit (8 * i) (ucast byte)) s)"

definition nand_restore_buffer_read :: "nat \<Rightarrow> nand_state \<Rightarrow> u64 \<times> nand_state" where
  "nand_restore_buffer_read sz s = restore_read_loop 0 sz 0 s"

fun restore_write_loop :: "nat \<Rightarrow> nat \<Rightarrow> u64 \<Rightarrow> nand_state \<Rightarrow> nand_state" where
  "restore_write_loop i 0 value s = s"
| "restore_write_loop i (Suc n) value s =
     (if restore_stream_pos s \<ge> restore_stream_limit s then s
      else
        let idx = unat (restore_stream_base s + restore_stream_pos s);
            s = (if idx < NAND_PAGE_RAW
                 then s\<lparr>restore_page_buffer := (restore_page_buffer s)(idx := byte_at value i)\<rparr> else s)
        in restore_write_loop (Suc i) n value (s\<lparr>restore_stream_pos := restore_stream_pos s + 1\<rparr>))"

definition nand_restore_buffer_write :: "nat \<Rightarrow> u64 \<Rightarrow> nand_state \<Rightarrow> nand_state" where
  "nand_restore_buffer_write sz value s = restore_write_loop 0 sz value s"

section \<open>Bus accesses\<close>

definition nand_restore_handles_offset :: "u32 \<Rightarrow> bool" where
  "nand_restore_handles_offset offset \<longleftrightarrow>
     offset \<ge> 0x0B00 \<and> offset < 0x0D00 \<and> \<not> (offset \<ge> 0xC00 \<and> offset < 0xC50)"

definition nand_restore_read :: "u32 \<Rightarrow> nat \<Rightarrow> nand_state \<Rightarrow> u64 \<times> nand_state" where
  "nand_restore_read offset sz s =
     (if offset \<ge> 0x0B00 \<and> offset < 0x0C00 then nand_restore_buffer_read sz s
      else if offset \<ge> 0x0980 \<and> offset < 0x0990 then
        (lanes sz (\<lambda>i. ucast (drop_bit (8 * i) (nand_restore_get_reg s offset))), s)
      else if offset \<ge> 0x0C00 \<and> offset \<le> 0x0CC0 then
        (let reg = nand_restore_get_reg s offset;
             reg = (if offset = 0x0C20 \<and> restore_last_cmd s = NAND_CMD_STATUS
                    then (if restore_status_ok s then 1 else 0) else reg)
         in (lanes sz (\<lambda>i. ucast (drop_bit (8 * i) reg)), s))
      else (0, s))"

text \<open>The command byte at 0xC20 in phase 3, and the address byte in phase 6.\<close>

definition restore_command :: "u8 \<Rightarrow> nand_state \<Rightarrow> nand_state" where
  "restore_command byte s =
     (let s = s\<lparr>restore_last_cmd := byte\<rparr>
      in if byte = NAND_CMD_READ0 then
           nand_restore_set_ready False (s\<lparr>restore_addr_count := 0, restore_status_ok := True\<rparr>)
         else if byte = NAND_CMD_SEQIN then nand_restore_begin_program (s\<lparr>restore_addr_count := 0\<rparr>)
         else if byte = NAND_CMD_ERASE1 then
           nand_restore_set_ready False (s\<lparr>restore_addr_count := 0, restore_status_ok := True\<rparr>)
         else if byte = NAND_CMD_ERASE2 then nand_restore_commit_erase s
         else if byte = NAND_CMD_PAGEPROG then nand_restore_commit_program s
         else if byte = NAND_CMD_STATUS then
           nand_restore_set_ready True (nand_restore_set_reg 0x0C20 (if restore_status_ok s then 1 else 0) s)
         else s)"

definition restore_address :: "u8 \<Rightarrow> nand_state \<Rightarrow> nand_state" where
  "restore_address byte s =
     (let s = (if restore_addr_count s < 4
               then s\<lparr>restore_addr_bytes := (restore_addr_bytes s)[restore_addr_count s := byte],
                      restore_addr_count := restore_addr_count s + 1\<rparr>
               else s\<lparr>restore_addr_bytes := tl (restore_addr_bytes s) @ [byte]\<rparr>)
      in if restore_last_cmd s = NAND_CMD_READ0 \<or> restore_last_cmd s = NAND_CMD_SEQIN
         then s\<lparr>restore_page_addr := nand_restore_page_from_addr s\<rparr>
         else if restore_last_cmd s = NAND_CMD_ERASE1
         then s\<lparr>restore_page_addr := nand_restore_block_from_addr s * 32\<rparr>
         else s)"

definition restore_ecc_word :: "u64 \<Rightarrow> nand_state \<Rightarrow> nand_state" where
  "restore_ecc_word value s =
     (if restore_mode s = 0x01 \<and> restore_ecc_count s < 6 then
        let s = s\<lparr>restore_ecc_words := (restore_ecc_words s)[restore_ecc_count s := ucast (value AND 0x3FF)],
                  restore_ecc_count := restore_ecc_count s + 1\<rparr>
        in if restore_ecc_count s \<ge> 6 then restore_zero_syndrome s else s
      else s)"

definition nand_restore_write :: "u32 \<Rightarrow> nat \<Rightarrow> u64 \<Rightarrow> nand_state \<Rightarrow> nand_state" where
  "nand_restore_write offset sz value s =
     (if offset \<ge> 0x0B00 \<and> offset < 0x0C00 then nand_restore_buffer_write sz value s
      else if offset \<ge> 0x0980 \<and> offset < 0x0990 then nand_restore_set_reg offset (ucast value) s
      else if offset = 0x0C14 then
        nand_restore_set_reg offset (ucast value) (s\<lparr>restore_phase := ucast (value AND 0xFF)\<rparr>)
      else if offset = 0x0C20 then
        (let byte = ucast (value AND 0xFF);
             s = nand_restore_set_reg offset (ucast value) s
         in if restore_phase s = 0x03 then restore_command byte s
            else if restore_phase s = 0x06 then restore_address byte s
            else s)
      else if offset = 0x0C64 then
        nand_restore_prepare_mode (ucast (value AND 0xFF)) (nand_restore_set_reg offset (ucast value) s)
      else if offset = 0x0C68 then restore_ecc_word value (nand_restore_set_reg offset (ucast value) s)
      else if offset \<ge> 0x0C00 \<and> offset \<le> 0x0CC0 then nand_restore_set_reg offset (ucast value) s
      else s)"


section \<open>Effect on the medium\<close>

named_theorems restore_frame \<open>operations that keep the medium and the program position\<close>

lemma set_reg_frame [restore_frame, simp]:
  "img (nand_restore_set_reg r v s) = img s" "oob (nand_restore_set_reg r v s) = oob s"
  "image_size (nand_restore_set_reg r v s) = image_size s"
  "program_column (nand_restore_set_reg r v s) = program_column s"
  "program_length (nand_restore_set_reg r v s) = program_length s" "column (nand_restore_set_reg r v s) = column s"
  by (simp_all add: nand_restore_set_reg_def Let_def)

lemma set_ready_frame [restore_frame, simp]:
  "img (nand_restore_set_ready b s) = img s" "oob (nand_restore_set_ready b s) = oob s"
  "image_size (nand_restore_set_ready b s) = image_size s"
  "program_column (nand_restore_set_ready b s) = program_column s"
  "program_length (nand_restore_set_ready b s) = program_length s" "column (nand_restore_set_ready b s) = column s"
  by (simp_all add: nand_restore_set_ready_def Let_def)

lemma fill_frame [simp]:
  "img (nand_restore_fill_page_buffer page s) = img s" "oob (nand_restore_fill_page_buffer page s) = oob s"
  "image_size (nand_restore_fill_page_buffer page s) = image_size s"
  "program_column (nand_restore_fill_page_buffer page s) = program_column s"
  "program_length (nand_restore_fill_page_buffer page s) = program_length s"
  "column (nand_restore_fill_page_buffer page s) = column s"
  by (auto simp: nand_restore_fill_page_buffer_def Let_def split: option.splits)

lemma prepare_mode_frame:
  "same_medium s (nand_restore_prepare_mode m s)" "same_program s (nand_restore_prepare_mode m s)"
  by (auto simp: same_defs nand_restore_prepare_mode_def nand_restore_begin_read_def
      restore_zero_syndrome_def Let_def)

lemma write_loop_frame:
  "same_medium s (restore_write_loop i n v s) \<and> same_program s (restore_write_loop i n v s)"
  by (induction i n v s rule: restore_write_loop.induct) (auto simp: same_defs Let_def)

lemma read_loop_frame:
  "same_medium s (snd (restore_read_loop i n v s)) \<and> same_program s (snd (restore_read_loop i n v s))"
  by (induction i n v s rule: restore_read_loop.induct) (auto simp: same_defs Let_def)

lemma restore_ecc_frame: "same_medium s (restore_ecc_word v s) \<and> same_program s (restore_ecc_word v s)"
  by (simp add: same_defs restore_ecc_word_def restore_zero_syndrome_def Let_def)

lemma restore_address_frame: "same_medium s (restore_address v s) \<and> same_program s (restore_address v s)"
  by (simp add: same_defs restore_address_def Let_def)

lemma restore_erase_wear: "harmless s (nand_restore_commit_erase s)"
proof (cases "img s = None \<or> unat (nand_restore_block_from_addr s) \<ge> NAND_BLOCK_COUNT \<or>
    nand_physical_bad s (unat (nand_restore_block_from_addr s))")
  case True
  then show ?thesis
    by (auto simp: nand_restore_commit_erase_def restore_fail_range_def restore_fail_bad_def harmless_def same_program_def
        Let_def intro!: wear_same)
next
  case False
  then have "wear s (erase_block (unat (nand_restore_block_from_addr s)) s)" by (auto intro: erase_block_wear)
  then show ?thesis using False
    by (auto simp: nand_restore_commit_erase_def harmless_def same_program_def erase_block_def wear_def Let_def)
qed

lemma restore_program_wear: "harmless s (nand_restore_commit_program s)"
proof (cases "img s = None \<or> restore_page_addr s \<ge> 32768 \<or> nand_physical_bad s (unat (restore_page_addr s div 32))")
  case True
  then show ?thesis
    by (cases "img s") (auto simp: nand_restore_commit_program_def restore_fail_range_def restore_fail_bad_def
        harmless_def same_program_def intro!: wear_same)
next
  case False
  then obtain im where im: "img s = Some im" and p: "restore_page_addr s < 32768"
    and good: "\<not> nand_physical_bad s (unat (restore_page_addr s) div 32)"
    by (auto simp: unat_div_pages not_le)
  have b: "unat (restore_page_addr s) div 32 < NAND_BLOCK_COUNT" using p by (simp add: word_less_nat_alt)
  have oob: "array_wear (nand_physical_bad s) 512 o'
      (and_bytes (\<lambda>i. unat (restore_page_addr s * 16 + of_nat i)) buf [0..<16] o')" for o' buf
  proof (rule and_bytes_wear [where bad = "nand_physical_bad s" and block = "unat (restore_page_addr s) div 32"])
    fix i :: nat assume "i \<in> set [0..<16]"
    then have "i < 16" and "unat (restore_page_addr s * 16 + of_nat i) = unat (restore_page_addr s) * 16 + i"
      using page_index [OF p, of 0 i 16] by auto
    then show "unat (restore_page_addr s * 16 + of_nat i) div 512 = unat (restore_page_addr s) div 32" by linarith
  qed (use b good in simp_all)
  have data: "array_wear (nand_physical_bad s) 16384 im
      (and_bytes (\<lambda>i. unat (restore_page_addr s * 512 + of_nat i)) buf
         (takeWhile (\<lambda>i. unat (restore_page_addr s * 512 + of_nat i) < n) [0..<512]) im)" for buf n
  proof (rule and_bytes_wear [where bad = "nand_physical_bad s" and block = "unat (restore_page_addr s) div 32"])
    fix i assume "i \<in> set (takeWhile (\<lambda>i. unat (restore_page_addr s * 512 + of_nat i) < n) [0..<512])"
    then have "i < 512" by (auto dest: set_takeWhileD)
    moreover from this have "unat (restore_page_addr s * 512 + of_nat i) = unat (restore_page_addr s) * 512 + i"
      using page_index [OF p, of 0 i 512] by auto
    ultimately show "unat (restore_page_addr s * 512 + of_nat i) div 16384 = unat (restore_page_addr s) div 32"
      by linarith
  qed (use b good in simp_all)
  show ?thesis using im p [folded not_le] good oob data
    by (cases "oob s") (simp_all add: wear_def harmless_def same_program_def nand_restore_commit_program_def Let_def unat_div_pages)
qed

lemma restore_command_harmless: "harmless s (restore_command c s)"
proof -
  let ?c = "s\<lparr>restore_last_cmd := c\<rparr>"
  have after: "harmless ?c t \<Longrightarrow> harmless s t" for t
    by (rule harmless_after [of s ?c]) (simp_all add: same_defs)
  show ?thesis unfolding restore_command_def Let_def
  proof (intro harmless_if)
    show "harmless s (nand_restore_commit_erase ?c)" by (rule after [OF restore_erase_wear])
    show "harmless s (nand_restore_commit_program ?c)" by (rule after [OF restore_program_wear])
  qed (rule harmless_keep; simp add: same_defs nand_restore_begin_program_def Let_def)+
qed

lemma restore_write_harmless: "harmless s (nand_restore_write off n v s)"
proof -
  let ?r = "nand_restore_set_reg off (ucast v) s"
  have after: "harmless ?r t \<Longrightarrow> harmless s t" for t
    by (rule harmless_after [of s ?r]) (simp_all add: same_defs)
  show ?thesis unfolding nand_restore_write_def nand_restore_buffer_write_def Let_def
  proof (intro harmless_if)
    show "harmless s (restore_write_loop 0 n v s)" by (rule harmless_keep [OF write_loop_frame])
    show "harmless s (restore_command (ucast (v AND 0xFF)) ?r)" by (rule after [OF restore_command_harmless])
    show "harmless s (restore_address (ucast (v AND 0xFF)) ?r)" by (rule after [OF harmless_keep [OF restore_address_frame]])
    show "harmless s (restore_ecc_word v ?r)" by (rule after [OF harmless_keep [OF restore_ecc_frame]])
    show "harmless s (nand_restore_prepare_mode (ucast (v AND 0xFF)) ?r)"
      by (rule after [OF harmless_keep]) (simp add: prepare_mode_frame)
  qed (rule harmless_keep; simp add: same_defs)+
qed

lemma restore_read_frame:
  "same_medium s (snd (nand_restore_read off n s)) \<and> same_program s (snd (nand_restore_read off n s))"
  using read_loop_frame [of s 0 n 0]
  by (simp add: nand_restore_read_def nand_restore_buffer_read_def Let_def same_defs)

end
