(* ===== verification/Nand.thy ===== *)
theory Nand
  imports Nand_Chip Nand_Ecc Nand_Restore
begin

text \<open>
  The NAND controller of src/hw/nand.c: the transfer engine of the second-stage loader (0xA400 and
  the data window at 0xB000), the ROM's engine (0xC000), the direct I/O and legacy command ports,
  the indexed legacy register port (0xD7F8), and the dispatch of bus accesses to them. A write
  returns the new state; a read the value and the new state. Bytes sent to the host's serial
  console are appended to \<open>serial_out\<close>.
\<close>

abbreviation (input) NAND_CMD_READ1 :: u8 where "NAND_CMD_READ1 \<equiv> 0x01"
abbreviation (input) NAND_CMD_READOOB :: u8 where "NAND_CMD_READOOB \<equiv> 0x50"
abbreviation (input) NAND_CMD_READID :: u8 where "NAND_CMD_READID \<equiv> 0x90"
abbreviation (input) NAND_CMD_RESET :: u8 where "NAND_CMD_RESET \<equiv> 0xFF"

section \<open>Word-indexed registers\<close>

text \<open>Register numbers of the transfer engine: \<open>(offset - NAND_XFER_BASE) >> 2\<close>.\<close>

abbreviation (input) XFER_MODE_IDX :: nat where "XFER_MODE_IDX \<equiv> 25"
abbreviation (input) XFER_STATUS2_IDX :: nat where "XFER_STATUS2_IDX \<equiv> 48"
abbreviation (input) BOOT_STATUS_IDX :: nat where "BOOT_STATUS_IDX \<equiv> 16"
abbreviation (input) BOOT_STATUS2_IDX :: nat where "BOOT_STATUS2_IDX \<equiv> 48"
abbreviation (input) BOOT_ECC_OUT_IDX :: nat where "BOOT_ECC_OUT_IDX \<equiv> 40"

section \<open>Error correction\<close>

definition nand_physical_ecc :: "nand_state \<Rightarrow> nand_state" where
  "nand_physical_ecc s =
     (let s = s\<lparr>xfer_buffer := replicate 16 0, xfer_regs := (xfer_regs s)[XFER_STATUS2_IDX := 0]\<rparr>
      in case (oob s, img s) of
           (Some o', Some im) \<Rightarrow>
             if stream_page s \<ge> 32768 then s
             else
               let page = unat (stream_page s);
                   r = map rev10 (xfer_ecc_words s);
                   rm = ecc_remainder (map (\<lambda>i. im (page * 512 + i)) [0..<512] @
                                       map (\<lambda>i. o' (page * 16 + i)) [0..<8]);
                   syndrome = map (\<lambda>i. r ! i XOR rm ! (5 - i)) [0..<6];
                   s = (if \<exists>i < 6. syndrome ! i \<noteq> 0
                        then s\<lparr>xfer_regs := (xfer_regs s)[XFER_STATUS2_IDX := 1]\<rparr> else s);
                   packed = ecc_pack syndrome
               in s\<lparr>xfer_buffer := map (\<lambda>k. if k mod 4 < 2 then nand_bitrev (packed ! (k div 4 * 2 + k mod 4)) else 0)
                       [0..<16]\<rparr>
         | _ \<Rightarrow> s)"

section \<open>Initial state\<close>

text \<open>The strap table: 64 little-endian words at 0xA060.\<close>

definition strap_init :: "u32 list" where
  "strap_init =
     replicate 8 0x000C000C @ [0, 1, 0] @ replicate 14 0x00007100 @
     [0x00000003, 0x0000FFFF, 0, 0x00000002, 0, 0, 0x00000005, 0x00000041, 0x0000000F, 0, 0, 0] @
     replicate 3 0x00007100 @ replicate 16 0 @ [0x00000001] @ replicate 7 0"

definition nand_init :: "(nat \<Rightarrow> u8) option \<Rightarrow> nat \<Rightarrow> nat \<Rightarrow> nand_state" where
  "nand_init image0 sz valid_size =
     nand_restore_seed_regs
     \<lparr>img = image0, image_size = sz, image_valid_size = (if valid_size \<le> sz then valid_size else sz),
      oob = None, dirty = False,
      block_data_state = (\<lambda>block. if block < NAND_BLOCK_COUNT \<and> image0 \<noteq> None \<and>
          block * NAND_BLOCK_PAGES * NAND_PAGE_DATA < (if valid_size \<le> sz then valid_size else sz) then 1 else 0),
      state = NAND_STATE_IDLE, page_addr = 0, column = 0, nand_offset = 0, xfer_length = 0,
      xfer_cursor = 0, addr_cycle = 0, last_cmd = 0, ready = True, enabled = False,
      ctrl_regs = replicate 8 0,
      strap_regs = concat (map (\<lambda>w. map (\<lambda>i. ucast (drop_bit (8 * i) w)) [0..<4]) strap_init),
      xfer_regs = replicate 64 0, xfer_addr_bytes = replicate 4 0, xfer_addr_count = 0,
      xfer_addr24 = 0, stream_page = 0, stream_col = 0, stream_base = 0, stream_cursor = 0,
      stream_limit = 0, stream_active = False, burst_520 = False, stream_stall = False,
      boot_regs = replicate 64 0, boot_addr_bytes = replicate 4 0, boot_addr_count = 0,
      boot_ecc_words = replicate 6 0, boot_ecc_count = 0, boot_mode = 0, boot_ready = False,
      portctl = 0, legacy_regs = replicate 256 0x40, legacy_dirty = replicate 256 False,
      legacy_read_since_write = replicate 256 0, legacy_status7_event_reads = 0,
      legacy_status7_ff_armed = False, xfer_buffer = replicate 16 0, xfer_ecc_words = replicate 6 0,
      xfer_ecc_count = 0, xfer_phase = 0, xfer_pending_byte = 0, xfer_last_cmd = 0,
      xfer_data_bytes = replicate 8 0, xfer_data_count = 0, xfer_data_pos = 0, dio_mode = 0,
      dio_last_write = 0, status_value = 0xC0, program_buffer = (\<lambda>_. 0), program_column = 0,
      program_length = 0, restore_regs = (\<lambda>_. 0), restore_page_buffer = (\<lambda>_. 0),
      restore_page_addr = 0, restore_stream_pos = 0, restore_stream_limit = 0,
      restore_stream_base = 0, restore_phase = 0, restore_mode = 0, restore_last_cmd = 0,
      restore_addr_bytes = replicate 4 0, restore_addr_count = 0, restore_ecc_words = replicate 6 0,
      restore_ecc_count = 0, restore_status_ok = False, serial_out = []\<rparr>"

definition nand_dma_state_written :: "nand_state \<Rightarrow> nand_state" where
  "nand_dma_state_written s = s\<lparr>burst_520 := False\<rparr>"

section \<open>Loader transfer engine: commands and addresses\<close>

definition nand_setup_transfer :: "nand_state \<Rightarrow> nand_state" where
  "nand_setup_transfer s =
     (let raw_offset = page_addr s * 528;
          s = (case state s of
                 NAND_STATE_READ_DATA \<Rightarrow>
                   if column s < 512 then s\<lparr>nand_offset := raw_offset + column s, xfer_length := 512 - column s\<rparr>
                   else s\<lparr>nand_offset := raw_offset + 512, xfer_length := 0\<rparr>
               | NAND_STATE_READ_OOB \<Rightarrow> s\<lparr>nand_offset := raw_offset + 512, xfer_length := 16\<rparr>
               | NAND_STATE_READ_ID \<Rightarrow> s\<lparr>nand_offset := 0, xfer_length := 4\<rparr>
               | _ \<Rightarrow> s\<lparr>nand_offset := 0, xfer_length := 0\<rparr>)
      in s\<lparr>xfer_cursor := 0\<rparr>)"

definition nand_xfer_clear_data :: "nand_state \<Rightarrow> nand_state" where
  "nand_xfer_clear_data s = s\<lparr>xfer_data_count := 0, xfer_data_pos := 0, xfer_data_bytes := replicate 8 0\<rparr>"

definition nand_xfer_push_data :: "u8 \<Rightarrow> nand_state \<Rightarrow> nand_state" where
  "nand_xfer_push_data byte s =
     (if xfer_data_count s < 8
      then s\<lparr>xfer_data_bytes := (xfer_data_bytes s)[xfer_data_count s := byte],
             xfer_data_count := xfer_data_count s + 1\<rparr>
      else s)"

definition nand_xfer_reset_addr :: "nand_state \<Rightarrow> nand_state" where
  "nand_xfer_reset_addr s = s\<lparr>xfer_addr_count := 0, xfer_addr_bytes := replicate 4 0\<rparr>"

definition nand_xfer_row_addr :: "nand_state \<Rightarrow> u32" where
  "nand_xfer_row_addr s = ucast (xfer_addr_bytes s ! 1) OR push_bit 8 (ucast (xfer_addr_bytes s ! 2))"

definition nand_xfer_col_addr :: "nand_state \<Rightarrow> u32" where
  "nand_xfer_col_addr s = ucast (xfer_addr_bytes s ! 0)"

definition nand_xfer_block_addr :: "nand_state \<Rightarrow> u32" where
  "nand_xfer_block_addr s =
     (if xfer_addr_count s < 2 then page_addr s div 32
      else
        let block = (ucast (drop_bit 5 (xfer_addr_bytes s ! 0)) AND 7) OR push_bit 3 (ucast (xfer_addr_bytes s ! 1))
        in if xfer_addr_count s \<ge> 3 then block OR push_bit 11 (ucast (xfer_addr_bytes s ! 2)) else block)"

text \<open>The commands that take a row and a column.\<close>

definition is_row_cmd :: "u8 \<Rightarrow> bool" where
  "is_row_cmd c \<longleftrightarrow> c = NAND_CMD_READ0 \<or> c = NAND_CMD_READ1 \<or> c = NAND_CMD_READOOB \<or> c = NAND_CMD_SEQIN"

definition nand_xfer_latch_addr_state :: "nand_state \<Rightarrow> nand_state" where
  "nand_xfer_latch_addr_state s =
     (if is_row_cmd (xfer_last_cmd s) then
        (if xfer_addr_count s \<ge> 3 then s\<lparr>page_addr := nand_xfer_row_addr s, column := nand_xfer_col_addr s\<rparr> else s)
      else if xfer_last_cmd s = NAND_CMD_ERASE1 then
        (if xfer_addr_count s \<ge> 2 then s\<lparr>page_addr := nand_xfer_block_addr s * 32\<rparr> else s)
      else s)"

definition nand_xfer_prepare_readid :: "nand_state \<Rightarrow> nand_state" where
  "nand_xfer_prepare_readid s = nand_xfer_push_data 0x73 (nand_xfer_push_data 0xEC (nand_xfer_clear_data s))"

definition nand_xfer_prepare_status :: "nand_state \<Rightarrow> nand_state" where
  "nand_xfer_prepare_status s = nand_xfer_push_data (status_value s) (nand_xfer_clear_data s)"

text \<open>Phase 3 of \<open>nand_xfer_commit_phase\<close>: the pending byte is a command.\<close>

definition xfer_command :: "u8 \<Rightarrow> nand_state \<Rightarrow> nand_state" where
  "xfer_command byte s =
     (let s = s\<lparr>xfer_last_cmd := byte\<rparr>;
          addressed = (\<lambda>s. nand_xfer_clear_data (nand_xfer_reset_addr s))
      in if byte = NAND_CMD_READ0 then addressed (s\<lparr>state := NAND_STATE_READ_DATA, column := 0\<rparr>)
         else if byte = NAND_CMD_READ1 then addressed (s\<lparr>state := NAND_STATE_READ_DATA, column := 256\<rparr>)
         else if byte = NAND_CMD_READOOB then addressed (s\<lparr>state := NAND_STATE_READ_OOB\<rparr>)
         else if byte = NAND_CMD_READID then (addressed (s\<lparr>state := NAND_STATE_READ_ID\<rparr>))\<lparr>ready := True\<rparr>
         else if byte = NAND_CMD_STATUS then
           nand_xfer_prepare_status (s\<lparr>state := NAND_STATE_READ_STATUS, ready := True\<rparr>)
         else if byte = NAND_CMD_SEQIN then
           addressed (s\<lparr>state := NAND_STATE_PROGRAM_DATA, column := 0, program_column := 0,
             program_length := 0, program_buffer := (\<lambda>_. 0xFF)\<rparr>)
         else if byte = NAND_CMD_ERASE1 then addressed (s\<lparr>state := NAND_STATE_ERASE_SETUP\<rparr>)
         else if byte = NAND_CMD_PAGEPROG then
           (let s = s\<lparr>status_value := 0xC0\<rparr>;
                s = (if state s = NAND_STATE_PROGRAM_DATA then nand_commit_program s else s)
            in nand_xfer_prepare_status (s\<lparr>state := NAND_STATE_IDLE, ready := True\<rparr>))
         else if byte = NAND_CMD_ERASE2 then
           (let s = s\<lparr>status_value := 0xC0\<rparr>;
                s = (if state s = NAND_STATE_ERASE_SETUP
                     then nand_commit_erase (s\<lparr>page_addr := nand_xfer_block_addr s * 32\<rparr>) else s)
            in nand_xfer_prepare_status (s\<lparr>state := NAND_STATE_IDLE, ready := True\<rparr>))
         else if byte = NAND_CMD_RESET then
           nand_xfer_clear_data (s\<lparr>state := NAND_STATE_IDLE, ready := True, status_value := 0xC0\<rparr>)
         else (nand_xfer_clear_data s)\<lparr>ready := True\<rparr>)"

text \<open>Phase 6: the address bytes of the last command are complete.\<close>

definition xfer_addressed :: "nand_state \<Rightarrow> nand_state" where
  "xfer_addressed s =
     (let s = (if xfer_last_cmd s = NAND_CMD_READID then nand_xfer_prepare_readid s
               else if xfer_last_cmd s = NAND_CMD_STATUS then nand_xfer_prepare_status s
               else if is_row_cmd (xfer_last_cmd s) then
                 s\<lparr>page_addr := nand_xfer_row_addr s, column := nand_xfer_col_addr s\<rparr>
               else if xfer_last_cmd s = NAND_CMD_ERASE1 then s\<lparr>page_addr := nand_xfer_block_addr s * 32\<rparr>
               else s)
      in s\<lparr>ready := True\<rparr>)"

definition nand_xfer_commit_phase :: "nand_state \<Rightarrow> nand_state" where
  "nand_xfer_commit_phase s =
     (if xfer_phase s = 0x03 then xfer_command (xfer_pending_byte s) s
      else if xfer_phase s = 0x06 then xfer_addressed s
      else s)"


section \<open>Legacy command and address ports\<close>

definition nand_legacy_command :: "u8 \<Rightarrow> nand_state \<Rightarrow> nand_state" where
  "nand_legacy_command cmd s =
     (let s = s\<lparr>last_cmd := cmd, addr_cycle := 0, xfer_cursor := 0, ready := False\<rparr>;
          idle = (\<lambda>s. s\<lparr>state := NAND_STATE_IDLE, ready := True\<rparr>)
      in if cmd = NAND_CMD_READ0 then s\<lparr>state := NAND_STATE_READ_DATA, column := 0\<rparr>
         else if cmd = NAND_CMD_READ1 then s\<lparr>state := NAND_STATE_READ_DATA, column := 256\<rparr>
         else if cmd = NAND_CMD_READOOB then s\<lparr>state := NAND_STATE_READ_OOB\<rparr>
         else if cmd = NAND_CMD_READID then
           (nand_setup_transfer (s\<lparr>state := NAND_STATE_READ_ID\<rparr>))\<lparr>ready := True\<rparr>
         else if cmd = NAND_CMD_STATUS then s\<lparr>state := NAND_STATE_READ_STATUS, ready := True\<rparr>
         else if cmd = NAND_CMD_SEQIN then
           s\<lparr>state := NAND_STATE_PROGRAM_DATA, column := 0, program_column := 0, program_length := 0,
             program_buffer := (\<lambda>_. 0xFF)\<rparr>
         else if cmd = NAND_CMD_ERASE1 then s\<lparr>state := NAND_STATE_ERASE_SETUP\<rparr>
         else if cmd = NAND_CMD_PAGEPROG then
           (let s = s\<lparr>status_value := 0xC0\<rparr>
            in idle (if state s = NAND_STATE_PROGRAM_DATA then nand_commit_program s else s))
         else if cmd = NAND_CMD_ERASE2 then
           (let s = s\<lparr>status_value := 0xC0\<rparr>
            in idle (if state s = NAND_STATE_ERASE_SETUP then nand_commit_erase s else s))
         else if cmd = NAND_CMD_RESET then idle s
         else idle s)"

text \<open>One address cycle, and whether it completes a read setup.\<close>

definition nand_legacy_address :: "u8 \<Rightarrow> nand_state \<Rightarrow> bool \<times> nand_state" where
  "nand_legacy_address abyte s =
     (let s = (if addr_cycle s = 0 then
                 (if state s = NAND_STATE_READ_DATA then s\<lparr>column := (column s AND NOT 0xFF) OR ucast abyte\<rparr> else s)
               else if addr_cycle s = 1 then s\<lparr>page_addr := (page_addr s AND NOT 0xFF) OR ucast abyte\<rparr>
               else if addr_cycle s = 2 then
                 s\<lparr>page_addr := (page_addr s AND NOT 0xFF00) OR push_bit 8 (ucast abyte)\<rparr>
               else if addr_cycle s = 3 then
                 s\<lparr>page_addr := (page_addr s AND NOT 0xFF0000) OR push_bit 16 (ucast abyte)\<rparr>
               else s);
          s = s\<lparr>addr_cycle := addr_cycle s + 1\<rparr>
      in if addr_cycle s \<ge> 3 \<and> (state s = NAND_STATE_READ_DATA \<or> state s = NAND_STATE_READ_OOB)
         then (True, (nand_setup_transfer s)\<lparr>ready := True\<rparr>)
         else if addr_cycle s = 1 \<and> state s = NAND_STATE_PROGRAM_DATA
         then (False, s\<lparr>program_column := column s\<rparr>)
         else (False, s))"

fun program_append_loop :: "nat \<Rightarrow> nat \<Rightarrow> u64 \<Rightarrow> nand_state \<Rightarrow> nand_state" where
  "program_append_loop i 0 value s = s"
| "program_append_loop i (Suc n) value s =
     (if program_column s + program_length s \<ge> 528 then s
      else program_append_loop (Suc i) n value
             (s\<lparr>program_buffer := (program_buffer s)(unat (program_length s) := byte_at value i),
               program_length := program_length s + 1\<rparr>))"

definition nand_program_append :: "u64 \<Rightarrow> nat \<Rightarrow> nand_state \<Rightarrow> nand_state" where
  "nand_program_append value sz s = program_append_loop 0 sz value s"

section \<open>Data streams\<close>

definition past_limit :: "nand_state \<Rightarrow> nat \<Rightarrow> bool" where
  "past_limit s i \<longleftrightarrow> stream_limit s \<noteq> 0 \<and> stream_cursor s + of_nat i \<ge> stream_limit s"

definition nand_stream_read :: "nat \<Rightarrow> nand_state \<Rightarrow> u64 \<times> nand_state" where
  "nand_stream_read sz s =
     (lanes sz (\<lambda>i. if past_limit s i then 0xFF else nand_stream_byte s (stream_cursor s + of_nat i)),
      s\<lparr>stream_stall := (stream_stall s \<or>
            (\<exists>i < sz. past_limit s i) \<and> burst_520 s \<and> xfer_regs s ! XFER_MODE_IDX = 0x05),
        stream_cursor := stream_cursor s + of_nat sz\<rparr>)"

section \<open>ROM transfer engine\<close>

definition nand_boot_reset :: "nand_state \<Rightarrow> nand_state" where
  "nand_boot_reset s =
     s\<lparr>boot_ready := False, boot_mode := 0, boot_addr_count := 0, boot_ecc_count := 0,
       stream_active := False, stream_limit := 0,
       boot_regs := (boot_regs s)[BOOT_STATUS_IDX := 0, BOOT_STATUS2_IDX := 0]\<rparr>"

definition nand_boot_latch_addr :: "u8 \<Rightarrow> nand_state \<Rightarrow> nand_state" where
  "nand_boot_latch_addr data_byte s =
     (if boot_addr_count s < 4
      then s\<lparr>boot_addr_bytes := (boot_addr_bytes s)[boot_addr_count s := data_byte],
             boot_addr_count := boot_addr_count s + 1\<rparr>
      else s\<lparr>boot_addr_bytes := tl (boot_addr_bytes s) @ [data_byte]\<rparr>)"

definition nand_boot_start_stream :: "nand_state \<Rightarrow> nand_state" where
  "nand_boot_start_stream s =
     (let col = ucast (boot_addr_bytes s ! 0);
          page = ucast (boot_addr_bytes s ! 1) OR push_bit 8 (ucast (boot_addr_bytes s ! 2 AND 0x7F))
      in s\<lparr>stream_page := page, stream_col := col, stream_base := page * 528 + col, stream_cursor := 0,
           stream_limit := 528 - col, stream_active := True, boot_ready := True,
           boot_regs := (boot_regs s)[BOOT_STATUS_IDX := 1, BOOT_STATUS2_IDX := 0]\<rparr>)"

definition nand_boot_finish_ecc_input :: "nand_state \<Rightarrow> nand_state" where
  "nand_boot_finish_ecc_input s =
     s\<lparr>boot_regs := (boot_regs s)[BOOT_ECC_OUT_IDX := 0, BOOT_ECC_OUT_IDX + 1 := 0, BOOT_ECC_OUT_IDX + 2 := 0,
         BOOT_ECC_OUT_IDX + 3 := 0, BOOT_STATUS2_IDX := 0]\<rparr>"

section \<open>Bus writes, block by block\<close>

definition nand_write_ctrl :: "u32 \<Rightarrow> u64 \<Rightarrow> nand_state \<Rightarrow> nand_state" where
  "nand_write_ctrl offset value s =
     (let idx = unat (drop_bit 2 (offset - 0xA000));
          s = (if idx < 8 then s\<lparr>ctrl_regs := (ctrl_regs s)[idx := ucast value]\<rparr> else s)
      in if offset = 0xA000
         then s\<lparr>ctrl_regs := (ctrl_regs s)[2 := (if value AND 1 \<noteq> 0 then 0x000002F9 else 0)]\<rparr>
         else s)"

definition nand_write_strap :: "u32 \<Rightarrow> nat \<Rightarrow> u64 \<Rightarrow> nand_state \<Rightarrow> nand_state" where
  "nand_write_strap offset sz value s =
     (let rel = unat (offset - 0xA060)
      in s\<lparr>strap_regs := fold (\<lambda>i regs.
             if 0xA0C0 \<le> unat offset + i \<and> unat offset + i < 0xA0C4 then regs
             else regs[rel + i := byte_at value i])
           (takeWhile (\<lambda>i. rel + i < 256) [0..<sz]) (strap_regs s)\<rparr>)"

definition xfer_open_stream :: "nand_state \<Rightarrow> nand_state" where
  "xfer_open_stream s =
     (let row = nand_xfer_row_addr s; col = nand_xfer_col_addr s
      in s\<lparr>stream_page := row, stream_col := col, stream_base := row * 528 + col, stream_cursor := 0,
           stream_active := True\<rparr>)"

definition xfer_set_mode :: "u8 \<Rightarrow> nand_state \<Rightarrow> nand_state" where
  "xfer_set_mode data_byte s =
     (let s = (if data_byte = 0x01 then s\<lparr>burst_520 := True\<rparr> else s);
          s = (if data_byte = 0x00 \<or> data_byte = 0x01 then
                 s\<lparr>xfer_ecc_count := 0, xfer_buffer := replicate 16 0,
                   xfer_regs := (xfer_regs s)[XFER_STATUS2_IDX := 0],
                   stream_base := 0, stream_cursor := 0, stream_limit := 0, stream_active := False\<rparr>
               else if data_byte = 0x04 then
                 (let s = (if \<not> stream_active s \<and> xfer_addr_count s \<ge> 3 then xfer_open_stream s else s);
                      s = (if stream_active s then s\<lparr>stream_limit := 528 - stream_col s\<rparr> else s)
                  in s\<lparr>xfer_buffer :=
                         (if stream_active s
                          then map (\<lambda>i. nand_stream_byte s (stream_cursor s + of_nat i)) [0..<16]
                          else replicate 16 0)\<rparr>)
               else if data_byte = 0x05 then
                 (let s = xfer_open_stream s
                  in s\<lparr>stream_limit := (if burst_520 s then 512 + 8 else 528) - stream_col s\<rparr>)
               else if data_byte = 0x06 then
                 s\<lparr>stream_base := 512 + 8, stream_cursor := 0, stream_limit := 8, stream_active := False\<rparr>
               else if data_byte = 0x07 then
                 (nand_xfer_latch_addr_state s)\<lparr>stream_base := 0, stream_cursor := 0,
                   stream_limit := 512 + 8, stream_active := False\<rparr>
               else s)
      in s\<lparr>ready := True\<rparr>)"

definition xfer_address :: "u8 \<Rightarrow> nand_state \<Rightarrow> nand_state" where
  "xfer_address data_byte s =
     (let s = (if xfer_addr_count s < 4
               then s\<lparr>xfer_addr_bytes := (xfer_addr_bytes s)[xfer_addr_count s := data_byte],
                      xfer_addr_count := xfer_addr_count s + 1\<rparr>
               else s\<lparr>xfer_addr_bytes := tl (xfer_addr_bytes s) @ [data_byte]\<rparr>);
          s = (if xfer_addr_count s \<ge> 3
               then s\<lparr>xfer_addr24 := (ucast (xfer_addr_bytes s ! 0) OR push_bit 8 (ucast (xfer_addr_bytes s ! 1)))
                      OR push_bit 16 (ucast (xfer_addr_bytes s ! 2))\<rparr>
               else s)
      in nand_xfer_latch_addr_state s)"

definition xfer_ecc_input :: "u64 \<Rightarrow> nand_state \<Rightarrow> nand_state" where
  "xfer_ecc_input value s =
     (if xfer_regs s ! XFER_MODE_IDX = 0x01 then
        let s = (if xfer_ecc_count s < 6
                 then s\<lparr>xfer_ecc_words := (xfer_ecc_words s)[xfer_ecc_count s := ucast (value AND 0x3FF)],
                        xfer_ecc_count := xfer_ecc_count s + 1\<rparr>
                 else s)
        in if xfer_ecc_count s \<ge> 6 then (nand_physical_ecc s)\<lparr>ready := True\<rparr> else s
      else s)"

definition nand_write_xfer :: "u32 \<Rightarrow> u64 \<Rightarrow> nand_state \<Rightarrow> nand_state" where
  "nand_write_xfer offset value s =
     (let idx = unat (drop_bit 2 (offset - 0xA400));
          data_byte = ucast (value AND 0xFF);
          s = (if idx < 64 then s\<lparr>xfer_regs := (xfer_regs s)[idx := ucast value]\<rparr> else s)
      in if offset = 0xA414 then
           (let s = s\<lparr>xfer_phase := data_byte\<rparr>
            in if data_byte = 0x03 \<or> data_byte = 0x06 then s\<lparr>xfer_addr_count := 0\<rparr> else s)
         else if offset = 0xA420 then
           (let s = s\<lparr>xfer_pending_byte := data_byte\<rparr>
            in if xfer_phase s = 0x06 then xfer_address data_byte s else s)
         else if offset = 0xA430 then nand_xfer_commit_phase s
         else if offset = 0xA460 then s\<lparr>ready := False\<rparr>
         else if offset = 0xA464 then xfer_set_mode data_byte s
         else if offset = 0xA468 then xfer_ecc_input value s
         else s)"

definition boot_set_mode :: "u8 \<Rightarrow> nand_state \<Rightarrow> nand_state" where
  "boot_set_mode data_byte s =
     (let s = s\<lparr>boot_mode := data_byte\<rparr>
      in if data_byte = 0x05 \<and> boot_addr_count s \<ge> 3 then nand_boot_start_stream s
         else if data_byte = 0x04 then s\<lparr>boot_ready := True, boot_regs := (boot_regs s)[BOOT_STATUS_IDX := 1]\<rparr>
         else if data_byte = 0x00 \<or> data_byte = 0x01 then
           (let s = s\<lparr>boot_ecc_count := 0\<rparr>
            in if data_byte = 0x00 then s\<lparr>boot_regs := (boot_regs s)[BOOT_STATUS2_IDX := 0]\<rparr> else s)
         else s)"

definition nand_write_boot :: "u32 \<Rightarrow> u64 \<Rightarrow> nand_state \<Rightarrow> nand_state" where
  "nand_write_boot offset value s =
     (let idx = unat (drop_bit 2 (offset - 0xC000));
          data_byte = ucast (value AND 0xFF);
          s = (if idx < 64 then s\<lparr>boot_regs := (boot_regs s)[idx := ucast value]\<rparr> else s)
      in if offset = 0xC010 then (if value AND 1 = 0 then nand_boot_reset s else s)
         else if offset = 0xC014 then
           (if data_byte = 0x03 \<or> data_byte = 0x06 then s\<lparr>boot_addr_count := 0\<rparr>
            else if data_byte = 0x00 then nand_boot_reset s else s)
         else if offset = 0xC020 then nand_boot_latch_addr data_byte s
         else if offset = 0xC060 then
           s\<lparr>boot_ready := False, boot_regs := (boot_regs s)[BOOT_STATUS_IDX := 0]\<rparr>
         else if offset = 0xC064 then boot_set_mode data_byte s
         else if offset = 0xC068 then
           (if boot_mode s = 0x01 \<and> boot_ecc_count s < 6 then
              let s = s\<lparr>boot_ecc_words := (boot_ecc_words s)[boot_ecc_count s := ucast (value AND 0x3FF)],
                        boot_ecc_count := boot_ecc_count s + 1\<rparr>
              in if boot_ecc_count s = 6 then nand_boot_finish_ecc_input s else s
            else s)
         else s)"


section \<open>The indexed legacy port\<close>

definition console_pc :: "u32 \<Rightarrow> bool" where
  "console_pc pc \<longleftrightarrow> (let norm_pc = pc AND NOT 0x20000000 in norm_pc = 0x80F03308 \<or> norm_pc = 0x80F03350)"

definition legacy_write_byte :: "u32 \<Rightarrow> u8 \<Rightarrow> u8 \<Rightarrow> nand_state \<Rightarrow> nand_state" where
  "legacy_write_byte pc ri byte s =
     (let k = unat ri;
          was_dirty = legacy_dirty s ! k;
          old = legacy_regs s ! k;
          s = s\<lparr>legacy_regs := (legacy_regs s)[k := byte], legacy_dirty := (legacy_dirty s)[k := True]\<rparr>;
          s = (if ri = 0x07 then
                 (let keep_read_count = (was_dirty \<and> old = byte \<and> old AND 0x1B \<noteq> 0);
                      s = (if \<not> keep_read_count
                           then s\<lparr>legacy_read_since_write := (legacy_read_since_write s)[k := 0]\<rparr> else s)
                  in if byte AND 0x1B = 0
                     then s\<lparr>legacy_status7_event_reads := 0, legacy_status7_ff_armed := False\<rparr> else s)
               else s\<lparr>legacy_read_since_write := (legacy_read_since_write s)[k := 0]\<rparr>)
      in if (ri = 0x00 \<or> ri = 0xF0) \<and> console_pc pc \<and>
            (byte = 0x0A \<or> byte = 0x0D \<or> (byte \<ge> 0x20 \<and> byte \<le> 0x7E))
         then s\<lparr>serial_out := serial_out s @ [byte]\<rparr> else s)"

definition nand_write_data :: "u32 \<Rightarrow> nat \<Rightarrow> u64 \<Rightarrow> nand_state \<Rightarrow> nand_state" where
  "nand_write_data pc sz value s =
     (if state s = NAND_STATE_PROGRAM_DATA then nand_program_append value sz s
      else
        let idx = ucast (portctl s AND 0xFF)
        in fold (\<lambda>i. legacy_write_byte pc (idx + of_nat i) (byte_at value i)) [0..<sz] s)"

text \<open>A read of the status index counts down the events a driver is waiting for.\<close>

definition legacy_idle :: "u8 \<Rightarrow> nand_state \<Rightarrow> nand_state" where
  "legacy_idle byte_val s =
     s\<lparr>legacy_regs := (legacy_regs s)[7 := byte_val], legacy_dirty := (legacy_dirty s)[7 := False],
       legacy_read_since_write := (legacy_read_since_write s)[7 := 0],
       legacy_status7_event_reads := 0, legacy_status7_ff_armed := False\<rparr>"

definition status7_second_read :: "u8 \<Rightarrow> nand_state \<Rightarrow> u8 \<times> nand_state" where
  "status7_second_read raw s =
     (let byte_val = (if raw AND 0x10 \<noteq> 0 then raw AND NOT 0x10
                      else if raw AND 0x05 \<noteq> 0 then raw AND NOT 0x05
                      else if raw AND 0x0A \<noteq> 0 then raw AND NOT 0x0A
                      else raw AND NOT 0x1B);
          s = s\<lparr>legacy_regs := (legacy_regs s)[7 := byte_val]\<rparr>
      in if byte_val AND 0x1B = 0
         then (let byte_val = (byte_val AND NOT 0x1B) OR 0xC0 in (byte_val, legacy_idle byte_val s))
         else (byte_val, s))"

definition status7_read :: "u8 \<Rightarrow> u16 \<Rightarrow> nand_state \<Rightarrow> u8 \<times> nand_state" where
  "status7_read raw n s =
     (let has_events = (raw AND 0x1B \<noteq> 0);
          idleish = (\<not> has_events \<and> (raw AND 0xC0 \<noteq> 0 \<or> legacy_dirty s ! 7))
      in if legacy_dirty s ! 7 \<and> has_events then
           (let s = (if legacy_status7_event_reads s < 0xFFFF
                     then s\<lparr>legacy_status7_event_reads := legacy_status7_event_reads s + 1\<rparr> else s)
            in if legacy_status7_event_reads s \<ge> 64 then
                 (if \<not> legacy_status7_ff_armed s
                  then (0xFF, s\<lparr>legacy_status7_ff_armed := True, legacy_regs := (legacy_regs s)[7 := 0xC0]\<rparr>)
                  else (0xC0, legacy_idle 0xC0 s))
               else if n = 0 then (raw, s)
               else if n = 1 then status7_second_read raw s
               else (raw, s))
         else if idleish then
           (let byte_val = (raw AND NOT 0x1B) OR 0xC0 in (byte_val, legacy_idle byte_val s))
         else (raw, s\<lparr>legacy_status7_event_reads := 0, legacy_status7_ff_armed := False\<rparr>))"

definition legacy_read_byte :: "u8 \<Rightarrow> nand_state \<Rightarrow> u8 \<times> nand_state" where
  "legacy_read_byte ri s =
     (let k = unat ri;
          raw = legacy_regs s ! k;
          n = legacy_read_since_write s ! k;
          s = (if n < 0xFFFF then s\<lparr>legacy_read_since_write := (legacy_read_since_write s)[k := n + 1]\<rparr> else s);
          (byte_val, s) =
            (if ri \<noteq> 0x07 then
               (raw, if legacy_dirty s ! k then s\<lparr>legacy_dirty := (legacy_dirty s)[k := False]\<rparr> else s)
             else status7_read raw n s)
      in if ri = 0x07 \<and> \<not> legacy_dirty s ! k \<and> \<not> legacy_status7_ff_armed s \<and>
            legacy_regs s ! k AND 0x1B = 0 \<and> legacy_regs s ! k AND 0xC0 = 0
         then (let byte_val = (legacy_regs s ! k AND NOT 0x1B) OR 0xC0
               in (byte_val, s\<lparr>legacy_regs := (legacy_regs s)[k := byte_val]\<rparr>))
         else (byte_val, s))"

fun legacy_read_loop :: "u8 \<Rightarrow> nat \<Rightarrow> nat \<Rightarrow> u64 \<Rightarrow> nand_state \<Rightarrow> u64 \<times> nand_state" where
  "legacy_read_loop idx i 0 val s = (val, s)"
| "legacy_read_loop idx i (Suc n) val s =
     (case legacy_read_byte (idx + of_nat i) s of
        (byte, s) \<Rightarrow> legacy_read_loop idx (Suc i) n (val OR push_bit (8 * i) (ucast byte)) s)"

section \<open>Bus writes\<close>

fun stream_write_loop :: "nat \<Rightarrow> nat \<Rightarrow> u64 \<Rightarrow> nand_state \<Rightarrow> nand_state" where
  "stream_write_loop i 0 value s = s"
| "stream_write_loop i (Suc n) value s =
     (if stream_cursor s \<ge> stream_limit s then s
      else
        let idx = stream_base s + stream_cursor s;
            s = (if idx < 528 then s\<lparr>program_buffer := (program_buffer s)(unat idx := byte_at value i)\<rparr> else s);
            s = (if idx < 528 \<and> idx + 1 > program_length s then s\<lparr>program_length := idx + 1\<rparr> else s)
        in stream_write_loop (Suc i) n value (s\<lparr>stream_cursor := stream_cursor s + 1\<rparr>))"

definition nand_write_stream :: "nat \<Rightarrow> u64 \<Rightarrow> nand_state \<Rightarrow> nand_state" where
  "nand_write_stream sz value s =
     (let mode = xfer_regs s ! XFER_MODE_IDX
      in if (mode = 0x06 \<or> mode = 0x07) \<and> stream_limit s \<noteq> 0 then stream_write_loop 0 sz value s else s)"

definition nand_write_dio :: "nat \<Rightarrow> u64 \<Rightarrow> nand_state \<Rightarrow> nand_state" where
  "nand_write_dio sz value s =
     (let data_byte = ucast (value AND 0xFF);
          s = s\<lparr>dio_last_write := data_byte\<rparr>
      in if dio_mode s AND 0x80 \<noteq> 0 then nand_legacy_command data_byte s
         else if dio_mode s AND 0x01 \<noteq> 0 then
           (case nand_legacy_address data_byte s of
              (complete, s) \<Rightarrow> if complete then s\<lparr>dio_last_write := 0\<rparr> else s)
         else if state s = NAND_STATE_PROGRAM_DATA then nand_program_append value sz s
         else s)"

definition nand_write :: "u32 \<Rightarrow> nat \<Rightarrow> u64 \<Rightarrow> u32 \<Rightarrow> nand_state \<Rightarrow> nand_state" where
  "nand_write offset sz value pc s =
     (if offset \<ge> 0xA000 \<and> offset < 0xA020 then nand_write_ctrl offset value s
      else if offset \<ge> 0xA060 \<and> offset < 0xA160 then nand_write_strap offset sz value s
      else if offset \<ge> 0xA400 \<and> offset < 0xA500 then nand_write_xfer offset value s
      else if offset \<ge> 0xC000 \<and> offset < 0xC100 then nand_write_boot offset value s
      else if offset \<ge> 0xB100 \<and> offset < 0xB110 then s\<lparr>enabled := (value AND 1 \<noteq> 0)\<rparr>
      else if offset \<ge> 0xC170 \<and> offset < 0xC178 \<or> offset = 0xC376 then s
      else if offset = 0xD202 then s\<lparr>dio_mode := ucast (value AND 0xFF)\<rparr>
      else if offset = 0xD200 then nand_write_dio sz value s
      else if offset = 0xAC00 then nand_legacy_command (ucast (value AND 0xFF)) s
      else if offset = 0xAC04 then snd (nand_legacy_address (ucast (value AND 0xFF)) s)
      else if offset = 0xD7F8 then s\<lparr>portctl := ucast (value AND 0xFFFF)\<rparr>
      else if offset = 0xD7FC then nand_write_data pc sz value s
      else if offset \<ge> 0xB000 \<and> offset < 0xB210 then nand_write_stream sz value s
      else s)"

section \<open>Bus reads\<close>

definition nand_read_xfer :: "u32 \<Rightarrow> nat \<Rightarrow> nand_state \<Rightarrow> u64 \<times> nand_state" where
  "nand_read_xfer offset sz s =
     (let idx = unat (drop_bit 2 (offset - 0xA400))
      in if offset = 0xA440 then ((if ready s then 1 else 0), s)
         else if offset = 0xA430 then (0, nand_xfer_commit_phase s)
         else if offset = 0xA420 \<and> xfer_data_pos s < xfer_data_count s then
           (ucast (xfer_data_bytes s ! xfer_data_pos s), s\<lparr>xfer_data_pos := xfer_data_pos s + 1\<rparr>)
         else if offset = 0xA4C0 then (ucast (xfer_regs s ! idx), s)
         else if offset \<ge> 0xA4A0 \<and> offset < 0xA4B0 then
           (let buf_off = unat (offset - 0xA4A0)
            in (lanes sz (\<lambda>i. if buf_off + i < 16 then xfer_buffer s ! (buf_off + i) else 0), s))
         else if idx < 64 then (ucast (xfer_regs s ! idx), s)
         else (0, s))"

definition nand_read_boot :: "u32 \<Rightarrow> nand_state \<Rightarrow> u64" where
  "nand_read_boot offset s =
     (let idx = unat (drop_bit 2 (offset - 0xC000))
      in if offset = 0xC040 then (if boot_ready s then 1 else 0)
         else if idx < 64 then ucast (boot_regs s ! idx) else 0)"

text \<open>The states in which a data port delivers bytes.\<close>

definition is_reading :: "nand_state \<Rightarrow> bool" where
  "is_reading s \<longleftrightarrow> state s = NAND_STATE_READ_DATA \<or> state s = NAND_STATE_READ_OOB \<or> state s = NAND_STATE_READ_ID"

definition nand_read_dio :: "nand_state \<Rightarrow> u64 \<times> nand_state" where
  "nand_read_dio s =
     (if dio_last_write s \<noteq> 0 then (ucast (dio_last_write s), s\<lparr>dio_last_write := 0\<rparr>)
      else if state s = NAND_STATE_READ_STATUS then (ucast (status_value s), s)
      else if is_reading s then
        (if xfer_length s > 0 \<and> img s \<noteq> None \<and> xfer_cursor s < xfer_length s then
           let s' = s\<lparr>xfer_cursor := xfer_cursor s + 1\<rparr>
           in if state s = NAND_STATE_READ_ID then
                ((if xfer_cursor s = 0 then 0xEC else if xfer_cursor s = 1 then 0x73 else 0xFF), s')
              else if state s = NAND_STATE_READ_OOB then
                (ucast (nand_stream_oob_byte s (unat (page_addr s)) (unat (xfer_cursor s))), s')
              else (ucast (nand_image_byte s (page_addr s * 512 + column s + xfer_cursor s)), s')
         else (0xFF, s))
      else (0xFF, s))"

definition nand_read_data :: "nat \<Rightarrow> nand_state \<Rightarrow> u64 \<times> nand_state" where
  "nand_read_data sz s =
     (let idx = ucast (portctl s AND 0xFF);
          data_mode = (sz \<ge> 2 \<and> is_reading s \<and> xfer_length s > 0)
      in if state s = NAND_STATE_READ_STATUS then (ucast (status_value s), s)
         else if data_mode then
           (case img s of
              None \<Rightarrow> (0xFFFF, s)
            | Some im \<Rightarrow>
                if xfer_cursor s \<ge> xfer_length s then (0xFFFF, s)
                else
                  let img_off = nand_offset s + xfer_cursor s;
                      s' = s\<lparr>xfer_cursor := xfer_cursor s + 2\<rparr>
                  in if unat (img_off + 1) < image_size s
                     then (ucast (im (unat img_off)) OR push_bit 8 (ucast (im (unat (img_off + 1)))), s')
                     else if unat img_off < image_size s then (ucast (im (unat img_off)), s')
                     else (0xFFFF, s))
         else legacy_read_loop idx 0 sz 0 s)"

definition nand_read :: "u32 \<Rightarrow> nat \<Rightarrow> u32 \<Rightarrow> nand_state \<Rightarrow> u64 \<times> nand_state" where
  "nand_read offset sz pc s =
     (if offset \<ge> 0xA000 \<and> offset < 0xA020 then
        (let idx = unat (drop_bit 2 (offset - 0xA000))
         in ((if idx < 8 then ucast (ctrl_regs s ! idx) else 0), s))
      else if offset \<ge> 0xA060 \<and> offset < 0xA160 then
        (let rel = unat (offset - 0xA060)
         in (lanes sz (\<lambda>i. if rel + i < 256 then strap_regs s ! (rel + i) else 0), s))
      else if offset \<ge> 0xA400 \<and> offset < 0xA500 then nand_read_xfer offset sz s
      else if offset \<ge> 0xC000 \<and> offset < 0xC100 then (nand_read_boot offset s, s)
      else if offset \<ge> 0xB000 \<and> offset < 0xB210 then
        (if \<not> stream_active s then ((if sz \<ge> 4 then 0xFFFFFFFF else 0xFF), s) else nand_stream_read sz s)
      else if offset = 0xD200 then nand_read_dio s
      else if offset = 0xD202 then (ucast (dio_mode s), s)
      else if offset \<ge> 0xB100 \<and> offset < 0xB110 then ((if enabled s then 1 else 0), s)
      else if offset = 0xAC48 then ((if ready s then 1 else 0), s)
      else if offset = 0xD7F8 then (ucast (portctl s), s)
      else if offset = 0xD7FA then (0x73EC, s)
      else if offset = 0xD7FC then nand_read_data sz s
      else if offset = 0xD7FE then
        (if state s = NAND_STATE_READ_STATUS then (ucast (status_value s), s)
         else
           let norm_pc = pc AND NOT 0x20000000
           in if norm_pc = 0x80F022C4 \<or> norm_pc = 0x80F02324 \<or> norm_pc = 0x80F09E1C then (0, s)
              else ((if ready s then 0x80 else 0), s))
      else if offset \<ge> 0xC170 \<and> offset < 0xC178 \<or> offset = 0xC376 then (lanes sz (\<lambda>i. 0xFF), s)
      else (0, s))"

end
