(* ===== verification/Nand_Safety.thy ===== *)
theory Nand_Safety
  imports Nand
begin

text \<open>
  What the guest can do to the flash. Every bus access is \<open>nand_safe\<close>: it changes the medium at
  most by wear, that is it clears bits or erases one block, never in a factory-bad block and never
  past the chip, and it keeps the program position inside the page buffer. The properties follow
  for every sequence of accesses by the interpretation of the device contract.
\<close>

section \<open>One operation\<close>

definition nand_safe :: "nand_state \<Rightarrow> nand_state \<Rightarrow> bool" where
  "nand_safe s t \<longleftrightarrow> (program_ok s \<longrightarrow> wear s t \<and> program_ok t)"

lemma safe_if: "(c \<Longrightarrow> nand_safe s t) \<Longrightarrow> (\<not> c \<Longrightarrow> nand_safe s u) \<Longrightarrow> nand_safe s (if c then t else u)"
  by simp

lemma safe_keep: "same_medium s t \<Longrightarrow> (program_ok s \<Longrightarrow> program_ok t) \<Longrightarrow> nand_safe s t"
  by (simp add: nand_safe_def same_medium_wear)

lemma safe_same: "same_medium s t \<Longrightarrow> same_program s t \<Longrightarrow> nand_safe s t"
  using same_program_ok [of s t] by (simp add: safe_keep)

lemma safe_after: "same_medium s t \<Longrightarrow> (program_ok s \<Longrightarrow> program_ok t) \<Longrightarrow> nand_safe t u \<Longrightarrow> nand_safe s u"
  using wear_after by (auto simp: nand_safe_def)

lemma safe_then: "nand_safe s t \<Longrightarrow> same_medium t u \<Longrightarrow> same_program t u \<Longrightarrow> nand_safe s u"
  using wear_before same_program_ok [of t u] by (auto simp: nand_safe_def)

lemma safe_harmless: "harmless s t \<Longrightarrow> nand_safe s t"
  using same_program_ok [of s t] by (auto simp: nand_safe_def harmless_def)

lemma program_same: "same_program s (nand_commit_program s)"
  by (auto simp: same_program_def nand_commit_program_def Let_def split: option.splits)

lemma erase_same: "same_program s (nand_commit_erase s)"
  by (auto simp: same_program_def nand_commit_erase_def erase_block_def Let_def)

lemma program_safe: "nand_safe s (nand_commit_program s)"
  by (simp add: nand_safe_def program_wear same_program_ok [OF program_same])

lemma erase_safe: "nand_safe s (nand_commit_erase s)"
  by (simp add: nand_safe_def erase_wear same_program_ok [OF erase_same])

lemma byte_small [simp]: "unat (ucast (b :: u8) :: u32) < 512"
  using unat_lt2p [of b] by simp

lemma byte_small' [simp]: "unat (b :: u8) < 512"
  using unat_lt2p [of b] by simp

lemma column_small: "unat c < 512 \<Longrightarrow> unat ((c AND NOT 0xFF) OR ucast (b :: u8) :: u32) < 512"
proof -
  assume "unat c < 512"
  then have "fits 9 c" by (simp add: fits_def)
  moreover have "fits 9 (ucast b :: u32)" using byte_small [of b] by (simp add: fits_def)
  ultimately have "fits 9 ((c AND NOT 0xFF) OR ucast b)" by (intro fits_or fits_and disjI1)
  then show ?thesis by (simp add: fits_def)
qed

lemmas column_small' [simp] = column_small [simplified]

lemma push_data_fields [simp]:
  "img (nand_xfer_push_data b s) = img s" "oob (nand_xfer_push_data b s) = oob s" "image_size (nand_xfer_push_data b s) = image_size s"
  "program_column (nand_xfer_push_data b s) = program_column s" "program_length (nand_xfer_push_data b s) = program_length s" "column (nand_xfer_push_data b s) = column s"
  by (simp_all add: nand_xfer_push_data_def)

lemma clear_data_fields [simp]:
  "img (nand_xfer_clear_data s) = img s" "oob (nand_xfer_clear_data s) = oob s" "image_size (nand_xfer_clear_data s) = image_size s"
  "program_column (nand_xfer_clear_data s) = program_column s" "program_length (nand_xfer_clear_data s) = program_length s" "column (nand_xfer_clear_data s) = column s"
  by (simp_all add: nand_xfer_clear_data_def)

lemma reset_addr_fields [simp]:
  "img (nand_xfer_reset_addr s) = img s" "oob (nand_xfer_reset_addr s) = oob s" "image_size (nand_xfer_reset_addr s) = image_size s"
  "program_column (nand_xfer_reset_addr s) = program_column s" "program_length (nand_xfer_reset_addr s) = program_length s" "column (nand_xfer_reset_addr s) = column s"
  by (simp_all add: nand_xfer_reset_addr_def)

lemma setup_fields [simp]:
  "img (nand_setup_transfer s) = img s" "oob (nand_setup_transfer s) = oob s" "image_size (nand_setup_transfer s) = image_size s"
  "program_column (nand_setup_transfer s) = program_column s" "program_length (nand_setup_transfer s) = program_length s" "column (nand_setup_transfer s) = column s"
  by (simp_all add: nand_setup_transfer_def Let_def split: nand_cmd_state.splits)

lemmas prepare_defs = nand_xfer_prepare_status_def nand_xfer_prepare_readid_def

lemma latch_fields [simp]:
  "img (nand_xfer_latch_addr_state s) = img s" "oob (nand_xfer_latch_addr_state s) = oob s"
  "image_size (nand_xfer_latch_addr_state s) = image_size s"
  "program_column (nand_xfer_latch_addr_state s) = program_column s"
  "program_length (nand_xfer_latch_addr_state s) = program_length s"
  "unat (column s) < 512 \<Longrightarrow> unat (column (nand_xfer_latch_addr_state s)) < 512"
  by (simp_all add: nand_xfer_latch_addr_state_def nand_xfer_col_addr_def)

lemmas frame_simps = same_medium_def same_program_def program_ok_def

lemma xfer_command_safe: "nand_safe s (xfer_command c s)"
proof -
  let ?c = "s\<lparr>xfer_last_cmd := c\<rparr>"
  have prog: "nand_safe s (nand_xfer_prepare_status
      ((if b then nand_commit_program (?c\<lparr>status_value := v\<rparr>) else ?c\<lparr>status_value := v\<rparr>)
        \<lparr>state := NAND_STATE_IDLE, ready := True\<rparr>))" for b v
  proof -
    have "nand_safe s (if b then nand_commit_program (?c\<lparr>status_value := v\<rparr>) else ?c\<lparr>status_value := v\<rparr>)"
      by (intro safe_if safe_after [OF _ _ program_safe] safe_same) (simp_all add: frame_simps)
    then show ?thesis by (rule safe_then) (simp_all add: frame_simps prepare_defs)
  qed
  have erase: "nand_safe s (nand_xfer_prepare_status
      ((if b then nand_commit_erase (?c\<lparr>status_value := v, page_addr := a\<rparr>) else ?c\<lparr>status_value := v\<rparr>)
        \<lparr>state := NAND_STATE_IDLE, ready := True\<rparr>))" for b v a
  proof -
    have "nand_safe s (if b then nand_commit_erase (?c\<lparr>status_value := v, page_addr := a\<rparr>) else ?c\<lparr>status_value := v\<rparr>)"
      by (intro safe_if safe_after [OF _ _ erase_safe] safe_same) (simp_all add: frame_simps)
    then show ?thesis by (rule safe_then) (simp_all add: frame_simps prepare_defs)
  qed
  show ?thesis unfolding xfer_command_def Let_def
    by (intro safe_if prog erase; rule safe_keep; simp add: frame_simps prepare_defs)
qed

lemma commit_phase_safe: "nand_safe s (nand_xfer_commit_phase s)"
  unfolding nand_xfer_commit_phase_def
proof (intro safe_if xfer_command_safe)
  show "nand_safe s (xfer_addressed s)"
    by (rule safe_keep) (simp_all add: xfer_addressed_def frame_simps nand_xfer_col_addr_def prepare_defs Let_def)
qed (rule safe_same; simp add: frame_simps)

lemma legacy_command_safe: "nand_safe s (nand_legacy_command c s)"
proof -
  let ?c = "s\<lparr>last_cmd := c, addr_cycle := 0, xfer_cursor := 0, ready := False\<rparr>"
  have prog: "nand_safe s ((if b then nand_commit_program (?c\<lparr>status_value := v\<rparr>) else ?c\<lparr>status_value := v\<rparr>)
        \<lparr>state := NAND_STATE_IDLE, ready := True\<rparr>)" for b v
  proof -
    have "nand_safe s (if b then nand_commit_program (?c\<lparr>status_value := v\<rparr>) else ?c\<lparr>status_value := v\<rparr>)"
      by (intro safe_if safe_after [OF _ _ program_safe] safe_same) (simp_all add: frame_simps)
    then show ?thesis by (rule safe_then) (simp_all add: frame_simps prepare_defs)
  qed
  have erase: "nand_safe s ((if b then nand_commit_erase (?c\<lparr>status_value := v\<rparr>) else ?c\<lparr>status_value := v\<rparr>)
        \<lparr>state := NAND_STATE_IDLE, ready := True\<rparr>)" for b v
  proof -
    have "nand_safe s (if b then nand_commit_erase (?c\<lparr>status_value := v\<rparr>) else ?c\<lparr>status_value := v\<rparr>)"
      by (intro safe_if safe_after [OF _ _ erase_safe] safe_same) (simp_all add: frame_simps)
    then show ?thesis by (rule safe_then) (simp_all add: frame_simps prepare_defs)
  qed
  show ?thesis unfolding nand_legacy_command_def Let_def
    by (intro safe_if prog erase; rule safe_keep; simp add: frame_simps)
qed

lemma legacy_address_safe: "nand_safe s (snd (nand_legacy_address b s))"
  by (rule safe_keep)
    (simp_all add: nand_legacy_address_def frame_simps column_small Let_def)

lemma program_append_safe: "nand_safe s (program_append_loop i n v s)"
proof (induction i n v s rule: program_append_loop.induct)
  case (1 i v s)
  then show ?case by (simp add: safe_same frame_simps)
next
  case (2 i n v s)
  show ?case
  proof (cases "program_column s + program_length s \<ge> 528")
    case True
    then show ?thesis by (simp add: safe_same frame_simps)
  next
    case False
    let ?t = "s\<lparr>program_buffer := (program_buffer s)(unat (program_length s) := byte_at v i),
        program_length := program_length s + 1\<rparr>"
    have "program_ok ?t" if "program_ok s"
    proof -
      have "unat (program_column s + program_length s) = unat (program_column s) + unat (program_length s)"
        using that by (intro unat_add_lem [THEN iffD1]) (simp add: program_ok_def)
      then have "unat (program_length s) < 528" using False by (simp add: not_le word_less_nat_alt)
      moreover from this have "unat (program_length s + 1) = unat (program_length s) + 1"
        by (simp add: unat_word_ariths)
      ultimately show ?thesis using that by (simp add: program_ok_def)
    qed
    then have "nand_safe s (program_append_loop (Suc i) n v ?t)"
      using 2 False by (intro safe_after [of s ?t]) (simp_all add: same_medium_def)
    then show ?thesis using False by simp
  qed
qed

lemma stream_write_safe: "nand_safe s (stream_write_loop i n v s)"
proof (induction i n v s rule: stream_write_loop.induct)
  case (1 i v s)
  then show ?case by (simp add: safe_same frame_simps)
next
  case (2 i n v s)
  show ?case
  proof (cases "stream_cursor s \<ge> stream_limit s")
    case True
    then show ?thesis by (simp add: safe_same frame_simps)
  next
    case False
    let ?idx = "stream_base s + stream_cursor s"
    let ?a = "if ?idx < 528 then s\<lparr>program_buffer := (program_buffer s)(unat ?idx := byte_at v i)\<rparr> else s"
    let ?b = "if ?idx < 528 \<and> ?idx + 1 > program_length ?a then ?a\<lparr>program_length := ?idx + 1\<rparr> else ?a"
    let ?t = "?b\<lparr>stream_cursor := stream_cursor ?b + 1\<rparr>"
    have "unat (?idx + 1) \<le> 528" if "?idx < 528"
      using that by (simp add: word_less_nat_alt unat_word_ariths)
    then have ok: "program_ok ?t" if "program_ok s" using that by (simp add: program_ok_def)
    have "nand_safe s (stream_write_loop (Suc i) n v ?t)"
      by (rule safe_after [of s ?t]) (use ok 2 [OF False refl refl refl] in \<open>simp_all add: same_medium_def\<close>)
    then show ?thesis using False by (simp only: stream_write_loop.simps Let_def if_False)
  qed
qed


lemma boot_reset_fields [simp]:
  "img (nand_boot_reset s) = img s" "oob (nand_boot_reset s) = oob s" "image_size (nand_boot_reset s) = image_size s"
  "program_column (nand_boot_reset s) = program_column s" "program_length (nand_boot_reset s) = program_length s"
  "column (nand_boot_reset s) = column s"
  by (simp_all add: nand_boot_reset_def)

lemma write_boot_safe: "nand_safe s (nand_write_boot off v s)"
  by (rule safe_same) (simp_all add: nand_write_boot_def boot_set_mode_def nand_boot_start_stream_def
      nand_boot_latch_addr_def nand_boot_finish_ecc_input_def frame_simps Let_def)

lemma xfer_set_mode_safe: "nand_safe s (xfer_set_mode m s)"
  by (rule safe_keep) (simp_all add: xfer_set_mode_def xfer_open_stream_def frame_simps Let_def)

lemma xfer_address_safe: "nand_safe s (xfer_address b s)"
  by (rule safe_keep) (simp_all add: xfer_address_def frame_simps Let_def)

lemma ecc_fields [simp]:
  "img (nand_physical_ecc s) = img s" "oob (nand_physical_ecc s) = oob s"
  "image_size (nand_physical_ecc s) = image_size s"
  "program_column (nand_physical_ecc s) = program_column s" "program_length (nand_physical_ecc s) = program_length s"
  "column (nand_physical_ecc s) = column s"
  by (simp_all add: nand_physical_ecc_def Let_def split: option.splits)

lemma xfer_ecc_input_safe: "nand_safe s (xfer_ecc_input v s)"
  by (rule safe_same) (simp_all add: xfer_ecc_input_def frame_simps Let_def)

lemma write_xfer_safe: "nand_safe s (nand_write_xfer off v s)"
proof -
  let ?r = "if unat (drop_bit 2 (off - 0xA400)) < 64
    then s\<lparr>xfer_regs := (xfer_regs s)[unat (drop_bit 2 (off - 0xA400)) := ucast v]\<rparr> else s"
  have after: "nand_safe ?r t \<Longrightarrow> nand_safe s t" for t
    by (rule safe_after [of s ?r]) (simp_all add: frame_simps)
  have pend: "nand_safe s (xfer_address b (?r\<lparr>xfer_pending_byte := b\<rparr>))" for b
    by (rule safe_after [OF _ _ xfer_address_safe]) (simp_all add: frame_simps)
  show ?thesis unfolding nand_write_xfer_def Let_def
    by (intro safe_if pend after [OF commit_phase_safe] after [OF xfer_set_mode_safe] after [OF xfer_ecc_input_safe];
      rule safe_same; simp add: frame_simps)
qed

lemma legacy_write_fields [simp]:
  "img (legacy_write_byte pc ri b s) = img s" "oob (legacy_write_byte pc ri b s) = oob s"
  "image_size (legacy_write_byte pc ri b s) = image_size s"
  "program_column (legacy_write_byte pc ri b s) = program_column s"
  "program_length (legacy_write_byte pc ri b s) = program_length s" "column (legacy_write_byte pc ri b s) = column s"
  by (simp_all add: legacy_write_byte_def Let_def)

lemma legacy_writes_frame:
  "same_medium s (fold (\<lambda>i. legacy_write_byte pc (f i) (g i)) is s) \<and>
   same_program s (fold (\<lambda>i. legacy_write_byte pc (f i) (g i)) is s)"
  by (induction "is" arbitrary: s) (simp_all add: frame_simps)

lemma write_data_safe: "nand_safe s (nand_write_data pc n v s)"
  unfolding nand_write_data_def nand_program_append_def Let_def
  by (intro safe_if program_append_safe safe_same) (simp_all add: legacy_writes_frame)

lemma write_stream_safe: "nand_safe s (nand_write_stream n v s)"
  unfolding nand_write_stream_def Let_def
  by (intro safe_if stream_write_safe safe_same) (simp_all add: frame_simps)

lemma write_dio_safe: "nand_safe s (nand_write_dio n v s)"
proof -
  let ?d = "\<lambda>b. s\<lparr>dio_last_write := b\<rparr>"
  have after: "nand_safe (?d b) t \<Longrightarrow> nand_safe s t" for t b
    by (rule safe_after [of s "?d b"]) (simp_all add: frame_simps)
  have addr: "nand_safe s (case nand_legacy_address b (?d b') of
      (complete, s) \<Rightarrow> if complete then s\<lparr>dio_last_write := 0\<rparr> else s)" for b b'
  proof -
    have "nand_safe s (snd (nand_legacy_address b (?d b')))" by (rule after [OF legacy_address_safe])
    then show ?thesis by (rule safe_then) (simp_all add: frame_simps split: prod.splits)
  qed
  show ?thesis unfolding nand_write_dio_def nand_program_append_def Let_def
    by (intro safe_if addr after [OF legacy_command_safe] after [OF program_append_safe]; rule safe_same; simp add: frame_simps)
qed

lemma nand_write_safe: "nand_safe s (nand_write off n v pc s)"
  unfolding nand_write_def
  by (intro safe_if write_xfer_safe write_boot_safe write_dio_safe legacy_command_safe legacy_address_safe
      write_data_safe write_stream_safe; rule safe_same; simp add: frame_simps nand_write_ctrl_def nand_write_strap_def Let_def)

definition untouched :: "nand_state \<Rightarrow> nand_state \<Rightarrow> bool" where
  "untouched s t \<longleftrightarrow> same_medium s t \<and> same_program s t"

lemma untouched_trans: "untouched s t \<Longrightarrow> untouched t u \<Longrightarrow> untouched s u"
  by (simp add: untouched_def frame_simps)

lemma untouched_snd_if:
  "(c \<Longrightarrow> untouched s (snd x)) \<Longrightarrow> (\<not> c \<Longrightarrow> untouched s (snd y)) \<Longrightarrow> untouched s (snd (if c then x else y))"
  by simp

lemma legacy_idle_frame: "untouched s (legacy_idle b s)"
  by (simp add: legacy_idle_def untouched_def frame_simps)

lemma second_read_frame: "untouched s (snd (status7_second_read raw s))"
  by (simp add: status7_second_read_def legacy_idle_def untouched_def frame_simps Let_def)

lemma status7_frame: "untouched s (snd (status7_read raw n s))"
proof -
  let ?t = "if legacy_status7_event_reads s < 0xFFFF
    then s\<lparr>legacy_status7_event_reads := legacy_status7_event_reads s + 1\<rparr> else s"
  have t: "untouched s ?t" by (simp add: untouched_def frame_simps)
  have more: "untouched t (t\<lparr>legacy_status7_ff_armed := b, legacy_regs := r\<rparr>)"
    "untouched t (t\<lparr>legacy_status7_event_reads := m, legacy_status7_ff_armed := b\<rparr>)" for t b r m
    by (simp_all add: untouched_def frame_simps)
  note keep = untouched_trans [OF t second_read_frame] untouched_trans [OF t legacy_idle_frame]
    legacy_idle_frame untouched_trans [OF t more(1)] more t
  show ?thesis unfolding status7_read_def Let_def
    by (intro untouched_snd_if; (simp only: snd_conv)?; rule keep)
qed

lemma legacy_read_frame: "untouched s (snd (legacy_read_byte ri s))"
proof -
  let ?n = "legacy_read_since_write s ! unat ri"
  let ?s1 = "if ?n < 0xFFFF then s\<lparr>legacy_read_since_write := (legacy_read_since_write s)[unat ri := ?n + 1]\<rparr> else s"
  have s1: "untouched s ?s1" by (simp add: untouched_def frame_simps)
  let ?r = "if ri \<noteq> 0x07 then (legacy_regs s ! unat ri,
      if legacy_dirty ?s1 ! unat ri then ?s1\<lparr>legacy_dirty := (legacy_dirty ?s1)[unat ri := False]\<rparr> else ?s1)
    else status7_read (legacy_regs s ! unat ri) ?n ?s1"
  have dirty: "untouched t (if c then t\<lparr>legacy_dirty := d\<rparr> else t)" for t c d
    by (simp add: untouched_def frame_simps)
  have r: "untouched s (snd ?r)"
    by (intro untouched_snd_if; (simp only: snd_conv)?; rule untouched_trans [OF s1 dirty] untouched_trans [OF s1 status7_frame])
  have fin: "untouched t (t\<lparr>legacy_regs := x\<rparr>)" for t x
    by (simp add: untouched_def frame_simps)
  obtain b t where bt: "?r = (b, t)" by (cases ?r)
  then have t: "untouched s t" using r by simp
  show ?thesis unfolding legacy_read_byte_def Let_def bt prod.case
    by (intro untouched_snd_if; (simp only: snd_conv); rule t untouched_trans [OF t fin])
qed

lemma legacy_reads_frame: "untouched s (snd (legacy_read_loop idx i n v s))"
proof (induction idx i n v s rule: legacy_read_loop.induct)
  case (1 idx i v s)
  then show ?case by (simp add: untouched_def frame_simps)
next
  case (2 idx i n v s)
  obtain b t where bt: "legacy_read_byte (idx + of_nat i) s = (b, t)" by (cases "legacy_read_byte (idx + of_nat i) s")
  then have "untouched s t" using legacy_read_frame [of s "idx + of_nat i"] by simp
  from untouched_trans [OF this 2 [OF bt [symmetric]]] show ?case by (simp add: bt)
qed

lemma safe_snd_if:
  "(c \<Longrightarrow> nand_safe s (snd a)) \<Longrightarrow> (\<not> c \<Longrightarrow> nand_safe s (snd b)) \<Longrightarrow> nand_safe s (snd (if c then a else b))"
  by simp

lemma read_data_safe: "nand_safe s (snd (nand_read_data n s))"
  unfolding nand_read_data_def Let_def
  by (intro safe_snd_if; (rule safe_same; simp add: frame_simps
    legacy_reads_frame [unfolded untouched_def frame_simps] split: option.splits))

lemma nand_read_safe: "nand_safe s (snd (nand_read off n pc s))"
  unfolding nand_read_def nand_read_xfer_def nand_read_dio_def Let_def
  by (intro safe_snd_if read_data_safe;
    (simp only: snd_conv; rule commit_phase_safe | rule safe_same; simp add: frame_simps nand_stream_read_def))


section \<open>Every sequence of accesses\<close>

datatype nand_access =
  Bus_write u32 nat u64 u32 | Bus_read u32 nat u32 | Stream_dma nat | Dma_state
| Restore_write u32 nat u64 | Restore_read u32 nat

fun nand_step :: "nand_access \<Rightarrow> nand_state \<Rightarrow> nand_state" where
  "nand_step (Bus_write off sz v pc) s = nand_write off sz v pc s"
| "nand_step (Bus_read off sz pc) s = snd (nand_read off sz pc s)"
| "nand_step (Stream_dma n) s = snd (nand_stream_read_dma n s)"
| "nand_step Dma_state s = nand_dma_state_written s"
| "nand_step (Restore_write off sz v) s = nand_restore_write off sz v s"
| "nand_step (Restore_read off sz) s = snd (nand_restore_read off sz s)"

lemma nand_step_safe: "nand_safe s (nand_step e s)"
proof (cases e)
  case (Restore_read off sz)
  then show ?thesis using restore_read_frame [of s off sz] by (simp add: safe_same)
qed (simp_all add: nand_write_safe nand_read_safe safe_harmless restore_write_harmless safe_same frame_simps
    nand_stream_read_dma_def nand_dma_state_written_def)

interpretation nand: device nand_step program_ok
  using nand_step_safe by unfold_locales (simp add: nand_safe_def)

lemma nand_init_ok: "program_ok (nand_init im n m)"
  by (simp add: program_ok_def nand_init_def nand_restore_seed_regs_def)

text \<open>A physical chip: an image and a spare array, as the machine attaches them.\<close>

definition attach_oob :: "(nat \<Rightarrow> u8) \<Rightarrow> nand_state \<Rightarrow> nand_state" where
  "attach_oob o' s = s\<lparr>oob := Some o'\<rparr>"

lemma attach_ok: "program_ok (attach_oob o' (nand_init im n m))"
  using nand_init_ok [of im n m] by (simp add: attach_oob_def program_ok_def)

lemma frozen_run:
  assumes "program_ok s" and "nand_physical_bad s b"
  shows "nand_physical_bad (fold nand_step es s) b \<and>
    (\<forall>k. k div 16384 = b \<longrightarrow> map_option (\<lambda>m. m k) (img (fold nand_step es s)) = map_option (\<lambda>m. m k) (img s)) \<and>
    (\<forall>k. k div 512 = b \<longrightarrow> map_option (\<lambda>m. m k) (oob (fold nand_step es s)) = map_option (\<lambda>m. m k) (oob s))"
  using assms
proof (induction es arbitrary: s)
  case Nil
  then show ?case by simp
next
  case (Cons e es)
  have step: "wear s (nand_step e s)" "program_ok (nand_step e s)"
    using nand_step_safe [of s e] Cons.prems(1) by (simp_all add: nand_safe_def)
  note now = wear_frozen [OF step(1) Cons.prems(2)]
  from Cons.IH [OF step(2) now(1)] now show ?case by simp
qed

text \<open>C16: A factory-bad block is never touched. Whatever the guest writes to and reads from the
  controller's registers, ports, streams and restore window, no data or spare byte of a block with
  a bad mark ever changes, and the block stays marked.\<close>

theorem nand_bad_block_frozen:
  assumes "s = attach_oob o' (nand_init (Some im) n m)" and "nand_physical_bad s b"
  shows "let t = fold nand_step es s in nand_physical_bad t b \<and>
    (\<forall>k. k div 16384 = b \<longrightarrow> map_option (\<lambda>m. m k) (img t) = Some (im k)) \<and>
    (\<forall>k. k div 512 = b \<longrightarrow> map_option (\<lambda>m. m k) (oob t) = Some (o' k))"
proof -
  have "img s = Some im" "oob s = Some o'"
    using assms(1) by (simp_all add: attach_oob_def nand_init_def nand_restore_seed_regs_def)
  moreover have "program_ok s" using assms(1) attach_ok by simp
  ultimately show ?thesis using frozen_run [of s b es] assms(2) by (simp add: Let_def)
qed

theorem nand_bad_block_frozen_witness:
  "let t = fold nand_step
       [Bus_write 0xAC00 1 0x60 0, Bus_write 0xAC04 1 0 0, Bus_write 0xAC04 1 96 0, Bus_write 0xAC00 1 0xD0 0]
       (attach_oob (\<lambda>_. 0) (nand_init (Some (\<lambda>_. 0x5A)) 0x1000000 0x1000000))
   in nand_physical_bad t 3 \<and> map_option (\<lambda>m. m 49157) (img t) = Some 0x5A"
proof -
  let ?s = "attach_oob (\<lambda>_. 0) (nand_init (Some (\<lambda>_. 0x5A)) 0x1000000 0x1000000)"
  have "nand_physical_bad ?s 3"
    by (auto simp: nand_physical_bad_def attach_oob_def)
  from nand_bad_block_frozen [OF refl this] have "let t = fold nand_step es ?s in
      nand_physical_bad t 3 \<and> map_option (\<lambda>m. m 49157) (img t) = Some 0x5A" for es
    unfolding Let_def by simp
  then show ?thesis .
qed

text \<open>C17: Flash physics hold. In any reachable state one access changes an image byte only in a
  block that is not factory-bad, inside the 16 MiB of the chip, and only by clearing bits, unless
  it erases the byte's whole block to 0xFF. No access writes outside the image.\<close>

theorem nand_image_wears:
  "let s = fold nand_step es (attach_oob o' (nand_init (Some im) n m)) in
   \<exists>a b. img s = Some a \<and> img (nand_step e s) = Some b \<and>
    (\<forall>k. b k = a k \<or> k < 0x1000000 \<and> \<not> nand_physical_bad s (k div 16384) \<and>
       (b k AND a k = b k \<or> {j. j div 16384 = k div 16384} \<subseteq> {j. b j = 0xFF}))"
proof -
  define s where "s = fold nand_step es (attach_oob o' (nand_init (Some im) n m))"
  have "img (fold nand_step es s) \<noteq> None" if "img s \<noteq> None" "program_ok s" for es s
    using that
  proof (induction es arbitrary: s)
    case (Cons e es)
    have "wear s (nand_step e s)" "program_ok (nand_step e s)"
      using nand_step_safe [of s e] Cons.prems(2) by (simp_all add: nand_safe_def)
    moreover from this Cons.prems(1) have "img (nand_step e s) \<noteq> None"
      by (cases "img s"; cases "img (nand_step e s)") (simp_all add: wear_def)
    ultimately show ?case using Cons.IH by simp
  qed simp
  moreover have "img (attach_oob o' (nand_init (Some im) n m)) \<noteq> None"
    by (simp add: attach_oob_def nand_init_def nand_restore_seed_regs_def)
  ultimately obtain a where a: "img s = Some a" using attach_ok unfolding s_def by blast
  have "program_ok s" unfolding s_def by (rule nand.run_inv [OF attach_ok])
  then have w: "wear s (nand_step e s)" using nand_step_safe [of s e] by (simp add: nand_safe_def)
  with a obtain b where b: "img (nand_step e s) = Some b"
    by (cases "img (nand_step e s)") (simp_all add: wear_def)
  have "\<exists>a b. img s = Some a \<and> img (nand_step e s) = Some b \<and>
    (\<forall>k. b k = a k \<or> k < 0x1000000 \<and> \<not> nand_physical_bad s (k div 16384) \<and>
       (b k AND a k = b k \<or> {j. j div 16384 = k div 16384} \<subseteq> {j. b j = 0xFF}))"
    using w a b by (simp add: wear_def array_wear_def subset_iff)
  then show ?thesis unfolding s_def Let_def .
qed

end
