(* ===== verification/Nand_Protocol.thy ===== *)
theory Nand_Protocol
  imports Nand_Safety
begin

text \<open>
  Drivers of the NAND controller. The register sequences that the loader and nanddisk.dll use to
  program and to read a page are written as runs of bus accesses, in any division of the data
  window into reads and writes of up to eight bytes; the lemmas compute what they do, and the
  properties state the round trip, the end of a burst, and what the error correction reports.
\<close>

section \<open>Data in chunks\<close>

text \<open>A chunk is a size and the value on the bus; its bytes are the low ones of the value.\<close>

type_synonym chunk = "nat \<times> u64"

definition chunk_bytes :: "chunk \<Rightarrow> u8 list" where
  "chunk_bytes c = map (byte_at (snd c)) [0..<fst c]"

definition overlay :: "(nat \<Rightarrow> u8) \<Rightarrow> nat \<Rightarrow> u8 list \<Rightarrow> nat \<Rightarrow> u8" where
  "overlay buf pos xs = (\<lambda>k. if pos \<le> k \<and> k < pos + length xs then xs ! (k - pos) else buf k)"

lemma overlay_nil [simp]: "overlay buf pos [] = buf"
  by (rule ext) (auto simp: overlay_def)

lemma overlay_append: "overlay (overlay buf pos xs) (pos + length xs) ys = overlay buf pos (xs @ ys)"
  by (auto simp: overlay_def fun_eq_iff nth_append)

lemma overlay_one: "buf(pos := x) = overlay buf pos [x]"
  by (auto simp: overlay_def fun_eq_iff)

definition window_ok :: "nand_state \<Rightarrow> nat \<Rightarrow> bool" where
  "window_ok s n \<longleftrightarrow> unat (stream_cursor s) + n \<le> unat (stream_limit s) \<and>
     unat (stream_base s) + unat (stream_limit s) \<le> 528"

text \<open>The state after \<open>xs\<close> have gone through the write window.\<close>

definition filled :: "u8 list \<Rightarrow> nand_state \<Rightarrow> nand_state" where
  "filled xs s =
     s\<lparr>program_buffer := overlay (program_buffer s) (unat (stream_base s) + unat (stream_cursor s)) xs,
       program_length := (if xs = [] then program_length s
         else max (program_length s) (stream_base s + stream_cursor s + of_nat (length xs))),
       stream_cursor := stream_cursor s + of_nat (length xs)\<rparr>"

lemma filled_nil [simp]: "filled [] s = s"
  by (simp add: filled_def)

lemma unat_window:
  assumes "window_ok s n" and "m \<le> n"
  shows "unat (stream_cursor s + of_nat m) = unat (stream_cursor s) + m"
    and "unat (stream_base s + stream_cursor s + of_nat m) = unat (stream_base s) + unat (stream_cursor s) + m"
    and "unat (stream_base s + stream_cursor s) = unat (stream_base s) + unat (stream_cursor s)"
proof -
  have m: "unat (of_nat m :: u32) = m" using assms by (simp add: window_ok_def unat_of_nat)
  show "unat (stream_cursor s + of_nat m) = unat (stream_cursor s) + m"
    and "unat (stream_base s + stream_cursor s + of_nat m) = unat (stream_base s) + unat (stream_cursor s) + m"
    and "unat (stream_base s + stream_cursor s) = unat (stream_base s) + unat (stream_cursor s)"
    using assms m by (simp_all add: window_ok_def unat_word_ariths mod_add_eq)
qed

lemma filled_append:
  assumes "window_ok s (length xs + length ys)"
  shows "filled ys (filled xs s) = filled (xs @ ys) s"
proof -
  note u = unat_window [OF assms, of "length xs"] 
  have pos: "unat (stream_base s) + unat (stream_cursor s + of_nat (length xs)) =
      unat (stream_base s) + unat (stream_cursor s) + length xs" using u by simp
  have "max (max p (b + c + of_nat (length xs))) (b + (c + of_nat (length xs)) + of_nat (length ys)) =
      max p (b + c + of_nat (length xs + length ys))"
    if "b = stream_base s" "c = stream_cursor s" for p b c :: u32
  proof -
    have "b + c + of_nat (length xs) \<le> b + c + of_nat (length xs + length ys)"
      using unat_window(2) [OF assms, of "length xs"] unat_window(2) [OF assms, of "length xs + length ys"] that
      by (simp add: word_le_nat_alt)
    then show ?thesis by (simp add: max.assoc add.assoc max_absorb2)
  qed
  from this [OF refl refl, of "program_length s"] show ?thesis
    using pos overlay_append [of "program_buffer s" "unat (stream_base s) + unat (stream_cursor s)" xs ys]
    by (cases xs; cases ys) (simp_all add: filled_def add.assoc)
qed

lemma stream_write_filled:
  "window_ok s n \<Longrightarrow> stream_write_loop i n v s = filled (map (byte_at v) [i..<i + n]) s"
proof (induction n arbitrary: i s)
  case 0
  then show ?case by simp
next
  case (Suc n)
  note u = unat_window [OF Suc.prems, of 0] unat_window [OF Suc.prems, of 1]
  have open': "\<not> stream_cursor s \<ge> stream_limit s" and idx: "stream_base s + stream_cursor s < 528"
    using Suc.prems u by (simp_all add: window_ok_def word_le_nat_alt word_less_nat_alt)
  have "window_ok s 1" using Suc.prems by (simp add: window_ok_def)
  have one: "stream_write_loop i (Suc n) v s = stream_write_loop (Suc i) n v (filled [byte_at v i] s)"
    using open' idx u by (simp add: Let_def filled_def overlay_one max_def not_less add.assoc)
  have "window_ok (filled [byte_at v i] s) n" using Suc.prems u by (simp add: window_ok_def filled_def)
  from Suc.IH [OF this] have "stream_write_loop i (Suc n) v s =
      filled (map (byte_at v) [Suc i..<Suc i + n]) (filled [byte_at v i] s)" unfolding one .
  also have "\<dots> = filled ([byte_at v i] @ map (byte_at v) [Suc i..<Suc i + n]) s"
    by (rule filled_append) (use Suc.prems in \<open>simp only: length_map length_upt list.size(3,4) add_diff_cancel_left' diff_Suc_Suc add_Suc add_0 One_nat_def\<close>)
  also have "[byte_at v i] @ map (byte_at v) [Suc i..<Suc i + n] = map (byte_at v) [i..<i + Suc n]"
    using upt_conv_Cons [of i "i + Suc n"] by (simp only: add_Suc_right add_Suc list.map append_Cons append_Nil)
  finally show ?case .
qed

definition put_chunks :: "chunk list \<Rightarrow> nand_state \<Rightarrow> nand_state" where
  "put_chunks cs = fold (\<lambda>c. nand_write 0xB000 (fst c) (snd c) 0) cs"

lemma put_chunks_filled:
  assumes "window_ok s (length (concat (map chunk_bytes cs)))" and "stream_limit s \<noteq> 0"
    and "xfer_regs s ! 25 = 0x06 \<or> xfer_regs s ! 25 = 0x07"
  shows "put_chunks cs s = filled (concat (map chunk_bytes cs)) s"
  using assms
proof (induction cs arbitrary: s)
  case Nil
  then show ?case by (simp add: put_chunks_def)
next
  case (Cons c cs)
  have n: "length (chunk_bytes c) = fst c" by (simp add: chunk_bytes_def)
  then have w: "window_ok s (fst c)" using Cons.prems(1) by (simp add: window_ok_def)
  have "nand_write 0xB000 (fst c) (snd c) 0 s = filled (chunk_bytes c) s"
    using Cons.prems(2,3) stream_write_filled [OF w, of 0 "snd c"]
    by (simp add: nand_write_def nand_write_stream_def chunk_bytes_def)
  moreover have "window_ok (filled (chunk_bytes c) s) (length (concat (map chunk_bytes cs)))"
    using Cons.prems(1) unat_window(1) [OF w order_refl] n by (simp add: window_ok_def filled_def)
  then have "put_chunks cs (filled (chunk_bytes c) s) = filled (concat (map chunk_bytes cs)) (filled (chunk_bytes c) s)"
    using Cons.prems(2,3) by (intro Cons.IH) (simp_all add: filled_def)
  ultimately show ?case using Cons.prems(1) by (simp add: put_chunks_def filled_append)
qed


section \<open>Programming a page\<close>

definition xfer_cmd :: "u8 \<Rightarrow> nand_state \<Rightarrow> nand_state" where
  "xfer_cmd c s = nand_write 0xA430 4 0 0 (nand_write 0xA420 4 (ucast c) 0 (nand_write 0xA414 4 3 0 s))"

definition xfer_row :: "u16 \<Rightarrow> nand_state \<Rightarrow> nand_state" where
  "xfer_row page s =
     nand_write 0xA430 4 0 0 (nand_write 0xA420 4 (ucast (drop_bit 8 page)) 0
       (nand_write 0xA420 4 (ucast (page AND 0xFF)) 0 (nand_write 0xA420 4 0 0 (nand_write 0xA414 4 6 0 s))))"

definition program_page :: "u16 \<Rightarrow> chunk list \<Rightarrow> chunk list \<Rightarrow> nand_state \<Rightarrow> nand_state" where
  "program_page page main tail s =
     xfer_cmd 0x10 (put_chunks tail (nand_write 0xA464 4 6 0
       (put_chunks main (nand_write 0xA464 4 7 0 (xfer_row page (xfer_cmd 0x80 s))))))"

text \<open>The engine's register files have their sizes in every reachable state.\<close>

definition regs_sized :: "nand_state \<Rightarrow> bool" where
  "regs_sized s \<longleftrightarrow> length (xfer_regs s) = 64 \<and> length (xfer_addr_bytes s) = 4"

lemma low_byte: "(ucast (ucast (b :: u8) AND 0xFF :: u64) :: u8) = b"
  by (rule bit_eqI) (simp add: bit_simps mask_lits(10))

lemma row_bytes:
  "(ucast (ucast (page AND 0xFF :: u16) AND 0xFF :: u64) :: u8) = ucast page"
  "(ucast (ucast (drop_bit 8 page :: u16) AND 0xFF :: u64) :: u8) = ucast (drop_bit 8 page)"
  "(ucast (ucast page :: u8) :: u32) OR push_bit 8 (ucast (ucast (drop_bit 8 page) :: u8)) = ucast page"
  unfolding mask_lits by (rule bit_eqI; auto simp: bit_simps dest: bit_imp_le_length)+

lemma third_byte: "length xs = 4 \<Longrightarrow> xs[0 := a, Suc 0 := b, Suc (Suc 0) := c] ! 2 = c"
proof -
  have "(2 :: nat) = Suc (Suc 0)" by simp
  then show "length xs = 4 \<Longrightarrow> ?thesis" by (simp only: nth_list_update_eq length_list_update)
qed

lemma xfer_seqin_fields:
  assumes "regs_sized s"
  shows "let t = nand_write 0xA464 4 7 0 (xfer_row page (xfer_cmd 0x80 s)) in
    state t = NAND_STATE_PROGRAM_DATA \<and> page_addr t = ucast page \<and> program_column t = 0 \<and>
    program_length t = 0 \<and> program_buffer t = (\<lambda>_. 0xFF) \<and> stream_base t = 0 \<and> stream_cursor t = 0 \<and>
    stream_limit t = 520 \<and> xfer_regs t ! 25 = 7 \<and> regs_sized t \<and>
    img t = img s \<and> oob t = oob s \<and> image_size t = image_size s \<and> burst_520 t = burst_520 s"
  using assms
  by (simp add: xfer_row_def xfer_cmd_def nand_write_def nand_write_xfer_def xfer_address_def xfer_command_def
      nand_xfer_commit_phase_def xfer_addressed_def xfer_set_mode_def nand_xfer_latch_addr_state_def
      nand_xfer_clear_data_def nand_xfer_reset_addr_def is_row_cmd_def nand_xfer_row_addr_def
      low_byte row_bytes regs_sized_def third_byte Let_def)


lemma and_range:
  "and_bytes (\<lambda>i. base + i) buf [0..<n] m = (\<lambda>k. if base \<le> k \<and> k < base + n then m k AND buf (k - base) else m k)"
  by (induction n) (auto simp: and_bytes_def fun_eq_iff)

lemma and_bytes_cong:
  "(\<And>i. i \<in> set is \<Longrightarrow> at i = at' i) \<Longrightarrow> and_bytes at buf is m = and_bytes at' buf is m"
  unfolding and_bytes_def by (induction "is" arbitrary: m) simp_all

lemma and_bytes_shift:
  "and_bytes at buf (map (\<lambda>j. c + j) is) m = and_bytes (\<lambda>j. at (c + j)) (\<lambda>j. buf (c + j)) is m"
  unfolding and_bytes_def by (induction "is" arbitrary: m) simp_all

text \<open>A raw page programmed whole: 512 bytes to the image and 16 to the spare array.\<close>

definition page_and :: "nat \<Rightarrow> nat \<Rightarrow> (nat \<Rightarrow> u8) \<Rightarrow> (nat \<Rightarrow> u8) \<Rightarrow> nat \<Rightarrow> u8" where
  "page_and base n buf m = (\<lambda>k. if base \<le> k \<and> k < base + n then m k AND buf (k - base) else m k)"

lemma spare_positions:
  "[j \<leftarrow> takeWhile (\<lambda>j. 0 + of_nat j < (528 :: u32)) [0..<528]. 0 + of_nat j \<ge> (512 :: u32)] = map (\<lambda>j. 512 + j) [0..<16]"
proof -
  have small: "unat (of_nat j :: u32) = j" if "j < 528" for j :: nat using that by (simp add: unat_of_nat)
  have "takeWhile (\<lambda>j. 0 + of_nat j < (528 :: u32)) [0..<528] = [0..<528]"
    using small by (simp add: takeWhile_eq_all_conv word_less_nat_alt)
  moreover have "[0..<528] = [0..<512] @ map (\<lambda>j. 512 + j) [0..<16 :: nat]" using upt_shift [of 512 16] by simp
  moreover have "filter (\<lambda>j. 0 + of_nat j \<ge> (512 :: u32)) [0..<512] = []"
    using small by (simp add: filter_empty_conv word_le_nat_alt)
  moreover have "filter (\<lambda>j. 0 + of_nat j \<ge> (512 :: u32)) (map (\<lambda>j. 512 + j) [0..<16]) = map (\<lambda>j. 512 + j) [0..<16]"
    using small by (intro filter_True) (auto simp: word_le_nat_alt simp del: of_nat_add)
  ultimately show ?thesis by (simp only: filter_append append_Nil)
qed

lemma commit_whole_page:
  assumes "img s = Some im" and "unat (page_addr s) < 32768" and "\<not> nand_physical_bad s (unat (page_addr s) div 32)"
    and "program_column s = 0" and "program_length s = 528"
  shows "img (nand_commit_program s) = Some (page_and (unat (page_addr s) * 512) 512 (program_buffer s) im)"
    and "oob (nand_commit_program s) =
      map_option (page_and (unat (page_addr s) * 16) 16 (\<lambda>j. program_buffer s (512 + j))) (oob s)"
    and "status_value (nand_commit_program s) = status_value s"
proof -
  have p: "page_addr s < 32768" using assms(2) by (simp add: word_less_nat_alt)
  have lim: "program_limit s = 512" using assms(4,5) by (simp add: program_limit_def)
  have data: "and_bytes (\<lambda>i. unat (page_addr s * 512 + 0 + of_nat i)) buf [0..<512] m =
      page_and (unat (page_addr s) * 512) 512 buf m" for buf m
    unfolding page_and_def and_range [symmetric] using page_index [OF p, of 0 _ 512]
    by (intro and_bytes_cong) simp
  have spare: "and_bytes (\<lambda>j. unat (page_addr s * 16 + (0 + of_nat j) - 512)) buf (map (\<lambda>j. 512 + j) [0..<16]) m =
      page_and (unat (page_addr s) * 16) 16 (\<lambda>j. buf (512 + j)) m" for buf m
    unfolding page_and_def and_bytes_shift
      and_range [of "unat (page_addr s) * 16" "\<lambda>j. buf (512 + j)", symmetric]
    using page_index [OF p, of 0 _ 16]
    by (intro and_bytes_cong) (simp add: algebra_simps)
  have len: "unat (528 :: u32) = 528" "unat (512 :: u32) = 512" by simp_all
  show "img (nand_commit_program s) = Some (page_and (unat (page_addr s) * 512) 512 (program_buffer s) im)"
    and "oob (nand_commit_program s) =
      map_option (page_and (unat (page_addr s) * 16) 16 (\<lambda>j. program_buffer s (512 + j))) (oob s)"
    and "status_value (nand_commit_program s) = status_value s"
    using assms(1,3) p [folded not_le] data [of "program_buffer s" im] spare [of "program_buffer s"] spare_positions
    unfolding nand_commit_program_def assms(4,5) unat_div_pages
    by (cases "oob s"; simp add: Let_def lim assms(4,5) unat_div_pages)+
qed


lemma xfer_pageprog:
  assumes "state s = NAND_STATE_PROGRAM_DATA"
  shows "\<exists>t. xfer_cmd 0x10 s = nand_xfer_prepare_status ((nand_commit_program t)\<lparr>state := NAND_STATE_IDLE, ready := True\<rparr>) \<and>
    img t = img s \<and> oob t = oob s \<and> image_size t = image_size s \<and> page_addr t = page_addr s \<and>
    program_column t = program_column s \<and> program_length t = program_length s \<and>
    program_buffer t = program_buffer s \<and> status_value t = 0xC0 \<and> burst_520 t = burst_520 s \<and>
    (regs_sized s \<longrightarrow> regs_sized t)"
  using assms
  by (intro exI [of _ "s\<lparr>xfer_phase := 3, xfer_addr_count := 0, xfer_pending_byte := 16,
      xfer_regs := (xfer_regs s)[5 := 3, 8 := 16, 12 := 0], xfer_last_cmd := 16, status_value := 0xC0\<rparr>"])
    (simp add: xfer_cmd_def nand_write_def nand_write_xfer_def nand_xfer_commit_phase_def xfer_command_def regs_sized_def Let_def)

lemma page_and_cong: "(\<And>j. j < n \<Longrightarrow> buf j = buf' j) \<Longrightarrow> page_and base n buf m = page_and base n buf' m"
  by (auto simp: page_and_def fun_eq_iff)

lemma bad_oob: "oob t = oob s \<Longrightarrow> nand_physical_bad t = nand_physical_bad (s :: nand_state)"
  by (simp add: nand_physical_bad_def fun_eq_iff)

lemma commit_keeps:
  "image_size (nand_commit_program s) = image_size s" "burst_520 (nand_commit_program s) = burst_520 s"
  "regs_sized (nand_commit_program s) = regs_sized s"
  by (auto simp: nand_commit_program_def regs_sized_def Let_def split: option.splits)

lemma program_page_effect:
  assumes sized: "regs_sized s" and im: "img s = Some im" and page: "unat page < 32768"
    and good: "\<not> nand_physical_bad s (unat page div 32)"
    and main: "length (concat (map chunk_bytes main)) = 520" and tail: "length (concat (map chunk_bytes tail)) = 8"
  defines "xs \<equiv> concat (map chunk_bytes (main @ tail))"
  defines "t \<equiv> program_page page main tail s"
  shows "img t = Some (page_and (unat page * 512) 512 ((!) xs) im)"
    and "oob t = map_option (page_and (unat page * 16) 16 (\<lambda>j. xs ! (512 + j))) (oob s)"
    and "status_value t = 0xC0" and "state t = NAND_STATE_IDLE"
    and "xfer_data_bytes t ! 0 = 0xC0 \<and> xfer_data_pos t = 0 \<and> xfer_data_count t = 1"
    and "regs_sized t \<and> burst_520 t = burst_520 s \<and> image_size t = image_size s"
proof -
  let ?m = "concat (map chunk_bytes main)" and ?e = "concat (map chunk_bytes tail)"
  have nonempty: "?m \<noteq> []" "?e \<noteq> []" using main tail by force+
  define a where "a = nand_write 0xA464 4 7 0 (xfer_row page (xfer_cmd 0x80 s))"
  note fa = xfer_seqin_fields [OF sized, of page, folded a_def, unfolded Let_def]
  have pa: "put_chunks main a = filled ?m a"
    using fa main by (intro put_chunks_filled) (simp_all add: window_ok_def)
  define b where "b = nand_write 0xA464 4 6 0 (filled ?m a)"
  have fb: "state b = NAND_STATE_PROGRAM_DATA" "page_addr b = ucast page" "program_column b = 0"
    "program_length b = 520" "program_buffer b = overlay (\<lambda>_. 0xFF) 0 ?m" "stream_base b = 520"
    "stream_cursor b = 0" "stream_limit b = 8" "xfer_regs b ! 25 = 6" "img b = img s" "oob b = oob s"
    "image_size b = image_size s" "burst_520 b = burst_520 s" "regs_sized b"
    using fa main nonempty by (auto simp: b_def filled_def nand_write_def nand_write_xfer_def xfer_set_mode_def regs_sized_def Let_def)
  have pb: "put_chunks tail b = filled ?e b"
    using fb tail by (intro put_chunks_filled) (simp_all add: window_ok_def)
  let ?c = "filled ?e b"
  have fc: "state ?c = NAND_STATE_PROGRAM_DATA" "page_addr ?c = ucast page" "program_column ?c = 0"
    "program_length ?c = 528" "program_buffer ?c = overlay (\<lambda>_. 0xFF) 0 xs" "img ?c = img s" "oob ?c = oob s"
    "image_size ?c = image_size s" "burst_520 ?c = burst_520 s" "regs_sized ?c"
    using fb tail main nonempty overlay_append [of "\<lambda>_. 0xFF" 0 ?m ?e] by (auto simp: filled_def xs_def regs_sized_def)
  obtain d where d: "t = nand_xfer_prepare_status ((nand_commit_program d)\<lparr>state := NAND_STATE_IDLE, ready := True\<rparr>)"
    and fd: "img d = img s" "oob d = oob s" "page_addr d = ucast page" "program_column d = 0" "program_length d = 528"
      "program_buffer d = overlay (\<lambda>_. 0xFF) 0 xs" "status_value d = 0xC0"
      "image_size d = image_size s" "burst_520 d = burst_520 s" "regs_sized d"
    using xfer_pageprog [OF fc(1)] fc unfolding t_def program_page_def a_def [symmetric] pa b_def [symmetric] pb by auto
  have pg: "unat (page_addr d) = unat page" using fd by simp
  note e = commit_whole_page [of d im, unfolded pg, OF _ page] commit_keeps [of d]
  have xs: "length xs = 528" using main tail by (simp add: xs_def)
  have buf: "overlay (\<lambda>_. 0xFF) 0 xs k = xs ! k" if "k < 528" for k using that xs by (simp add: overlay_def)
  show "img t = Some (page_and (unat page * 512) 512 ((!) xs) im)"
    and "oob t = map_option (page_and (unat page * 16) 16 (\<lambda>j. xs ! (512 + j))) (oob s)"
    and "status_value t = 0xC0" and "state t = NAND_STATE_IDLE"
    and "xfer_data_bytes t ! 0 = 0xC0 \<and> xfer_data_pos t = 0 \<and> xfer_data_count t = 1"
    and "regs_sized t \<and> burst_520 t = burst_520 s \<and> image_size t = image_size s"
    using e im good fd bad_oob [of d s] buf
    by (simp_all add: d prepare_defs nand_xfer_push_data_def nand_xfer_clear_data_def regs_sized_def cong: page_and_cong option.map_cong)
qed


section \<open>Reading a page\<close>

fun get_chunks :: "nat list \<Rightarrow> nand_state \<Rightarrow> u8 list \<times> nand_state" where
  "get_chunks [] s = ([], s)"
| "get_chunks (n # ns) s =
     (let (v, s) = nand_read 0xB000 n 0 s; (bs, s) = get_chunks ns s
      in (chunk_bytes (n, v) @ bs, s))"

text \<open>What the window delivers at position \<open>i\<close> past the cursor.\<close>

definition stream_at :: "nand_state \<Rightarrow> nat \<Rightarrow> u8" where
  "stream_at s i = (if past_limit s i then 0xFF else nand_stream_byte s (stream_cursor s + of_nat i))"

lemma medium_reads:
  fixes s t :: nand_state
  assumes "img t = img s" and "oob t = oob s" and "image_size t = image_size s" and "block_data_state t = block_data_state s"
  shows "nand_image_byte t = nand_image_byte s" and "nand_stream_oob_byte t = nand_stream_oob_byte s"
proof -
  show "nand_image_byte t = nand_image_byte s"
    by (rule ext) (cases "img s"; simp add: nand_image_byte_def assms)
  have "nand_block_is_allocated t = nand_block_is_allocated s"
    by (rule ext) (simp add: nand_block_is_allocated_def assms)
  then show "nand_stream_oob_byte t = nand_stream_oob_byte s"
    by (intro ext) (cases "oob s"; simp add: nand_stream_oob_byte_def assms Let_def)
qed

lemma stream_at_later:
  "stream_at (s\<lparr>stream_stall := b, stream_cursor := stream_cursor s + of_nat n\<rparr>) i = stream_at s (n + i)"
  "past_limit (s\<lparr>stream_stall := b, stream_cursor := stream_cursor s + of_nat n\<rparr>) i = past_limit s (n + i)"
  using medium_reads [of "s\<lparr>stream_stall := b, stream_cursor := stream_cursor s + of_nat n\<rparr>" s]
  by (simp_all add: stream_at_def past_limit_def nand_stream_byte_def add.assoc Let_def)

lemma chunk_lanes: "n \<le> 8 \<Longrightarrow> chunk_bytes (n, lanes n f) = map f [0..<n]"
  by (simp add: chunk_bytes_def byte_at_lanes)

lemma ex_less_add: fixes n m :: nat shows "(\<exists>i < n + m. P i) \<longleftrightarrow> (\<exists>i < n. P i) \<or> (\<exists>i < m. P (n + i))"
proof
  assume "\<exists>i < n + m. P i"
  then obtain i where i: "i < n + m" "P i" by blast
  show "(\<exists>i < n. P i) \<or> (\<exists>i < m. P (n + i))"
  proof (cases "i < n")
    case True
    with i show ?thesis by blast
  next
    case False
    then have "i - n < m" "P (n + (i - n))" using i by simp_all
    then show ?thesis by blast
  qed
next
  assume "(\<exists>i < n. P i) \<or> (\<exists>i < m. P (n + i))"
  then show "\<exists>i < n + m. P i" by (metis add_less_cancel_left trans_less_add1)
qed

lemma get_chunks_stream:
  assumes "stream_active s" and "\<forall>n \<in> set ns. n \<le> 8"
  shows "get_chunks ns s = (map (stream_at s) [0..<sum_list ns],
    s\<lparr>stream_stall := (stream_stall s \<or> (\<exists>i < sum_list ns. past_limit s i) \<and> burst_520 s \<and> xfer_regs s ! 25 = 5),
      stream_cursor := stream_cursor s + of_nat (sum_list ns)\<rparr>)"
  using assms
proof (induction ns arbitrary: s)
  case Nil
  then show ?case by simp
next
  case (Cons n ns)
  let ?st = "stream_stall s \<or> (\<exists>i < n. past_limit s i) \<and> burst_520 s \<and> xfer_regs s ! 25 = 5"
  let ?t = "s\<lparr>stream_stall := ?st, stream_cursor := stream_cursor s + of_nat n\<rparr>"
  have read: "nand_read 0xB000 n 0 s = (lanes n (stream_at s), ?t)"
    using Cons.prems(1) by (simp add: nand_read_def nand_stream_read_def stream_at_def [abs_def])
  have "stream_active ?t" using Cons.prems(1) by simp
  from Cons.IH [OF this] Cons.prems(2) show ?case
    by (simp add: read chunk_lanes stream_at_later upt_shift ex_less_add comp_def add.assoc conj_disj_distribR disj_assoc)
qed

definition open_page :: "u16 \<Rightarrow> nand_state \<Rightarrow> nand_state" where
  "open_page page s = nand_write 0xA464 4 5 0 (xfer_row page (xfer_cmd 0x00 s))"

lemma open_page_fields:
  assumes "regs_sized s"
  shows "let t = open_page page s in
    stream_active t \<and> stream_page t = ucast page \<and> stream_col t = 0 \<and> stream_cursor t = 0 \<and>
    stream_limit t = (if burst_520 s then 520 else 528) \<and> xfer_regs t ! 25 = 5 \<and> burst_520 t = burst_520 s \<and>
    stream_stall t = stream_stall s \<and> img t = img s \<and> oob t = oob s \<and> image_size t = image_size s \<and>
    block_data_state t = block_data_state s \<and> regs_sized t"
  using assms
  by (simp add: open_page_def xfer_row_def xfer_cmd_def nand_write_def nand_write_xfer_def xfer_address_def xfer_command_def
      nand_xfer_commit_phase_def xfer_addressed_def xfer_set_mode_def nand_xfer_latch_addr_state_def
      xfer_open_stream_def nand_xfer_col_addr_def
      nand_xfer_clear_data_def nand_xfer_reset_addr_def is_row_cmd_def nand_xfer_row_addr_def
      low_byte row_bytes regs_sized_def third_byte Let_def)


section \<open>Round trip\<close>

text \<open>A stored raw page: 512 data bytes, then 16 spare bytes.\<close>

definition raw_page :: "(nat \<Rightarrow> u8) \<Rightarrow> (nat \<Rightarrow> u8) \<Rightarrow> nat \<Rightarrow> u8 list" where
  "raw_page im o' page = map (\<lambda>i. im (page * 512 + i)) [0..<512] @ map (\<lambda>i. o' (page * 16 + i)) [0..<16]"

lemma length_raw_page [simp]: "length (raw_page im o' page) = 528"
  by (simp add: raw_page_def)

lemma nth_raw_page:
  "i < 528 \<Longrightarrow> raw_page im o' page ! i = (if i < 512 then im (page * 512 + i) else o' (page * 16 + (i - 512)))"
proof (cases "i < 512")
  case True
  then show ?thesis by (simp add: raw_page_def nth_append)
next
  case False
  assume "i < 528"
  with False have "i - 512 < 16" by linarith
  with False show ?thesis by (simp add: raw_page_def nth_append del: add_diff_assoc2 add_diff_assoc)
qed

lemma page_and_other:
  assumes "p \<noteq> page" and "i < n"
  shows "page_and (page * n) n buf m (p * n + i) = m (p * n + i)"
proof -
  have "p * n + n \<le> page * n \<or> page * n + n \<le> p * n"
    using assms(1) mult_le_mono1 [of "Suc p" page n] mult_le_mono1 [of "Suc page" p n]
    by (cases "p < page") auto
  then have "\<not> (page * n \<le> p * n + i \<and> p * n + i < page * n + n)" using assms(2) by linarith
  then show ?thesis by (auto simp: page_and_def)
qed

lemma stream_of_page:
  assumes "img s = Some im" and "oob s = Some o'" and "image_size s = 0x1000000" and "unat page < 32768"
    and "stream_page s = ucast page" and "stream_col s = 0" and "stream_cursor s = 0" and "i < 528"
    and "i < unat (stream_limit s)"
  shows "stream_at s i = raw_page im o' (unat (page :: u16)) ! i"
proof -
  have i: "unat (of_nat i :: u32) = i" using assms(8) by (simp add: unat_of_nat)
  have "\<not> past_limit s i" using assms(7,9) i by (simp add: past_limit_def word_le_nat_alt not_le)
  moreover have "(of_nat i :: u32) div 528 = 0" "(of_nat i :: u32) mod 528 = of_nat i"
    using assms(8) i by (simp_all add: word_arith_nat_div word_arith_nat_mod)
  moreover have "(of_nat i :: u32) < 512 \<longleftrightarrow> i < 512" using i by (simp add: word_less_nat_alt)
  moreover have "unat (ucast page * 512 + of_nat i :: u32) = unat page * 512 + i"
    using page_index [of "ucast page" 0 i 512] assms(4,8) by (simp add: word_less_nat_alt)
  moreover have "unat (of_nat i - 512 :: u32) = i - 512" if "\<not> i < 512"
    using that i by (simp add: unat_sub word_le_nat_alt)
  moreover have "\<not> 16 \<le> i - 512" using assms(8) by linarith
  ultimately show ?thesis using assms
    by (simp add: stream_at_def nand_stream_byte_def nand_image_byte_def nand_stream_oob_byte_def nth_raw_page Let_def)
qed

text \<open>C18: Programming a page and reading it back. However the driver cuts the 528 bytes into bus
  writes and reads, the write sequence of the loader's engine leaves in the page, data and spare,
  the old bytes with the bits cleared that are clear in the new ones (so an erased page holds the
  new ones), reports success, changes no other page, and the read sequence delivers it.\<close>

theorem nand_program_read_roundtrip:
  assumes "regs_sized s" and "img s = Some im" and "oob s = Some o'" and "image_size s = 0x1000000"
    and "unat page < 32768" and "\<not> nand_physical_bad s (unat page div 32)" and "\<not> burst_520 s"
    and "length (concat (map chunk_bytes main)) = 520" and "length (concat (map chunk_bytes tail)) = 8"
    and "\<forall>n \<in> set ns. n \<le> 8" and "sum_list ns \<le> 528"
  shows "let t = program_page page main tail s; (bs, u) = get_chunks ns (open_page page t) in
    status_value t = 0xC0 \<and> \<not> (stream_stall u \<and> \<not> stream_stall t) \<and>
    bs = take (sum_list ns) (map2 (AND) (raw_page im o' (unat page)) (concat (map chunk_bytes (main @ tail)))) \<and>
    (\<exists>im' o''. img u = Some im' \<and> oob u = Some o'' \<and>
       (\<forall>p. p = unat page \<or> raw_page im' o'' p = raw_page im o' p))"
proof -
  let ?t = "program_page page main tail s" and ?xs = "concat (map chunk_bytes (main @ tail))"
  note e = program_page_effect [OF assms(1,2,5,6,8,9)]
  let ?im = "page_and (unat page * 512) 512 ((!) ?xs) im" and ?o = "page_and (unat page * 16) 16 (\<lambda>j. ?xs ! (512 + j)) o'"
  let ?v = "open_page page ?t"
  have sized: "regs_sized ?t" and burst: "\<not> burst_520 ?t" and sz: "image_size ?t = 0x1000000"
    using e(6) assms(4,7) by simp_all
  note v = open_page_fields [OF sized, of page, unfolded Let_def]
  have limit: "stream_limit ?v = 528" using v burst by simp
  have at: "stream_at ?v i = raw_page ?im ?o (unat page) ! i" if "i < 528" for i
    using v e(1,2) assms(3,5) sz limit that by (intro stream_of_page) simp_all
  have get: "get_chunks ns ?v = (map (stream_at ?v) [0..<sum_list ns],
      ?v\<lparr>stream_stall := (stream_stall ?v \<or> (\<exists>i < sum_list ns. past_limit ?v i) \<and> burst_520 ?v \<and> xfer_regs ?v ! 25 = 5),
        stream_cursor := stream_cursor ?v + of_nat (sum_list ns)\<rparr>)"
    using v assms(10) by (intro get_chunks_stream) simp_all
  have len: "length ?xs = 528" using assms(8,9) by simp
  have "map (stream_at ?v) [0..<sum_list ns] = take (sum_list ns) (map2 (AND) (raw_page im o' (unat page)) ?xs)"
  proof (rule nth_equalityI)
    fix i assume "i < length (map (stream_at ?v) [0..<sum_list ns])"
    then have i: "i < sum_list ns" "i < 528" using assms(11) by simp_all
    have "raw_page ?im ?o (unat page) ! i = raw_page im o' (unat page) ! i AND ?xs ! i"
      using i(2) by (simp add: nth_raw_page page_and_def) linarith
    then show "map (stream_at ?v) [0..<sum_list ns] ! i =
        take (sum_list ns) (map2 (AND) (raw_page im o' (unat page)) ?xs) ! i"
      using i len at by simp
  qed (use assms(11) len in simp)
  moreover have "raw_page ?im ?o p = raw_page im o' p" if "p \<noteq> unat page" for p
  proof (rule nth_equalityI)
    fix i assume "i < length (raw_page ?im ?o p)"
    then have "i < 528" by simp
    moreover from this have "i - 512 < 16" by linarith
    ultimately show "raw_page ?im ?o p ! i = raw_page im o' p ! i"
      unfolding nth_raw_page [OF \<open>i < 528\<close>]
      using page_and_other [OF that, of i 512] page_and_other [OF that, of "i - 512" 16] by (simp only:) simp
  qed simp
  ultimately show ?thesis using get v e(1-3) burst assms(3) by (auto simp: Let_def)
qed


lemma regs_sized_init: "regs_sized (attach_oob o' (nand_init im n m))"
  by (simp add: regs_sized_def attach_oob_def nand_init_def nand_restore_seed_regs_def)

lemma init_medium:
  "img (attach_oob o' (nand_init im n m)) = im" "oob (attach_oob o' (nand_init im n m)) = Some o'"
  "image_size (attach_oob o' (nand_init im n m)) = n" "burst_520 (attach_oob o' (nand_init im n m)) = False"
  by (simp_all add: attach_oob_def nand_init_def nand_restore_seed_regs_def)

theorem nand_program_read_roundtrip_witness:
  "let s = attach_oob (\<lambda>_. 0xFF) (nand_init (Some (\<lambda>_. 0xFF)) 0x1000000 0);
       t = program_page 0x123 (replicate 130 (4, 0x11223344)) [(8, 0x0102030405060708)] s;
       (bs, u) = get_chunks (replicate 66 8) (open_page 0x123 t)
   in status_value t = 0xC0 \<and> bs = take 528 (map2 (AND) (raw_page (\<lambda>_. 0xFF) (\<lambda>_. 0xFF) 0x123)
        (concat (map chunk_bytes (replicate 130 (4, 0x11223344) @ [(8, 0x0102030405060708)]))))"
proof -
  let ?s = "attach_oob (\<lambda>_. 0xFF) (nand_init (Some (\<lambda>_. 0xFF)) 0x1000000 0)"
  have good: "\<not> nand_physical_bad ?s (unat (0x123 :: u16) div 32)"
    by (simp add: nand_physical_bad_def init_medium)
  have len: "length (concat (map chunk_bytes (replicate 130 (4, 0x11223344)))) = 520"
    "length (concat (map chunk_bytes [(8, 0x0102030405060708)])) = 8"
    by (simp_all add: length_concat chunk_bytes_def sum_list_replicate comp_def)
  have ns: "\<forall>n \<in> set (replicate 66 8). n \<le> (8 :: nat)" "sum_list (replicate 66 8) = (528 :: nat)"
    by (simp_all add: sum_list_replicate)
  have "unat (0x123 :: u16) = 0x123" by simp
  with nand_program_read_roundtrip [of ?s _ _ "0x123", OF regs_sized_init init_medium(1,2,3) _ good _ len ns(1)]
  show ?thesis unfolding Let_def ns(2) init_medium(4) by (auto split: prod.splits)
qed

section \<open>The end of a burst\<close>

text \<open>C20: The bus hangs exactly past a 520-byte burst. After the ROM's error-correction path a page
  opened in mode 5 can be read for 520 bytes, in any chunks; one byte more stalls the bus. Before
  that path, or after the DMA state word was written, no read of the page stalls.\<close>

theorem nand_burst_stall:
  assumes "regs_sized s" and "\<forall>n \<in> set ns. n \<le> 8"
  shows "let u = snd (get_chunks ns (open_page page s)); w = snd (get_chunks ns (open_page page (nand_dma_state_written s))) in
    (stream_stall u \<longleftrightarrow> stream_stall s \<or> burst_520 s \<and> 520 < sum_list ns) \<and> stream_stall w = stream_stall s"
proof -
  have past: "(\<exists>i < sum_list ns. past_limit v i) \<longleftrightarrow> 520 < sum_list ns" if lim: "stream_limit v = 520" "stream_cursor v = 0" for v
  proof
    assume "\<exists>i < sum_list ns. past_limit v i"
    then obtain i where i: "i < sum_list ns" "of_nat i \<ge> (520 :: u32)" by (auto simp: past_limit_def lim)
    show "520 < sum_list ns"
    proof (rule ccontr)
      assume "\<not> 520 < sum_list ns"
      with i(1) have "i < 520" by simp
      then have "unat (of_nat i :: u32) = i" by (simp add: unat_of_nat)
      with i(2) \<open>i < 520\<close> show False by (simp add: word_le_nat_alt)
    qed
  next
    assume "520 < sum_list ns"
    moreover have "past_limit v 520" using lim by (simp add: past_limit_def)
    ultimately show "\<exists>i < sum_list ns. past_limit v i" by blast
  qed
  have stall: "stream_stall (snd (get_chunks ns (open_page page r))) \<longleftrightarrow> stream_stall r \<or> burst_520 r \<and> 520 < sum_list ns"
    if "regs_sized r" for r
  proof -
    note v = open_page_fields [OF that, of page, unfolded Let_def]
    have "stream_active (open_page page r)" using v by simp
    note get = get_chunks_stream [OF this assms(2)]
    show ?thesis using v past [of "open_page page r"] unfolding get by auto
  qed
  have "regs_sized (nand_dma_state_written s)" using assms(1) by (simp add: regs_sized_def nand_dma_state_written_def)
  from stall [OF assms(1)] stall [OF this] show ?thesis by (simp add: nand_dma_state_written_def)
qed

theorem nand_burst_stall_witness:
  "let s = (attach_oob (\<lambda>_. 0xFF) (nand_init (Some (\<lambda>_. 0xFF)) 0x1000000 0))\<lparr>burst_520 := True\<rparr> in
   \<not> stream_stall (snd (get_chunks (replicate 65 8) (open_page 7 s))) \<and>
   stream_stall (snd (get_chunks (replicate 65 8 @ [1]) (open_page 7 s)))"
proof -
  let ?s = "(attach_oob (\<lambda>_. 0xFF) (nand_init (Some (\<lambda>_. 0xFF)) 0x1000000 0))\<lparr>burst_520 := True\<rparr>"
  have sized: "regs_sized ?s" using regs_sized_init [of "\<lambda>_. 0xFF" "Some (\<lambda>_. 0xFF)" "0x1000000" 0] by (simp add: regs_sized_def)
  have ok: "stream_stall ?s = False" "burst_520 ?s"
    by (simp_all add: attach_oob_def nand_init_def nand_restore_seed_regs_def)
  have ns: "\<forall>n \<in> set (replicate 65 8). n \<le> (8 :: nat)" "\<forall>n \<in> set (replicate 65 8 @ [1]). n \<le> (8 :: nat)"
    "sum_list (replicate 65 8) = (520 :: nat)" "sum_list (replicate 65 8 @ [1]) = (521 :: nat)"
    by (simp_all add: sum_list_replicate)
  show ?thesis
    using nand_burst_stall [OF sized ns(1), where page = 7] nand_burst_stall [OF sized ns(2), where page = 7]
    unfolding ns(3,4) ok Let_def by simp
qed

section \<open>What the error correction reports\<close>

definition check_page :: "u16 list \<Rightarrow> nand_state \<Rightarrow> nand_state" where
  "check_page ws s = fold (\<lambda>w. nand_write 0xA468 4 (ucast w) 0) ws (nand_write 0xA464 4 1 0 s)"

text \<open>The parity words of a page as software keeps them: the coefficients, highest first, reversed.\<close>

definition parity_words :: "u8 list \<Rightarrow> u16 list" where
  "parity_words bytes = map rev10 (rev (ecc_remainder bytes))"

lemma remainder_ok: "coeffs_ok (ecc_remainder bytes)"
proof -
  have "coeffs_ok (fold rem_step bytes v)" if "coeffs_ok v" for v
    using that
  proof (induction bytes arbitrary: v)
    case (Cons b bytes)
    have "length v = 6" using Cons.prems by (simp add: coeffs_ok_def)
    then show ?case using Cons clock_ok [OF Cons.prems symbol_fits, of b] by (simp add: rem_step_clock)
  qed simp
  from this [OF zeros_ok] show ?thesis by (simp add: ecc_remainder_def zeros_def)
qed

lemma parity_undone: "map rev10 (parity_words bytes) = rev (ecc_remainder bytes)"
  using remainder_ok [of bytes] by (auto simp: parity_words_def coeffs_ok_def rev10_rev10 rev_map intro!: map_idI)

lemma parity_words_ok: "length (parity_words bytes) = 6" "\<forall>w \<in> set (parity_words bytes). fits 10 w"
proof -
  show "length (parity_words bytes) = 6" using remainder_ok [of bytes] by (simp add: parity_words_def coeffs_ok_def)
  have "fits 10 (rev10 v)" for v by (auto simp: fits_bits bit_rev10)
  then show "\<forall>w \<in> set (parity_words bytes). fits 10 w" by (auto simp: parity_words_def)
qed


lemma ten_bits: "fits 10 (w :: u16) \<Longrightarrow> (ucast ((ucast w :: u64) AND 0x3FF) :: u16) = w"
  unfolding mask_lits by (rule bit_eqI) (auto simp: bit_simps fits_bits)

lemma xor_zero: "(x :: u16) XOR y = 0 \<Longrightarrow> x = y"
proof -
  assume "x XOR y = 0"
  moreover have "x = (x XOR y) XOR y" by (simp add: xor.assoc)
  ultimately show ?thesis by simp
qed

lemma ecc_pack_zeros: "ecc_pack (replicate 6 0) = replicate 8 0"
  by (simp add: ecc_pack_def eval_nat_numeral)

lemma bitrev_0 [simp]: "nand_bitrev 0 = 0"
  by (rule bit_eqI) (simp add: bit_bitrev)

text \<open>The result registers in terms of the syndrome.\<close>

definition syndrome :: "u16 list \<Rightarrow> u8 list \<Rightarrow> u16 list" where
  "syndrome ws bytes = map (\<lambda>i. map rev10 ws ! i XOR ecc_remainder bytes ! (5 - i)) [0..<6]"

lemma physical_ecc_result:
  assumes "oob s = Some o'" and "img s = Some im" and "stream_page s < 32768" and "length (xfer_regs s) = 64"
    and "map (\<lambda>i. im (unat (stream_page s) * 512 + i)) [0..<512] @ map (\<lambda>i. o' (unat (stream_page s) * 16 + i)) [0..<8] = bytes"
  shows "xfer_regs (nand_physical_ecc s) ! 48 = (if \<exists>i < 6. syndrome (xfer_ecc_words s) bytes ! i \<noteq> 0 then 1 else 0)"
    and "xfer_buffer (nand_physical_ecc s) =
      map (\<lambda>k. if k mod 4 < 2 then nand_bitrev (ecc_pack (syndrome (xfer_ecc_words s) bytes) ! (k div 4 * 2 + k mod 4)) else 0) [0..<16]"
proof -
  have n: "\<not> 32768 \<le> stream_page s" using assms(3) by (simp add: not_le)
  show "xfer_regs (nand_physical_ecc s) ! 48 = (if \<exists>i < 6. syndrome (xfer_ecc_words s) bytes ! i \<noteq> 0 then 1 else 0)"
    and "xfer_buffer (nand_physical_ecc s) =
      map (\<lambda>k. if k mod 4 < 2 then nand_bitrev (ecc_pack (syndrome (xfer_ecc_words s) bytes) ! (k div 4 * 2 + k mod 4)) else 0) [0..<16]"
    using assms n unfolding nand_physical_ecc_def Let_def syndrome_def by auto
qed

lemma ecc_input_write:
  assumes "xfer_regs s ! 25 = 1" and "length (xfer_regs s) = 64" and "fits 10 w" and "xfer_ecc_count s = k" and "k < 5"
  shows "nand_write 0xA468 4 (ucast w) 0 s =
    s\<lparr>xfer_regs := (xfer_regs s)[26 := ucast (ucast w :: u64)], xfer_ecc_words := (xfer_ecc_words s)[k := w], xfer_ecc_count := Suc k\<rparr>"
  using assms by (simp add: nand_write_def nand_write_xfer_def xfer_ecc_input_def ten_bits Let_def)

lemma ecc_last_write:
  assumes "xfer_regs s ! 25 = 1" and "length (xfer_regs s) = 64" and "fits 10 w" and "xfer_ecc_count s = 5"
  shows "nand_write 0xA468 4 (ucast w) 0 s =
    (nand_physical_ecc (s\<lparr>xfer_regs := (xfer_regs s)[26 := ucast (ucast w :: u64)], xfer_ecc_words := (xfer_ecc_words s)[5 := w],
      xfer_ecc_count := 6\<rparr>))\<lparr>ready := True\<rparr>"
  using assms by (simp add: nand_write_def nand_write_xfer_def xfer_ecc_input_def ten_bits Let_def)

lemma check_page_ecc:
  assumes "length ws = 6" and "\<forall>w \<in> set ws. fits 10 w" and "length (xfer_regs s) = 64" and "length (xfer_ecc_words s) = 6"
  shows "\<exists>t. check_page ws s = (nand_physical_ecc t)\<lparr>ready := True\<rparr> \<and> xfer_ecc_words t = ws \<and>
    stream_page t = stream_page s \<and> img t = img s \<and> oob t = oob s \<and> length (xfer_regs t) = 64"
proof -
  obtain a b c d e f where ws: "ws = [a, b, c, d, e, f]" using assms(1) unfolding list6 by blast
  obtain a' b' c' d' e' f' where old: "xfer_ecc_words s = [a', b', c', d', e', f']" using assms(4) unfolding list6 by blast
  define s0 where "s0 = nand_write 0xA464 4 1 0 s"
  have s0: "xfer_regs s0 ! 25 = 1" "length (xfer_regs s0) = 64" "xfer_ecc_count s0 = 0"
    "xfer_ecc_words s0 = xfer_ecc_words s" "stream_page s0 = stream_page s" "img s0 = img s" "oob s0 = oob s"
    using assms(3) by (simp_all add: s0_def nand_write_def nand_write_xfer_def xfer_set_mode_def Let_def)
  have fit: "fits 10 a" "fits 10 b" "fits 10 c" "fits 10 d" "fits 10 e" "fits 10 f" using assms(2) ws by simp_all
  let ?t = "s0\<lparr>xfer_regs := (xfer_regs s0)[26 := ucast (ucast f :: u64)],
      xfer_ecc_words := ws, xfer_ecc_count := 6\<rparr>"
  have "check_page ws s = (nand_physical_ecc ?t)\<lparr>ready := True\<rparr>"
    unfolding check_page_def s0_def [symmetric] ws
    using s0 old fit by (simp add: ecc_input_write ecc_last_write)
  then show ?thesis using s0 by (intro exI [of _ ?t]) simp
qed

text \<open>C19: Corruption is reported. When software hands the engine the parity of the page it wrote,
  the status register says clean, with a zero result buffer, if the stored page is intact, and says
  error if anything within six consecutive bytes of its 520 protected bytes has changed.\<close>

theorem nand_ecc_reports_corruption:
  assumes "regs_sized s" and "length (xfer_ecc_words s) = 6" and "img s = Some im" and "oob s = Some o'"
    and "stream_page s < 32768"
    and "take 520 (raw_page im o' (unat (stream_page s))) = a @ b' @ c"
    and "length b' = length b" and "length b \<le> 6"
  shows "fst (nand_read 0xA4C0 4 0 (check_page (parity_words (a @ b @ c)) s)) = (if b' = b then 0 else 1) \<and>
    (b' = b \<longrightarrow> xfer_buffer (check_page (parity_words (a @ b @ c)) s) = replicate 16 0)"
proof -
  let ?ws = "parity_words (a @ b @ c)"
  obtain t where t: "check_page ?ws s = (nand_physical_ecc t)\<lparr>ready := True\<rparr>" and ft: "xfer_ecc_words t = ?ws"
    "stream_page t = stream_page s" "img t = Some im" "oob t = Some o'" "length (xfer_regs t) = 64"
    using check_page_ecc [OF parity_words_ok, of s] assms(1-4) by (auto simp: regs_sized_def)
  have page: "map (\<lambda>i. im (unat (stream_page s) * 512 + i)) [0..<512] @ map (\<lambda>i. o' (unat (stream_page s) * 16 + i)) [0..<8] = a @ b' @ c"
    using assms(6) by (simp add: raw_page_def take_map)
  let ?syn = "syndrome ?ws (a @ b' @ c)"
  have lens: "length (ecc_remainder bs) = 6" for bs using remainder_ok [of bs] by (simp add: coeffs_ok_def)
  have syn: "?syn ! i = ecc_remainder (a @ b @ c) ! (5 - i) XOR ecc_remainder (a @ b' @ c) ! (5 - i)" if "i < 6" for i
    using that lens by (simp add: syndrome_def parity_undone rev_nth)
  have zero: "(\<exists>i < 6. ?syn ! i \<noteq> 0) \<longleftrightarrow> b' \<noteq> b"
  proof
    assume "\<exists>i < 6. ?syn ! i \<noteq> 0"
    then show "b' \<noteq> b" using syn by auto
  next
    assume "b' \<noteq> b"
    then have "ecc_remainder (a @ b @ c) \<noteq> ecc_remainder (a @ b' @ c)"
      using nand_burst_detected [of b b' a c] assms(7,8) by auto
    then obtain j where j: "j < 6" "ecc_remainder (a @ b @ c) ! j \<noteq> ecc_remainder (a @ b' @ c) ! j"
      using lens by (metis nth_equalityI)
    have s: "?syn ! (5 - j) = ecc_remainder (a @ b @ c) ! (5 - (5 - j)) XOR ecc_remainder (a @ b' @ c) ! (5 - (5 - j))"
      by (rule syn) simp
    have "5 - (5 - j) = j" using j(1) by simp
    then have "?syn ! (5 - j) \<noteq> 0" unfolding s using j(2) xor_zero by metis
    then show "\<exists>i < 6. ?syn ! i \<noteq> 0" by (intro exI [of _ "5 - j"]) simp
  qed
  have "?syn = replicate 6 0" if "b' = b"
  proof (rule nth_equalityI)
    show "length ?syn = length (replicate 6 (0 :: u16))" by (simp add: syndrome_def)
    fix i assume "i < length ?syn"
    then have "i < 6" by (simp add: syndrome_def)
    then show "?syn ! i = replicate 6 0 ! i" using syn [OF \<open>i < 6\<close>] that by simp
  qed
  then have pack0: "b' = b \<Longrightarrow> ecc_pack ?syn = replicate 8 0" by (simp only: ecc_pack_zeros)
  have "stream_page t < 32768" using ft assms(5) by simp
  note r = physical_ecc_result [OF ft(4,3) this ft(5), unfolded ft(1,2), OF page]
  have "fst (nand_read 0xA4C0 4 0 (check_page ?ws s)) = ucast (xfer_regs (nand_physical_ecc t) ! 48)"
    by (simp add: t nand_read_def nand_read_xfer_def Let_def)
  moreover have "xfer_buffer (nand_physical_ecc t) = replicate 16 0" if "b' = b"
  proof -
    have "k div 4 * 2 + k mod 4 < 8" if "k < 16" "k mod 4 < 2" for k :: nat using that by presburger
    then show ?thesis unfolding r(2) pack0 [OF that] by (intro nth_equalityI) (auto simp: nth_replicate)
  qed
  ultimately show ?thesis using zero unfolding r(1) by (simp add: t)
qed


theorem nand_ecc_reports_corruption_witness:
  "let bytes = replicate 512 0xFF @ replicate 8 0xFF;
       s = attach_oob (\<lambda>_. 0xFF) (nand_init (Some ((\<lambda>_. 0xFF)(3 := 0x7F))) 0x1000000 0)
   in fst (nand_read 0xA4C0 4 0 (check_page (parity_words bytes) s)) = 1"
proof -
  let ?s = "attach_oob (\<lambda>_. 0xFF) (nand_init (Some ((\<lambda>_. 0xFF)(3 := 0x7F))) 0x1000000 0)"
  let ?a = "replicate 3 (0xFF :: u8)" and ?c = "replicate 516 (0xFF :: u8)"
  have f: "length (xfer_ecc_words ?s) = 6" "stream_page ?s = 0"
    by (simp_all add: attach_oob_def nand_init_def nand_restore_seed_regs_def)
  have "[0..<512] = [0..<3] @ [3] @ [4..<512 :: nat]"
    using upt_add_eq_append [of 0 3 509] upt_conv_Cons [of 3 512] by simp
  then have "map (\<lambda>i. if i = 3 then 0x7F else 0xFF :: u8) [0..<512] = ?a @ [0x7F] @ replicate 508 0xFF"
    by (simp add: map_replicate_const list_eq_iff_nth_eq nth_append)
  then have page: "take 520 (raw_page ((\<lambda>_. 0xFF)(3 := 0x7F)) (\<lambda>_. 0xFF) (unat (stream_page ?s))) = ?a @ [0x7F] @ ?c"
    using replicate_add [of 508 8 "0xFF :: u8"] by (simp add: raw_page_def f map_replicate_const take_replicate)
  have b: "?a @ [0xFF] @ ?c = replicate 512 0xFF @ replicate 8 0xFF"
    by (simp flip: replicate_add replicate_Suc)
  have "stream_page ?s < 32768" using f by simp
  from nand_ecc_reports_corruption [OF regs_sized_init f(1) init_medium(1,2) this page, of "[0xFF]"]
  show ?thesis unfolding b Let_def by simp
qed

end
