(* ===== verification/Nand_Ports.thy ===== *)
theory Nand_Ports
  imports Nand_Safety
begin

text \<open>
  The older ways into the NAND: the indexed status port that drivers poll, the 16-bit data port, the
  enable register, and the restore window as the companion's dispatcher reaches it. The lemmas at
  the end are about behaviour of the code that its comments do not promise.
\<close>

section \<open>Polling the status index\<close>

definition legacy_sized :: "nand_state \<Rightarrow> bool" where
  "legacy_sized s \<longleftrightarrow> length (legacy_regs s) = 256 \<and> length (legacy_dirty s) = 256 \<and> length (legacy_read_since_write s) = 256"

definition waiting :: "nand_state \<Rightarrow> bool" where
  "waiting s \<longleftrightarrow> legacy_sized s \<and> legacy_dirty s ! 7 \<and> legacy_regs s ! 7 AND 0x1B \<noteq> 0"

definition shows_ready :: "u8 \<Rightarrow> bool" where
  "shows_ready v \<longleftrightarrow> v AND 0xC0 = 0xC0"

lemma or_ready [simp]: "shows_ready (v OR 0xC0)" "shows_ready 0xFF" "shows_ready 0xC0"
proof -
  have "(v OR 0xC0) AND 0xC0 = (0xC0 :: u8)" by (rule bit_eqI) (auto simp: bit_and_iff bit_or_iff)
  then show "shows_ready (v OR 0xC0)" by (simp add: shows_ready_def)
qed (simp_all add: shows_ready_def)

text \<open>One read of the status index while events are pending.\<close>

lemma status7_progress:
  assumes "waiting s"
  shows "shows_ready (fst (status7_read (legacy_regs s ! 7) n s)) \<or>
    (waiting (snd (status7_read (legacy_regs s ! 7) n s)) \<and>
     legacy_status7_event_reads (snd (status7_read (legacy_regs s ! 7) n s)) = legacy_status7_event_reads s + 1 \<and>
     legacy_status7_event_reads s < 63)"
proof -
  let ?e = "legacy_status7_event_reads s"
  have small: "?e < 0xFFFF" "\<not> 64 \<le> ?e + 1" if "?e < 63"
    using that by (simp_all add: word_less_nat_alt word_le_nat_alt unat_word_ariths)
  have big: "64 \<le> ?e + 1 \<or> \<not> ?e < 0xFFFF" if "\<not> ?e < 63"
    using that by (auto simp: word_less_nat_alt word_le_nat_alt unat_word_ariths)
  have top: "64 \<le> ?e" if "\<not> ?e < 0xFFFF" using that by (simp add: word_less_nat_alt word_le_nat_alt)
  show ?thesis
  proof (cases "?e < 63")
    case True
    then show ?thesis using assms small
      by (auto simp: waiting_def legacy_sized_def status7_read_def status7_second_read_def Let_def)
  next
    case False
    then show ?thesis using assms big top
      by (auto simp: waiting_def legacy_sized_def status7_read_def Let_def)
  qed
qed

lemma legacy_read_progress:
  assumes "waiting s"
  shows "shows_ready (fst (legacy_read_byte 7 s)) \<or>
    (waiting (snd (legacy_read_byte 7 s)) \<and>
     legacy_status7_event_reads (snd (legacy_read_byte 7 s)) = legacy_status7_event_reads s + 1 \<and>
     legacy_status7_event_reads s < 63)"
proof -
  let ?n = "legacy_read_since_write s ! 7"
  let ?s1 = "if ?n < 0xFFFF then s\<lparr>legacy_read_since_write := (legacy_read_since_write s)[7 := ?n + 1]\<rparr> else s"
  have w: "waiting ?s1" "legacy_regs ?s1 ! 7 = legacy_regs s ! 7" "legacy_status7_event_reads ?s1 = legacy_status7_event_reads s"
    using assms by (simp_all add: waiting_def legacy_sized_def)
  obtain b t where bt: "status7_read (legacy_regs s ! 7) ?n ?s1 = (b, t)"
    by (cases "status7_read (legacy_regs s ! 7) ?n ?s1")
  have p: "shows_ready b \<or> (waiting t \<and> legacy_status7_event_reads t = legacy_status7_event_reads s + 1 \<and>
      legacy_status7_event_reads s < 63)"
    using status7_progress [OF w(1), of ?n] unfolding w(2,3) bt by simp
  have "legacy_read_byte 7 s = (b, t) \<or> (\<exists>v. legacy_read_byte 7 s = (v OR 0xC0, t\<lparr>legacy_regs := (legacy_regs t)[7 := v OR 0xC0]\<rparr>))"
    using bt by (simp add: legacy_read_byte_def Let_def) blast
  with p show ?thesis by auto
qed

text \<open>A driver reads the byte at index 7 over and over.\<close>

fun poll_status :: "nat \<Rightarrow> nand_state \<Rightarrow> u8 list" where
  "poll_status 0 s = []"
| "poll_status (Suc k) s = (case nand_read 0xD7FC 1 0 s of (v, t) \<Rightarrow> ucast v # poll_status k t)"


lemma status7_port [simp]:
  "state (snd (status7_read raw n s)) = state s" "portctl (snd (status7_read raw n s)) = portctl s"
  by (simp_all add: status7_read_def status7_second_read_def legacy_idle_def Let_def)

lemma legacy_read_port:
  "state (snd (legacy_read_byte 7 s)) = state s \<and> portctl (snd (legacy_read_byte 7 s)) = portctl s"
proof -
  let ?n = "legacy_read_since_write s ! 7"
  let ?s1 = "if ?n < 0xFFFF then s\<lparr>legacy_read_since_write := (legacy_read_since_write s)[7 := ?n + 1]\<rparr> else s"
  obtain b t where bt: "status7_read (legacy_regs s ! 7) ?n ?s1 = (b, t)"
    by (cases "status7_read (legacy_regs s ! 7) ?n ?s1")
  then have "state t = state s" "portctl t = portctl s"
    using status7_port [of "legacy_regs s ! 7" ?n ?s1] by (simp_all split: if_splits)
  then show ?thesis using bt by (simp add: legacy_read_byte_def Let_def)
qed

lemma byte_back [simp]: "(ucast (ucast (b :: u8) :: u64) :: u8) = b"
  by (rule bit_eqI) (simp add: bit_simps)

definition polls_index7 :: "nand_state \<Rightarrow> bool" where
  "polls_index7 s \<longleftrightarrow> state s = NAND_STATE_IDLE \<and> portctl s AND 0xFF = 7"

lemma read_index7:
  assumes "polls_index7 s"
  shows "nand_read 0xD7FC 1 0 s = (ucast (fst (legacy_read_byte 7 s)), snd (legacy_read_byte 7 s))"
  using assms
  by (simp add: polls_index7_def nand_read_def nand_read_data_def Let_def split: prod.splits)

lemma poll_ready:
  assumes "waiting s" and "polls_index7 s" and "64 - unat (legacy_status7_event_reads s) < k"
  shows "\<exists>v \<in> set (poll_status k s). shows_ready v"
  using assms
proof (induction k arbitrary: s)
  case 0
  then show ?case by simp
next
  case (Suc k)
  let ?t = "snd (legacy_read_byte 7 s)"
  have "polls_index7 ?t" using Suc.prems(2) legacy_read_port [of s] by (simp add: polls_index7_def)
  moreover have "64 - unat (legacy_status7_event_reads ?t) < k"
    if "legacy_status7_event_reads ?t = legacy_status7_event_reads s + 1" "legacy_status7_event_reads s < 63"
    using that Suc.prems(3) by (simp add: word_less_nat_alt unat_word_ariths)
  ultimately show ?case
    using legacy_read_progress [OF Suc.prems(1)] Suc.IH [of ?t] read_index7 [OF Suc.prems(2)] by auto
qed

lemma write_index7:
  fixes v :: u64
  assumes "polls_index7 s" and "legacy_sized s"
  defines "t \<equiv> nand_write 0xD7FC 1 v 0 s"
  shows "polls_index7 t" and "legacy_sized t" and "legacy_dirty t ! 7" and "legacy_regs t ! 7 = byte_at v 0"
  using assms(1,2) unfolding t_def
  by (simp_all add: polls_index7_def legacy_sized_def nand_write_def nand_write_data_def legacy_write_byte_def
      console_pc_def Let_def)

text \<open>C21: A status poll ends. Whatever byte the driver writes to the status index and however often
  it was polled before, one of the next 66 reads shows both ready bits, so a loop that waits for
  them, or for 0xFF, cannot spin for ever.\<close>

theorem nand_status_poll_ends:
  assumes "state s = NAND_STATE_IDLE" and "portctl s AND 0xFF = 7" and "legacy_sized s"
  shows "\<exists>b \<in> set (poll_status 66 (nand_write 0xD7FC 1 v 0 s)). b AND 0xC0 = 0xC0"
proof -
  let ?t = "nand_write 0xD7FC 1 v 0 s"
  have "polls_index7 s" using assms(1,2) by (simp add: polls_index7_def)
  note t = write_index7 [OF this assms(3), of v]
  show ?thesis
  proof (cases "legacy_regs ?t ! 7 AND 0x1B = 0")
    case False
    then have "waiting ?t" using t by (simp add: waiting_def)
    from poll_ready [OF this t(1), of 66] show ?thesis by (simp add: shows_ready_def)
  next
    case True
    then have "shows_ready (fst (legacy_read_byte 7 ?t))"
      using t(2,3) by (simp add: legacy_read_byte_def status7_read_def Let_def legacy_sized_def)
    moreover have "(66 :: nat) = Suc 65" by simp
    ultimately show ?thesis using read_index7 [OF t(1)]
      by (simp only: poll_status.simps) (simp add: shows_ready_def)
  qed
qed

theorem nand_status_poll_ends_witness:
  "\<exists>b \<in> set (poll_status 66 (nand_write 0xD7FC 1 0x1F 0 (nand_write 0xD7F8 2 7 0 (nand_init None 0 0)))). b AND 0xC0 = 0xC0"
  by (rule nand_status_poll_ends)
    (simp_all add: nand_write_def nand_init_def nand_restore_seed_regs_def legacy_sized_def)

section \<open>The restore window behind the dispatcher\<close>

text \<open>Accesses the companion routes to the restore engine: only those it handles.\<close>

fun dispatched :: "nand_access \<Rightarrow> bool" where
  "dispatched (Restore_write off sz v) = nand_restore_handles_offset off"
| "dispatched (Restore_read off sz) = nand_restore_handles_offset off"
| "dispatched _ = False"

lemma handled_no_command: "nand_restore_handles_offset off \<Longrightarrow> off \<noteq> 0xC14 \<and> off \<noteq> 0xC20"
  by (auto simp: nand_restore_handles_offset_def)



definition same_flash :: "nand_state \<Rightarrow> nand_state \<Rightarrow> bool" where
  "same_flash s t \<longleftrightarrow> nand_medium.truncate t = nand_medium.truncate s"

lemma same_flash_trans: "same_flash s t \<Longrightarrow> same_flash t u \<Longrightarrow> same_flash s u"
  by (simp add: same_flash_def)

lemma flash_fields: "same_flash s t \<longleftrightarrow> img t = img s \<and> image_size t = image_size s \<and>
    image_valid_size t = image_valid_size s \<and> oob t = oob s \<and> dirty t = dirty s \<and> block_data_state t = block_data_state s"
  by (auto simp: same_flash_def nand_medium.truncate_def)

lemma set_reg_flash [simp]: "nand_medium.truncate (nand_restore_set_reg r v s) = nand_medium.truncate s"
  by (simp add: nand_restore_set_reg_def nand_medium.truncate_def Let_def)

lemma set_ready_flash [simp]: "nand_medium.truncate (nand_restore_set_ready b s) = nand_medium.truncate s"
  by (simp add: nand_restore_set_ready_def Let_def)

lemma fill_page_flash [simp]: "nand_medium.truncate (nand_restore_fill_page_buffer page s) = nand_medium.truncate s"
  by (cases "img s") (simp_all add: nand_restore_fill_page_buffer_def nand_medium.truncate_def Let_def)

lemma truncate_restore [simp]:
  "nand_medium.truncate (s\<lparr>restore_page_addr := a\<rparr>) = nand_medium.truncate (s :: nand_state)"
  "nand_medium.truncate (s\<lparr>restore_page_buffer := b\<rparr>) = nand_medium.truncate s"
  "nand_medium.truncate (s\<lparr>restore_stream_base := c\<rparr>) = nand_medium.truncate s"
  "nand_medium.truncate (s\<lparr>restore_stream_pos := c\<rparr>) = nand_medium.truncate s"
  "nand_medium.truncate (s\<lparr>restore_stream_limit := c\<rparr>) = nand_medium.truncate s"
  "nand_medium.truncate (s\<lparr>restore_status_ok := d\<rparr>) = nand_medium.truncate s"
  "nand_medium.truncate (s\<lparr>restore_mode := e\<rparr>) = nand_medium.truncate s"
  "nand_medium.truncate (s\<lparr>restore_ecc_count := f\<rparr>) = nand_medium.truncate s"
  "nand_medium.truncate (s\<lparr>restore_ecc_words := g\<rparr>) = nand_medium.truncate s"
  by (simp_all add: nand_medium.truncate_def)

lemma prepare_mode_flash: "same_flash s (nand_restore_prepare_mode m s)"
  by (simp add: same_flash_def nand_restore_prepare_mode_def nand_restore_begin_read_def restore_zero_syndrome_def Let_def)

lemma ecc_word_flash: "same_flash s (restore_ecc_word v s)"
  by (simp add: same_flash_def restore_ecc_word_def restore_zero_syndrome_def Let_def)

lemma write_loop_flash: "same_flash s (restore_write_loop i n v s)"
  by (induction i n v s rule: restore_write_loop.induct) (auto simp: same_flash_def Let_def)

lemma read_loop_flash: "same_flash s (snd (restore_read_loop i n v s))"
  by (induction i n v s rule: restore_read_loop.induct) (auto simp: same_flash_def Let_def)

lemma dispatched_flash: "dispatched e \<Longrightarrow> same_flash s (nand_step e s)"
proof (cases e)
  case (Restore_write off sz v)
  assume "dispatched e"
  then have off: "off \<noteq> 0xC14" "off \<noteq> 0xC20" "\<not> (off \<ge> 0x0980 \<and> off < 0x0990)"
    using handled_no_command [of off]
    by (auto simp: Restore_write nand_restore_handles_offset_def word_le_nat_alt word_less_nat_alt)
  have reg: "same_flash s (nand_restore_set_reg off (ucast v) s)" by (simp add: same_flash_def)
  note keep = write_loop_flash reg same_flash_trans [OF reg prepare_mode_flash] same_flash_trans [OF reg ecc_word_flash]
  have if_rule: "(c \<Longrightarrow> same_flash s a) \<Longrightarrow> (\<not> c \<Longrightarrow> same_flash s b) \<Longrightarrow> same_flash s (if c then a else b)" for c a b
    by simp
  show ?thesis unfolding Restore_write nand_step.simps nand_restore_write_def nand_restore_buffer_write_def
    using off by (simp only: if_False) (intro if_rule keep; simp add: same_flash_def)
next
  case (Restore_read off sz)
  then show ?thesis using read_loop_flash [of s 0 sz 0]
    by (simp add: nand_restore_read_def nand_restore_buffer_read_def same_flash_def Let_def)
qed simp_all

text \<open>Behind the dispatcher the restore engine is read-only. Its command and phase registers lie
  in the range the companion gives to the display, so no sequence of accesses that the dispatcher
  lets through changes the image, the spare array, the dirty flag or the block states.\<close>

theorem nand_restore_window_read_only:
  assumes "\<forall>e \<in> set es. dispatched e"
  shows "let t = fold nand_step es s in
    img t = img s \<and> oob t = oob s \<and> dirty t = dirty s \<and> block_data_state t = block_data_state s"
proof -
  have "same_flash s (fold nand_step es s)" using assms
  proof (induction es arbitrary: s)
    case (Cons e es)
    then show ?case using same_flash_trans [OF dispatched_flash [of e s]] by simp
  qed (simp add: same_flash_def)
  then show ?thesis by (simp add: flash_fields Let_def)
qed

theorem nand_restore_window_read_only_witness:
  "let s = nand_init (Some (\<lambda>_. 0x5A)) 0x1000000 0x1000000;
       t = fold nand_step [Restore_write 0xC64 4 7, Restore_write 0xB00 4 0, Restore_read 0xCC0 4] s
   in img t = img s \<and> \<not> dirty t"
proof -
  let ?s = "nand_init (Some (\<lambda>_. 0x5A)) 0x1000000 0x1000000"
  let ?es = "[Restore_write 0xC64 4 7, Restore_write 0xB00 4 0, Restore_read 0xCC0 4]"
  have "\<forall>e \<in> set ?es. dispatched e" by (simp add: nand_restore_handles_offset_def)
  from nand_restore_window_read_only [OF this, of ?s]
  have "let t = fold nand_step ?es ?s in img t = img ?s \<and> dirty t = dirty ?s" unfolding Let_def by blast
  moreover have "dirty ?s = False" by (simp add: nand_init_def nand_restore_seed_regs_def)
  ultimately show ?thesis unfolding Let_def by metis
qed

section \<open>Divergences\<close>

text \<open>The enable register cannot be read back: the stream window covers its address first.\<close>

lemma nand_enable_unreadable:
  assumes "off \<ge> 0xB100" and "off < 0xB110"
  shows "nand_read off sz pc (s\<lparr>enabled := b\<rparr>) = (case nand_read off sz pc s of (v, t) \<Rightarrow> (v, t\<lparr>enabled := b\<rparr>))"
proof -
  have off: "\<not> (off \<ge> 0xA000 \<and> off < 0xA020)" "\<not> (off \<ge> 0xA060 \<and> off < 0xA160)" "\<not> (off \<ge> 0xA400 \<and> off < 0xA500)"
    "\<not> (off \<ge> 0xC000 \<and> off < 0xC100)" "off \<ge> 0xB000 \<and> off < 0xB210"
    using assms by (auto simp: word_le_nat_alt word_less_nat_alt)
  have "nand_stream_byte (s\<lparr>enabled := b\<rparr>) = nand_stream_byte s"
    by (rule ext) (cases "img s"; cases "oob s"; simp add: nand_stream_byte_def nand_image_byte_def
        nand_stream_oob_byte_def nand_block_is_allocated_def Let_def)
  then have "nand_stream_read sz (s\<lparr>enabled := b\<rparr>) = (case nand_stream_read sz s of (v, t) \<Rightarrow> (v, t\<lparr>enabled := b\<rparr>))"
    by (simp add: nand_stream_read_def past_limit_def cong: if_cong)
  then show ?thesis unfolding nand_read_def if_not_P [OF off(1)] if_not_P [OF off(2)] if_not_P [OF off(3)]
      if_not_P [OF off(4)] if_P [OF off(5)] by (simp split: prod.splits)
qed

text \<open>
  The 16-bit data port computes its offset with 528-byte pages, while the image holds 512-byte
  pages: it delivers another page's bytes for every page but the first.
\<close>

definition legacy_read_setup :: "u8 \<Rightarrow> u8 list \<Rightarrow> nand_state \<Rightarrow> nand_state" where
  "legacy_read_setup cmd bs s = fold (\<lambda>b. nand_write 0xAC04 1 (ucast b) 0) bs (nand_write 0xAC00 1 (ucast cmd) 0 s)"

lemma port_writes:
  "nand_write 0xAC00 sz v pc s = nand_legacy_command (ucast (v AND 0xFF)) s"
  "nand_write 0xAC04 sz v pc s = snd (nand_legacy_address (ucast (v AND 0xFF)) s)"
  by (simp_all add: nand_write_def)

lemma legacy_cycles:
  assumes "state s = NAND_STATE_READ_DATA"
  shows "addr_cycle s = 0 \<Longrightarrow> snd (nand_legacy_address b s) = s\<lparr>column := (column s AND NOT 0xFF) OR ucast b, addr_cycle := 1\<rparr>"
    and "addr_cycle s = 1 \<Longrightarrow> snd (nand_legacy_address b s) = s\<lparr>page_addr := (page_addr s AND NOT 0xFF) OR ucast b, addr_cycle := 2\<rparr>"
    and "addr_cycle s = 2 \<Longrightarrow> snd (nand_legacy_address b s) =
      (nand_setup_transfer (s\<lparr>page_addr := (page_addr s AND NOT 0xFF00) OR push_bit 8 (ucast b), addr_cycle := 3\<rparr>))\<lparr>ready := True\<rparr>"
    and "addr_cycle s = 3 \<Longrightarrow> snd (nand_legacy_address b s) =
      (nand_setup_transfer (s\<lparr>page_addr := (page_addr s AND NOT 0xFF0000) OR push_bit 16 (ucast b), addr_cycle := 4\<rparr>))\<lparr>ready := True\<rparr>"
proof -
  have le: "\<not> (3::u8) \<le> 1" "\<not> (3::u8) \<le> 2" "(3::u8) \<le> 3" by (simp_all add: word_le_nat_alt)
  show "addr_cycle s = 0 \<Longrightarrow> snd (nand_legacy_address b s) = s\<lparr>column := (column s AND NOT 0xFF) OR ucast b, addr_cycle := 1\<rparr>"
    and "addr_cycle s = 1 \<Longrightarrow> snd (nand_legacy_address b s) = s\<lparr>page_addr := (page_addr s AND NOT 0xFF) OR ucast b, addr_cycle := 2\<rparr>"
    and "addr_cycle s = 2 \<Longrightarrow> snd (nand_legacy_address b s) =
      (nand_setup_transfer (s\<lparr>page_addr := (page_addr s AND NOT 0xFF00) OR push_bit 8 (ucast b), addr_cycle := 3\<rparr>))\<lparr>ready := True\<rparr>"
    and "addr_cycle s = 3 \<Longrightarrow> snd (nand_legacy_address b s) =
      (nand_setup_transfer (s\<lparr>page_addr := (page_addr s AND NOT 0xFF0000) OR push_bit 16 (ucast b), addr_cycle := 4\<rparr>))\<lparr>ready := True\<rparr>"
    using assms by (simp_all add: nand_legacy_address_def Let_def le)
qed

lemma setup_read:
  "state s = NAND_STATE_READ_DATA \<Longrightarrow> column s < 512 \<Longrightarrow>
   nand_setup_transfer s = s\<lparr>nand_offset := page_addr s * 528 + column s, xfer_length := 512 - column s, xfer_cursor := 0\<rparr>"
  by (simp add: nand_setup_transfer_def)

lemma init_ports:
  "page_addr (nand_init im k n) = 0" "img (nand_init im k n) = im" "image_size (nand_init im k n) = k"
  "dio_last_write (nand_init im k n) = 0"
  by (simp_all add: nand_init_def nand_restore_seed_regs_def)

lemma legacy_row3:
  assumes "page_addr s = 0"
  defines "t \<equiv> legacy_read_setup 0 [0, 1, 0] s"
  shows "state t = NAND_STATE_READ_DATA" "column t = 0" "page_addr t = 1" "nand_offset t = 528" "xfer_length t = 512"
    "xfer_cursor t = 0" "img t = img s" "image_size t = image_size s" "dio_last_write t = dio_last_write s"
proof -
  have c: "nand_legacy_command 0 s = s\<lparr>last_cmd := 0, addr_cycle := 0, xfer_cursor := 0, ready := False,
      state := NAND_STATE_READ_DATA, column := 0\<rparr>" by (simp add: nand_legacy_command_def)
  show "state t = NAND_STATE_READ_DATA" "column t = 0" "page_addr t = 1" "nand_offset t = 528" "xfer_length t = 512"
    "xfer_cursor t = 0" "img t = img s" "image_size t = image_size s" "dio_last_write t = dio_last_write s"
    using assms(1) by (simp_all add: t_def legacy_read_setup_def port_writes c legacy_cycles setup_read)
qed

lemma legacy_row4:
  assumes "page_addr s = 0"
  defines "t \<equiv> legacy_read_setup 1 [0x8F, 0x07, 0x1F, 0x7C] s"
  shows "state t = NAND_STATE_READ_DATA" "nand_offset t = 0xFFFFFFFF" "xfer_length t = 0x71"
    "xfer_cursor t = 0" "img t = img s" "image_size t = image_size s"
proof -
  have c: "nand_legacy_command 1 s = s\<lparr>last_cmd := 1, addr_cycle := 0, xfer_cursor := 0, ready := False,
      state := NAND_STATE_READ_DATA, column := 256\<rparr>" by (simp add: nand_legacy_command_def)
  show "state t = NAND_STATE_READ_DATA" "nand_offset t = 0xFFFFFFFF" "xfer_length t = 0x71"
    "xfer_cursor t = 0" "img t = img s" "image_size t = image_size s"
    using assms(1) by (simp_all add: t_def legacy_read_setup_def port_writes c legacy_cycles setup_read)
qed

lemma nand_data_port_wrong_page:
  "fst (nand_read 0xD7FC 2 0 (legacy_read_setup 0 [0, 1, 0] (nand_init (Some im) 0x1000000 n))) =
     ucast (im 528) OR push_bit 8 (ucast (im 529))"
  "ucast (fst (nand_read 0xD200 1 0 (legacy_read_setup 0 [0, 1, 0] (nand_init (Some im) 0x1000000 n)))) = im 512"
  using legacy_row3 [OF init_ports(1), of "Some im" "0x1000000" n]
  by (simp_all add: init_ports nand_read_def nand_read_data_def nand_read_dio_def is_reading_def nand_image_byte_def Let_def)

text \<open>
  And the guard of that port wraps: with a four-byte address the offset can be 0xFFFFFFFF, whose
  successor is 0, so the guard passes and the byte 4 GiB past the start of the image is read.
\<close>

lemma nand_data_port_overread:
  "fst (nand_read 0xD7FC 2 0 (legacy_read_setup 1 [0x8F, 0x07, 0x1F, 0x7C] (nand_init (Some im) 0x1000000 n))) =
     ucast (im 0xFFFFFFFF) OR push_bit 8 (ucast (im 0))"
  using legacy_row4 [OF init_ports(1), of "Some im" "0x1000000" n]
  by (simp add: init_ports nand_read_def nand_read_data_def is_reading_def Let_def)

end
