(* ===== verification/Modem.thy ===== *)
theory Modem
  imports Byte_Ring
begin

text \<open>
  The CF data modem (\<open>src/hw/modem.c\<close>, \<open>src/hw/modem.h\<close>): a 16550 UART in front of a Hayes (AT)
  command interpreter. Its receive buffer is a byte queue that refuses what does not fit. The host
  backend is the record of the calls made to it (\<open>calls\<close>, with what \<open>dial\<close> returned); whether a dialled
  peer answers is an argument of the register write that dials. \<open>int\<close> parameters of commands are kept modulo \<open>2 ^ 32\<close>.
\<close>

abbreviation (input) CF_MODEM_RX :: nat where "CF_MODEM_RX \<equiv> 4096"

datatype backend_call = Dial "u8 list" bool | Hangup | Tx u8

record cf_modem =
  ier :: u8  lcr :: u8  mcr :: u8  fcr :: u8  scr :: u8  dll :: u8  dlm :: u8  msr_delta :: u8
  thre_irq :: bool
  rx :: "u8 list"
  rx_head :: nat
  rx_count :: nat
  gps :: bool
  online :: bool
  echo :: bool
  verbose :: bool
  cmd :: "u8 list"
  cmd_len :: nat
  connect_rate :: u32
  dial :: bool
  hangup :: bool
  tx :: bool
  calls :: "backend_call list"

text \<open>\<open>dial\<close>, \<open>hangup\<close> and \<open>tx\<close> say which callbacks the backend gave.\<close>

definition ascii :: "string \<Rightarrow> u8 list" where
  "ascii t = map of_char t"

section \<open>Output to the guest\<close>

definition push :: "u8 \<Rightarrow> cf_modem \<Rightarrow> cf_modem" where
  "push b m =
     (if rx_count m = CF_MODEM_RX then m
      else m\<lparr>rx := (rx m)[(rx_head m + rx_count m) mod CF_MODEM_RX := b], rx_count := rx_count m + 1\<rparr>)"

definition say :: "u8 list \<Rightarrow> cf_modem \<Rightarrow> cf_modem" where
  "say text m = fold push text m"

fun decimal :: "nat \<Rightarrow> u8 list" where
  "decimal n = (if n < 10 then [of_nat (48 + n)] else decimal (n div 10) @ [of_nat (48 + n mod 10)])"

declare decimal.simps [simp del]

definition result_text :: "bool \<Rightarrow> u8 list \<Rightarrow> nat \<Rightarrow> u8 list" where
  "result_text verb text code = (if verb then [13, 10] @ text @ [13, 10] else decimal code @ [13])"

definition result :: "u8 list \<Rightarrow> nat \<Rightarrow> cf_modem \<Rightarrow> cf_modem" where
  "result text code m = say (result_text (verbose m) text code) m"

section \<open>Reset and the line\<close>

definition cf_modem_reset :: "cf_modem \<Rightarrow> cf_modem" where
  "cf_modem_reset m =
     m\<lparr>ier := 0, lcr := 0, mcr := 0, fcr := 0, scr := 0, dll := 0, dlm := 0, msr_delta := 0, thre_irq := True,
       rx := replicate CF_MODEM_RX 0, rx_head := 0, rx_count := 0, online := gps m, echo := \<not> gps m,
       verbose := \<not> gps m, cmd := replicate 96 0, cmd_len := 0, connect_rate := 52000\<rparr>"

definition call_backend :: "backend_call \<Rightarrow> cf_modem \<Rightarrow> cf_modem" where
  "call_backend c m = m\<lparr>calls := calls m @ [c]\<rparr>"

definition hang_up :: "bool \<Rightarrow> cf_modem \<Rightarrow> cf_modem" where
  "hang_up report m =
     (if \<not> online m then m
      else
        let m = m\<lparr>online := False, msr_delta := msr_delta m OR 0x08\<rparr>;
            m = (if hangup m then call_backend Hangup m else m)
        in if report then result (ascii ''NO CARRIER'') 3 m else m)"

definition cf_modem_carrier_lost :: "cf_modem \<Rightarrow> cf_modem" where
  "cf_modem_carrier_lost m = hang_up True m"

section \<open>The command interpreter\<close>

definition is_digit :: "u8 \<Rightarrow> bool" where
  "is_digit c \<longleftrightarrow> 48 \<le> c \<and> c \<le> 57"

definition to_upper :: "u8 \<Rightarrow> u8" where
  "to_upper c = (if 97 \<le> c \<and> c \<le> 122 then c - 32 else c)"

definition is_alpha :: "u8 \<Rightarrow> bool" where
  "is_alpha c \<longleftrightarrow> 65 \<le> c \<and> c \<le> 90 \<or> 97 \<le> c \<and> c \<le> 122"

fun digits_from :: "u32 \<Rightarrow> u8 list \<Rightarrow> u32 \<times> u8 list" where
  "digits_from v [] = (v, [])"
| "digits_from v (c # p) = (if is_digit c then digits_from (v * 10 + (ucast c - 48)) p else (v, c # p))"

definition digits :: "u8 list \<Rightarrow> u32 \<times> u8 list" where
  "digits p = digits_from 0 p"

lemma digits_from_shorter: "length (snd (digits_from v p)) \<le> length p"
  by (induction v p rule: digits_from.induct) auto

lemma digits_shorter: "length (snd (digits p)) \<le> length p"
  by (simp add: digits_def digits_from_shorter)

text \<open>The dial string, up to a semicolon and to 63 characters.\<close>

fun dial_number :: "u8 list \<Rightarrow> u8 list \<Rightarrow> u8 list" where
  "dial_number number [] = number"
| "dial_number number (c # p) =
     (if c \<noteq> 59 \<and> length number + 1 < 64
      then dial_number (if is_digit c \<or> c = 42 \<or> c = 35 then number @ [c] else number) p
      else number)"

definition execute_dial :: "bool \<Rightarrow> u8 list \<Rightarrow> cf_modem \<Rightarrow> cf_modem" where
  "execute_dial answers p m =
     (let number = dial_number [] p
      in if number = [] then result (ascii ''OK'') 0 m
         else
           let m' = (if dial m then call_backend (Dial number answers) m else m)
           in if \<not> dial m \<or> \<not> answers then result (ascii ''NO CARRIER'') 3 m'
              else
                let m' = result (ascii ''CONNECT '' @ decimal (unat (connect_rate m'))) 1 m'
                in m'\<lparr>online := True, msr_delta := msr_delta m' OR 0x08\<rparr>)"

text \<open>
  One command of the line after \<open>AT\<close>: \<open>Inl\<close> the modem when the line has ended with a result,
  \<open>Inr\<close> the rest of the line and the modem when it goes on.
\<close>

definition execute_one :: "bool \<Rightarrow> u8 \<Rightarrow> u8 list \<Rightarrow> cf_modem \<Rightarrow> cf_modem + (u8 list \<times> cf_modem)" where
  "execute_one answers ch p m =
     (let c = to_upper ch; (v, q) = digits p
      in if c = 32 then Inr (p, m)
         else if c = 90 then Inr (q, m\<lparr>echo := True, verbose := True\<rparr>)
         else if c = 69 then Inr (q, m\<lparr>echo := v \<noteq> 0\<rparr>)
         else if c = 86 then Inr (q, m\<lparr>verbose := v \<noteq> 0\<rparr>)
         else if c = 73 then
           Inr (q, if v = 3 then say ([13, 10] @ ascii ''L27-01'' @ [13, 10]) m
                   else if v = 0 then say ([13, 10] @ ascii ''56000'' @ [13, 10]) m else m)
         else if c = 72 then Inr (q, hang_up False m)
         else if c = 68 then Inl (execute_dial answers p m)
         else if c = 38 then Inr (snd (digits (if p \<noteq> [] then tl p else p)), m)
         else if c = 83 then
           (if q \<noteq> [] \<and> hd q = 61 then Inr (snd (digits (tl q)), m)
            else if q \<noteq> [] \<and> hd q = 63 then Inr (tl q, say ([13, 10] @ ascii ''000'' @ [13, 10]) m)
            else Inr (q, m))
         else if \<not> is_alpha c then Inl (result (ascii ''ERROR'') 4 m)
         else Inr (q, m))"

lemma execute_one_shorter: "execute_one answers ch p m = Inr (q, m') \<Longrightarrow> length q \<le> length p"
  using digits_shorter [of p] digits_shorter [of "tl p"] digits_shorter [of "tl (snd (digits p))"]
  by (auto simp: execute_one_def Let_def split_beta split: if_splits)

function execute_rest :: "bool \<Rightarrow> u8 list \<Rightarrow> cf_modem \<Rightarrow> cf_modem" where
  "execute_rest answers [] m = result (ascii ''OK'') 0 m"
| "execute_rest answers (c # p) m =
     (case execute_one answers c p m of
        Inl m' \<Rightarrow> m'
      | Inr (q, m') \<Rightarrow> execute_rest answers q m')"
  by pat_completeness auto

termination
  by (relation "measure (\<lambda>(_, p, _). length p)") (auto dest: execute_one_shorter)

definition execute :: "bool \<Rightarrow> u8 list \<Rightarrow> cf_modem \<Rightarrow> cf_modem" where
  "execute answers text m =
     (let line = dropWhile (\<lambda>c. c = 32) text
      in case line of
           a # t # p \<Rightarrow>
             if to_upper a \<noteq> 65 \<or> to_upper t \<noteq> 84 then result (ascii ''ERROR'') 4 m else execute_rest answers p m
         | [a] \<Rightarrow> result (ascii ''ERROR'') 4 m
         | [] \<Rightarrow> m)"

definition c_string :: "u8 list \<Rightarrow> u8 list" where
  "c_string bytes = takeWhile (\<lambda>c. c \<noteq> 0) bytes"

definition command_byte :: "bool \<Rightarrow> u8 \<Rightarrow> cf_modem \<Rightarrow> cf_modem" where
  "command_byte answers b m =
     (let m = (if echo m then push b m else m)
      in if b = 13 then
           (let m = m\<lparr>cmd := (cmd m)[cmd_len m := 0], cmd_len := 0\<rparr> in execute answers (c_string (cmd m)) m)
         else if b = 8 \<or> b = 127 then (if cmd_len m \<noteq> 0 then m\<lparr>cmd_len := cmd_len m - 1\<rparr> else m)
         else if 32 \<le> b \<and> b < 127 \<and> cmd_len m + 1 < 96
           then m\<lparr>cmd := (cmd m)[cmd_len m := b], cmd_len := cmd_len m + 1\<rparr>
         else m)"

section \<open>The UART registers\<close>

definition modem_pop :: "cf_modem \<Rightarrow> u8 option \<times> cf_modem" where
  "modem_pop m =
     (if rx_count m = 0 then (None, m)
      else (Some (rx m ! rx_head m), m\<lparr>rx_head := (rx_head m + 1) mod CF_MODEM_RX, rx_count := rx_count m - 1\<rparr>))"

definition read_iir :: "cf_modem \<Rightarrow> u8 \<times> cf_modem" where
  "read_iir m =
     (let fifo = (if fcr m AND 1 \<noteq> 0 then 0xC0 else 0)
      in if ier m AND 1 \<noteq> 0 \<and> rx_count m \<noteq> 0 then (fifo OR 0x04, m)
         else if ier m AND 2 \<noteq> 0 \<and> thre_irq m then (fifo OR 0x02, m\<lparr>thre_irq := False\<rparr>)
         else if ier m AND 8 \<noteq> 0 \<and> msr_delta m \<noteq> 0 then (fifo OR 0x00, m)
         else (fifo OR 0x01, m))"

definition cf_modem_read :: "u32 \<Rightarrow> cf_modem \<Rightarrow> u8 \<times> cf_modem" where
  "cf_modem_read reg m =
     (let dlab = (lcr m AND 0x80 \<noteq> 0); r = reg AND 7
      in if r = 0 then
           (if dlab then (dll m, m)
            else case modem_pop m of (None, m') \<Rightarrow> (0, m') | (Some b, m') \<Rightarrow> (b, m'))
         else if r = 1 then (if dlab then dlm m else ier m, m)
         else if r = 2 then read_iir m
         else if r = 3 then (lcr m, m)
         else if r = 4 then (mcr m, m)
         else if r = 5 then ((if rx_count m \<noteq> 0 then 0x01 else 0) OR 0x20 OR 0x40, m)
         else if r = 6 then
           (0x10 OR 0x20 OR (if online m \<and> \<not> gps m then 0x80 else 0) OR msr_delta m, m\<lparr>msr_delta := 0\<rparr>)
         else (scr m, m))"

definition cf_modem_write :: "bool \<Rightarrow> u32 \<Rightarrow> u8 \<Rightarrow> cf_modem \<Rightarrow> cf_modem" where
  "cf_modem_write answers reg value m =
     (let dlab = (lcr m AND 0x80 \<noteq> 0); r = reg AND 7
      in if r = 0 then
           (if dlab then m\<lparr>dll := value\<rparr>
            else
              (if online m \<or> gps m then (if tx m then call_backend (Tx value) m else m)
               else command_byte answers value m)\<lparr>thre_irq := True\<rparr>)
         else if r = 1 then
           (if dlab then m\<lparr>dlm := value\<rparr>
            else (if value AND 2 \<noteq> 0 \<and> ier m AND 2 = 0 then m\<lparr>thre_irq := True\<rparr> else m)\<lparr>ier := value AND 0x0F\<rparr>)
         else if r = 2 then
           (if value AND 2 \<noteq> 0 then m\<lparr>fcr := value, rx_head := 0, rx_count := 0\<rparr> else m\<lparr>fcr := value\<rparr>)
         else if r = 3 then m\<lparr>lcr := value\<rparr>
         else if r = 4 then
           (let dtr_was = (mcr m AND 1 \<noteq> 0); m = m\<lparr>mcr := value\<rparr>
            in if gps m then m
               else if dtr_was \<and> value AND 1 = 0 then hang_up True m
               else m)
         else if r = 7 then m\<lparr>scr := value\<rparr>
         else m)"

definition cf_modem_rx_space :: "cf_modem \<Rightarrow> nat" where
  "cf_modem_rx_space m = CF_MODEM_RX - rx_count m"

fun receive_loop :: "nat \<Rightarrow> u8 list \<Rightarrow> cf_modem \<Rightarrow> nat \<times> cf_modem" where
  "receive_loop n [] m = (n, m)"
| "receive_loop n (b # bs) m = (if rx_count m < CF_MODEM_RX then receive_loop (n + 1) bs (push b m) else (n, m))"

definition cf_modem_receive :: "u8 list \<Rightarrow> cf_modem \<Rightarrow> nat \<times> cf_modem" where
  "cf_modem_receive data m = (if \<not> online m then (0, m) else receive_loop 0 data m)"

definition cf_modem_irq_pending :: "cf_modem \<Rightarrow> bool" where
  "cf_modem_irq_pending m \<longleftrightarrow>
     ier m AND 1 \<noteq> 0 \<and> rx_count m \<noteq> 0 \<or> ier m AND 2 \<noteq> 0 \<and> thre_irq m \<or> ier m AND 8 \<noteq> 0 \<and> msr_delta m \<noteq> 0"

section \<open>The receive buffer is a queue that refuses\<close>

definition modem_items :: "cf_modem \<Rightarrow> u8 list" where
  "modem_items m = ring_list (rx m) (rx_head m) (rx_count m)"

definition rx_ok :: "cf_modem \<Rightarrow> bool" where
  [wf_simps]: "rx_ok m \<longleftrightarrow> length (rx m) = CF_MODEM_RX \<and> rx_head m < CF_MODEM_RX \<and> rx_count m \<le> CF_MODEM_RX"

lemma modem_items_length [simp]: "length (modem_items m) = rx_count m"
  by (simp add: modem_items_def)

lemma push_queue:
  assumes "rx_ok m"
  shows "modem_items (push b m) = take CF_MODEM_RX (modem_items m @ [b])" "rx_ok (push b m)"
proof -
  consider "rx_count m = CF_MODEM_RX" | "rx_count m < CF_MODEM_RX" using assms by (fastforce simp: wf_simps)
  then have "modem_items (push b m) = take CF_MODEM_RX (modem_items m @ [b]) \<and> rx_ok (push b m)"
  proof cases
    case 1
    then show ?thesis using assms by (simp add: push_def)
  next
    case 2
    then show ?thesis
      using assms ring_list_push [of "rx_count m" "rx m" "rx_head m" b] by (simp add: push_def modem_items_def wf_simps)
  qed
  then show "modem_items (push b m) = take CF_MODEM_RX (modem_items m @ [b])" "rx_ok (push b m)" by simp_all
qed

lemma pop_queue:
  assumes "rx_ok m" and "modem_items m = x # xs"
  shows "fst (modem_pop m) = Some x" "modem_items (snd (modem_pop m)) = xs" "rx_ok (snd (modem_pop m))"
proof -
  have pos: "0 < rx_count m" using assms(2) modem_items_length [of m] by simp
  then have "x # xs = rx m ! rx_head m # ring_list (rx m) ((rx_head m + 1) mod CF_MODEM_RX) (rx_count m - 1)"
    using assms ring_list_pop [OF pos, of "rx m" "rx_head m"] by (simp add: modem_items_def wf_simps)
  then show "fst (modem_pop m) = Some x" "modem_items (snd (modem_pop m)) = xs" "rx_ok (snd (modem_pop m))"
    using pos assms(1) by (auto simp: modem_pop_def modem_items_def wf_simps)
qed

interpretation modem_rx: reject_new_fifo rx_ok modem_items "\<lambda>_. CF_MODEM_RX" modem_pop push
proof unfold_locales
  fix q assume "rx_ok q" "modem_items q = []"
  then have "rx_count q = 0" using modem_items_length [of q] by simp
  then show "modem_pop q = (None, q)" by (simp add: modem_pop_def)
qed (simp_all add: push_queue pop_queue, simp add: wf_simps)

text \<open>What output leaves alone: everything but the receive buffer and its count.\<close>

lemma push_frame [simp]:
  "ier (push b m) = ier m" "lcr (push b m) = lcr m" "mcr (push b m) = mcr m" "msr_delta (push b m) = msr_delta m"
  "thre_irq (push b m) = thre_irq m" "gps (push b m) = gps m" "online (push b m) = online m"
  "echo (push b m) = echo m" "verbose (push b m) = verbose m" "cmd (push b m) = cmd m" "cmd_len (push b m) = cmd_len m"
  "connect_rate (push b m) = connect_rate m" "dial (push b m) = dial m" "hangup (push b m) = hangup m"
  "tx (push b m) = tx m" "calls (push b m) = calls m"
  by (simp_all add: push_def)

lemma say_frame [simp]:
  "ier (say t m) = ier m" "lcr (say t m) = lcr m" "mcr (say t m) = mcr m" "msr_delta (say t m) = msr_delta m"
  "thre_irq (say t m) = thre_irq m" "gps (say t m) = gps m" "online (say t m) = online m"
  "echo (say t m) = echo m" "verbose (say t m) = verbose m" "cmd (say t m) = cmd m" "cmd_len (say t m) = cmd_len m"
  "connect_rate (say t m) = connect_rate m" "dial (say t m) = dial m" "hangup (say t m) = hangup m"
  "tx (say t m) = tx m" "calls (say t m) = calls m"
  by (induction t arbitrary: m) (simp_all add: say_def)

lemma result_frame [simp]:
  "ier (result t c m) = ier m" "lcr (result t c m) = lcr m" "mcr (result t c m) = mcr m" "msr_delta (result t c m) = msr_delta m"
  "thre_irq (result t c m) = thre_irq m" "gps (result t c m) = gps m" "online (result t c m) = online m"
  "echo (result t c m) = echo m" "verbose (result t c m) = verbose m" "cmd (result t c m) = cmd m"
  "cmd_len (result t c m) = cmd_len m" "connect_rate (result t c m) = connect_rate m" "dial (result t c m) = dial m"
  "hangup (result t c m) = hangup m" "tx (result t c m) = tx m" "calls (result t c m) = calls m"
  by (simp_all add: result_def)

lemma say_items:
  "rx_ok m \<Longrightarrow> rx_count m + length t \<le> CF_MODEM_RX \<Longrightarrow>
   modem_items (say t m) = modem_items m @ t \<and> rx_ok (say t m) \<and> rx_count (say t m) = rx_count m + length t"
  using modem_rx.push_all [of m t] modem_items_length [of "say t m"] by (simp add: say_def)

lemma say_ok [simp]: "rx_ok m \<Longrightarrow> rx_ok (say t m)"
  using modem_rx.push_all [of m t] by (simp add: say_def)

lemma result_ok [simp]: "rx_ok m \<Longrightarrow> rx_ok (result t c m)"
  by (simp add: result_def)

section \<open>Well-formed states and sessions\<close>

definition modem_wf :: "cf_modem \<Rightarrow> bool" where
  "modem_wf m \<longleftrightarrow> rx_ok m \<and> length (cmd m) = 96 \<and> cmd_len m < 96 \<and>
     (\<forall>c \<in> set (take (cmd_len m) (cmd m)). 32 \<le> c \<and> c < 127) \<and> ier m AND 0xF0 = 0"

text \<open>
  The calls a backend has seen, replayed: \<open>Some up\<close> when every byte was sent on a connection, every
  hang-up ended one and no dial was made during one; \<open>None\<close> when the modem broke that protocol.
\<close>

fun session :: "bool \<Rightarrow> backend_call list \<Rightarrow> bool option" where
  "session up [] = Some up"
| "session up (Dial n answered # cs) = (if up then None else session answered cs)"
| "session up (Hangup # cs) = (if up then session False cs else None)"
| "session up (Tx b # cs) = (if up then session up cs else None)"

lemma session_append: "session up (as @ bs) = (case session up as of None \<Rightarrow> None | Some up' \<Rightarrow> session up' bs)"
  by (induction up as rule: session.induct) auto

text \<open>The calls since \<open>pre\<close> was the log.\<close>

definition in_step :: "backend_call list \<Rightarrow> cf_modem \<Rightarrow> bool" where
  "in_step pre m \<longleftrightarrow> (\<not> gps m \<longrightarrow> dial m \<longrightarrow> hangup m \<longrightarrow> tx m \<longrightarrow>
     length pre \<le> length (calls m) \<and> take (length pre) (calls m) = pre \<and>
     session False (drop (length pre) (calls m)) = Some (online m))"

text \<open>What a command, a line or a hang-up may do to the rest of the card.\<close>

definition commanded :: "cf_modem \<Rightarrow> cf_modem \<Rightarrow> bool" where
  "commanded m m' \<longleftrightarrow> (rx_ok m \<longrightarrow> rx_ok m') \<and> ier m' = ier m \<and> lcr m' = lcr m \<and> cmd m' = cmd m \<and>
     cmd_len m' = cmd_len m \<and> gps m' = gps m \<and> dial m' = dial m \<and> hangup m' = hangup m \<and> tx m' = tx m \<and>
     connect_rate m' = connect_rate m \<and> (\<forall>pre. in_step pre m \<longrightarrow> in_step pre m') \<and>
     (bit (msr_delta m) 3 \<longrightarrow> bit (msr_delta m') 3) \<and> (online m' \<noteq> online m \<longrightarrow> bit (msr_delta m') 3)"

lemma commanded_refl [simp]: "commanded m m"
  by (simp add: commanded_def)

lemma commanded_trans [trans]: "commanded m m' \<Longrightarrow> commanded m' m'' \<Longrightarrow> commanded m m''"
  by (auto simp: commanded_def)

lemma commanded_output [simp]: "commanded m (say t m)" "commanded m (result t c m)"
  by (simp_all add: commanded_def in_step_def)

lemma commanded_modes [simp]: "commanded m (m\<lparr>echo := a\<rparr>)" "commanded m (m\<lparr>verbose := b\<rparr>)"
  "commanded m (m\<lparr>echo := a, verbose := b\<rparr>)"
  by (simp_all add: commanded_def in_step_def rx_ok_def)

lemma bit_eight: "bit (8 :: u8) n \<longleftrightarrow> n = 3"
proof -
  have eq: "(8 :: u8) = push_bit 3 1" by simp
  show ?thesis unfolding eq bit_push_bit_iff bit_1_iff by auto
qed

lemma commanded_hang_up [simp]: "commanded m (hang_up r m)"
proof -
  have "commanded m (m\<lparr>online := False, msr_delta := msr_delta m OR 8\<rparr>)" if "\<not> hangup m"
    using that by (auto simp: commanded_def in_step_def rx_ok_def bit_simps bit_eight)
  moreover have "commanded m (call_backend Hangup (m\<lparr>online := False, msr_delta := msr_delta m OR 8\<rparr>))" if "online m"
    using that by (auto simp: commanded_def in_step_def rx_ok_def call_backend_def session_append bit_simps bit_eight)
  ultimately show ?thesis by (auto simp: hang_up_def Let_def intro: commanded_trans)
qed

lemma commanded_dial: "\<not> online m \<Longrightarrow> commanded m (execute_dial a p m)"
proof -
  assume off: "\<not> online m"
  let ?n = "dial_number [] p"
  have "commanded m (call_backend (Dial ?n False) m)"
    using off by (auto simp: commanded_def in_step_def rx_ok_def call_backend_def session_append)
  moreover have "commanded m ((result t c (call_backend (Dial ?n True) m))\<lparr>online := True, msr_delta := d OR 8\<rparr>)" for t c d
    using off result_ok [of "call_backend (Dial ?n True) m" t c]
    by (auto simp: commanded_def in_step_def rx_ok_def call_backend_def session_append bit_simps bit_eight)
  ultimately show ?thesis
    by (cases a) (auto simp: execute_dial_def Let_def intro: commanded_trans)
qed

lemma commanded_one:
  assumes "\<not> online m"
  shows "case execute_one a ch p m of Inl m' \<Rightarrow> commanded m m' | Inr (q, m') \<Rightarrow> commanded m m' \<and> \<not> online m'"
  using assms commanded_dial [OF assms]
  by (auto simp: execute_one_def Let_def split_beta hang_up_def split: sum.splits)

lemma commanded_rest: "\<not> online m \<Longrightarrow> commanded m (execute_rest a p m)"
proof (induction a p m rule: execute_rest.induct)
  case (2 a ch p m)
  show ?case
  proof (cases "execute_one a ch p m")
    case (Inl m')
    then show ?thesis using commanded_one [OF 2(2), of a ch p] by simp
  next
    case (Inr r)
    then show ?thesis using commanded_one [OF 2(2), of a ch p] 2(1)
      by (cases r) (auto intro: commanded_trans)
  qed
qed simp

lemma commanded_execute: "\<not> online m \<Longrightarrow> commanded m (execute a text m)"
  by (auto simp: execute_def Let_def commanded_rest split: list.splits)

lemma execute_blank [simp]: "execute a [] m = m"
  by (simp add: execute_def)

section \<open>Everything that happens to the card\<close>

datatype modem_event =
  Reg_read u32 | Reg_write bool u32 u8 | Peer_data "u8 list" | Carrier_lost | Card_reset

fun modem_step :: "modem_event \<Rightarrow> cf_modem \<Rightarrow> cf_modem" where
  "modem_step (Reg_read reg) m = snd (cf_modem_read reg m)"
| "modem_step (Reg_write answers reg v) m = cf_modem_write answers reg v m"
| "modem_step (Peer_data bs) m = snd (cf_modem_receive bs m)"
| "modem_step Carrier_lost m = cf_modem_carrier_lost m"
| "modem_step Card_reset m = cf_modem_reset m"

lemma commanded_wf: "modem_wf m \<Longrightarrow> commanded m m' \<Longrightarrow> modem_wf m'"
  by (auto simp: modem_wf_def commanded_def)

lemma commanded_push [simp]: "commanded m (push b m)"
  using commanded_output(1) [of m "[b]"] by (simp add: say_def)

lemma commanded_receive: "commanded m (snd (receive_loop n bs m))"
  by (induction n bs m rule: receive_loop.induct) (auto intro: commanded_trans [OF commanded_push])

lemma commanded_pop [simp]: "commanded m (snd (modem_pop m))"
  by (auto simp: modem_pop_def commanded_def in_step_def rx_ok_def)

lemma wf_type:
  assumes "modem_wf m" and "32 \<le> b" and "b < 127" and "cmd_len m + 1 < 96"
  shows "modem_wf (m\<lparr>cmd := (cmd m)[cmd_len m := b], cmd_len := cmd_len m + 1\<rparr>)"
  using assms by (auto simp: modem_wf_def rx_ok_def take_Suc_conv_app_nth)

lemma wf_untype: "modem_wf m \<Longrightarrow> modem_wf (m\<lparr>cmd_len := cmd_len m - 1\<rparr>)"
  using set_take_subset_set_take [of "cmd_len m - 1" "cmd_len m" "cmd m"] by (auto simp: modem_wf_def rx_ok_def)

lemma command_byte_wf:
  assumes "modem_wf m" and "\<not> online m"
  shows "modem_wf (command_byte a b m)"
proof -
  let ?e = "if echo m then push b m else m"
  have e: "modem_wf ?e" "\<not> online ?e" using assms commanded_wf [OF _ commanded_push] by simp_all
  then have "modem_wf (?e\<lparr>cmd := (cmd ?e)[cmd_len ?e := 0], cmd_len := 0\<rparr>)" by (simp add: modem_wf_def rx_ok_def)
  then have "modem_wf (execute a t (?e\<lparr>cmd := (cmd ?e)[cmd_len ?e := 0], cmd_len := 0\<rparr>))" for t
    by (rule commanded_wf [OF _ commanded_execute]) (use e(2) in simp)
  moreover have "modem_wf (?e\<lparr>cmd_len := cmd_len ?e - 1\<rparr>)"
    by (rule wf_untype [OF e(1)])
  ultimately show ?thesis using e(1) wf_type [of ?e b] unfolding command_byte_def Let_def by auto
qed

lemma cf_modem_reset_wf: "modem_wf (cf_modem_reset m)"
  by (simp add: modem_wf_def rx_ok_def cf_modem_reset_def)

lemma step_wf: "modem_wf m \<Longrightarrow> modem_wf (modem_step e m)"
proof (cases e)
  case (Reg_read reg)
  assume "modem_wf m"
  moreover from this have "modem_wf (snd (modem_pop m))" by (rule commanded_wf) simp
  moreover have "modem_wf (m\<lparr>thre_irq := b\<rparr>)" "modem_wf (m\<lparr>msr_delta := d\<rparr>)" for b d
    using \<open>modem_wf m\<close> by (simp_all add: modem_wf_def rx_ok_def)
  ultimately show ?thesis
    by (simp add: Reg_read cf_modem_read_def read_iir_def Let_def split_beta split: option.splits prod.splits)
next
  case (Reg_write a reg v)
  assume wf: "modem_wf m"
  have thre: "modem_wf m' \<Longrightarrow> modem_wf (m'\<lparr>thre_irq := b\<rparr>)" for m' b by (simp add: modem_wf_def rx_ok_def)
  have "(v AND 0x0F) AND 0xF0 = 0" unfolding and.assoc by simp
  then have ier: "modem_wf m' \<Longrightarrow> modem_wf (m'\<lparr>ier := v AND 0x0F\<rparr>)" for m' by (simp add: modem_wf_def rx_ok_def)
  have hup: "modem_wf (hang_up r m')" if "modem_wf m'" for r m' using that by (rule commanded_wf) simp
  have plain: "modem_wf (m\<lparr>dll := v\<rparr>)" "modem_wf (m\<lparr>dlm := v\<rparr>)" "modem_wf (m\<lparr>fcr := v, rx_head := 0, rx_count := 0\<rparr>)"
    "modem_wf (m\<lparr>fcr := v\<rparr>)" "modem_wf (m\<lparr>lcr := v\<rparr>)" "modem_wf (m\<lparr>mcr := v\<rparr>)" "modem_wf (m\<lparr>scr := v\<rparr>)"
    "modem_wf (call_backend c m)" for c
    using wf by (simp_all add: modem_wf_def rx_ok_def call_backend_def)
  show ?thesis
    by (simp add: Reg_write cf_modem_write_def Let_def wf plain thre ier hup command_byte_wf)
next
  case (Peer_data bs)
  assume "modem_wf m"
  then show ?thesis using commanded_wf [OF _ commanded_receive] by (simp add: Peer_data cf_modem_receive_def)
next
  case Carrier_lost
  assume "modem_wf m"
  then show ?thesis by (rule commanded_wf) (simp add: Carrier_lost cf_modem_carrier_lost_def)
next
  case Card_reset
  then show ?thesis by (simp add: cf_modem_reset_wf)
qed

interpretation modem: device modem_step modem_wf
  by unfold_locales (rule step_wf)

text \<open>The line: what one access does to the connection, the backend's log and the carrier delta.\<close>

definition line_kept :: "cf_modem \<Rightarrow> cf_modem \<Rightarrow> bool" where
  "line_kept m m' \<longleftrightarrow> (\<forall>pre. in_step pre m \<longrightarrow> in_step pre m') \<and> (online m' \<noteq> online m \<longrightarrow> bit (msr_delta m') 3) \<and>
     gps m' = gps m \<and> dial m' = dial m \<and> hangup m' = hangup m \<and> tx m' = tx m"

lemma commanded_line: "commanded m m' \<Longrightarrow> line_kept m m'"
  by (auto simp: commanded_def line_kept_def)

lemma line_kept_same: "online m' = online m \<Longrightarrow> calls m' = calls m \<Longrightarrow> gps m' = gps m \<Longrightarrow> dial m' = dial m \<Longrightarrow>
    hangup m' = hangup m \<Longrightarrow> tx m' = tx m \<Longrightarrow> line_kept m m'"
  by (simp add: line_kept_def in_step_def)

lemma line_kept_if: "line_kept m a \<Longrightarrow> line_kept m b \<Longrightarrow> line_kept m (if c then a else b)"
  by simp

lemma line_kept_start: "line_kept m' m'' \<Longrightarrow> online m' = online m \<Longrightarrow> calls m' = calls m \<Longrightarrow> gps m' = gps m \<Longrightarrow>
    dial m' = dial m \<Longrightarrow> hangup m' = hangup m \<Longrightarrow> tx m' = tx m \<Longrightarrow> line_kept m m''"
  by (simp add: line_kept_def in_step_def)

lemma command_byte_line: "\<not> online m \<Longrightarrow> line_kept m (command_byte a b m)"
  unfolding command_byte_def Let_def
  by (intro line_kept_if line_kept_start [OF commanded_line [OF commanded_execute]] line_kept_same) simp_all

lemma step_line:
  assumes "e \<noteq> Card_reset"
  shows "line_kept m (modem_step e m)"
proof (cases e)
  case (Reg_read reg)
  have "line_kept m (snd (modem_pop m))" by (intro commanded_line) simp
  then show ?thesis
    by (simp add: Reg_read cf_modem_read_def read_iir_def Let_def split_beta line_kept_same split: option.splits prod.splits)
next
  case (Reg_write a reg v)
  have "line_kept m (call_backend (Tx v) m)" if "online m \<or> gps m"
    using that by (auto simp: line_kept_def in_step_def call_backend_def session_append)
  then have thr: "line_kept m ((if online m \<or> gps m then (if tx m then call_backend (Tx v) m else m)
      else command_byte a v m)\<lparr>thre_irq := True\<rparr>)"
    using command_byte_line [of m a v] line_kept_same [of m m] by (auto simp: line_kept_def in_step_def)
  have hup: "line_kept m (hang_up True (m\<lparr>mcr := v\<rparr>))"
    by (rule line_kept_start [OF commanded_line [OF commanded_hang_up]]) simp_all
  show ?thesis unfolding Reg_write modem_step.simps cf_modem_write_def Let_def
    by (intro line_kept_if thr hup line_kept_same) simp_all
next
  case (Peer_data bs)
  then show ?thesis
    by (simp add: cf_modem_receive_def commanded_line [OF commanded_receive] commanded_line [OF commanded_refl])
next
  case Carrier_lost
  then show ?thesis by (simp add: cf_modem_carrier_lost_def commanded_line)
qed (use assms in simp)

section \<open>Properties\<close>

text \<open>C15: The modem's memory safety and interrupt line. Whatever the guest writes and reads, the peer
  sends and the host does, the ring indices and the command index stay inside their arrays, the
  command buffer holds printable characters, and the interrupt is raised exactly when the
  identification register names a cause and data ready exactly when a byte can be read.\<close>

theorem modem_well_formed:
  "let t = fold modem_step es (cf_modem_reset m) in
   rx_head t < length (rx t) \<and> rx_count t \<le> length (rx t) \<and> cmd_len t < length (cmd t) \<and>
   list_all (\<lambda>c. 32 \<le> c \<and> c < 127) (take (cmd_len t) (cmd t)) \<and>
   (cf_modem_irq_pending t \<longleftrightarrow> fst (cf_modem_read 2 t) AND 1 = 0) \<and>
   (fst (cf_modem_read 5 t) AND 1 = 1 \<longleftrightarrow> fst (modem_pop t) \<noteq> None)"
proof -
  let ?t = "fold modem_step es (cf_modem_reset m)"
  have "modem_wf ?t" by (intro modem.run_inv cf_modem_reset_wf)
  moreover have "cf_modem_irq_pending t \<longleftrightarrow> fst (cf_modem_read 2 t) AND 1 = 0" for t
    by (auto simp: cf_modem_irq_pending_def cf_modem_read_def read_iir_def Let_def)
  moreover have "fst (cf_modem_read 5 t) AND 1 = 1 \<longleftrightarrow> fst (modem_pop t) \<noteq> None" for t
    by (simp add: cf_modem_read_def modem_pop_def Let_def)
  ultimately show ?thesis by (simp add: modem_wf_def rx_ok_def list_all_iff Let_def)
qed

lemma run_line: "Card_reset \<notin> set es \<Longrightarrow> in_step pre m \<Longrightarrow>
  (let t = fold modem_step es m in in_step pre t \<and> gps t = gps m \<and> dial t = dial m \<and> hangup t = hangup m \<and> tx t = tx m)"
proof (induction es arbitrary: m)
  case (Cons e es)
  then have "e \<noteq> Card_reset" by auto
  from step_line [OF this, of m] Cons show ?case by (auto simp: line_kept_def Let_def)
qed simp

text \<open>C13: From one reset of the card to the next, the backend sees well-formed calls. Whatever happened
  before the reset, until the next one every byte sent falls between an answered dial and its
  hang-up, no number is dialled during a call and none is hung up twice; a call is open exactly while the modem
  is online, and every change of the carrier is reported in the modem status delta.\<close>

theorem modem_line_sessions:
  assumes "\<not> gps m" and "dial m" and "hangup m" and "tx m" and "Card_reset \<notin> set es"
  shows "let t = fold modem_step es (cf_modem_reset m) in
    (\<exists>cs. calls t = calls m @ cs \<and> session False cs = Some (online t)) \<and>
    (\<forall>e. e = Card_reset \<or> online (modem_step e t) = online t \<or> bit (msr_delta (modem_step e t)) 3)"
proof -
  define t where "t = fold modem_step es (cf_modem_reset m)"
  have "in_step (calls m) (cf_modem_reset m)" using assms by (simp add: in_step_def cf_modem_reset_def)
  from run_line [OF assms(5) this] have t: "in_step (calls m) t" "\<not> gps t" "dial t" "hangup t" "tx t"
    using assms by (auto simp: t_def cf_modem_reset_def Let_def)
  then have "calls t = calls m @ drop (length (calls m)) (calls t)" "session False (drop (length (calls m)) (calls t)) = Some (online t)"
    by (auto simp: in_step_def) (metis append_take_drop_id)
  moreover have "online (modem_step e t) = online t \<or> bit (msr_delta (modem_step e t)) 3" if "e \<noteq> Card_reset" for e
    using step_line [OF that, of t] by (auto simp: line_kept_def)
  ultimately show ?thesis unfolding Let_def t_def [symmetric] by blast
qed

text \<open>A reset during a call tells the backend nothing: the next dial finds the call still open.\<close>

lemma modem_reset_keeps_call: "calls (cf_modem_reset m) = calls m" "\<not> gps m \<Longrightarrow> \<not> online (cf_modem_reset m)"
  by (simp_all add: cf_modem_reset_def)

definition backend_example :: cf_modem where
  "backend_example = \<lparr>ier = 0, lcr = 0, mcr = 0, fcr = 0, scr = 0, dll = 0, dlm = 0, msr_delta = 0, thre_irq = False,
     rx = [], rx_head = 0, rx_count = 0, gps = False, online = False, echo = False, verbose = False, cmd = [],
     cmd_len = 0, connect_rate = 0, dial = True, hangup = True, tx = True, calls = []\<rparr>"

lemma backend_fields: "\<not> gps backend_example" "dial backend_example" "hangup backend_example" "tx backend_example"
  "calls backend_example = []"
  by (simp_all add: backend_example_def)

theorem modem_line_sessions_witness:
  "let t = fold modem_step (map (Reg_write True 0) (ascii ''ATD5'' @ [13, 42]) @ [Carrier_lost])
      (cf_modem_reset (fold modem_step (map (Reg_write True 0) (ascii ''ATD7'' @ [13])) (cf_modem_reset backend_example)))
   in \<exists>cs. calls t = calls (fold modem_step (map (Reg_write True 0) (ascii ''ATD7'' @ [13])) (cf_modem_reset backend_example)) @ cs \<and>
      session False cs = Some (online t)"
proof -
  let ?before = "map (Reg_write True 0) (ascii ''ATD7'' @ [13])"
  let ?m = "fold modem_step ?before (cf_modem_reset backend_example)"
  have "Card_reset \<notin> set ?before" by auto
  from run_line [OF this, of "[]" "cf_modem_reset backend_example"]
  have m: "\<not> gps ?m" "dial ?m" "hangup ?m" "tx ?m"
    using backend_fields by (simp_all add: in_step_def cf_modem_reset_def Let_def)
  have "Card_reset \<notin> set (map (Reg_write True 0) (ascii ''ATD5'' @ [13, 42]) @ [Carrier_lost])" by auto
  from modem_line_sessions [OF m this] show ?thesis unfolding Let_def by blast
qed

section \<open>Every command line is answered\<close>

definition result_word :: "u32 \<Rightarrow> nat \<Rightarrow> u8 list" where
  "result_word rate code =
     (if code = 0 then ascii ''OK'' else if code = 1 then ascii ''CONNECT '' @ decimal (unat rate)
      else if code = 3 then ascii ''NO CARRIER'' else ascii ''ERROR'')"

definition info_texts :: "u8 list set" where
  "info_texts = {[13, 10] @ ascii t @ [13, 10] | t. t \<in> {''L27-01'', ''56000'', ''000''}}"

lemma decimal_length: "n < 10 ^ k \<Longrightarrow> 0 < k \<Longrightarrow> length (decimal n) \<le> k"
proof (induction n arbitrary: k rule: decimal.induct)
  case (1 n)
  show ?case
  proof (cases "n < 10")
    case True
    then show ?thesis using 1(3) by (subst decimal.simps) simp
  next
    case False
    obtain j where k: "k = Suc j" using 1(3) by (cases k) auto
    then have "0 < j" using False 1(2) by (cases j) auto
    moreover have "n div 10 < 10 ^ j" using 1(2) k by (simp add: less_mult_imp_div_less mult.commute)
    ultimately have "length (decimal (n div 10)) \<le> j" using 1(1) False by blast
    then show ?thesis using False k by (subst decimal.simps) simp
  qed
qed

lemma result_text_length: "code < 10 \<Longrightarrow> length (result_text v (result_word rate code) code) \<le> 30"
proof -
  have "unat rate < 10 ^ 10" using unat_lt2p [of rate] by simp
  from decimal_length [OF this] have "length (decimal (unat rate)) \<le> 10" by simp
  moreover assume "code < 10"
  then have "length (decimal code) \<le> 1" by (intro decimal_length) auto
  ultimately show ?thesis by (simp add: result_text_def result_word_def ascii_def)
qed

text \<open>What a command line may print: information texts, then exactly one result.\<close>

definition answered :: "cf_modem \<Rightarrow> cf_modem \<Rightarrow> bool" where
  "answered m t \<longleftrightarrow> (\<exists>info code. set info \<subseteq> info_texts \<and> code \<in> {0, 1, 3, 4} \<and> (online t \<longleftrightarrow> code = 1) \<and>
     modem_items t = modem_items m @ concat info @ result_text (verbose t) (result_word (connect_rate m) code) code)"

lemma result_answers:
  assumes "rx_ok m" and "rx_count m + 30 \<le> CF_MODEM_RX" and "code \<in> {0, 3, 4}" and "\<not> online m"
  shows "answered m (result (result_word (connect_rate m) code) code m)"
proof -
  have "length (result_text (verbose m) (result_word (connect_rate m) code) code) \<le> 30"
    using assms(3) by (intro result_text_length) auto
  then show ?thesis unfolding answered_def
    by (intro exI [of _ "[]"] exI [of _ code])
      (use assms say_items [of m "result_text (verbose m) (result_word (connect_rate m) code) code"] in \<open>auto simp: result_def\<close>)
qed

lemma answered_info:
  "answered m' t \<Longrightarrow> modem_items m' = modem_items m @ i \<Longrightarrow> i \<in> insert [] info_texts \<Longrightarrow> connect_rate m' = connect_rate m \<Longrightarrow>
   answered m t"
  unfolding answered_def
proof (elim exE conjE, goal_cases)
  case (1 info code)
  then show ?case by (intro exI [of _ "if i = [] then info else i # info"] exI [of _ code]) auto
qed

lemma items_call [simp]: "modem_items (call_backend c m) = modem_items m" "rx_ok (call_backend c m) = rx_ok m"
  "rx_count (call_backend c m) = rx_count m" "connect_rate (call_backend c m) = connect_rate m"
  "online (call_backend c m) = online m" "verbose (call_backend c m) = verbose m"
  by (simp_all add: call_backend_def modem_items_def rx_ok_def)

lemma answered_call [simp]: "answered (call_backend c m) t = answered m t"
  by (simp add: answered_def)

lemma dial_answers:
  assumes "rx_ok m" and "rx_count m + 30 \<le> CF_MODEM_RX" and "\<not> online m"
  shows "answered m (execute_dial a p m)"
proof -
  have ok: "answered m (result (ascii ''OK'') 0 m)" and no: "answered m (result (ascii ''NO CARRIER'') 3 m)"
    using result_answers [OF assms(1,2) _ assms(3), of 0] result_answers [OF assms(1,2) _ assms(3), of 3]
    by (simp_all add: result_word_def)
  let ?c = "call_backend (Dial (dial_number [] p) a) m"
  have no': "answered m (result (ascii ''NO CARRIER'') 3 ?c)"
    using result_answers [of ?c 3] assms by (simp add: result_word_def)
  let ?t = "result_text (verbose m) (result_word (connect_rate m) 1) 1"
  have "length ?t \<le> 30" by (rule result_text_length) simp
  then have "modem_items (say ?t ?c) = modem_items m @ ?t"
    using say_items [of ?c ?t] assms by simp
  then have "modem_items (result (ascii ''CONNECT '' @ decimal (unat (connect_rate m))) 1 ?c) = modem_items m @ ?t"
    by (simp add: result_def result_word_def)
  then have yes: "answered m ((result (ascii ''CONNECT '' @ decimal (unat (connect_rate m))) 1 ?c)\<lparr>online := True, msr_delta := d\<rparr>)" for d
    unfolding answered_def
    by (intro exI [of _ "[]"] exI [of _ 1]) (simp add: modem_items_def)
  show ?thesis using ok no no' yes by (cases a) (simp_all add: execute_dial_def Let_def)
qed

definition goes_on :: "cf_modem \<Rightarrow> cf_modem \<Rightarrow> bool" where
  "goes_on m m' \<longleftrightarrow> (\<exists>i \<in> insert [] info_texts. modem_items m' = modem_items m @ i) \<and> rx_count m' \<le> rx_count m + 11 \<and>
     rx_ok m' \<and> \<not> online m' \<and> connect_rate m' = connect_rate m"

lemma goes_on_say:
  assumes "rx_ok m" and "rx_count m + 30 \<le> CF_MODEM_RX" and "\<not> online m" and "t \<in> {''L27-01'', ''56000'', ''000''}"
  shows "goes_on m (say ([13, 10] @ ascii t @ [13, 10]) m)"
proof -
  have "length ([13, 10] @ ascii t @ [13, 10]) \<le> 10" using assms(4) by (auto simp: ascii_def)
  then show ?thesis using say_items [of m "[13, 10] @ ascii t @ [13, 10]"] assms
    unfolding goes_on_def info_texts_def by fastforce
qed

lemma goes_on_modes:
  assumes "rx_ok m" and "\<not> online m"
  shows "goes_on m m" "goes_on m (m\<lparr>echo := x\<rparr>)" "goes_on m (m\<lparr>verbose := y\<rparr>)" "goes_on m (m\<lparr>echo := x, verbose := y\<rparr>)"
    "goes_on m (hang_up False m)"
  using assms by (auto simp: goes_on_def rx_ok_def modem_items_def hang_up_def)

lemma one_answers:
  assumes "rx_ok m" and "rx_count m + 30 \<le> CF_MODEM_RX" and "\<not> online m"
  shows "case execute_one a ch p m of Inl t \<Rightarrow> answered m t | Inr r \<Rightarrow> goes_on m (snd r)"
proof -
  have err: "answered m (result (ascii ''ERROR'') 4 m)"
    using result_answers [OF assms(1,2) _ assms(3), of 4] by (simp add: result_word_def)
  have if_rule: "(case x of Inl t \<Rightarrow> answered m t | Inr r \<Rightarrow> goes_on m (snd r)) \<Longrightarrow>
      (case y of Inl t \<Rightarrow> answered m t | Inr r \<Rightarrow> goes_on m (snd r)) \<Longrightarrow>
      (case (if c then x else y) of Inl t \<Rightarrow> answered m t | Inr (r :: u8 list \<times> cf_modem) \<Rightarrow> goes_on m (snd r))" for c x y
    by simp
  note say = goes_on_say [OF assms, of "''L27-01''", simplified] goes_on_say [OF assms, of "''56000''", simplified]
    goes_on_say [OF assms, of "''000''", simplified]
  note leaf = goes_on_modes [OF assms(1,3)] say dial_answers [OF assms] err
  show ?thesis unfolding execute_one_def Let_def split_beta
    by (intro if_rule) (simp_all only: sum.case snd_conv leaf if_split, simp_all add: leaf)
qed

lemma rest_answers:
  "rx_ok m \<Longrightarrow> rx_count m + 11 * length p + 30 \<le> CF_MODEM_RX \<Longrightarrow> \<not> online m \<Longrightarrow> answered m (execute_rest a p m)"
proof (induction a p m rule: execute_rest.induct)
  case (1 a m)
  then show ?case using result_answers [of m 0] by (simp add: result_word_def)
next
  case (2 a ch p m)
  have one: "case execute_one a ch p m of Inl t \<Rightarrow> answered m t | Inr r \<Rightarrow> goes_on m (snd r)"
    using 2(2-4) by (intro one_answers) simp_all
  show ?case
  proof (cases "execute_one a ch p m")
    case (Inl t)
    then show ?thesis using one by simp
  next
    case (Inr r)
    obtain q m' where r: "r = (q, m')" by (cases r)
    have on: "goes_on m m'" using one Inr r by simp
    have "length q \<le> length p" using execute_one_shorter Inr r by simp
    then have "answered m' (execute_rest a q m')"
      using 2(1) [OF Inr r [symmetric]] 2(3) on by (simp add: goes_on_def)
    then show ?thesis using on answered_info Inr r by (auto simp: goes_on_def)
  qed
qed

text \<open>Typing a line.\<close>

lemma push_items_room: "rx_ok m \<Longrightarrow> rx_count m < CF_MODEM_RX \<Longrightarrow> modem_items (push b m) = modem_items m @ [b]"
  by (subst push_queue(1)) (simp_all only: take_all length_append modem_items_length, simp)

definition typing :: "cf_modem \<Rightarrow> u8 list \<Rightarrow> cf_modem \<Rightarrow> bool" where
  "typing m cs t \<longleftrightarrow> modem_wf t \<and> \<not> online t \<and> \<not> gps t \<and> lcr t AND 0x80 = 0 \<and> echo t = echo m \<and> verbose t = verbose m \<and>
     connect_rate t = connect_rate m \<and>
     cmd_len t = length cs \<and> take (length cs) (cmd t) = cs \<and> modem_items t = modem_items m @ (if echo m then cs else [])"

lemma type_byte:
  assumes "typing m cs t" and "32 \<le> b" and "b < 127" and "length cs + 1 < 96" and "rx_count t < CF_MODEM_RX"
  shows "typing m (cs @ [b]) (cf_modem_write a 0 b t)" "rx_count (cf_modem_write a 0 b t) \<le> rx_count t + 1"
proof -
  let ?e = "if echo t then push b t else t"
  let ?w = "?e\<lparr>cmd := (cmd ?e)[cmd_len ?e := b], cmd_len := cmd_len ?e + 1\<rparr>"
  note t = assms(1) [unfolded typing_def]
  have "b \<noteq> 13" "b \<noteq> 8" "b \<noteq> 127" using assms(2,3) by auto
  then have w: "cf_modem_write a 0 b t = ?w\<lparr>thre_irq := True\<rparr>"
    using t assms(2-4) by (simp add: cf_modem_write_def command_byte_def Let_def)
  have "modem_items (push b t) = modem_items t @ [b]"
    using t assms(5) by (intro push_items_room) (simp_all add: modem_wf_def)
  then have items: "modem_items ?e = modem_items m @ (if echo m then cs @ [b] else [])"
    using t by auto
  have "modem_wf ?e" using t commanded_wf [OF _ commanded_push] by simp
  then have "modem_wf ?w" using wf_type [of ?e b] t assms(2-4) by simp
  moreover have "take (Suc (length cs)) ((cmd ?e)[cmd_len ?e := b]) = cs @ [b]"
    using t by (simp add: take_Suc_conv_app_nth modem_wf_def)
  ultimately show "typing m (cs @ [b]) (cf_modem_write a 0 b t)"
    using t items by (simp add: w typing_def modem_wf_def rx_ok_def modem_items_def)
  show "rx_count (cf_modem_write a 0 b t) \<le> rx_count t + 1" using w by (simp add: push_def)
qed

lemma type_line:
  assumes "typing m [] m" and "list_all (\<lambda>b. 32 \<le> b \<and> b < 127) cs" and "length cs < 96" and "rx_count m + length cs \<le> CF_MODEM_RX"
  shows "typing m cs (fold (cf_modem_write a 0) cs m) \<and> rx_count (fold (cf_modem_write a 0) cs m) \<le> rx_count m + length cs"
  using assms
proof (induction cs rule: rev_induct)
  case (snoc b cs)
  then have IH: "typing m cs (fold (cf_modem_write a 0) cs m)" "rx_count (fold (cf_modem_write a 0) cs m) \<le> rx_count m + length cs"
    by simp_all
  show ?case using type_byte [OF IH(1), of b a] IH(2) snoc.prems by simp
qed simp

lemma c_string_terminated:
  assumes "n < length bytes" and "\<forall>c \<in> set (take n bytes). c \<noteq> 0"
  shows "c_string (bytes[n := 0]) = take n bytes"
proof -
  have "bytes[n := 0] = take n bytes @ 0 # drop (Suc n) bytes" using assms(1) by (rule upd_conv_take_nth_drop)
  then show ?thesis using assms(2) by (simp add: c_string_def takeWhile_append)
qed

lemma enter_line:
  assumes t: "typing m (x # y # p) t" and room: "rx_count t + 11 * length p + 31 \<le> CF_MODEM_RX"
    and at: "to_upper x = 65" "to_upper y = 84"
  shows "answered (if echo t then push 13 t else t) (cf_modem_write a 0 13 t)"
proof -
  let ?e = "if echo t then push 13 t else t" and ?cs = "x # y # p"
  let ?r = "?e\<lparr>cmd := (cmd ?e)[cmd_len ?e := 0], cmd_len := 0\<rparr>"
  note f = t [unfolded typing_def modem_wf_def]
  have "\<forall>c \<in> set (take (cmd_len t) (cmd t)). c \<noteq> 0"
  proof
    fix c assume "c \<in> set (take (cmd_len t) (cmd t))"
    then have "32 \<le> c" using f by blast
    then show "c \<noteq> 0" by auto
  qed
  then have "c_string ((cmd t)[cmd_len t := 0]) = ?cs"
    using f c_string_terminated [of "cmd_len t" "cmd t"] by simp
  then have str: "c_string (cmd ?r) = ?cs" by simp
  have "x \<noteq> 32" using at(1) by (auto simp: to_upper_def)
  then have "execute a ?cs ?r = execute_rest a p ?r" using at by (simp add: execute_def)
  then have w: "cf_modem_write a 0 13 t = (execute_rest a p ?r)\<lparr>thre_irq := True\<rparr>"
    using f str by (simp add: cf_modem_write_def command_byte_def Let_def)
  have "rx_ok ?e" using f commanded_push [of t 13] by (simp add: commanded_def)
  moreover have "rx_count ?e \<le> rx_count t + 1" by (simp add: push_def)
  ultimately have "answered ?r (execute_rest a p ?r)"
    using f room by (intro rest_answers) (simp_all add: rx_ok_def)
  then show ?thesis unfolding w by (simp add: answered_def modem_items_def)
qed

text \<open>C14: Every AT command line gets exactly one result. In command state, with room in the receive
  buffer, typing a line that begins with AT and ending it with a carriage return leaves, after the
  echo and any information texts, exactly one result code in the form the verbose mode then
  selects, and the modem is online exactly if that result is CONNECT.\<close>

theorem modem_command_answered:
  assumes "modem_wf m" and "\<not> online m" and "\<not> gps m" and "lcr m AND 0x80 = 0" and "cmd_len m = 0"
    and "rx_count m \<le> 2900" and "length p \<le> 93" and "list_all (\<lambda>b. 32 \<le> b \<and> b < 127) (x # y # p)"
    and "to_upper x = 65" and "to_upper y = 84"
  shows "let line = x # y # p; t = fold modem_step (map (Reg_write answers 0) (line @ [13])) m in
    \<exists>info code. set info \<subseteq> info_texts \<and> code \<in> {0, 1, 3, 4} \<and> (online t \<longleftrightarrow> code = 1) \<and>
      modem_items t = modem_items m @ (if echo m then line @ [13] else []) @ concat info @
        result_text (verbose t) (result_word (connect_rate m) code) code"
proof -
  let ?cs = "x # y # p"
  let ?s = "fold (cf_modem_write answers 0) ?cs m"
  have "typing m [] m" using assms(1-5) by (simp add: typing_def)
  from type_line [OF this assms(8), of answers] have s: "typing m ?cs ?s" "rx_count ?s \<le> rx_count m + length ?cs"
    using assms(6,7) by simp_all
  note f = s(1) [unfolded typing_def modem_wf_def]
  have "length ?cs = length p + 2" by simp
  with s(2) assms(6,7) have "rx_count ?s + 11 * length p + 31 \<le> CF_MODEM_RX" by linarith
  from enter_line [OF s(1) this assms(9,10)]
  have "answered (if echo ?s then push 13 ?s else ?s) (cf_modem_write answers 0 13 ?s)" .
  moreover have "modem_items (if echo ?s then push 13 ?s else ?s) = modem_items m @ (if echo m then ?cs @ [13] else [])"
    using f s(2) assms(6,7) push_items_room [of ?s 13] by simp
  moreover have "fold modem_step (map (Reg_write answers 0) (?cs @ [13])) m = cf_modem_write answers 0 13 ?s"
  proof -
    have "(modem_step \<circ> Reg_write answers 0) = cf_modem_write answers 0" by (rule ext)+ simp
    then show ?thesis by (simp add: fold_map)
  qed
  moreover have "connect_rate (if echo ?s then push 13 ?s else ?s) = connect_rate m" using f by simp
  ultimately show ?thesis unfolding answered_def Let_def by (simp only: append_assoc)
qed

theorem modem_command_answered_witness:
  "let t = fold modem_step (map (Reg_write True 0) (ascii ''ATI3'' @ [13])) (cf_modem_reset backend_example)
   in \<exists>info code. code \<in> {0, 1, 3, 4} \<and>
        modem_items t = ascii ''ATI3'' @ [13] @ concat info @ result_text (verbose t) (result_word 52000 code) code"
proof -
  let ?m = "cf_modem_reset backend_example"
  have f: "\<not> online ?m" "\<not> gps ?m" "lcr ?m AND 0x80 = 0" "cmd_len ?m = 0" "rx_count ?m \<le> 2900" "echo ?m"
    "modem_items ?m = []" "connect_rate ?m = 52000"
    by (simp_all add: cf_modem_reset_def backend_example_def modem_items_def)
  have cs: "ascii ''ATI3'' = [65, 84, 73, 51]" by (simp add: ascii_def)
  have "list_all (\<lambda>b. 32 \<le> b \<and> b < 127) [65, 84, 73, 51 :: u8]" "length [73, 51 :: u8] \<le> 93"
    "to_upper 65 = 65" "to_upper 84 = 84" by (simp_all add: to_upper_def)
  from modem_command_answered [OF cf_modem_reset_wf f(1-5) this(2,1,3,4), of True]
  show ?thesis unfolding cs Let_def f(8) using f(6,7) by auto
qed

end
