(* ===== verification/Ne2000.thy ===== *)
theory Ne2000
  imports Byte_Ring
begin

text \<open>
  The NE2000 network card (\<open>src/hw/cf_ne2000.c\<close>): register pages, remote DMA, transmission and the
  receive ring. Packet memory is a function of the address. The host network is not in the
  repository: transmitted frames are recorded (\<open>sent\<close>), and the address tests of its library are a
  parameter. Reception can divide by zero or loop for ever when the guest programs
  the ring badly, so it returns an option.
\<close>

section \<open>State\<close>

record ne2000 =
  nic_mac :: "u8 list"
  promiscuous :: bool
  net :: bool
  mem :: "nat \<Rightarrow> u8"
  par :: "u8 list"
  mar :: "u8 list"
  cr :: u8
  pstart :: u8
  pstop :: u8
  bnry :: u8
  tpsr :: u8
  tbcr0 :: u8
  tbcr1 :: u8
  isr :: u8
  rsar0 :: u8
  rsar1 :: u8
  rbcr0 :: u8
  rbcr1 :: u8
  rcr :: u8
  tcr :: u8
  dcr :: u8
  imr :: u8
  curr :: u8
  rsr :: u8
  tsr :: u8
  reset_latch :: u8
  remote_cmd :: u8
  remote_addr :: u16
  remote_count :: u16
  sent :: "u8 list list"

abbreviation (input) CF_NE2000_MEM_SIZE :: nat where "CF_NE2000_MEM_SIZE \<equiv> 0x8000"

definition seeded :: "u8 list \<Rightarrow> nat \<Rightarrow> u8" where
  "seeded prom = (\<lambda>k. if k < 32 then prom ! (k div 2) else 0)"

definition ne2000_seed_prom :: "ne2000 \<Rightarrow> ne2000" where
  "ne2000_seed_prom s = s\<lparr>mem := seeded ((take 6 (par s) @ replicate 10 0)[14 := 0x57, 15 := 0x57])\<rparr>"

definition ne2000_reset :: "ne2000 \<Rightarrow> ne2000" where
  "ne2000_reset s = ne2000_seed_prom
     (s\<lparr>cr := 0x21, pstart := 0x40, pstop := 0x80, bnry := 0x40, tpsr := 0x20, tbcr0 := 0, tbcr1 := 0, isr := 0x80,
       rsar0 := 0, rsar1 := 0, rbcr0 := 0, rbcr1 := 0, rcr := 0, tcr := 0, dcr := 0x01, imr := 0, curr := 0x41,
       rsr := 0, tsr := 0, reset_latch := 0, remote_cmd := 0x20, remote_addr := 0, remote_count := 0\<rparr>)"

section \<open>Packet memory\<close>

definition ne2000_mem_read :: "ne2000 \<Rightarrow> u16 \<Rightarrow> u8" where
  "ne2000_mem_read s addr = mem s (unat addr mod CF_NE2000_MEM_SIZE)"

definition ne2000_mem_write :: "u16 \<Rightarrow> u8 \<Rightarrow> ne2000 \<Rightarrow> ne2000" where
  "ne2000_mem_write addr value s =
     (if unat addr < CF_NE2000_MEM_SIZE then s\<lparr>mem := (mem s)(unat addr := value)\<rparr> else s)"

definition ne2000_remote_count :: "ne2000 \<Rightarrow> u16" where
  "ne2000_remote_count s = ucast (rbcr0 s) OR push_bit 8 (ucast (rbcr1 s))"

definition ne2000_remote_done_if_needed :: "ne2000 \<Rightarrow> ne2000" where
  "ne2000_remote_done_if_needed s =
     (if remote_count s = 0 \<and> remote_cmd s \<noteq> 0x20 then s\<lparr>isr := isr s OR 0x40\<rparr> else s)"

definition ne2000_update_mac :: "ne2000 \<Rightarrow> ne2000" where
  "ne2000_update_mac s = s\<lparr>nic_mac := par s\<rparr>"

section \<open>Transmission\<close>

definition ne2000_transmit :: "ne2000 \<Rightarrow> ne2000" where
  "ne2000_transmit s =
     (let len = ucast (tbcr0 s) OR push_bit 8 (ucast (tbcr1 s)) :: u16;
          addr = push_bit 8 (ucast (tpsr s)) :: u16;
          len = (if len > 1600 then 1600 else len);
          packet = map (\<lambda>i. ne2000_mem_read s (addr + of_nat i)) [0..<unat len];
          s = (if net s \<and> len \<ge> 14 then s\<lparr>sent := sent s @ [packet]\<rparr> else s)
      in s\<lparr>tsr := 0x01, isr := isr s OR 0x02, cr := cr s AND NOT 0x04\<rparr>)"

section \<open>Reception\<close>

text \<open>The address tests of the host network library.\<close>

record ether_tests =
  net_ether_broadcast :: "u8 list \<Rightarrow> bool"
  net_ether_multicast :: "u8 list \<Rightarrow> bool"
  net_ether_eq :: "u8 list \<Rightarrow> u8 list \<Rightarrow> bool"

definition ne2000_accept_packet :: "ether_tests \<Rightarrow> ne2000 \<Rightarrow> u8 list \<Rightarrow> bool" where
  "ne2000_accept_packet e s packet \<longleftrightarrow>
     (if length packet < 14 then False
      else if cr s AND 0x02 = 0 \<or> cr s AND 0x01 \<noteq> 0 then False
      else if rcr s AND 0x20 \<noteq> 0 then False
      else if net_ether_broadcast e packet then rcr s AND 0x04 \<noteq> 0
      else if net_ether_multicast e packet then rcr s AND 0x18 \<noteq> 0
      else rcr s AND 0x10 \<noteq> 0 \<or> net_ether_eq e packet (par s))"

text \<open>The ring as the page arithmetic reads it: an unusable configuration falls back to 40-80.\<close>

definition ring_start :: "ne2000 \<Rightarrow> u8" where
  "ring_start s = (if pstart s \<noteq> 0 then pstart s else 0x40)"

definition ring_stop :: "ne2000 \<Rightarrow> u8" where
  "ring_stop s = (if pstop s > ring_start s then pstop s else 0x80)"

partial_function (option) next_page_loop :: "u32 \<Rightarrow> u32 \<Rightarrow> u32 \<Rightarrow> u32 option" where
  "next_page_loop start stop nxt =
     (if nxt \<ge> stop then next_page_loop start stop (start + (nxt - stop)) else Some nxt)"

definition ne2000_next_page :: "ne2000 \<Rightarrow> u8 \<Rightarrow> u8 \<Rightarrow> u8 option" where
  "ne2000_next_page s page pages =
     map_option ucast (next_page_loop (ucast (ring_start s)) (ucast (ring_stop s)) (ucast page + ucast pages))"

definition ne2000_ring_has_space :: "ne2000 \<Rightarrow> u8 \<Rightarrow> bool" where
  "ne2000_ring_has_space s pages =
     (let start = ring_start s; stop = ring_stop s;
          c = (if curr s < start \<or> curr s \<ge> stop then start else curr s);
          b = (if bnry s < start \<or> bnry s \<ge> stop then start else bnry s);
          free_pages = (if c \<le> b then ucast b - ucast c else (ucast stop - ucast c) + (ucast b - ucast start)) :: u32
      in free_pages > ucast pages)"

text \<open>The address of a byte of the ring: \<open>%\<close> truncates towards zero, and by zero it traps.\<close>

definition c_rem :: "int \<Rightarrow> int \<Rightarrow> int" where
  "c_rem a b = (if a < 0 then - (- a mod \<bar>b\<bar>) else a mod \<bar>b\<bar>)"

definition ring_addr :: "ne2000 \<Rightarrow> u16 \<Rightarrow> u16 option" where
  "ring_addr s off =
     (let start = push_bit 8 (ucast (ring_start s)) :: u16;
          stop = push_bit 8 (ucast (if pstop s > pstart s then pstop s else 0x80)) :: u16
      in if off < start \<or> off \<ge> stop
         then (if stop = start then None
               else Some (word_of_int (uint start + c_rem (uint off - uint start) (uint stop - uint start))))
         else Some off)"

definition ne2000_ring_write :: "u16 \<Rightarrow> u8 \<Rightarrow> ne2000 \<Rightarrow> ne2000 option" where
  "ne2000_ring_write off value s = map_option (\<lambda>addr. ne2000_mem_write addr value s) (ring_addr s off)"

fun ring_write_all :: "u16 \<Rightarrow> u8 list \<Rightarrow> ne2000 \<Rightarrow> ne2000 option" where
  "ring_write_all off [] s = Some s"
| "ring_write_all off (b # bs) s = Option.bind (ne2000_ring_write off b s) (ring_write_all (off + 1) bs)"

definition ne2000_receive_packet :: "ether_tests \<Rightarrow> u8 list \<Rightarrow> ne2000 \<Rightarrow> ne2000 option" where
  "ne2000_receive_packet e packet s =
     (if \<not> ne2000_accept_packet e s packet then Some s
      else
        let wire_len = of_nat (length packet) + 4 :: u16;
            total = wire_len + 4;
            pages = ucast (drop_bit 8 (ucast total + 255 :: u32)) :: u8;
            pages = (if pages = 0 then 1 else pages)
        in if \<not> ne2000_ring_has_space s pages then Some (s\<lparr>isr := isr s OR 0x10\<rparr>)
           else
             let c = (if curr s < pstart s \<or> curr s \<ge> pstop s then pstart s else curr s);
                 base = push_bit 8 (ucast c) :: u16
             in Option.bind (ne2000_next_page s c pages) (\<lambda>nxt.
                map_option (\<lambda>s. s\<lparr>curr := nxt, rsr := 0x01, isr := isr s OR 0x01\<rparr>)
                  (ring_write_all base
                    ([0x01 OR (if net_ether_eq e packet (par s) then 0x20 else 0), nxt,
                      ucast wire_len, ucast (drop_bit 8 wire_len)] @ packet @ replicate 4 0) s)))"

text \<open>One tick takes up to four frames that the network has waiting.\<close>

fun tick_loop :: "ether_tests \<Rightarrow> nat \<Rightarrow> u8 list list \<Rightarrow> ne2000 \<Rightarrow> (ne2000 \<times> u8 list list) option" where
  "tick_loop e 0 waiting s = Some (s, waiting)"
| "tick_loop e (Suc n) [] s = Some (s, [])"
| "tick_loop e (Suc n) (p # waiting) s = Option.bind (ne2000_receive_packet e p s) (tick_loop e n waiting)"

definition cf_ne2000_tick :: "ether_tests \<Rightarrow> u8 list list \<Rightarrow> ne2000 \<Rightarrow> (ne2000 \<times> u8 list list) option" where
  "cf_ne2000_tick e waiting s = (if \<not> net s then Some (s, waiting) else tick_loop e 4 waiting s)"

section \<open>Registers\<close>

definition ne2000_read_reg :: "ne2000 \<Rightarrow> u8 \<Rightarrow> u8" where
  "ne2000_read_reg s r =
     (let page = drop_bit 6 (cr s AND 0xC0); reg = r AND 0x0F; k = unat reg
      in if reg = 0 then cr s
         else if page = 1 then
           (if 1 \<le> reg \<and> reg \<le> 6 then par s ! (k - 1) else if reg = 7 then curr s
            else if reg \<ge> 8 then mar s ! (k - 8) else 0)
         else if page = 2 then
           (if reg = 1 then pstart s else if reg = 2 then pstop s else if reg = 3 then ucast (remote_addr s AND 0xFF)
            else if reg = 4 then tpsr s else if reg = 5 then ucast (remote_count s AND 0xFF)
            else if reg = 6 then ucast (drop_bit 8 (remote_count s)) else if reg = 7 then curr s else 0)
         else if reg = 3 then bnry s
         else if reg = 4 then tsr s
         else if reg = 7 then isr s
         else if reg = 8 then ucast (remote_addr s AND 0xFF)
         else if reg = 9 then ucast (drop_bit 8 (remote_addr s))
         else if reg = 12 then rsr s
         else 0)"

definition advance_remote :: "ne2000 \<Rightarrow> ne2000" where
  "advance_remote s = s\<lparr>remote_addr := remote_addr s + 1,
     remote_count := (if remote_count s > 0 then remote_count s - 1 else remote_count s)\<rparr>"

fun data_read_loop :: "nat \<Rightarrow> nat \<Rightarrow> u64 \<Rightarrow> ne2000 \<Rightarrow> u64 \<times> ne2000" where
  "data_read_loop i 0 val s = (val, s)"
| "data_read_loop i (Suc n) val s =
     data_read_loop (i + 1) n (val OR push_bit (8 * i) (ucast (ne2000_mem_read s (remote_addr s)))) (advance_remote s)"

definition ne2000_data_read :: "nat \<Rightarrow> ne2000 \<Rightarrow> u64 \<times> ne2000" where
  "ne2000_data_read sz s = (case data_read_loop 0 sz 0 s of (val, s) \<Rightarrow> (val, ne2000_remote_done_if_needed s))"

fun data_write_loop :: "nat \<Rightarrow> nat \<Rightarrow> u64 \<Rightarrow> ne2000 \<Rightarrow> ne2000" where
  "data_write_loop i 0 val s = s"
| "data_write_loop i (Suc n) val s =
     data_write_loop (i + 1) n val (advance_remote (ne2000_mem_write (remote_addr s) (byte_at val i) s))"

definition ne2000_data_write :: "nat \<Rightarrow> u64 \<Rightarrow> ne2000 \<Rightarrow> ne2000" where
  "ne2000_data_write sz val s = ne2000_remote_done_if_needed (data_write_loop 0 sz val s)"

definition ne2000_write_cr :: "u8 \<Rightarrow> ne2000 \<Rightarrow> ne2000" where
  "ne2000_write_cr value s =
     (let s = s\<lparr>cr := value, remote_cmd := value AND 0x38\<rparr>;
          s = (if value AND 0x01 \<noteq> 0 then s\<lparr>isr := isr s OR 0x80\<rparr> else s);
          s = (if value AND 0x02 \<noteq> 0 then s\<lparr>isr := isr s AND NOT 0x80\<rparr> else s);
          s = (if value AND 0x38 = 0x08 \<or> value AND 0x38 = 0x10
               then ne2000_remote_done_if_needed
                      (s\<lparr>remote_addr := ucast (rsar0 s) OR push_bit 8 (ucast (rsar1 s)),
                         remote_count := ne2000_remote_count s\<rparr>)
               else s);
          s = (if value AND 0x04 \<noteq> 0 then ne2000_transmit s else s)
      in s\<lparr>cr := (cr s AND NOT 0xC0) OR (value AND 0xC0)\<rparr>)"

definition ne2000_write_reg :: "u8 \<Rightarrow> u8 \<Rightarrow> ne2000 \<Rightarrow> ne2000" where
  "ne2000_write_reg r value s =
     (let page = drop_bit 6 (cr s AND 0xC0); reg = r AND 0x0F; k = unat reg
      in if reg = 0 then ne2000_write_cr value s
         else if page = 1 then
           (if 1 \<le> reg \<and> reg \<le> 6 then ne2000_update_mac (s\<lparr>par := (par s)[k - 1 := value]\<rparr>)
            else if reg = 7 then s\<lparr>curr := value\<rparr>
            else if reg \<ge> 8 then s\<lparr>mar := (mar s)[k - 8 := value]\<rparr> else s)
         else if reg = 1 then s\<lparr>pstart := value\<rparr>
         else if reg = 2 then s\<lparr>pstop := value\<rparr>
         else if reg = 3 then s\<lparr>bnry := value\<rparr>
         else if reg = 4 then s\<lparr>tpsr := value\<rparr>
         else if reg = 5 then s\<lparr>tbcr0 := value\<rparr>
         else if reg = 6 then s\<lparr>tbcr1 := value\<rparr>
         else if reg = 7 then s\<lparr>isr := isr s AND NOT value\<rparr>
         else if reg = 8 then s\<lparr>rsar0 := value\<rparr>
         else if reg = 9 then s\<lparr>rsar1 := value\<rparr>
         else if reg = 10 then s\<lparr>rbcr0 := value\<rparr>
         else if reg = 11 then s\<lparr>rbcr1 := value\<rparr>
         else if reg = 12 then s\<lparr>rcr := value, promiscuous := (value AND 0x10 \<noteq> 0)\<rparr>
         else if reg = 13 then s\<lparr>tcr := value\<rparr>
         else if reg = 14 then s\<lparr>dcr := value\<rparr>
         else s\<lparr>imr := value\<rparr>)"

definition ne2000_window_read :: "u32 \<Rightarrow> nat \<Rightarrow> ne2000 \<Rightarrow> u64 \<times> ne2000" where
  "ne2000_window_read offset sz s =
     (let port = ucast (offset AND 0x1F) :: u8
      in if port = 0x10 then ne2000_data_read sz s
         else if port = 0x1F
           then (if sz \<ge> 4 then 0xFFFFFFFF else 0xFF, s\<lparr>reset_latch := 1, isr := isr s OR 0x80\<rparr>)
         else (lanes sz (\<lambda>i. ne2000_read_reg s (port + of_nat i)), s))"

fun write_regs :: "nat \<Rightarrow> nat \<Rightarrow> u8 \<Rightarrow> u64 \<Rightarrow> ne2000 \<Rightarrow> ne2000" where
  "write_regs i 0 port val s = s"
| "write_regs i (Suc n) port val s = write_regs (i + 1) n port val (ne2000_write_reg (port + of_nat i) (byte_at val i) s)"

definition ne2000_window_write :: "u32 \<Rightarrow> nat \<Rightarrow> u64 \<Rightarrow> ne2000 \<Rightarrow> ne2000" where
  "ne2000_window_write offset sz val s =
     (let port = ucast (offset AND 0x1F) :: u8
      in if port = 0x10 then ne2000_data_write sz val s
         else if port = 0x1F then s\<lparr>reset_latch := 0, isr := isr s OR 0x80\<rparr>
         else write_regs 0 sz port val s)"

section \<open>The ring as a flat memory\<close>

text \<open>
  A sensible ring lies in packet memory. \<open>flat s\<close> is its contents read from the first page after
  BNRY on, the order in which a driver consumes it; \<open>page_no s j\<close> is the number of its j-th page.
\<close>

definition sensible :: "ne2000 \<Rightarrow> bool" where
  [wf_simps]: "sensible s \<longleftrightarrow> 0 < pstart s \<and> pstart s < pstop s \<and> pstop s \<le> 0x80 \<and>
     pstart s \<le> curr s \<and> curr s < pstop s \<and> pstart s \<le> bnry s \<and> bnry s < pstop s"

definition pages_of :: "ne2000 \<Rightarrow> nat" where
  "pages_of s = unat (pstop s) - unat (pstart s)"

definition flat_addr :: "ne2000 \<Rightarrow> nat \<Rightarrow> nat" where
  "flat_addr s x = unat (pstart s) * 256 + ((unat (bnry s) + 1 - unat (pstart s)) * 256 + x) mod (pages_of s * 256)"

definition flat :: "ne2000 \<Rightarrow> nat \<Rightarrow> u8" where
  "flat s x = mem s (flat_addr s x)"

definition page_no :: "ne2000 \<Rightarrow> nat \<Rightarrow> u8" where
  "page_no s j = of_nat (unat (pstart s) + (unat (bnry s) + 1 - unat (pstart s) + j) mod pages_of s)"

lemma sensible_nat:
  assumes "sensible s"
  shows "0 < unat (pstart s)" "unat (pstart s) < unat (pstop s)" "unat (pstop s) \<le> 128"
    "unat (pstart s) \<le> unat (curr s)" "unat (curr s) < unat (pstop s)" "unat (pstart s) \<le> unat (bnry s)"
    "unat (bnry s) < unat (pstop s)" "0 < pages_of s" "pages_of s \<le> 127"
proof -
  show "0 < unat (pstart s)" using assms by (simp add: wf_simps unat_gt_0 word_gt_0)
  then show "unat (pstart s) < unat (pstop s)" "unat (pstop s) \<le> 128"
    "unat (pstart s) \<le> unat (curr s)" "unat (curr s) < unat (pstop s)" "unat (pstart s) \<le> unat (bnry s)"
    "unat (bnry s) < unat (pstop s)" "0 < pages_of s" "pages_of s \<le> 127"
    using assms by (auto simp: wf_simps pages_of_def word_le_nat_alt word_less_nat_alt)
qed

lemma sensible_ring [simp]:
  assumes "sensible s"
  shows "ring_start s = pstart s" "ring_stop s = pstop s"
  using assms by (auto simp: wf_simps ring_start_def ring_stop_def)

lemma page_no_unat:
  assumes "sensible s"
  shows "unat (page_no s j) = unat (pstart s) + (unat (bnry s) + 1 - unat (pstart s) + j) mod pages_of s"
    "unat (page_no s j) < unat (pstop s)" "unat (pstart s) \<le> unat (page_no s j)"
proof -
  note f = sensible_nat [OF assms]
  have "(unat (bnry s) + 1 - unat (pstart s) + j) mod pages_of s < pages_of s" using f(8) by simp
  with f(2) have lt: "unat (pstart s) + (unat (bnry s) + 1 - unat (pstart s) + j) mod pages_of s < unat (pstop s)"
    unfolding pages_of_def by linarith
  have unat8: "unat (of_nat k :: u8) = k" if "k < 256" for k using that by (simp add: unat_of_nat)
  show "unat (page_no s j) = unat (pstart s) + (unat (bnry s) + 1 - unat (pstart s) + j) mod pages_of s"
    unfolding page_no_def by (rule unat8) (use lt f(3) in linarith)
  with lt show "unat (page_no s j) < unat (pstop s)" "unat (pstart s) \<le> unat (page_no s j)" by simp_all
qed

lemma flat_page:
  assumes "sensible s"
  shows "unat (pstart s) * 256 + ((unat (page_no s j) - unat (pstart s)) * 256 + k) mod (pages_of s * 256) = flat_addr s (256 * j + k)"
proof -
  let ?a = "unat (bnry s) + 1 - unat (pstart s) + j"
  have "(?a mod pages_of s * 256 + k) mod (pages_of s * 256) = (?a * 256 + k) mod (pages_of s * 256)"
    by (metis mod_add_left_eq mod_mult_mult2)
  then show ?thesis by (simp add: page_no_unat [OF assms] flat_addr_def add_mult_distrib mult.commute add.assoc)
qed

lemma flat_addr_inj:
  assumes "x < pages_of s * 256" and "y < pages_of s * 256" and "flat_addr s x = flat_addr s y"
  shows "x = y"
proof -
  let ?b = "(unat (bnry s) + 1 - unat (pstart s)) * 256"
  have eq: "(?b + x) mod (pages_of s * 256) = (?b + y) mod (pages_of s * 256)" using assms(3) by (simp add: flat_addr_def)
  then show ?thesis using assms(1,2) ring_slots_distinct [of x y "pages_of s * 256" ?b]
      ring_slots_distinct [of y x "pages_of s * 256" ?b] by (metis nat_neq_iff)
qed

lemma flat_addr_bound:
  assumes "sensible s"
  shows "flat_addr s x < unat (pstop s) * 256" "flat_addr s x < CF_NE2000_MEM_SIZE"
proof -
  note f = sensible_nat [OF assms]
  have "((unat (bnry s) + 1 - unat (pstart s)) * 256 + x) mod (pages_of s * 256) < pages_of s * 256" using f(8) by simp
  moreover have "unat (pstart s) * 256 + pages_of s * 256 = unat (pstop s) * 256"
    using f(2) by (simp add: pages_of_def flip: add_mult_distrib)
  ultimately show "flat_addr s x < unat (pstop s) * 256" unfolding flat_addr_def by linarith
  then show "flat_addr s x < CF_NE2000_MEM_SIZE" using f(3) by simp
qed

section \<open>Writing a frame\<close>

lemma ucast_of_nat:
  "x < 2 ^ LENGTH('a::len) \<Longrightarrow> (ucast (of_nat x :: 'a word) :: 'b::len word) = of_nat x"
  by (rule word_unat_eq_iff [THEN iffD2]) (simp add: unsigned_ucast_eq unat_of_nat take_bit_eq_mod)

lemma drop_8_of_nat:
  "x < 2 ^ LENGTH('a::len) \<Longrightarrow> drop_bit 8 (of_nat x :: 'a word) = of_nat (x div 256)"
  unfolding word_unat_eq_iff unat_drop_bit_eq unat_of_nat
  by (simp add: drop_bit_eq_div le_less_trans [OF div_le_dividend])

lemma unat_shift8: "unat (push_bit 8 (ucast (b :: u8)) :: u16) = unat b * 256"
proof -
  have "unat b < 256" using unat_lt2p [of b] by simp
  then show ?thesis by (simp add: push_bit_eq_mult unat_word_ariths unat_ucast_up)
qed

lemma unat_add16: "unat (a :: u16) + k < 65536 \<Longrightarrow> unat (a + of_nat k) = unat a + k"
  by (simp add: unat_word_ariths unat_of_nat mod_add_right_eq)

lemma c_rem_ring:
  fixes off S T :: u16
  assumes "S \<le> off" and "S < T"
  shows "uint S + c_rem (uint off - uint S) (uint T - uint S) = int (unat S + (unat off - unat S) mod (unat T - unat S))"
proof -
  have "uint off - uint S = int (unat off - unat S)" "uint T - uint S = int (unat T - unat S)"
    using assms unfolding uint_nat word_le_nat_alt word_less_nat_alt by (simp_all only: of_nat_diff less_imp_le)
  moreover have "uint S = int (unat S)" by (rule uint_nat)
  ultimately show ?thesis by (simp only: c_rem_def of_nat_less_0_iff if_False abs_of_nat zmod_int of_nat_add)
qed

lemma ring_addr_flat:
  assumes "sensible s" and "k < CF_NE2000_MEM_SIZE"
  shows "\<exists>a. ring_addr s (push_bit 8 (ucast (page_no s j)) + of_nat k) = Some a \<and> unat a = flat_addr s (256 * j + k)"
proof -
  note f = sensible_nat [OF assms(1)] and pg = page_no_unat [OF assms(1), of j]
  let ?off = "push_bit 8 (ucast (page_no s j)) + of_nat k :: u16"
  let ?P = "unat (pstart s) * 256" and ?Q = "unat (pstop s) * 256"
  have off: "unat ?off = unat (page_no s j) * 256 + k"
    using pg f(3) assms(2) by (subst unat_add16) (simp_all add: unat_shift8)
  have start: "unat (push_bit 8 (ucast (ring_start s)) :: u16) = ?P" using assms(1) by (simp add: unat_shift8)
  have "pstop s > pstart s" using assms(1) by (simp add: wf_simps)
  then have stop: "unat (push_bit 8 (ucast (if pstop s > pstart s then pstop s else 0x80)) :: u16) = ?Q"
    by (simp add: unat_shift8)
  have range: "?Q - ?P = pages_of s * 256" using f(2) by (simp add: pages_of_def diff_mult_distrib)
  have target: "flat_addr s (256 * j + k) = ?P + (unat ?off - ?P) mod (?Q - ?P)"
    using flat_page [OF assms(1), of j k] pg(3) by (simp add: off range diff_mult_distrib)
  let ?S = "push_bit 8 (ucast (ring_start s)) :: u16" and ?T = "push_bit 8 (ucast (if pstop s > pstart s then pstop s else 0x80)) :: u16"
  have ge: "?S \<le> ?off" using pg(3) by (simp only: word_le_nat_alt off start)
  have ne: "?T \<noteq> ?S" using stop start f(2) by (metis mult_cancel2 nat_neq_iff zero_neq_numeral)
  show ?thesis
  proof (cases "?off \<ge> ?T")
    case True
    have "?S < ?T" using ge ne start stop f(2) by (simp add: word_less_nat_alt)
    from c_rem_ring [OF ge this]
    have "uint ?S + c_rem (uint ?off - uint ?S) (uint ?T - uint ?S) = int (?P + (unat ?off - ?P) mod (?Q - ?P))"
      by (simp only: start stop)
    also have "\<dots> = int (flat_addr s (256 * j + k))" by (simp only: target)
    finally have "ring_addr s ?off = Some (of_nat (flat_addr s (256 * j + k)))"
      using True ne by (simp add: ring_addr_def Let_def)
    then show ?thesis using flat_addr_bound(2) [OF assms(1), of "256 * j + k"] by (simp add: unat_of_nat)
  next
    case False
    then have "unat ?off < ?Q" using stop by (simp add: word_le_nat_alt not_le)
    then have "(unat ?off - ?P) mod (?Q - ?P) = unat ?off - ?P"
      using ge f(2) by (intro mod_less) (simp add: word_le_nat_alt start)
    then have "flat_addr s (256 * j + k) = unat ?off" using target ge by (simp add: word_le_nat_alt start)
    then show ?thesis using False ge by (simp add: ring_addr_def Let_def not_less)
  qed
qed

lemma flat_mem [simp]:
  "sensible (s\<lparr>mem := m\<rparr>) = sensible s" "pages_of (s\<lparr>mem := m\<rparr>) = pages_of s"
  "flat_addr (s\<lparr>mem := m\<rparr>) x = flat_addr s x" "page_no (s\<lparr>mem := m\<rparr>) j = page_no s j"
  by (simp_all add: wf_simps pages_of_def flat_addr_def page_no_def)

lemma ring_write_flat:
  assumes "sensible s" and "k < CF_NE2000_MEM_SIZE" and "256 * j + k < pages_of s * 256"
  shows "\<exists>m. ne2000_ring_write (push_bit 8 (ucast (page_no s j)) + of_nat k) b s = Some (s\<lparr>mem := m\<rparr>) \<and>
    (\<forall>x < pages_of s * 256. flat (s\<lparr>mem := m\<rparr>) x = (if x = 256 * j + k then b else flat s x))"
proof -
  obtain a where a: "ring_addr s (push_bit 8 (ucast (page_no s j)) + of_nat k) = Some a" "unat a = flat_addr s (256 * j + k)"
    using ring_addr_flat [OF assms(1,2)] by blast
  have "unat a < CF_NE2000_MEM_SIZE" using a(2) flat_addr_bound(2) [OF assms(1)] by simp
  then have "ne2000_ring_write (push_bit 8 (ucast (page_no s j)) + of_nat k) b s =
      Some (s\<lparr>mem := (mem s)(flat_addr s (256 * j + k) := b)\<rparr>)"
    using a by (simp add: ne2000_ring_write_def ne2000_mem_write_def)
  moreover have "flat_addr s x \<noteq> flat_addr s (256 * j + k)" if "x < pages_of s * 256" "x \<noteq> 256 * j + k" for x
    using that flat_addr_inj assms(3) by blast
  ultimately show ?thesis by (intro exI conjI) (auto simp: flat_def)
qed

lemma ring_write_all_flat:
  assumes "sensible s" and "k + length bs \<le> CF_NE2000_MEM_SIZE" and "256 * j + k + length bs \<le> pages_of s * 256"
  shows "\<exists>m. ring_write_all (push_bit 8 (ucast (page_no s j)) + of_nat k) bs s = Some (s\<lparr>mem := m\<rparr>) \<and>
    (\<forall>x < pages_of s * 256. flat (s\<lparr>mem := m\<rparr>) x =
       (if 256 * j + k \<le> x \<and> x < 256 * j + k + length bs then bs ! (x - (256 * j + k)) else flat s x))"
  using assms
proof (induction bs arbitrary: k s)
  case Nil
  then show ?case by (intro exI [of _ "mem s"]) auto
next
  case (Cons b bs)
  obtain m where m: "ne2000_ring_write (push_bit 8 (ucast (page_no s j)) + of_nat k) b s = Some (s\<lparr>mem := m\<rparr>)"
    "\<forall>x < pages_of s * 256. flat (s\<lparr>mem := m\<rparr>) x = (if x = 256 * j + k then b else flat s x)"
    using ring_write_flat [of s k j b] Cons.prems by auto
  obtain m' where m': "ring_write_all (push_bit 8 (ucast (page_no s j)) + of_nat (k + 1)) bs (s\<lparr>mem := m\<rparr>) = Some (s\<lparr>mem := m'\<rparr>)"
    "\<forall>x < pages_of s * 256. flat (s\<lparr>mem := m'\<rparr>) x =
       (if 256 * j + (k + 1) \<le> x \<and> x < 256 * j + (k + 1) + length bs then bs ! (x - (256 * j + (k + 1))) else flat (s\<lparr>mem := m\<rparr>) x)"
    using Cons.IH [of "s\<lparr>mem := m\<rparr>" "k + 1"] Cons.prems by auto
  have "(push_bit 8 (ucast (page_no s j)) + of_nat k) + 1 = push_bit 8 (ucast (page_no s j)) + (of_nat (k + 1) :: u16)" by simp
  then have "ring_write_all (push_bit 8 (ucast (page_no s j)) + of_nat k) (b # bs) s = Some (s\<lparr>mem := m'\<rparr>)"
    using m(1) m'(1) by (simp only: ring_write_all.simps Option.bind.bind_lunit)
  moreover have "flat (s\<lparr>mem := m'\<rparr>) x = (if 256 * j + k \<le> x \<and> x < 256 * j + k + length (b # bs)
      then (b # bs) ! (x - (256 * j + k)) else flat s x)" if "x < pages_of s * 256" for x
    using m(2) m'(2) that by (auto simp: nth_Cons' diff_diff_left)
  ultimately show ?case by blast
qed

section \<open>Room in the ring\<close>

lemma curr_page_cases:
  assumes "sensible s" and "d < pages_of s" and "curr s = page_no s d"
  shows "unat (curr s) = unat (bnry s) + 1 + d \<and> unat (bnry s) + 1 + d < unat (pstop s) \<or>
    unat (curr s) + pages_of s = unat (bnry s) + 1 + d \<and> unat (pstop s) \<le> unat (bnry s) + 1 + d"
proof -
  note f = sensible_nat [OF assms(1)]
  let ?b = "unat (bnry s) - unat (pstart s)"
  have c: "unat (curr s) = unat (pstart s) + (?b + 1 + d) mod pages_of s"
    using page_no_unat(1) [OF assms(1), of d] f(6) assms(3) by (simp add: Suc_diff_le)
  have b: "?b < pages_of s" using f by (simp add: pages_of_def)
  show ?thesis
  proof (cases "?b + 1 + d < pages_of s")
    case True
    then have "(?b + 1 + d) mod pages_of s = ?b + 1 + d" by (rule mod_less)
    then have "unat (curr s) = unat (pstart s) + (?b + 1 + d)" using c by simp
    then show ?thesis using f True unfolding pages_of_def by linarith
  next
    case False
    then have "(?b + 1 + d) mod pages_of s = (?b + 1 + d - pages_of s) mod pages_of s" by (simp add: le_mod_geq)
    also have "\<dots> = ?b + 1 + d - pages_of s" using b assms(2) by (intro mod_less) linarith
    finally have "unat (curr s) = unat (pstart s) + (?b + 1 + d - pages_of s)" using c by simp
    then show ?thesis using f False unfolding pages_of_def by linarith
  qed
qed

lemma has_space_pages:
  assumes "sensible s" and "d < pages_of s" and "curr s = page_no s d"
  shows "ne2000_ring_has_space s pages \<longleftrightarrow> unat pages + d + 1 < pages_of s"
proof -
  note f = sensible_nat [OF assms(1)] and cur = curr_page_cases [OF assms]
  have ok: "\<not> (curr s < pstart s \<or> curr s \<ge> pstop s)" "\<not> (bnry s < pstart s \<or> bnry s \<ge> pstop s)"
    using assms(1) by (auto simp: wf_simps)
  let ?f = "(if curr s \<le> bnry s then ucast (bnry s) - ucast (curr s)
      else (ucast (pstop s) - ucast (curr s)) + (ucast (bnry s) - ucast (pstart s))) :: u32"
  have sub: "unat ((ucast a :: u32) - ucast b) = unat a - unat b" if "unat b \<le> unat a" for a b :: u8
    using that by (simp add: unat_sub word_le_nat_alt)
  have "unat ?f = pages_of s - 1 - d"
  proof (cases "curr s \<le> bnry s")
    case True
    then show ?thesis using cur sub [of "curr s" "bnry s"] by (auto simp: word_le_nat_alt)
  next
    case False
    have "unat (ucast (pstop s) - ucast (curr s) :: u32) + unat (ucast (bnry s) - ucast (pstart s) :: u32) < 2 ^ 32"
      using f by (simp add: sub)
    then have "unat ?f = (unat (pstop s) - unat (curr s)) + (unat (bnry s) - unat (pstart s))"
      using False f by (simp add: sub unat_add_lem [THEN iffD1])
    then show ?thesis using cur False f assms(2) by (auto simp: word_le_nat_alt pages_of_def)
  qed
  then have "?f > ucast pages \<longleftrightarrow> unat pages < pages_of s - 1 - d" by (simp only: word_less_nat_alt unat_ucast_64)
  also have "\<dots> \<longleftrightarrow> unat pages + d + 1 < pages_of s" using assms(2) by linarith
  finally show ?thesis
    unfolding ne2000_ring_has_space_def Let_def sensible_ring [OF assms(1)] if_not_P [OF ok(1)] if_not_P [OF ok(2)] .
qed

lemma next_page_loop_mod:
  assumes "start < stop" and "start \<le> nxt"
  shows "next_page_loop start stop nxt = Some (of_nat (unat start + (unat nxt - unat start) mod (unat stop - unat start)))"
  using assms(2)
proof (induction "unat nxt" arbitrary: nxt rule: less_induct)
  case less
  show ?case
  proof (cases "stop \<le> nxt")
    case True
    let ?n = "start + (nxt - stop)"
    have sub: "unat (nxt - stop) = unat nxt - unat stop" using True by (rule unat_sub)
    have "unat nxt < 2 ^ 32" using unat_lt2p [of nxt] by simp
    then have n: "unat ?n = unat start + (unat nxt - unat stop)"
      using sub assms(1) True by (subst unat_add_lem [THEN iffD1]) (simp_all add: word_less_nat_alt word_le_nat_alt)
    then have "unat ?n < unat nxt" "start \<le> ?n" using assms(1) True by (simp_all add: word_less_nat_alt word_le_nat_alt)
    then have "next_page_loop start stop ?n = Some (of_nat (unat start + (unat ?n - unat start) mod (unat stop - unat start)))"
      by (rule less.hyps)
    moreover have "(unat ?n - unat start) mod (unat stop - unat start) = (unat nxt - unat start) mod (unat stop - unat start)"
    proof -
      have "unat nxt - unat start = (unat nxt - unat stop) + (unat stop - unat start)"
        using assms(1) True by (simp add: word_less_nat_alt word_le_nat_alt)
      then show ?thesis by (simp add: n)
    qed
    ultimately show ?thesis using True by (subst next_page_loop.simps) simp
  next
    case False
    then have "unat nxt - unat start < unat stop - unat start" using less.prems
      by (simp add: word_less_nat_alt word_le_nat_alt not_le)
    then show ?thesis using False less.prems by (subst next_page_loop.simps) (simp add: word_le_nat_alt)
  qed
qed

lemma next_page_no:
  assumes "sensible s"
  shows "ne2000_next_page s (page_no s d) pages = Some (page_no s (d + unat pages))"
proof -
  note f = sensible_nat [OF assms] and pg = page_no_unat [OF assms, of d]
  let ?b = "unat (bnry s) + 1 - unat (pstart s)"
  let ?nxt = "ucast (page_no s d) + ucast pages :: u32"
  have nxt: "unat ?nxt = unat (page_no s d) + unat pages"
    using unat_lt2p [of pages] unat_lt2p [of "page_no s d"] by (subst unat_add_lem [THEN iffD1]) simp_all
  have lt: "(ucast (pstart s) :: u32) < ucast (pstop s)" "(ucast (pstart s) :: u32) \<le> ?nxt"
    using f pg nxt by (simp_all add: word_less_nat_alt word_le_nat_alt)
  have "next_page_loop (ucast (pstart s)) (ucast (pstop s)) ?nxt =
      Some (of_nat (unat (pstart s) + (unat (page_no s d) + unat pages - unat (pstart s)) mod pages_of s))"
    using next_page_loop_mod [OF lt] nxt by (simp add: pages_of_def)
  moreover have "(unat (page_no s d) + unat pages - unat (pstart s)) mod pages_of s = (?b + (d + unat pages)) mod pages_of s"
    using pg(1) by (simp add: mod_add_left_eq add.assoc)
  moreover have "(ucast (of_nat x :: u32) :: u8) = of_nat x" if "x < 256" for x
    using that by (intro ucast_of_nat) simp
  moreover have "unat (pstart s) + (?b + (d + unat pages)) mod pages_of s < 256"
    using page_no_unat [OF assms, of "d + unat pages"] f(3) by linarith
  ultimately show ?thesis
    unfolding ne2000_next_page_def sensible_ring [OF assms] by (simp only: option.map page_no_def)
qed

section \<open>The queue of frames in the ring\<close>

definition frame_pages :: "u8 list \<Rightarrow> nat" where
  "frame_pages f = (length f + 8 + 255) div 256"

definition framed :: "ne2000 \<Rightarrow> nat \<Rightarrow> u8 list \<Rightarrow> bool" where
  "framed s j f \<longleftrightarrow> flat s (256 * j + 1) = page_no s (j + frame_pages f) \<and>
     flat s (256 * j + 2) = of_nat (length f + 4) \<and> flat s (256 * j + 3) = of_nat ((length f + 4) div 256) \<and>
     (\<forall>i < length f. flat s (256 * j + 4 + i) = f ! i)"

fun queued :: "ne2000 \<Rightarrow> nat \<Rightarrow> u8 list list \<Rightarrow> bool" where
  "queued s j [] = True"
| "queued s j (f # fs) = (framed s j f \<and> queued s (j + frame_pages f) fs)"

definition all_pages :: "u8 list list \<Rightarrow> nat" where
  "all_pages fs = sum_list (map frame_pages fs)"

definition stored :: "ne2000 \<Rightarrow> u8 list list \<Rightarrow> bool" where
  "stored s fs \<longleftrightarrow> sensible s \<and> queued s 0 fs \<and> all_pages fs < pages_of s \<and> curr s = page_no s (all_pages fs) \<and>
     (\<forall>f \<in> set fs. length f \<le> 1600)"

lemma frame_pages_bounds: "length f + 8 \<le> 256 * frame_pages f" "0 < frame_pages f"
  unfolding frame_pages_def by linarith+

lemma framed_cong:
  assumes "framed s j f" and "page_no t = page_no s" and "\<And>x. x < 256 * (j + frame_pages f) \<Longrightarrow> flat t x = flat s x"
  shows "framed t j f"
proof -
  have same: "flat t (256 * j + x) = flat s (256 * j + x)" if "x < 256 * frame_pages f" for x
    using that assms(3) [of "256 * j + x"] by (simp add: add_mult_distrib2)
  have "flat t (256 * j + 1) = flat s (256 * j + 1)" "flat t (256 * j + 2) = flat s (256 * j + 2)"
    "flat t (256 * j + 3) = flat s (256 * j + 3)"
    by (rule same, use frame_pages_bounds(1) [of f] in linarith)+
  moreover have "flat t (256 * j + 4 + i) = flat s (256 * j + 4 + i)" if "i < length f" for i
    unfolding add.assoc by (rule same, use frame_pages_bounds(1) [of f] that in linarith)
  ultimately show ?thesis using assms(1,2) unfolding framed_def by (simp only:) blast
qed

lemma queued_append: "queued s j (fs @ gs) \<longleftrightarrow> queued s j fs \<and> queued s (j + all_pages fs) gs"
  by (induction fs arbitrary: j) (auto simp: all_pages_def add.assoc)

lemma queued_cong:
  assumes "queued s j fs" and "page_no t = page_no s" and "\<And>x. x < 256 * (j + all_pages fs) \<Longrightarrow> flat t x = flat s x"
  shows "queued t j fs"
  using assms
proof (induction fs arbitrary: j)
  case (Cons f fs)
  have "framed t j f" using Cons.prems by (intro framed_cong [of s j f t]) (simp_all add: all_pages_def)
  moreover have "queued t (j + frame_pages f) fs"
    using Cons.prems by (intro Cons.IH) (simp_all add: all_pages_def add.assoc)
  ultimately show ?case by simp
qed simp

lemma receive_fields:
  assumes "length f \<le> 1600"
  shows "ucast (drop_bit 8 (ucast ((of_nat (length f) + 4 :: u16) + 4) + 255 :: u32)) = (of_nat (frame_pages f) :: u8)"
    "ucast (of_nat (length f) + 4 :: u16) = (of_nat (length f + 4) :: u8)"
    "ucast (drop_bit 8 (of_nat (length f) + 4 :: u16)) = (of_nat ((length f + 4) div 256) :: u8)"
proof -
  have w: "(of_nat (length f) + 4 :: u16) = of_nat (length f + 4)" "(of_nat (length f + 4) + 4 :: u16) = of_nat (length f + 8)"
    by simp_all
  have "(ucast (of_nat (length f + 8) :: u16) + 255 :: u32) = of_nat (length f + 8 + 255)"
    using assms by (subst ucast_of_nat) simp_all
  then show "ucast (drop_bit 8 (ucast ((of_nat (length f) + 4 :: u16) + 4) + 255 :: u32)) = (of_nat (frame_pages f) :: u8)"
    unfolding w frame_pages_def using assms by (simp only: drop_8_of_nat) (subst drop_8_of_nat, simp, subst ucast_of_nat, simp_all)
  show "ucast (of_nat (length f) + 4 :: u16) = (of_nat (length f + 4) :: u8)"
    unfolding w using assms by (intro ucast_of_nat) simp
  show "ucast (drop_bit 8 (of_nat (length f) + 4 :: u16)) = (of_nat ((length f + 4) div 256) :: u8)"
    unfolding w using assms by (subst drop_8_of_nat) (simp, subst ucast_of_nat, simp_all)
qed

lemma page_no_inj:
  assumes "sensible s" and "i < pages_of s" and "j < pages_of s" and "page_no s i = page_no s j"
  shows "i = j"
proof -
  let ?b = "unat (bnry s) + 1 - unat (pstart s)"
  have "(?b + i) mod pages_of s = (?b + j) mod pages_of s"
    using page_no_unat(1) [OF assms(1), of i] page_no_unat(1) [OF assms(1), of j] assms(4) by simp
  then show ?thesis using assms(2,3) ring_slots_distinct [of i j "pages_of s" ?b] ring_slots_distinct [of j i "pages_of s" ?b]
    by (metis nat_neq_iff)
qed

definition same_ring :: "ne2000 \<Rightarrow> ne2000 \<Rightarrow> bool" where
  "same_ring s t \<longleftrightarrow> mem t = mem s \<and> pstart t = pstart s \<and> pstop t = pstop s \<and> curr t = curr s \<and> bnry t = bnry s"

lemma same_ring_flat:
  assumes "same_ring s t"
  shows "flat t = flat s" "page_no t = page_no s" "pages_of t = pages_of s" "sensible t = sensible s"
proof -
  note f = assms [unfolded same_ring_def]
  show "pages_of t = pages_of s" using f by (simp add: pages_of_def)
  with f show "flat t = flat s" "page_no t = page_no s" by (auto simp: fun_eq_iff flat_def flat_addr_def page_no_def)
  show "sensible t = sensible s" using f by (simp add: wf_simps)
qed

lemma same_ring_stored: "same_ring s t \<Longrightarrow> stored t fs = stored s fs"
  using same_ring_flat [of s t] queued_cong [of s 0 fs t] queued_cong [of t 0 fs s]
  by (auto simp: stored_def same_ring_def)

lemma same_ring_refl [simp]: "same_ring s s"
  by (simp add: same_ring_def)

lemma same_ring_trans [trans]: "same_ring s t \<Longrightarrow> same_ring t u \<Longrightarrow> same_ring s u"
  by (simp add: same_ring_def)

lemma receive_accepted:
  assumes "length f \<le> 1600" and "ne2000_accept_packet e s f"
  shows "ne2000_receive_packet e f s =
    (if \<not> ne2000_ring_has_space s (of_nat (frame_pages f)) then Some (s\<lparr>isr := isr s OR 0x10\<rparr>)
     else
       let c = (if curr s < pstart s \<or> curr s \<ge> pstop s then pstart s else curr s)
       in Option.bind (ne2000_next_page s c (of_nat (frame_pages f))) (\<lambda>nxt.
          map_option (\<lambda>s. s\<lparr>curr := nxt, rsr := 0x01, isr := isr s OR 0x01\<rparr>)
            (ring_write_all (push_bit 8 (ucast c))
              ([0x01 OR (if net_ether_eq e f (par s) then 0x20 else 0), nxt, of_nat (length f + 4),
                of_nat ((length f + 4) div 256)] @ f @ replicate 4 0) s)))"
proof -
  have "frame_pages f < 256" "0 < frame_pages f" using assms(1) frame_pages_bounds(2) by (simp_all add: frame_pages_def)
  then have "unat (of_nat (frame_pages f) :: u8) \<noteq> 0" by (simp add: unat_of_nat)
  then have nz: "(of_nat (frame_pages f) :: u8) \<noteq> 0" by (metis unat_0)
  show ?thesis
    unfolding ne2000_receive_packet_def Let_def receive_fields [OF assms(1)] if_not_P [OF nz] using assms(2) by simp
qed

text \<open>A frame that fits goes behind the others; one that does not leaves them alone.\<close>

lemma receive_stored:
  assumes "stored s fs" and "length f \<le> 1600" and "ne2000_accept_packet e s f"
  shows "\<exists>t. ne2000_receive_packet e f s = Some t \<and> pstart t = pstart s \<and> pstop t = pstop s \<and>
    (if frame_pages f + all_pages fs + 1 < pages_of s then stored t (fs @ [f]) \<and> curr t \<noteq> curr s else same_ring s t)"
proof -
  let ?d = "all_pages fs" and ?p = "frame_pages f"
  let ?pg = "of_nat ?p :: u8"
  have ok: "sensible s" "queued s 0 fs" "?d < pages_of s" "curr s = page_no s ?d" "\<forall>f \<in> set fs. length f \<le> 1600"
    using assms(1) by (simp_all add: stored_def)
  have p: "?p < 256" "0 < ?p" using assms(2) frame_pages_bounds(2) [of f] by (simp_all add: frame_pages_def)
  have pg: "unat ?pg = ?p" using p(1) by (simp add: unat_of_nat)
  have inside: "\<not> (curr s < pstart s \<or> curr s \<ge> pstop s)" using ok(1) by (auto simp: wf_simps)
  have room: "ne2000_ring_has_space s ?pg \<longleftrightarrow> ?p + ?d + 1 < pages_of s"
    using has_space_pages [OF ok(1,3,4)] pg by simp
  note recv = receive_accepted [OF assms(2,3)]
  show ?thesis
  proof (cases "?p + ?d + 1 < pages_of s")
    case False
    then have "ne2000_receive_packet e f s = Some (s\<lparr>isr := isr s OR 0x10\<rparr>)"
      using room by (simp add: recv)
    then show ?thesis using False by (simp add: same_ring_def)
  next
    case True
    let ?nxt = "page_no s (?d + ?p)"
    let ?bs = "[0x01 OR (if net_ether_eq e f (par s) then 0x20 else 0), ?nxt, of_nat (length f + 4),
        of_nat ((length f + 4) div 256)] @ f @ replicate 4 (0 :: u8)"
    have len: "length ?bs = length f + 8" by simp
    have fit: "256 * ?d + length ?bs \<le> pages_of s * 256"
      using True frame_pages_bounds(1) [of f] unfolding len by linarith
    obtain m where m: "ring_write_all (push_bit 8 (ucast (page_no s ?d)) + of_nat 0) ?bs s = Some (s\<lparr>mem := m\<rparr>)"
      "\<forall>x < pages_of s * 256. flat (s\<lparr>mem := m\<rparr>) x =
         (if 256 * ?d + 0 \<le> x \<and> x < 256 * ?d + 0 + length ?bs then ?bs ! (x - (256 * ?d + 0)) else flat s x)"
      using ring_write_all_flat [OF ok(1), of 0 ?bs ?d] fit sensible_nat(9) [OF ok(1)] len assms(2) by auto
    have nxt: "ne2000_next_page s (page_no s ?d) ?pg = Some ?nxt" using next_page_no [OF ok(1)] pg by simp
    let ?t = "s\<lparr>mem := m, curr := ?nxt, rsr := 0x01, isr := isr s OR 0x01\<rparr>"
    have recv: "ne2000_receive_packet e f s = Some ?t"
      unfolding recv Let_def if_not_P [OF inside] using room True m(1) nxt
      by (simp only: ok(4) not_True_eq_False if_False Option.bind.bind_lunit of_nat_0 add_0_right option.map) simp
    have t: "flat ?t = flat (s\<lparr>mem := m\<rparr>)" "page_no ?t = page_no s" "pages_of ?t = pages_of s"
      by (auto simp: fun_eq_iff flat_def flat_addr_def page_no_def pages_of_def)
    have old: "flat ?t x = flat s x" if "x < 256 * ?d" for x
      using that m(2) ok(3) by (simp add: t)
    have new: "flat ?t (256 * ?d + x) = ?bs ! x" if "x < length f + 8" for x
      using that m(2) fit len by (simp add: t)
    have "queued ?t 0 fs" using queued_cong [OF ok(2) t(2)] old by simp
    moreover have "framed ?t ?d f"
      unfolding framed_def t(2)
    proof (intro conjI allI impI)
      show "flat ?t (256 * ?d + 1) = page_no s (?d + ?p)" "flat ?t (256 * ?d + 2) = of_nat (length f + 4)"
        "flat ?t (256 * ?d + 3) = of_nat ((length f + 4) div 256)"
        using new [of 1] new [of 2] new [of 3] by simp_all
      show "flat ?t (256 * ?d + 4 + i) = f ! i" if "i < length f" for i
        using new [of "4 + i"] that by (simp add: nth_append add.assoc)
    qed
    ultimately have "queued ?t 0 (fs @ [f])" by (simp add: queued_append)
    moreover have "sensible ?t"
      using ok(1) page_no_unat [OF ok(1), of "?d + ?p"] by (auto simp: wf_simps word_le_nat_alt word_less_nat_alt)
    moreover have "all_pages (fs @ [f]) = ?d + ?p" by (simp add: all_pages_def)
    ultimately have "stored ?t (fs @ [f])" using True ok(5) assms(2) by (simp add: stored_def t)
    moreover have "?nxt \<noteq> curr s"
      using page_no_inj [OF ok(1), of "?d + ?p" ?d] True ok(3) p(2) by (auto simp: ok(4))
    ultimately show ?thesis using recv True by simp
  qed
qed

section \<open>The driver's side\<close>

text \<open>
  A driver polls the card through its registers: CURR and BNRY tell whether a frame waits, remote DMA
  reads its header and, in two pieces where the ring wraps, its bytes, and BNRY gives the pages back.
  \<open>a\<close> and \<open>z\<close> are the ring's first page and its end.
\<close>

definition out_port :: "u32 \<Rightarrow> u8 \<Rightarrow> ne2000 \<Rightarrow> ne2000" where
  "out_port r v s = ne2000_window_write r 1 (ucast v) s"

definition in_port :: "u32 \<Rightarrow> ne2000 \<Rightarrow> u8 \<times> ne2000" where
  "in_port r s = (case ne2000_window_read r 1 s of (v, s) \<Rightarrow> (ucast v, s))"

fun dma_bytes :: "nat \<Rightarrow> ne2000 \<Rightarrow> u8 list \<times> ne2000" where
  "dma_bytes 0 s = ([], s)"
| "dma_bytes (Suc n) s = (let (b, s) = in_port 0x10 s; (bs, s) = dma_bytes n s in (b # bs, s))"

definition remote_read :: "nat \<Rightarrow> nat \<Rightarrow> ne2000 \<Rightarrow> u8 list \<times> ne2000" where
  "remote_read addr n s =
     dma_bytes n (out_port 0 0x0A (out_port 0x0B (of_nat (n div 256)) (out_port 0x0A (of_nat n)
       (out_port 9 (of_nat (addr div 256)) (out_port 8 (of_nat addr) s)))))"

definition ring_read :: "nat \<Rightarrow> nat \<Rightarrow> nat \<Rightarrow> nat \<Rightarrow> ne2000 \<Rightarrow> u8 list \<times> ne2000" where
  "ring_read a z start n s =
     (if start + n \<le> z * 256 then remote_read start n s
      else let (p, s) = remote_read start (z * 256 - start) s;
               (q, s) = remote_read (a * 256) (n - (z * 256 - start)) s
           in (p @ q, s))"

definition driver_fetch :: "nat \<Rightarrow> nat \<Rightarrow> nat \<Rightarrow> ne2000 \<Rightarrow> u8 list option \<times> ne2000" where
  "driver_fetch a z pg s =
     (let (hdr, s) = remote_read (pg * 256) 4 s;
          (body, s) = ring_read a z (pg * 256 + 4) (unat (hdr ! 2) + 256 * unat (hdr ! 3) - 4) s;
          nxt = unat (hdr ! 1)
      in (Some body, out_port 3 (of_nat (if nxt = a then z - 1 else nxt - 1)) s))"

definition driver_poll :: "nat \<Rightarrow> nat \<Rightarrow> ne2000 \<Rightarrow> u8 list option \<times> ne2000" where
  "driver_poll a z s =
     (let (c, s) = in_port 7 (out_port 0 0x62 s);
          (b, s) = in_port 3 (out_port 0 0x22 s);
          pg = (if unat b + 1 = z then a else unat b + 1)
      in if pg = unat c then (None, s) else driver_fetch a z pg s)"

definition page0 :: "ne2000 \<Rightarrow> bool" where
  "page0 s \<longleftrightarrow> cr s AND 0xC0 = 0"

lemma ucast_back [simp]: "(ucast (ucast (v :: u8) :: u64) :: u8) = v"
  by (rule bit_eqI) (auto simp: bit_simps)

lemma byte_at_ucast [simp]: "byte_at (ucast (v :: u8)) 0 = v"
  by (simp add: byte_at_def)

lemma out_reg:
  "out_port 8 v s = ne2000_write_reg 8 v s" "out_port 9 v s = ne2000_write_reg 9 v s"
  "out_port 0x0A v s = ne2000_write_reg 0x0A v s" "out_port 0x0B v s = ne2000_write_reg 0x0B v s"
  "out_port 0 v s = ne2000_write_cr v s" "out_port 3 v s = ne2000_write_reg 3 v s"
  by (simp_all add: out_port_def ne2000_window_write_def ne2000_write_reg_def)

lemma page0_shift: "page0 s \<Longrightarrow> drop_bit 6 (cr s AND 0xC0) = 0"
  by (simp add: page0_def)

lemma done_fields [simp]:
  "same_ring s (ne2000_remote_done_if_needed t) = same_ring s t" "cr (ne2000_remote_done_if_needed t) = cr t"
  "remote_addr (ne2000_remote_done_if_needed t) = remote_addr t" "mem (ne2000_remote_done_if_needed t) = mem t"
  "pstart (ne2000_remote_done_if_needed t) = pstart t" "pstop (ne2000_remote_done_if_needed t) = pstop t"
  "curr (ne2000_remote_done_if_needed t) = curr t" "bnry (ne2000_remote_done_if_needed t) = bnry t"
  by (simp_all add: ne2000_remote_done_if_needed_def same_ring_def)

lemma advance_fields [simp]:
  "remote_addr (advance_remote s) = remote_addr s + 1" "mem (advance_remote s) = mem s" "cr (advance_remote s) = cr s"
  "same_ring s (advance_remote s)"
  by (simp_all add: advance_remote_def same_ring_def)

lemma dma_byte:
  "in_port 0x10 s = (mem s (unat (remote_addr s) mod CF_NE2000_MEM_SIZE), ne2000_remote_done_if_needed (advance_remote s))"
  by (simp add: in_port_def ne2000_window_read_def ne2000_data_read_def ne2000_mem_read_def)

lemma dma_bytes_mem:
  assumes "unat (remote_addr s) + n \<le> CF_NE2000_MEM_SIZE"
  shows "fst (dma_bytes n s) = map (\<lambda>i. mem s (unat (remote_addr s) + i)) [0..<n] \<and> same_ring s (snd (dma_bytes n s)) \<and>
    cr (snd (dma_bytes n s)) = cr s"
  using assms
proof (induction n arbitrary: s)
  case (Suc n)
  let ?s = "ne2000_remote_done_if_needed (advance_remote s)"
  have step: "unat (remote_addr s + 1) = unat (remote_addr s) + 1"
    using Suc.prems unat_add16 [of "remote_addr s" 1] by simp
  have IH: "fst (dma_bytes n ?s) = map (\<lambda>i. mem s (unat (remote_addr s) + 1 + i)) [0..<n]" "same_ring ?s (snd (dma_bytes n ?s))"
    "cr (snd (dma_bytes n ?s)) = cr s"
    using Suc.IH [of ?s] Suc.prems by (simp_all add: step)
  have "map (\<lambda>i. mem s (unat (remote_addr s) + i)) [0..<Suc n] =
      mem s (unat (remote_addr s)) # map (\<lambda>i. mem s (unat (remote_addr s) + 1 + i)) [0..<n]"
    by (simp add: upt_conv_Cons map_Suc_upt [symmetric] del: upt_Suc)
  moreover have "same_ring s (snd (dma_bytes n ?s))" using same_ring_trans [of s ?s] IH(2) by simp
  ultimately show ?case using IH Suc.prems by (simp add: dma_byte split_beta Let_def del: upt_Suc)
qed simp

lemma write_page0:
  assumes "page0 s"
  shows "ne2000_write_reg 8 v s = s\<lparr>rsar0 := v\<rparr>" "ne2000_write_reg 9 v s = s\<lparr>rsar1 := v\<rparr>"
    "ne2000_write_reg 0x0A v s = s\<lparr>rbcr0 := v\<rparr>" "ne2000_write_reg 0x0B v s = s\<lparr>rbcr1 := v\<rparr>"
    "ne2000_write_reg 3 v s = s\<lparr>bnry := v\<rparr>"
  using page0_shift [OF assms] by (simp_all add: ne2000_write_reg_def)

lemma write_cr_dma:
  "ne2000_write_cr 0x0A s = (ne2000_remote_done_if_needed
     (s\<lparr>cr := 0x0A, remote_cmd := 0x08, isr := isr s AND NOT 0x80,
        remote_addr := ucast (rsar0 s) OR push_bit 8 (ucast (rsar1 s)), remote_count := ne2000_remote_count s\<rparr>))\<lparr>cr := 0x0A\<rparr>"
  by (simp add: ne2000_write_cr_def ne2000_remote_count_def Let_def)

lemma remote_setup:
  assumes "page0 s" and "addr < 65536" and "n < 65536"
  shows "let t = out_port 0 0x0A (out_port 0x0B (of_nat (n div 256)) (out_port 0x0A (of_nat n)
       (out_port 9 (of_nat (addr div 256)) (out_port 8 (of_nat addr) s))))
     in remote_addr t = of_nat addr \<and> mem t = mem s \<and> same_ring s t \<and> page0 t"
proof -
  have join: "(ucast (of_nat addr :: u8) OR push_bit 8 (ucast (of_nat (addr div 256) :: u8)) :: u16) = of_nat addr"
  proof (rule bit_word_eqI)
    fix k :: nat assume "k < LENGTH(16)"
    moreover have "bit (addr div 256) (k - 8) = bit addr k" if "8 \<le> k"
      using that bit_drop_bit_eq [of 8 addr] by (simp add: drop_bit_eq_div fun_eq_iff)
    ultimately show "bit (ucast (of_nat addr :: u8) OR push_bit 8 (ucast (of_nat (addr div 256) :: u8)) :: u16) k = bit (of_nat addr :: u16) k"
      by (auto simp: bit_simps)
  qed
  show ?thesis using assms(1) by (simp add: out_reg Let_def write_page0 write_cr_dma join same_ring_def page0_def)
qed

lemma remote_read_mem:
  assumes "page0 s" and "addr + n \<le> CF_NE2000_MEM_SIZE"
  shows "fst (remote_read addr n s) = map (mem s) [addr..<addr + n]" "same_ring s (snd (remote_read addr n s))"
    "page0 (snd (remote_read addr n s))"
proof -
  let ?t = "out_port 0 0x0A (out_port 0x0B (of_nat (n div 256)) (out_port 0x0A (of_nat n)
       (out_port 9 (of_nat (addr div 256)) (out_port 8 (of_nat addr) s))))"
  have t: "remote_addr ?t = of_nat addr" "mem ?t = mem s" "same_ring s ?t" "page0 ?t"
    using remote_setup [OF assms(1), of addr n] assms(2) unfolding Let_def by simp_all
  have a: "unat (remote_addr ?t) = addr" using assms(2) by (simp add: t unat_of_nat)
  note d = dma_bytes_mem [of ?t n, unfolded a t(2)]
  have "map (\<lambda>i. mem s (addr + i)) [0..<n] = map (mem s) [addr..<addr + n]"
    by (rule nth_equalityI) simp_all
  then show "fst (remote_read addr n s) = map (mem s) [addr..<addr + n]" "same_ring s (snd (remote_read addr n s))"
    "page0 (snd (remote_read addr n s))"
    using d assms(2) t(3,4) unfolding remote_read_def page0_def by (auto intro: same_ring_trans)
qed

lemma port_reads:
  "in_port 7 (out_port 0 0x62 s) = (curr s, out_port 0 0x62 s)"
  "in_port 3 (out_port 0 0x22 s) = (bnry s, out_port 0 0x22 s)"
  "same_ring s (out_port 0 0x62 s)" "same_ring s (out_port 0 0x22 s)" "page0 (out_port 0 0x22 s)"
  by (simp_all add: out_reg in_port_def ne2000_window_read_def ne2000_read_reg_def ne2000_write_cr_def Let_def same_ring_def page0_def)

text \<open>A stretch of the queue, read at its place in the ring.\<close>

lemma flat_range:
  assumes "sensible s" and "k \<le> 256" and "256 * j + k + n \<le> pages_of s * 256"
    and "unat (page_no s j) * 256 + k + n \<le> unat (pstop s) * 256"
  shows "map (mem s) [unat (page_no s j) * 256 + k..<unat (page_no s j) * 256 + k + n] = map (\<lambda>i. flat s (256 * j + k + i)) [0..<n]"
proof (rule nth_equalityI)
  fix i assume "i < length (map (mem s) [unat (page_no s j) * 256 + k..<unat (page_no s j) * 256 + k + n])"
  then have i: "i < n" by simp
  note pg = page_no_unat [OF assms(1), of j] and f = sensible_nat [OF assms(1)]
  have "(unat (page_no s j) - unat (pstart s)) * 256 + (k + i) < pages_of s * 256"
    using i assms(4) pg(3) f(2) by (simp add: pages_of_def diff_mult_distrib)
  then have "flat_addr s (256 * j + (k + i)) = unat (page_no s j) * 256 + (k + i)"
    using flat_page [OF assms(1), of j "k + i"] pg(3) by (simp add: diff_mult_distrib)
  then show "map (mem s) [unat (page_no s j) * 256 + k..<unat (page_no s j) * 256 + k + n] ! i =
      map (\<lambda>i. flat s (256 * j + k + i)) [0..<n] ! i"
    using i by (simp add: flat_def add.assoc)
qed simp

lemma wrapped_range:
  assumes "sensible s" and "k \<le> 256" and "n < pages_of s * 256"
    and "k + m = (unat (pstop s) - unat (page_no s j)) * 256"
  shows "map (mem s) [unat (pstart s) * 256..<unat (pstart s) * 256 + n] = map (\<lambda>i. flat s (256 * j + k + m + i)) [0..<n]"
proof (rule nth_equalityI)
  fix i assume "i < length (map (mem s) [unat (pstart s) * 256..<unat (pstart s) * 256 + n])"
  then have i: "i < n" by simp
  note pg = page_no_unat [OF assms(1), of j] and f = sensible_nat [OF assms(1)]
  have "(unat (page_no s j) - unat (pstart s)) * 256 + (k + m + i) = pages_of s * 256 + i"
    using assms(4) pg(2,3) f(2) unfolding pages_of_def diff_mult_distrib by linarith
  then have "flat_addr s (256 * j + (k + m + i)) = unat (pstart s) * 256 + i"
    using flat_page [OF assms(1), of j "k + m + i"] mod_less [of i "pages_of s * 256"] order_less_trans [OF i assms(3)]
    by (simp only: mod_add_self1)
  then show "map (mem s) [unat (pstart s) * 256..<unat (pstart s) * 256 + n] ! i = map (\<lambda>i. flat s (256 * j + k + m + i)) [0..<n] ! i"
    using i by (simp add: flat_def add.assoc)
qed simp

definition give_back :: "ne2000 \<Rightarrow> u8 \<Rightarrow> nat" where
  "give_back s nxt = (if unat nxt = unat (pstart s) then unat (pstop s) - 1 else unat nxt - 1)"

lemma give_back_shift:
  fixes p :: nat
  assumes "sensible s" and "same_ring s t"
  defines "u \<equiv> t\<lparr>bnry := of_nat (give_back s (page_no s p))\<rparr>"
  shows "sensible u" "pages_of u = pages_of s" "page_no u j = page_no s (p + j)" "flat u x = flat s (256 * p + x)" "curr u = curr s"
proof -
  note f = sensible_nat [OF assms(1)] and pg = page_no_unat [OF assms(1), of p] and t = assms(2) [unfolded same_ring_def]
  let ?g = "give_back s (page_no s p)" and ?b = "unat (bnry s) + 1 - unat (pstart s)"
  have g: "?g < unat (pstop s)" "unat (pstart s) \<le> ?g" using pg f by (auto simp: give_back_def)
  then have ub: "unat (bnry u) = ?g" using f(3) by (simp add: u_def unat_of_nat)
  have fields: "pstart u = pstart s" "pstop u = pstop s" "curr u = curr s" "mem u = mem s" using t by (simp_all add: u_def)
  show "pages_of u = pages_of s" "curr u = curr s" by (simp_all add: pages_of_def fields)
  show "sensible u" using assms(1) g ub by (auto simp: wf_simps fields word_le_nat_alt word_less_nat_alt)
  have "(unat (bnry u) + 1 - unat (pstart s)) mod pages_of s = (unat (page_no s p) - unat (pstart s)) mod pages_of s"
    using pg(3) f(1,2) unfolding ub give_back_def by (auto simp: pages_of_def)
  then have base: "(unat (bnry u) + 1 - unat (pstart s)) mod pages_of s = (?b + p) mod pages_of s" using pg(1) by simp
  have "(unat (bnry u) + 1 - unat (pstart s) + j) mod pages_of s = (?b + (p + j)) mod pages_of s"
    unfolding add.assoc [symmetric] by (rule mod_add_cong [OF base refl])
  then show "page_no u j = page_no s (p + j)" by (simp add: page_no_def fields pages_of_def)
  have "((unat (bnry u) + 1 - unat (pstart s)) * 256 + x) mod (pages_of s * 256) = ((?b + p) * 256 + x) mod (pages_of s * 256)"
    by (rule mod_add_cong [OF _ refl]) (simp only: mod_mult_mult2 base)
  then show "flat u x = flat s (256 * p + x)"
    by (simp add: flat_def flat_addr_def fields pages_of_def add_mult_distrib mult.commute add.assoc)
qed

lemma queued_shift:
  assumes "\<And>j. page_no u j = page_no s (p + j)" and "\<And>x. flat u x = flat s (256 * p + x)"
  shows "queued u j fs = queued s (p + j) fs"
proof (induction fs arbitrary: j)
  case (Cons f fs)
  have "framed u j f = framed s (p + j) f"
    unfolding framed_def assms by (simp add: add_mult_distrib2 add.assoc)
  then show ?case using Cons [of "j + frame_pages f"] by (simp add: add.assoc)
qed simp

lemma bytes_of_length: "x < 65536 \<Longrightarrow> unat (of_nat x :: u8) + 256 * unat (of_nat (x div 256) :: u8) = x"
  by (simp add: unat_of_nat)

text \<open>The driver takes the first frame and gives its pages back.\<close>

lemma first_page: "sensible s \<Longrightarrow> unat (page_no s 0) = (if unat (bnry s) + 1 = unat (pstop s) then unat (pstart s) else unat (bnry s) + 1)"
proof -
  assume s: "sensible s"
  note f = sensible_nat [OF s]
  show ?thesis
  proof (cases "unat (bnry s) + 1 = unat (pstop s)")
    case True
    then have "unat (bnry s) + 1 - unat (pstart s) = pages_of s" by (simp add: pages_of_def)
    then show ?thesis using True by (simp add: page_no_unat(1) [OF s])
  next
    case False
    then have "(unat (bnry s) + 1 - unat (pstart s)) mod pages_of s = unat (bnry s) + 1 - unat (pstart s)"
      using f by (intro mod_less) (auto simp: pages_of_def)
    then show ?thesis using False f by (simp add: page_no_unat(1) [OF s])
  qed
qed

lemma body_read:
  assumes "sensible s" and "same_ring s t" and "page0 t" and "4 + n \<le> pages_of s * 256"
  defines "start \<equiv> unat (page_no s 0) * 256 + 4"
  defines "r \<equiv> ring_read (unat (pstart s)) (unat (pstop s)) start n t"
  shows "fst r = map (\<lambda>i. flat s (4 + i)) [0..<n]" "same_ring s (snd r)" "page0 (snd r)"
proof -
  note f = sensible_nat [OF assms(1)] and pg = page_no_unat [OF assms(1), of 0] and t = assms(2) [unfolded same_ring_def]
  have top: "start + 4 \<le> unat (pstop s) * 256 + 4" "unat (pstop s) * 256 \<le> CF_NE2000_MEM_SIZE"
    using pg(2) f(3) by (simp_all add: start_def)
  have "fst r = map (\<lambda>i. flat s (4 + i)) [0..<n] \<and> same_ring s (snd r) \<and> page0 (snd r)"
  proof (cases "start + n \<le> unat (pstop s) * 256")
    case True
    then have "start + n \<le> CF_NE2000_MEM_SIZE" using top by linarith
    from remote_read_mem [OF assms(3) this]
    show ?thesis using flat_range [OF assms(1), of 4 0 n] True assms(2,4) t
      by (simp add: r_def ring_read_def start_def) (blast intro: same_ring_trans)
  next
    case False
    let ?m = "unat (pstop s) * 256 - start" and ?l = "remote_read start (unat (pstop s) * 256 - start) t"
    have m: "start + ?m = unat (pstop s) * 256" using pg(2) by (simp add: start_def)
    then have "start + ?m \<le> CF_NE2000_MEM_SIZE" using top by linarith
    note p = remote_read_mem [OF assms(3) this]
    have sm: "same_ring s (snd ?l)" using assms(2) p(2) by (rule same_ring_trans)
    have "unat (pstart s) * 256 + (n - ?m) \<le> CF_NE2000_MEM_SIZE"
      using assms(4) f(2,3) m unfolding pages_of_def by linarith
    note q = remote_read_mem [OF p(3) this]
    have mm: "?m \<le> n" using False m by linarith
    have "fst ?l = map (\<lambda>i. flat s (4 + i)) [0..<?m]"
      using p(1) flat_range [OF assms(1), of 4 0 ?m] m mm assms(4) t by (simp add: start_def)
    moreover have "4 + ?m = (unat (pstop s) - unat (page_no s 0)) * 256" using m by (simp add: start_def diff_mult_distrib)
    then have "fst (remote_read (unat (pstart s) * 256) (n - ?m) (snd ?l)) = map (\<lambda>i. flat s (4 + ?m + i)) [0..<n - ?m]"
      using q(1) wrapped_range [OF assms(1), of 4 "n - ?m" ?m 0] assms(4) sm unfolding same_ring_def by simp
    moreover have "map (\<lambda>i. flat s (4 + i)) [0..<?m] @ map (\<lambda>i. flat s (4 + ?m + i)) [0..<n - ?m] = map (\<lambda>i. flat s (4 + i)) [0..<n]"
      using mm by (intro nth_equalityI) (auto simp: nth_append add.assoc)
    ultimately show ?thesis using False q(2,3) sm
      by (simp add: r_def ring_read_def split_beta Let_def) (blast intro: same_ring_trans)
  qed
  then show "fst r = map (\<lambda>i. flat s (4 + i)) [0..<n]" "same_ring s (snd r)" "page0 (snd r)" by simp_all
qed

lemma poll_stored:
  assumes "stored s (f # fs)"
  shows "fst (driver_poll (unat (pstart s)) (unat (pstop s)) s) = Some f"
    "stored (snd (driver_poll (unat (pstart s)) (unat (pstop s)) s)) fs"
    "pstart (snd (driver_poll (unat (pstart s)) (unat (pstop s)) s)) = pstart s"
    "pstop (snd (driver_poll (unat (pstart s)) (unat (pstop s)) s)) = pstop s"
proof -
  let ?d = "all_pages (f # fs)" and ?P = "unat (pstart s)" and ?Z = "unat (pstop s)"
  have ok: "sensible s" "framed s 0 f" "queued s (frame_pages f) fs" "?d < pages_of s" "curr s = page_no s ?d"
    "length f \<le> 1600" "\<forall>f \<in> set fs. length f \<le> 1600"
    using assms by (simp_all add: stored_def)
  have d: "?d = frame_pages f + all_pages fs" by (simp add: all_pages_def)
  note f = sensible_nat [OF ok(1)] and pg = page_no_unat [OF ok(1), of 0] and fp = frame_pages_bounds [of f]
  define s1 where "s1 = out_port 0 0x22 (out_port 0 0x62 s)"
  have s1: "same_ring s s1" "page0 s1" unfolding s1_def
    using port_reads(3) [of s] port_reads(4,5) [of "out_port 0 0x62 s"] by (auto intro: same_ring_trans)
  let ?pg = "if unat (bnry s) + 1 = ?Z then ?P else unat (bnry s) + 1"
  have pno: "?pg = unat (page_no s 0)" using first_page [OF ok(1)] by simp
  have fit: "length f + 8 \<le> pages_of s * 256" using fp(1) ok(4) unfolding d by linarith
  have busy: "?pg \<noteq> unat (curr s)"
    using page_no_inj [OF ok(1), of 0 ?d] ok(4) fp(2) f(8) unfolding pno ok(5) d by (auto simp: word_unat_eq_iff)
  have "unat (page_no s 0) * 256 + 4 \<le> CF_NE2000_MEM_SIZE" using pg(2) f(3) by simp
  note h = remote_read_mem [OF s1(2) this]
  define hdr where "hdr = fst (remote_read (unat (page_no s 0) * 256) 4 s1)"
  define s2 where "s2 = snd (remote_read (unat (page_no s 0) * 256) 4 s1)"
  have "hdr = map (\<lambda>i. flat s i) [0..<4]"
    using h(1) flat_range [OF ok(1), of 0 0 4] pg(2) s1(1) fit unfolding hdr_def same_ring_def by simp
  then have hdr: "hdr ! 1 = page_no s (frame_pages f)" "hdr ! 2 = of_nat (length f + 4)" "hdr ! 3 = of_nat ((length f + 4) div 256)"
    using ok(2) by (simp_all add: framed_def)
  have len: "unat (hdr ! 2) + 256 * unat (hdr ! 3) - 4 = length f"
    unfolding hdr(2,3) using ok(6) by (subst bytes_of_length) simp_all
  have s2: "same_ring s s2" "page0 s2" using s1 h(2,3) unfolding s2_def by (auto intro: same_ring_trans)
  have fit4: "4 + length f \<le> pages_of s * 256" using fit by simp
  define r where "r = ring_read ?P ?Z (unat (page_no s 0) * 256 + 4) (length f) s2"
  have r: "fst r = map (\<lambda>i. flat s (4 + i)) [0..<length f]" "same_ring s (snd r)" "page0 (snd r)"
    using body_read [OF ok(1) s2 fit4] unfolding r_def by simp_all
  have body: "fst r = f" unfolding r(1) using ok(2) by (intro nth_equalityI) (simp_all add: framed_def)
  have poll: "driver_poll ?P ?Z s =
      (Some (fst r), out_port 3 (of_nat (if unat (page_no s (frame_pages f)) = ?P then ?Z - 1 else unat (page_no s (frame_pages f)) - 1)) (snd r))"
  proof -
    have b: "bnry (out_port 0 0x62 s) = bnry s" using port_reads(3) [of s] by (simp add: same_ring_def)
    have "driver_poll ?P ?Z s = driver_fetch ?P ?Z (unat (page_no s 0)) s1"
      unfolding driver_poll_def port_reads(1) prod.case Let_def port_reads(2) s1_def [symmetric] b pno
        if_not_P [OF busy [unfolded pno]] by (rule refl)
    then show ?thesis
      by (simp only: driver_fetch_def split_beta Let_def hdr_def [symmetric] s2_def [symmetric] len hdr(1) r_def [symmetric])
  qed
  have u: "snd (driver_poll ?P ?Z s) = (snd r)\<lparr>bnry := of_nat (give_back s (page_no s (frame_pages f)))\<rparr>"
    unfolding poll using r(3) by (simp add: out_reg write_page0 give_back_def)
  note g = give_back_shift [OF ok(1) r(2), of "frame_pages f"]
  show "fst (driver_poll ?P ?Z s) = Some f" using poll body by simp
  show "pstart (snd (driver_poll ?P ?Z s)) = pstart s" "pstop (snd (driver_poll ?P ?Z s)) = pstop s"
    unfolding u using r(2) by (simp_all add: same_ring_def)
  have "queued (snd (driver_poll ?P ?Z s)) 0 fs"
    unfolding u using ok(3) queued_shift [OF g(3,4), of 0 fs] by simp
  then show "stored (snd (driver_poll ?P ?Z s)) fs"
    unfolding u stored_def using g ok(4,5,7) d by simp
qed

lemma poll_empty:
  assumes "stored s []"
  shows "fst (driver_poll (unat (pstart s)) (unat (pstop s)) s) = None"
    "same_ring s (snd (driver_poll (unat (pstart s)) (unat (pstop s)) s))"
proof -
  have ok: "sensible s" "curr s = page_no s 0" using assms by (simp_all add: stored_def all_pages_def)
  have b: "bnry (out_port 0 0x62 s) = bnry s" using port_reads(3) [of s] by (simp add: same_ring_def)
  have "driver_poll (unat (pstart s)) (unat (pstop s)) s = (None, out_port 0 0x22 (out_port 0 0x62 s))"
    unfolding driver_poll_def port_reads(1) prod.case Let_def port_reads(2) b first_page [OF ok(1), symmetric] ok(2) by simp
  then show "fst (driver_poll (unat (pstart s)) (unat (pstop s)) s) = None"
    "same_ring s (snd (driver_poll (unat (pstart s)) (unat (pstop s)) s))"
    using port_reads(3) [of s] port_reads(4) [of "out_port 0 0x62 s"] by (auto intro: same_ring_trans)
qed

section \<open>Properties\<close>

text \<open>A history of frames on the wire and polls by the driver; \<open>kept\<close> are the frames that moved CURR.\<close>

datatype ne_event = Wire "u8 list" | Poll

fun history :: "ether_tests \<Rightarrow> nat \<Rightarrow> nat \<Rightarrow> ne_event list \<Rightarrow> ne2000 \<Rightarrow> (u8 list list \<times> u8 list list \<times> ne2000) option" where
  "history e a z [] s = Some ([], [], s)"
| "history e a z (Wire f # es) s =
     (case ne2000_receive_packet e f s of
        None \<Rightarrow> None
      | Some t \<Rightarrow> map_option (\<lambda>(kept, got, u). (if curr t \<noteq> curr s then f # kept else kept, got, u)) (history e a z es t))"
| "history e a z (Poll # es) s =
     (case driver_poll a z s of (r, t) \<Rightarrow>
        map_option (\<lambda>(kept, got, u). (kept, case r of None \<Rightarrow> got | Some f \<Rightarrow> f # got, u)) (history e a z es t))"

lemma history_stored:
  assumes "stored s fs" and "\<forall>f. Wire f \<in> set es \<longrightarrow> length f \<le> 1600"
  shows "\<exists>kept got u gs. history e (unat (pstart s)) (unat (pstop s)) es s = Some (kept, got, u) \<and> stored u gs \<and> fs @ kept = got @ gs"
  using assms
proof (induction es arbitrary: s fs)
  case Nil
  then show ?case by auto
next
  case (Cons ev es)
  let ?h = "history e (unat (pstart s)) (unat (pstop s)) es"
  have len: "\<forall>f. Wire f \<in> set es \<longrightarrow> length f \<le> 1600" using Cons.prems(2) by simp
  have IH: "\<exists>kept got u hs. ?h t = Some (kept, got, u) \<and> stored u hs \<and> gs @ kept = got @ hs"
    if "stored t gs" "pstart t = pstart s" "pstop t = pstop s" for t gs
    using Cons.IH [OF that(1) len] that(2,3) by simp
  show ?case
  proof (cases ev)
    case (Wire f)
    then have lf: "length f \<le> 1600" using Cons.prems(2) by simp
    obtain t where t: "ne2000_receive_packet e f s = Some t" "pstart t = pstart s" "pstop t = pstop s"
      "if curr t \<noteq> curr s then stored t (fs @ [f]) else stored t fs"
    proof (cases "ne2000_accept_packet e s f")
      case True
      from receive_stored [OF Cons.prems(1) lf this] obtain t where
        t: "ne2000_receive_packet e f s = Some t" "pstart t = pstart s" "pstop t = pstop s"
        and c: "if frame_pages f + all_pages fs + 1 < pages_of s then stored t (fs @ [f]) \<and> curr t \<noteq> curr s else same_ring s t"
        by (elim exE conjE)
      have "if curr t \<noteq> curr s then stored t (fs @ [f]) else stored t fs"
      proof (cases "frame_pages f + all_pages fs + 1 < pages_of s")
        case False
        then have "same_ring s t" using c by simp
        then show ?thesis using same_ring_stored [of s t] Cons.prems(1) by (simp add: same_ring_def)
      qed (use c in simp)
      with t show ?thesis by (rule that)
    next
      case False
      then show ?thesis using that [of s] Cons.prems(1) by (simp add: ne2000_receive_packet_def)
    qed
    show ?thesis
    proof (cases "curr t \<noteq> curr s")
      case True
      then have "stored t (fs @ [f])" using t(4) by simp
      from IH [OF this t(2,3)] obtain kept got u hs where
        h: "?h t = Some (kept, got, u)" "stored u hs" "(fs @ [f]) @ kept = got @ hs" by blast
      then have "history e (unat (pstart s)) (unat (pstop s)) (Wire f # es) s = Some (f # kept, got, u)"
        using True t(1) by simp
      with h show ?thesis unfolding Wire by auto
    next
      case False
      then have "stored t fs" using t(4) by simp
      from IH [OF this t(2,3)] obtain kept got u hs where
        h: "?h t = Some (kept, got, u)" "stored u hs" "fs @ kept = got @ hs" by blast
      then have "history e (unat (pstart s)) (unat (pstop s)) (Wire f # es) s = Some (kept, got, u)"
        using False t(1) by simp
      with h show ?thesis unfolding Wire by auto
    qed
  next
    case Poll
    let ?t = "snd (driver_poll (unat (pstart s)) (unat (pstop s)) s)"
    show ?thesis
    proof (cases fs)
      case Nil
      then have e: "fst (driver_poll (unat (pstart s)) (unat (pstop s)) s) = None" "same_ring s ?t"
        using poll_empty Cons.prems(1) by simp_all
      have "stored ?t fs" using Cons.prems(1) unfolding same_ring_stored [OF e(2)] .
      moreover have "pstart ?t = pstart s" "pstop ?t = pstop s" using e(2) unfolding same_ring_def by blast+
      ultimately have "stored ?t fs" "pstart ?t = pstart s" "pstop ?t = pstop s" .
      from IH [OF this] obtain kept got u hs where
        h: "?h ?t = Some (kept, got, u)" "stored u hs" "fs @ kept = got @ hs" by blast
      then have "history e (unat (pstart s)) (unat (pstop s)) (Poll # es) s = Some (kept, got, u)"
        using e(1) by (simp add: split_beta)
      then show ?thesis unfolding Poll using h(2,3) by blast
    next
      case fs: (Cons f gs)
      note p = poll_stored [OF Cons.prems(1) [unfolded fs]]
      from IH [OF p(2-4)] obtain kept got u hs where
        h: "?h ?t = Some (kept, got, u)" "stored u hs" "gs @ kept = got @ hs" by blast
      then have "history e (unat (pstart s)) (unat (pstop s)) (Poll # es) s = Some (kept, f # got, u)"
        using p(1) by (simp add: split_beta)
      moreover have "fs @ kept = (f # got) @ hs" using h(3) by (simp add: fs)
      ultimately show ?thesis unfolding Poll using h(2) by blast
    qed
  qed
qed

lemma stored_initially:
  assumes "sensible s" and "unat (curr s) = (if unat (bnry s) + 1 = unat (pstop s) then unat (pstart s) else unat (bnry s) + 1)"
  shows "stored s []"
  using assms first_page [OF assms(1)] sensible_nat(8) [OF assms(1)]
  by (simp add: stored_def all_pages_def word_unat_eq_iff)

text \<open>C10: The receive ring is a queue. With the ring inside packet memory, whatever frames arrive and
  however often the driver polls, reception always completes, the frames the driver gets are the
  frames the ring took, whole and in order, the rest is still in the ring, and an accepted frame is
  taken exactly when it leaves a page free before the unread ones.\<close>

theorem ne2000_ring_fifo:
  assumes "sensible s"
    and "unat (curr s) = (if unat (bnry s) + 1 = unat (pstop s) then unat (pstart s) else unat (bnry s) + 1)"
    and "\<forall>f. Wire f \<in> set es \<longrightarrow> length f \<le> 1600"
  shows "\<exists>kept got u rest. history e (unat (pstart s)) (unat (pstop s)) es s = Some (kept, got, u) \<and>
    kept = got @ rest \<and> stored u rest \<and>
    (\<forall>f. length f \<le> 1600 \<longrightarrow> ne2000_accept_packet e u f \<longrightarrow> (\<exists>t. ne2000_receive_packet e f u = Some t \<and>
       (curr t \<noteq> curr u \<longleftrightarrow> frame_pages f + all_pages rest + 1 < pages_of u)))"
proof -
  obtain kept got u rest where h: "history e (unat (pstart s)) (unat (pstop s)) es s = Some (kept, got, u)"
    "stored u rest" "[] @ kept = got @ rest"
    using history_stored [OF stored_initially [OF assms(1,2)] assms(3)] by blast
  have "\<exists>t. ne2000_receive_packet e f u = Some t \<and>
       (curr t \<noteq> curr u \<longleftrightarrow> frame_pages f + all_pages rest + 1 < pages_of u)"
    if "length f \<le> 1600" "ne2000_accept_packet e u f" for f
  proof -
    from receive_stored [OF h(2) that] obtain t where t: "ne2000_receive_packet e f u = Some t"
      "if frame_pages f + all_pages rest + 1 < pages_of u then stored t (rest @ [f]) \<and> curr t \<noteq> curr u else same_ring u t"
      by (elim exE conjE)
    then show ?thesis by (intro exI [of _ t]) (auto simp: same_ring_def split: if_splits)
  qed
  with h show ?thesis by auto
qed

definition ne2000_started :: ne2000 where
  "ne2000_started = (ne2000_reset \<lparr>nic_mac = replicate 6 2, promiscuous = False, net = True, mem = (\<lambda>_. 0), par = replicate 6 2,
     mar = replicate 8 0, cr = 0, pstart = 0, pstop = 0, bnry = 0, tpsr = 0, tbcr0 = 0, tbcr1 = 0, isr = 0, rsar0 = 0,
     rsar1 = 0, rbcr0 = 0, rbcr1 = 0, rcr = 0, tcr = 0, dcr = 0, imr = 0, curr = 0, rsr = 0, tsr = 0, reset_latch = 0,
     remote_cmd = 0, remote_addr = 0, remote_count = 0, sent = []\<rparr>)\<lparr>cr := 0x22\<rparr>"

lemma started_sensible:
  "sensible ne2000_started" "unat (curr ne2000_started) = unat (bnry ne2000_started) + 1"
  "unat (pstart ne2000_started) = 0x40" "unat (pstop ne2000_started) = 0x80" "unat (bnry ne2000_started) = 0x40"
  by (simp_all add: ne2000_started_def ne2000_reset_def ne2000_seed_prom_def wf_simps word_less_nat_alt word_le_nat_alt)

theorem ne2000_ring_fifo_witness:
  "\<exists>kept got u rest. history \<lparr>net_ether_broadcast = (\<lambda>p. False), net_ether_multicast = (\<lambda>p. False), net_ether_eq = (\<lambda>p q. True)\<rparr>
      0x40 0x80 [Wire (replicate 60 1), Poll, Wire (replicate 1514 2), Poll] ne2000_started = Some (kept, got, u) \<and>
    kept = got @ rest \<and> stored u rest"
proof -
  let ?es = "[Wire (replicate 60 1), Poll, Wire (replicate 1514 2), Poll]"
  have "\<forall>f. Wire f \<in> set ?es \<longrightarrow> length f \<le> 1600" by auto
  from ne2000_ring_fifo [OF started_sensible(1) _ this] show ?thesis
    unfolding started_sensible(2-5) by fastforce
qed

end
