(* ===== verification/El3.thy ===== *)
theory El3
  imports Prelude
begin

text \<open>
  The 3Com EtherLink III card (\<open>src/hw/el3.c\<close>, \<open>src/hw/el3.h\<close>): register windows, the command
  register, the transmit FIFO with its in-band frame lengths and the ring of received frames.
  Transmitted frames are recorded in \<open>sent\<close>; \<open>transmit\<close> says whether the callback is set.
\<close>

abbreviation (input) EL3_RX_FRAMES :: nat where "EL3_RX_FRAMES \<equiv> 8"
abbreviation (input) EL3_FIFO :: nat where "EL3_FIFO \<equiv> 2048"
abbreviation (input) TX_SIZE :: nat where "TX_SIZE \<equiv> 2056"
abbreviation (input) RX_DATA :: nat where "RX_DATA \<equiv> 1536"

record rx_frame =
  flen :: u16
  fdata :: "u8 list"

record el3 =
  window :: u32
  eeprom :: "u16 list"
  station :: "u8 list"
  config_ctrl :: u16
  addr_config :: u16
  resource :: u16
  media :: u16
  eeprom_cmd :: u16
  latched :: u16
  int_mask :: u16
  status_mask :: u16
  rx_filter :: u8
  rx_enabled :: bool
  tx_enabled :: bool
  tx :: "u8 list"
  tx_used :: nat
  tx_status :: "u8 list"
  tx_status_count :: nat
  rx :: "rx_frame list"
  rx_head :: nat
  rx_count :: nat
  rx_pos :: nat
  transmit :: bool
  sent :: "u8 list list"

definition el3_reset :: "el3 \<Rightarrow> el3" where
  "el3_reset s = s\<lparr>window := 0, config_ctrl := 0, addr_config := 0, media := 0, resource := 0x3F00, eeprom_cmd := 0,
     latched := 0, int_mask := 0, status_mask := 0, rx_filter := 0, rx_enabled := False, tx_enabled := False,
     tx_used := 0, tx_status_count := 0, rx_head := 0, rx_count := 0, rx_pos := 0\<rparr>"

definition mac_word :: "u8 list \<Rightarrow> nat \<Rightarrow> u16" where
  "mac_word mac i = push_bit 8 (ucast (mac ! (2 * i))) OR ucast (mac ! (2 * i + 1))"

definition el3_init :: "u8 list \<Rightarrow> bool \<Rightarrow> u8 list list \<Rightarrow> el3" where
  "el3_init mac cb log = el3_reset
     \<lparr>window = 0,
      eeprom = (replicate 16 0)[0 := mac_word mac 0, 1 := mac_word mac 1, 2 := mac_word mac 2, 3 := 0x9058, 7 := 0x6D50],
      station = replicate 6 0, config_ctrl = 0, addr_config = 0, resource = 0, media = 0, eeprom_cmd = 0, latched = 0,
      int_mask = 0, status_mask = 0, rx_filter = 0, rx_enabled = False, tx_enabled = False, tx = replicate TX_SIZE 0,
      tx_used = 0, tx_status = replicate 4 0, tx_status_count = 0,
      rx = replicate EL3_RX_FRAMES \<lparr>flen = 0, fdata = replicate RX_DATA 0\<rparr>, rx_head = 0, rx_count = 0, rx_pos = 0,
      transmit = cb, sent = log\<rparr>"

definition el3_status :: "el3 \<Rightarrow> u16" where
  "el3_status s =
     (let st = latched s;
          st = (if rx_enabled s \<and> rx_count s \<noteq> 0 then st OR 0x0010 else st);
          st = (if st AND int_mask s AND 0xFE \<noteq> 0 then st OR 0x0001 else st)
      in (st AND (status_mask s OR 0x0001)) OR ucast (push_bit 13 (window s)))"

definition el3_irq_pending :: "el3 \<Rightarrow> bool" where
  "el3_irq_pending s \<longleftrightarrow> el3_status s AND int_mask s AND 0xFF \<noteq> 0"

definition el3_rx_full :: "el3 \<Rightarrow> bool" where
  "el3_rx_full s \<longleftrightarrow> rx_count s = EL3_RX_FRAMES"

definition rx_pop :: "el3 \<Rightarrow> el3" where
  "rx_pop s =
     (if rx_count s = 0 then s
      else s\<lparr>rx_head := (rx_head s + 1) mod EL3_RX_FRAMES, rx_count := rx_count s - 1, rx_pos := 0\<rparr>)"

definition el3_command :: "u16 \<Rightarrow> el3 \<Rightarrow> el3" where
  "el3_command value s =
     (let op = drop_bit 11 value; arg = value AND 0x7FF
      in if op = 0 then el3_reset s
         else if op = 1 then s\<lparr>window := ucast (arg AND 7)\<rparr>
         else if op = 3 then s\<lparr>rx_enabled := False\<rparr>
         else if op = 4 then s\<lparr>rx_enabled := True\<rparr>
         else if op = 5 then s\<lparr>rx_head := 0, rx_count := 0, rx_pos := 0, rx_enabled := False\<rparr>
         else if op = 8 then rx_pop s
         else if op = 9 then s\<lparr>tx_enabled := True\<rparr>
         else if op = 10 then s\<lparr>tx_enabled := False\<rparr>
         else if op = 11 then s\<lparr>tx_used := 0, tx_status_count := 0, tx_enabled := False\<rparr>
         else if op = 12 then s\<lparr>latched := latched s OR 0x0040\<rparr>
         else if op = 13 then s\<lparr>latched := latched s AND NOT arg\<rparr>
         else if op = 14 then s\<lparr>int_mask := arg AND 0xFF\<rparr>
         else if op = 15 then s\<lparr>status_mask := arg AND 0xFF\<rparr>
         else if op = 16 then s\<lparr>rx_filter := ucast (arg AND 0x0F)\<rparr>
         else s)"

section \<open>The transmit FIFO\<close>

definition tx_length :: "u8 list \<Rightarrow> nat" where
  "tx_length b = unat ((ucast (b ! 0) OR push_bit 8 (ucast (b ! 1)) :: u32) AND 0x7FF)"

definition tx_need :: "nat \<Rightarrow> nat" where
  "tx_need n = 4 + (n + 3) div 4 * 4"

text \<open>One frame leaves the FIFO: it is sent, its completion is noted, and the rest moves down.\<close>

definition tx_send :: "el3 \<Rightarrow> el3" where
  "tx_send s =
     (let n = tx_length (tx s)
      in if tx_enabled s \<and> transmit s \<and> n \<ge> 14 then s\<lparr>sent := sent s @ [take n (drop 4 (tx s))]\<rparr> else s)"

definition tx_note :: "el3 \<Rightarrow> el3" where
  "tx_note s =
     (if (tx s ! 1) AND 0x80 \<noteq> 0
      then (if tx_status_count s < 4
            then s\<lparr>tx_status := (tx_status s)[tx_status_count s := 0x80], tx_status_count := tx_status_count s + 1\<rparr>
            else s)\<lparr>latched := latched s OR 0x0004\<rparr>
      else s)"

definition tx_frame :: "el3 \<Rightarrow> el3" where
  "tx_frame s =
     (let need = tx_need (tx_length (tx s)); s = tx_note (tx_send s)
      in s\<lparr>tx := drop need (take (tx_used s) (tx s)) @ drop (tx_used s - need) (tx s), tx_used := tx_used s - need\<rparr>)"

lemma tx_send_fields [simp]:
  "tx (tx_send s) = tx s" "tx_used (tx_send s) = tx_used s" "tx_enabled (tx_send s) = tx_enabled s"
  "transmit (tx_send s) = transmit s" "window (tx_send s) = window s" "latched (tx_send s) = latched s"
  by (simp_all add: tx_send_def Let_def)

lemma tx_note_fields [simp]:
  "tx (tx_note s) = tx s" "tx_used (tx_note s) = tx_used s" "tx_enabled (tx_note s) = tx_enabled s"
  "transmit (tx_note s) = transmit s" "window (tx_note s) = window s" "sent (tx_note s) = sent s"
  by (simp_all add: tx_note_def)

lemma tx_frame_used [simp]: "tx_used (tx_frame s) = tx_used s - tx_need (tx_length (tx s))"
  by (simp add: tx_frame_def Let_def)

function tx_flush :: "el3 \<Rightarrow> el3" where
  "tx_flush s =
     (if tx_used s \<ge> 4 \<and> \<not> tx_used s < tx_need (tx_length (tx s)) then tx_flush (tx_frame s) else s)"
  by pat_completeness auto

termination
  by (relation "measure tx_used") (auto simp: tx_need_def)

declare tx_flush.simps [simp del]

text \<open>\<open>Inl\<close> the state after an overrun, which ends the write; \<open>Inr\<close> the state with all bytes queued.\<close>

fun fifo_put :: "nat \<Rightarrow> nat \<Rightarrow> u64 \<Rightarrow> el3 \<Rightarrow> el3 + el3" where
  "fifo_put i 0 value s = Inr s"
| "fifo_put i (Suc n) value s =
     (if tx_used s \<ge> TX_SIZE then Inl (s\<lparr>latched := latched s OR 0x0002, tx_used := 0\<rparr>)
      else fifo_put (i + 1) n value (s\<lparr>tx := (tx s)[tx_used s := byte_at value i], tx_used := tx_used s + 1\<rparr>))"

definition fifo_write :: "nat \<Rightarrow> u64 \<Rightarrow> el3 \<Rightarrow> el3" where
  "fifo_write sz value s = (case fifo_put 0 sz value s of Inl s \<Rightarrow> s | Inr s \<Rightarrow> tx_flush s)"

section \<open>Received frames and registers\<close>

definition fifo_read :: "nat \<Rightarrow> el3 \<Rightarrow> u64 \<times> el3" where
  "fifo_read sz s =
     (if rx_count s = 0 then (0, s)
      else
        let d = fdata (rx s ! rx_head s)
        in (lanes sz (\<lambda>i. if rx_pos s + i < RX_DATA then d ! (rx_pos s + i) else 0), s\<lparr>rx_pos := rx_pos s + sz\<rparr>))"

definition reg16 :: "u32 \<Rightarrow> el3 \<Rightarrow> u16" where
  "reg16 offset s =
     (if window s = 0 then
        (if offset = 0x00 then 0x6D50 else if offset = 0x02 then 0x9058 else if offset = 0x04 then config_ctrl s
         else if offset = 0x06 then addr_config s else if offset = 0x08 then resource s
         else if offset = 0x0A then eeprom_cmd s AND 0x7FFF
         else if offset = 0x0C then eeprom s ! unat (eeprom_cmd s AND 0x0F) else 0)
      else if window s = 1 then
        (if offset = 0x08 then (if rx_count s = 0 then 0x8000 else flen (rx s ! rx_head s) AND 0x7FF)
         else if offset = 0x0A then push_bit 8 (if tx_status_count s \<noteq> 0 then ucast (tx_status s ! 0) else 0)
         else if offset = 0x0C then of_nat EL3_FIFO - of_nat (tx_used s)
         else 0)
      else if window s = 2 then
        (if offset < 6 then ucast (station s ! unat offset) OR push_bit 8 (ucast (station s ! (unat offset + 1))) else 0)
      else if window s = 4 then (if offset = 0x0A then media s OR 0x0800 else 0)
      else 0)"

definition el3_read :: "u32 \<Rightarrow> nat \<Rightarrow> el3 \<Rightarrow> u64 \<times> el3" where
  "el3_read off sz s =
     (let offset = off AND 0x0F
      in if offset \<ge> 0x0E then (ucast (drop_bit (8 * (unat offset - 0x0E)) (el3_status s)), s)
         else if window s = 1 \<and> offset < 4 then fifo_read sz s
         else
           let w = reg16 (offset AND NOT 1) s
           in (if sz = 1 then (if offset AND 1 \<noteq> 0 then ucast (drop_bit 8 w) else ucast (w AND 0xFF)) else ucast w, s))"

definition pop_tx_status :: "el3 \<Rightarrow> el3" where
  "pop_tx_status s =
     (let s = (if tx_status_count s \<noteq> 0
               then s\<lparr>tx_status := take (tx_status_count s - 1) (drop 1 (tx_status s)) @ drop (tx_status_count s - 1) (tx_status s),
                      tx_status_count := tx_status_count s - 1\<rparr>
               else s)
      in if tx_status_count s = 0 then s\<lparr>latched := latched s AND NOT 0x0004\<rparr> else s)"

definition el3_write :: "u32 \<Rightarrow> nat \<Rightarrow> u64 \<Rightarrow> el3 \<Rightarrow> el3" where
  "el3_write off sz value s =
     (let offset = off AND 0x0F
      in if offset = 0x0E \<and> sz \<ge> 2 then el3_command (ucast value) s
         else if window s = 1 \<and> offset < 4 then fifo_write sz value s
         else if window s = 1 \<and> offset = 0x0B then pop_tx_status s
         else if window s = 2 \<and> offset < 6 then
           s\<lparr>station := map (\<lambda>k. if unat offset \<le> k \<and> k < unat offset + sz then byte_at value (k - unat offset) else station s ! k) [0..<6]\<rparr>
         else if window s = 0 then
           (if offset = 0x04 then s\<lparr>config_ctrl := ucast value\<rparr>
            else if offset = 0x06 then s\<lparr>addr_config := ucast value\<rparr>
            else if offset = 0x08 then s\<lparr>resource := ucast value\<rparr>
            else if offset = 0x0A then s\<lparr>eeprom_cmd := ucast value\<rparr>
            else s)
         else if window s = 4 \<and> offset = 0x0A then s\<lparr>media := ucast value\<rparr>
         else s)"

definition el3_accepts :: "el3 \<Rightarrow> u8 list \<Rightarrow> bool" where
  "el3_accepts s frame \<longleftrightarrow>
     (let broadcast = (take 6 frame = replicate 6 0xFF); ours = (take 6 frame = station s)
      in rx_filter s AND 8 \<noteq> 0 \<or> ours \<and> rx_filter s AND 1 \<noteq> 0 \<or> broadcast \<and> rx_filter s AND 4 \<noteq> 0 \<or>
         \<not> broadcast \<and> hd frame AND 1 \<noteq> 0 \<and> rx_filter s AND 2 \<noteq> 0)"

definition el3_receive :: "u8 list \<Rightarrow> el3 \<Rightarrow> bool \<times> el3" where
  "el3_receive frame s =
     (if \<not> rx_enabled s \<or> length frame < 14 \<or> length frame > RX_DATA then (False, s)
      else if \<not> el3_accepts s frame then (True, s)
      else if rx_count s = EL3_RX_FRAMES then (False, s\<lparr>latched := latched s OR 0x0002\<rparr>)
      else
        let slot = (rx_head s + rx_count s) mod EL3_RX_FRAMES
        in (True, s\<lparr>rx_count := rx_count s + 1,
                    rx := (rx s)[slot := \<lparr>flen = of_nat (length frame),
                                          fdata = frame @ drop (length frame) (fdata (rx s ! slot))\<rparr>]\<rparr>))"

section \<open>The FIFO as a stream of framed bytes\<close>

definition pending :: "el3 \<Rightarrow> u8 list" where
  "pending s = take (tx_used s) (tx s)"

definition tx_good :: "el3 \<Rightarrow> bool" where
  "tx_good s \<longleftrightarrow> length (tx s) = TX_SIZE \<and> tx_used s \<le> TX_SIZE \<and> tx_enabled s \<and> transmit s \<and> window s = 1"

text \<open>What the hardware documentation means by the byte stream: frames with their lengths in band.\<close>

function deframe :: "u8 list \<Rightarrow> u8 list list \<times> u8 list" where
  "deframe xs =
     (if 4 \<le> length xs \<and> tx_need (tx_length xs) \<le> length xs
      then (case deframe (drop (tx_need (tx_length xs)) xs) of
              (fs, r) \<Rightarrow> (take (tx_length xs) (drop 4 xs) # fs, r))
      else ([], xs))"
  by pat_completeness auto

termination
  by (relation "measure length") (auto simp: tx_need_def)

declare deframe.simps [simp del]

lemma tx_need_bounds: "n + 4 \<le> tx_need n" "n \<le> 2047 \<Longrightarrow> tx_need n \<le> 2052" "4 \<le> tx_need n"
  unfolding tx_need_def by presburger+

lemma tx_length_bound: "tx_length b \<le> 2047"
proof -
  have "(w AND 0x7FF) \<le> (0x7FF :: u32)" for w by (rule word_and_le1)
  then show ?thesis unfolding tx_length_def word_le_nat_alt by (rule order_trans) simp
qed

lemma tx_length_prefix: "2 \<le> length xs \<Longrightarrow> tx_length (xs @ ys) = tx_length xs"
  by (cases xs; cases "tl xs") (auto simp: tx_length_def)

lemma tx_length_pending: "2 \<le> tx_used s \<Longrightarrow> tx_used s \<le> length (tx s) \<Longrightarrow> tx_length (tx s) = tx_length (pending s)"
  by (simp add: tx_length_def pending_def)

lemma deframe_append:
  "deframe (xs @ ys) = (case deframe xs of (fs, r) \<Rightarrow> case deframe (r @ ys) of (gs, q) \<Rightarrow> (fs @ gs, q))"
proof (induction xs rule: deframe.induct)
  case (1 xs)
  let ?n = "tx_length xs"
  show ?case
  proof (cases "4 \<le> length xs \<and> tx_need ?n \<le> length xs")
    case True
    then have pre: "tx_length (xs @ ys) = ?n" by (simp add: tx_length_prefix)
    have le: "?n + 4 - length xs = 0" using True tx_need_bounds(1) [of ?n] by linarith
    have "drop (tx_need ?n) (xs @ ys) = drop (tx_need ?n) xs @ ys" using True by simp
    then have "deframe (xs @ ys) = (case deframe (drop (tx_need ?n) xs @ ys) of (fs, r) \<Rightarrow> (take ?n (drop 4 xs) # fs, r))"
      using True by (subst deframe.simps) (simp add: pre le)
    moreover have "deframe xs = (case deframe (drop (tx_need ?n) xs) of (fs, r) \<Rightarrow> (take ?n (drop 4 xs) # fs, r))"
      using True by (subst deframe.simps) simp
    ultimately show ?thesis using 1 [OF True] by (simp add: split_beta)
  next
    case False
    then have "deframe xs = ([], xs)" by (subst deframe.simps) auto
    then show ?thesis by (simp add: split_beta)
  qed
qed

lemma deframe_rest_short: "length (snd (deframe xs)) < 2052"
proof (induction xs rule: deframe.induct)
  case (1 xs)
  show ?case
  proof (cases "4 \<le> length xs \<and> tx_need (tx_length xs) \<le> length xs")
    case True
    then show ?thesis using 1 [OF True] by (subst deframe.simps) (simp add: split_beta)
  next
    case False
    then have "deframe xs = ([], xs)" by (subst deframe.simps) auto
    moreover have "length xs < 2052" using False tx_need_bounds(2) [OF tx_length_bound [of xs]] by linarith
    ultimately show ?thesis by simp
  qed
qed

lemma deframe_rest_fixed: "deframe (snd (deframe xs)) = ([], snd (deframe xs))"
proof (induction xs rule: deframe.induct)
  case (1 xs)
  show ?case
  proof (cases "4 \<le> length xs \<and> tx_need (tx_length xs) \<le> length xs")
    case True
    have "snd (deframe xs) = snd (deframe (drop (tx_need (tx_length xs)) xs))"
      using True by (subst deframe.simps) (simp add: split_beta)
    then show ?thesis using 1 [OF True] by simp
  next
    case False
    then have "deframe xs = ([], xs)" by (subst deframe.simps) auto
    then show ?thesis by simp
  qed
qed

lemma tx_frame_effect:
  assumes "tx_good s" and "4 \<le> tx_used s" and "tx_need (tx_length (tx s)) \<le> tx_used s"
  shows "tx_good (tx_frame s)" "pending (tx_frame s) = drop (tx_need (tx_length (pending s))) (pending s)"
    "sent (tx_frame s) = sent s @ filter (\<lambda>f. 14 \<le> length f) [take (tx_length (pending s)) (drop 4 (pending s))]"
    "latched (tx_frame s) AND 2 = latched s AND 2"
proof -
  let ?n = "tx_length (pending s)"
  have n: "tx_length (tx s) = ?n" using assms by (intro tx_length_pending) (simp_all add: tx_good_def)
  have fit: "?n + 4 \<le> tx_used s" "tx_used s \<le> length (tx s)" "tx_need ?n \<le> tx_used s"
    using assms tx_need_bounds(1) [of ?n] by (simp_all add: n tx_good_def)
  have body: "take ?n (drop 4 (tx s)) = take ?n (drop 4 (pending s))" "length (take ?n (drop 4 (pending s))) = ?n"
  proof -
    obtain k where k: "?n = k" by simp
    have "length (pending s) = tx_used s" using fit(2) by (simp add: pending_def)
    then show "length (take ?n (drop 4 (pending s))) = ?n" using fit(1) by simp
    have "k \<le> tx_used s - 4" using fit(1) unfolding k by linarith
    then show "take ?n (drop 4 (tx s)) = take ?n (drop 4 (pending s))"
      unfolding k by (simp add: pending_def drop_take min_def)
  qed
  have ack: "(latched s OR 4) AND 2 = latched s AND 2" by (simp add: word_bw_assocs word_ao_dist)
  show "tx_good (tx_frame s)" using assms(1) fit by (auto simp: tx_good_def tx_frame_def Let_def n)
  show "sent (tx_frame s) = sent s @ filter (\<lambda>f. 14 \<le> length f) [take ?n (drop 4 (pending s))]"
    using assms(1) body by (simp add: tx_good_def tx_frame_def tx_send_def Let_def n)
  have "tx (tx_frame s) = drop (tx_need ?n) (pending s) @ drop (tx_used s - tx_need ?n) (tx s)"
    by (simp add: tx_frame_def Let_def n pending_def)
  moreover have "length (drop (tx_need ?n) (pending s)) = tx_used s - tx_need ?n" using fit(2) by (simp add: pending_def)
  ultimately show "pending (tx_frame s) = drop (tx_need ?n) (pending s)" by (simp add: pending_def [of "tx_frame s"] n)
  show "latched (tx_frame s) AND 2 = latched s AND 2" using ack by (simp add: tx_frame_def tx_note_def Let_def)
qed

lemma flush_deframes:
  "tx_good s \<Longrightarrow> tx_good (tx_flush s) \<and> latched (tx_flush s) AND 2 = latched s AND 2 \<and>
    pending (tx_flush s) = snd (deframe (pending s)) \<and>
    sent (tx_flush s) = sent s @ filter (\<lambda>f. 14 \<le> length f) (fst (deframe (pending s)))"
proof (induction s rule: tx_flush.induct)
  case (1 s)
  have len: "length (pending s) = tx_used s" using 1(2) by (simp add: pending_def tx_good_def)
  show ?case
  proof (cases "tx_used s \<ge> 4 \<and> \<not> tx_used s < tx_need (tx_length (tx s))")
    case True
    then have n: "tx_length (tx s) = tx_length (pending s)"
      using 1(2) by (intro tx_length_pending) (simp_all add: tx_good_def)
    note e = tx_frame_effect [OF 1(2)]
    have flush: "tx_flush s = tx_flush (tx_frame s)" using True by (subst tx_flush.simps) simp
    have "deframe (pending s) = (case deframe (drop (tx_need (tx_length (pending s))) (pending s)) of
        (fs, r) \<Rightarrow> (take (tx_length (pending s)) (drop 4 (pending s)) # fs, r))"
      using True len n by (subst deframe.simps) simp
    moreover have "tx_used s \<ge> 4" "tx_need (tx_length (tx s)) \<le> tx_used s" using True by simp_all
    ultimately show ?thesis using 1(1) [OF True e(1)] e by (simp add: flush split_beta)
  next
    case False
    then have flush: "tx_flush s = s" by (subst tx_flush.simps) auto
    have "deframe (pending s) = ([], pending s)"
    proof (cases "tx_used s \<ge> 4")
      case True
      then have "tx_length (tx s) = tx_length (pending s)"
        using 1(2) by (intro tx_length_pending) (simp_all add: tx_good_def)
      then show ?thesis using True False len by (subst deframe.simps) auto
    qed (use len in \<open>subst deframe.simps, simp\<close>)
    then show ?thesis using 1(2) by (simp add: flush)
  qed
qed

lemma put_appends:
  "tx_good s \<Longrightarrow> tx_used s + n \<le> TX_SIZE \<Longrightarrow> \<exists>t. fifo_put i n v s = Inr t \<and> tx_good t \<and> sent t = sent s \<and>
    latched t = latched s \<and> pending t = pending s @ map (byte_at v) [i..<i + n]"
proof (induction n arbitrary: i s)
  case (Suc n)
  let ?s = "s\<lparr>tx := (tx s)[tx_used s := byte_at v i], tx_used := tx_used s + 1\<rparr>"
  have "tx_good ?s" using Suc.prems by (simp add: tx_good_def)
  moreover have "pending ?s = pending s @ [byte_at v i]"
    using Suc.prems by (simp add: pending_def tx_good_def take_Suc_conv_app_nth)
  moreover have "map (byte_at v) [i..<i + Suc n] = byte_at v i # map (byte_at v) [i + 1..<i + 1 + n]"
    by (simp add: upt_conv_Cons del: upt_Suc)
  ultimately show ?case using Suc.IH [of ?s "i + 1"] Suc.prems by (auto simp del: upt_Suc)
qed simp

lemma fifo_write_deframes:
  assumes "tx_good s" and "tx_used s + n \<le> TX_SIZE"
  shows "let t = fifo_write n v s; xs = pending s @ map (byte_at v) [0..<n] in
    tx_good t \<and> latched t AND 2 = latched s AND 2 \<and> pending t = snd (deframe xs) \<and>
    sent t = sent s @ filter (\<lambda>f. 14 \<le> length f) (fst (deframe xs))"
proof -
  obtain t where t: "fifo_put 0 n v s = Inr t" "tx_good t" "sent t = sent s" "latched t = latched s"
    "pending t = pending s @ map (byte_at v) [0..<n]" using put_appends [OF assms, of 0 v] by auto
  then have "fifo_write n v s = tx_flush t" by (simp add: fifo_write_def)
  with flush_deframes [OF t(2)] t(3-5) show ?thesis by (simp only: Let_def)
qed

text \<open>A driver writes its stream in pieces of up to four bytes, as bus accesses do.\<close>

definition put_piece :: "u8 list \<Rightarrow> el3 \<Rightarrow> el3" where
  "put_piece c s = el3_write 0 (length c) (lanes (length c) ((!) c)) s"

lemma piece_bytes: "length c \<le> 4 \<Longrightarrow> map (byte_at (lanes (length c) ((!) c))) [0..<length c] = c"
  by (rule nth_equalityI) (simp_all add: byte_at_lanes)

lemma stream_deframes:
  assumes "tx_good s" and "deframe (pending s) = ([], pending s)" and "list_all (\<lambda>c. length c \<le> 4) cs"
  shows "let t = fold put_piece cs s in
    tx_good t \<and> latched t AND 2 = latched s AND 2 \<and> pending t = snd (deframe (pending s @ concat cs)) \<and>
    sent t = sent s @ filter (\<lambda>f. 14 \<le> length f) (fst (deframe (pending s @ concat cs)))"
  using assms
proof (induction cs arbitrary: s)
  case Nil
  then show ?case by simp
next
  case (Cons c cs)
  have used: "tx_used s < 2052"
    using deframe_rest_short [of "pending s"] Cons.prems(1,2) by (simp add: pending_def tx_good_def)
  let ?t = "put_piece c s"
  have "?t = fifo_write (length c) (lanes (length c) ((!) c)) s"
    using Cons.prems(1) by (simp add: put_piece_def el3_write_def tx_good_def)
  then have t: "tx_good ?t" "latched ?t AND 2 = latched s AND 2" "pending ?t = snd (deframe (pending s @ c))"
    "sent ?t = sent s @ filter (\<lambda>f. 14 \<le> length f) (fst (deframe (pending s @ c)))"
    using fifo_write_deframes [of s "length c" "lanes (length c) ((!) c)"] piece_bytes [of c] Cons.prems(1,3) used
    by (simp_all add: Let_def)
  have fixed: "deframe (pending ?t) = ([], pending ?t)" unfolding t(3) by (rule deframe_rest_fixed)
  have "deframe (pending s @ concat (c # cs)) =
      (case deframe (pending s @ c) of (fs, r) \<Rightarrow> case deframe (r @ concat cs) of (gs, q) \<Rightarrow> (fs @ gs, q))"
    using deframe_append [of "pending s @ c" "concat cs"] by simp
  then show ?case using Cons.IH [OF t(1) fixed] Cons.prems(3) t by (simp add: Let_def split_beta)
qed

definition tx_encode :: "bool \<Rightarrow> u8 list \<Rightarrow> u8 list" where
  "tx_encode irq f = [of_nat (length f), of_nat (length f div 256) OR (if irq then 0x80 else 0), 0, 0] @ f @
     replicate ((length f + 3) div 4 * 4 - length f) 0"

lemma encode_length: "length f \<le> 2047 \<Longrightarrow> tx_length (tx_encode irq f @ ys) = length f"
proof -
  assume f: "length f \<le> 2047"
  let ?lo = "of_nat (length f) :: u8" and ?hi = "of_nat (length f div 256) :: u8"
  have hi: "unat ?hi = length f div 256" "unat ?lo = length f mod 256" using f by (simp_all add: unat_of_nat)
  have "(ucast ?lo OR push_bit 8 (ucast (?hi OR (if irq then 0x80 else 0))) :: u32) AND 0x7FF = of_nat (length f)"
  proof (rule bit_word_eqI)
    fix k :: nat assume k: "k < LENGTH(32)"
    have m: "(0x7FF :: u32) = mask 11" by (simp add: mask_eq_exp_minus_1)
    have shift: "bit (length f div 256) (k - 8) = bit (length f) k" if "8 \<le> k"
      using that bit_drop_bit_eq [of 8 "length f"] by (simp add: drop_bit_eq_div fun_eq_iff)
    have "take_bit 11 (length f) = length f" using f by (simp add: take_bit_nat_eq_self)
    then have top: "bit (length f) k \<Longrightarrow> k < 11" using bit_take_bit_iff [of 11 "length f" k] by simp
    have flag: "(0x80 :: u8) = push_bit 7 1" by simp
    have c: "bit (0x80 :: u8) (k - 8) \<Longrightarrow> k - 8 = 7"
      unfolding flag bit_push_bit_iff bit_1_iff by auto
    show "bit ((ucast ?lo OR push_bit 8 (ucast (?hi OR (if irq then 0x80 else 0))) :: u32) AND 0x7FF) k = bit (of_nat (length f) :: u32) k"
      using k shift top c unfolding m by (auto simp: bit_simps)
  qed
  then show ?thesis using f by (simp add: tx_length_def tx_encode_def unat_of_nat)
qed

lemma deframe_encode:
  assumes "length f \<le> 2047"
  shows "deframe (tx_encode irq f @ ys) = (f # fst (deframe ys), snd (deframe ys))"
proof -
  let ?xs = "tx_encode irq f @ ys"
  note n = encode_length [OF assms, of irq ys]
  have len: "length (tx_encode irq f) = tx_need (length f)"
    by (simp add: tx_encode_def tx_need_def)
  then have "drop (tx_need (length f)) ?xs = ys" "4 \<le> length ?xs \<and> tx_need (length f) \<le> length ?xs"
    using tx_need_bounds(3) [of "length f"] by simp_all
  moreover have "take (length f) (drop 4 ?xs) = f" by (simp add: tx_encode_def)
  ultimately show ?thesis by (subst deframe.simps) (simp add: n split_beta)
qed

lemma deframe_stream:
  "\<forall>(irq, f) \<in> set fs. length f \<le> 2047 \<Longrightarrow> deframe (concat (map (case_prod tx_encode) fs)) = (map snd fs, [])"
  by (induction fs) (auto simp: deframe_encode deframe.simps [of "[]"])

section \<open>Properties\<close>

text \<open>C11: The transmit FIFO sends what the driver framed. However the driver cuts its byte stream of
  length-prefixed, padded frames into bus writes of up to four bytes, the card transmits exactly
  those frames, in order, leaves the FIFO empty and never reports an overrun.\<close>

theorem el3_transmits_stream:
  assumes "window s = 1" and "tx_enabled s" and "transmit s" and "length (tx s) = TX_SIZE" and "tx_used s = 0"
    and "list_all (\<lambda>(irq, f). 14 \<le> length f \<and> length f \<le> 2047) fs" and "list_all (\<lambda>c. length c \<le> 4) cs"
    and "concat cs = concat (map (case_prod tx_encode) fs)"
  shows "let t = fold put_piece cs s in
    sent t = sent s @ map snd fs \<and> tx_used t = 0 \<and> latched t AND 0x0002 = latched s AND 0x0002"
proof -
  have good: "tx_good s" and empty: "pending s = []" using assms(1-5) by (simp_all add: tx_good_def pending_def)
  have d: "deframe (concat cs) = (map snd fs, [])"
    using assms(6) unfolding assms(8) by (intro deframe_stream) (auto simp: list_all_iff)
  have all: "filter (\<lambda>f. 14 \<le> length f) (map snd fs) = map snd fs" using assms(6) by (auto simp: list_all_iff filter_id_conv)
  have "deframe (pending s) = ([], pending s)" by (subst deframe.simps) (simp add: empty)
  from stream_deframes [OF good this assms(7)]
  have t: "tx_good (fold put_piece cs s)" "latched (fold put_piece cs s) AND 2 = latched s AND 2"
    "pending (fold put_piece cs s) = []" "sent (fold put_piece cs s) = sent s @ map snd fs"
    by (simp_all add: Let_def empty d all)
  then have "tx_used (fold put_piece cs s) = 0" by (auto simp: pending_def tx_good_def)
  with t show ?thesis by (simp add: Let_def)
qed

definition el3_ready :: el3 where
  "el3_ready = el3_write 0x0E 2 0x4800 (el3_write 0x0E 2 0x0801 (el3_init [2, 0, 0, 0, 0, 1] True []))"

lemma el3_ready_fields: "window el3_ready = 1" "tx_enabled el3_ready" "transmit el3_ready" "length (tx el3_ready) = TX_SIZE"
  "tx_used el3_ready = 0" "sent el3_ready = []"
  by (simp_all add: el3_ready_def el3_write_def el3_command_def el3_init_def el3_reset_def)

theorem el3_transmits_stream_witness:
  "let t = fold put_piece [[15, 0, 0], [0], [1, 2, 3, 4], [5, 6], [7, 8, 9, 10], [11, 12, 13, 14], [15, 0]] el3_ready
   in sent t = [[1, 2, 3, 4, 5, 6, 7, 8, 9, 10, 11, 12, 13, 14, 15]]"
proof -
  let ?cs = "[[15, 0, 0], [0], [1, 2, 3, 4], [5, 6], [7, 8, 9, 10], [11, 12, 13, 14], [15, 0 :: u8]]"
  let ?fs = "[(False, [1, 2, 3, 4, 5, 6, 7, 8, 9, 10, 11, 12, 13, 14, 15 :: u8])]"
  have "list_all (\<lambda>(irq, f). 14 \<le> length f \<and> length f \<le> 2047) ?fs" "list_all (\<lambda>c. length c \<le> 4) ?cs"
    "concat ?cs = concat (map (case_prod tx_encode) ?fs)" by (simp_all add: tx_encode_def)
  from el3_transmits_stream [OF el3_ready_fields(1-5) this] show ?thesis unfolding Let_def el3_ready_fields(6) by simp
qed

text \<open>With more than 2048 bytes queued the free-space register wraps.\<close>

lemma el3_free_wraps: "window s = 1 \<Longrightarrow> tx_used s = 2050 \<Longrightarrow> fst (el3_read 0x0C 2 s) = 0xFFFE"
  by (simp add: el3_read_def reg16_def Let_def)

end
