(* ===== verification/Ata.thy ===== *)
theory Ata
  imports Prelude
begin

text \<open>
  The CompactFlash storage card (the ATA part of \<open>src/hw/cf.c\<close>): task-file registers, IDENTIFY,
  READ and WRITE SECTORS and the data port. The image is the list of its bytes. \<open>can_alloc\<close> says
  whether the host can allocate the sector buffer; everything else is the code's state.
\<close>

section \<open>State\<close>

record ata_regs =
  error_reg :: u8
  feature_reg :: u8
  sector_count :: u8
  sector_number :: u8
  cylinder_low :: u8
  cylinder_high :: u8
  drive_head :: u8
  command_reg :: u8
  status_reg :: u8
  device_control :: u8

record cf_card = ata_regs +
  image :: "u8 list"
  image_size :: nat
  attached :: bool
  dirty :: bool
  boot_visible :: bool
  boot_status_floating :: bool
  data_buffer :: "u8 list"
  data_capacity :: nat
  data_length :: nat
  data_pos :: nat
  pending_write :: bool
  transfer_lba :: u32
  transfer_remaining :: u16
  can_alloc :: bool

abbreviation (input) CF_SECTOR_SIZE :: nat where "CF_SECTOR_SIZE \<equiv> 512"

section \<open>Registers\<close>

definition cf_set_ready :: "bool \<Rightarrow> 'a ata_regs_scheme \<Rightarrow> 'a ata_regs_scheme" where
  "cf_set_ready att s = s\<lparr>status_reg := (if att then 0x50 else 0)\<rparr>"

definition reset_regs :: "bool \<Rightarrow> 'a ata_regs_scheme \<Rightarrow> 'a ata_regs_scheme" where
  "reset_regs att s =
     s\<lparr>error_reg := 0, feature_reg := 0, sector_count := 1, sector_number := 1, cylinder_low := 0, cylinder_high := 0,
       drive_head := 0xE0, command_reg := 0, device_control := 0, status_reg := (if att then 0x50 else 0)\<rparr>"

definition cf_reset_taskfile :: "'a cf_card_scheme \<Rightarrow> 'a cf_card_scheme" where
  "cf_reset_taskfile s =
     (reset_regs (attached s) s)\<lparr>data_length := 0, data_pos := 0, pending_write := False, transfer_lba := 0,
       transfer_remaining := 0\<rparr>"

definition cf_current_lba :: "'a ata_regs_scheme \<Rightarrow> u32" where
  "cf_current_lba s = ucast (sector_number s) OR push_bit 8 (ucast (cylinder_low s)) OR
     push_bit 16 (ucast (cylinder_high s)) OR push_bit 24 (ucast (drive_head s AND 0x0F))"

definition cf_set_current_lba :: "u32 \<Rightarrow> 'a ata_regs_scheme \<Rightarrow> 'a ata_regs_scheme" where
  "cf_set_current_lba lba s =
     s\<lparr>sector_number := ucast (lba AND 0xFF), cylinder_low := ucast (drop_bit 8 lba AND 0xFF),
       cylinder_high := ucast (drop_bit 16 lba AND 0xFF),
       drive_head := (drive_head s AND 0xF0) OR ucast (drop_bit 24 lba AND 0x0F)\<rparr>"

definition error_regs :: "bool \<Rightarrow> u8 \<Rightarrow> 'a ata_regs_scheme \<Rightarrow> 'a ata_regs_scheme" where
  "error_regs att err s = s\<lparr>error_reg := err, status_reg := 0x01 OR (if att then 0x50 else 0)\<rparr>"

definition cf_set_error :: "u8 \<Rightarrow> 'a cf_card_scheme \<Rightarrow> 'a cf_card_scheme" where
  "cf_set_error err s =
     (error_regs (attached s) err s)\<lparr>data_length := 0, data_pos := 0, pending_write := False, transfer_remaining := 0\<rparr>"

definition cf_update_taskfile_after_sector :: "u32 \<Rightarrow> u16 \<Rightarrow> 'a ata_regs_scheme \<Rightarrow> 'a ata_regs_scheme" where
  "cf_update_taskfile_after_sector next_lba remaining s =
     (cf_set_current_lba next_lba s)\<lparr>sector_count := (if remaining = 256 then 0 else ucast (remaining AND 0xFF))\<rparr>"

section \<open>The sector buffer\<close>

definition cf_reserve_buffer :: "nat \<Rightarrow> 'a cf_card_scheme \<Rightarrow> 'a cf_card_scheme option" where
  "cf_reserve_buffer sz s =
     (if sz \<le> data_capacity s then Some s
      else if \<not> can_alloc s then None
      else Some (s\<lparr>data_buffer := data_buffer s @ replicate (sz - data_capacity s) 0, data_capacity := sz\<rparr>))"

definition set_buffer :: "u8 list \<Rightarrow> 'a cf_card_scheme \<Rightarrow> 'a cf_card_scheme" where
  "set_buffer bs s = s\<lparr>data_buffer := bs @ drop CF_SECTOR_SIZE (data_buffer s)\<rparr>"

definition cf_put_word_le :: "nat \<Rightarrow> u16 \<Rightarrow> u8 list \<Rightarrow> u8 list" where
  "cf_put_word_le word_index value buf =
     buf[word_index * 2 := ucast (value AND 0xFF), word_index * 2 + 1 := ucast (drop_bit 8 value AND 0xFF)]"

fun put_string_loop :: "nat \<Rightarrow> nat \<Rightarrow> nat \<Rightarrow> string \<Rightarrow> u8 list \<Rightarrow> u8 list" where
  "put_string_loop word_index i 0 text buf = buf"
| "put_string_loop word_index i (Suc words) text buf =
     (let a = (if i < length text then of_char (text ! i) else 32);
          b = (if i + 1 < length text then of_char (text ! (i + 1)) else 32)
      in put_string_loop word_index (i + 2) words text (buf[word_index * 2 + i := b, word_index * 2 + i + 1 := a]))"

definition cf_put_ata_string :: "nat \<Rightarrow> nat \<Rightarrow> string \<Rightarrow> u8 list \<Rightarrow> u8 list" where
  "cf_put_ata_string word_index words text buf = put_string_loop word_index 0 words text buf"

definition identify_block :: "u32 \<Rightarrow> u8 list" where
  "identify_block n_sectors =
     (let lo = ucast (n_sectors AND 0xFFFF); hi = ucast (drop_bit 16 n_sectors)
      in (cf_put_word_le 61 hi \<circ> cf_put_word_le 60 lo \<circ> cf_put_word_le 58 hi \<circ> cf_put_word_le 57 lo \<circ>
          cf_put_word_le 56 0x003F \<circ> cf_put_word_le 55 0x0010 \<circ> cf_put_word_le 54 0x3FFF \<circ> cf_put_word_le 53 0x0007 \<circ>
          cf_put_word_le 49 0x0200 \<circ> cf_put_word_le 47 0x8001 \<circ> cf_put_ata_string 27 20 ''BE-300 RECOVERY CF'' \<circ>
          cf_put_ata_string 23 4 ''1.0'' \<circ> cf_put_ata_string 10 10 ''BE300-CF0001'' \<circ> cf_put_word_le 6 0x003F \<circ>
          cf_put_word_le 3 0x0010 \<circ> cf_put_word_le 1 0x3FFF \<circ> cf_put_word_le 0 0x848A) (replicate CF_SECTOR_SIZE 0))"

definition cf_prepare_identify :: "'a cf_card_scheme \<Rightarrow> 'a cf_card_scheme option" where
  "cf_prepare_identify s = map_option (\<lambda>s.
     (set_buffer (identify_block (of_nat (image_size s div CF_SECTOR_SIZE))) s)
       \<lparr>data_length := CF_SECTOR_SIZE, data_pos := 0, pending_write := False, transfer_remaining := 0, status_reg := 0x58\<rparr>)
     (cf_reserve_buffer CF_SECTOR_SIZE s)"

definition cf_finish_transfer :: "'a cf_card_scheme \<Rightarrow> 'a cf_card_scheme" where
  "cf_finish_transfer s =
     cf_set_ready (attached s) (s\<lparr>data_length := 0, data_pos := 0, pending_write := False, transfer_remaining := 0\<rparr>)"

text \<open>The loading and preparing functions return 0 or -1: here the Boolean \<open>True\<close> or \<open>False\<close>.\<close>

definition cf_load_read_sector :: "'a cf_card_scheme \<Rightarrow> bool \<times> 'a cf_card_scheme" where
  "cf_load_read_sector s =
     (let off = unat (transfer_lba s) * CF_SECTOR_SIZE
      in case cf_reserve_buffer CF_SECTOR_SIZE s of
           None \<Rightarrow> (False, s)
         | Some s \<Rightarrow>
             if off + CF_SECTOR_SIZE > image_size s then (False, cf_set_error 0x10 s)
             else (True, (set_buffer (take CF_SECTOR_SIZE (drop off (image s))) s)
               \<lparr>data_length := CF_SECTOR_SIZE, data_pos := 0, pending_write := False, status_reg := 0x58\<rparr>))"

definition cf_prepare_write_sector :: "'a cf_card_scheme \<Rightarrow> bool \<times> 'a cf_card_scheme" where
  "cf_prepare_write_sector s =
     (case cf_reserve_buffer CF_SECTOR_SIZE s of
        None \<Rightarrow> (False, s)
      | Some s \<Rightarrow> (True, (set_buffer (replicate CF_SECTOR_SIZE 0) s)
          \<lparr>data_length := CF_SECTOR_SIZE, data_pos := 0, pending_write := True, status_reg := 0x58\<rparr>))"

section \<open>Commands\<close>

definition sectors_asked :: "'a ata_regs_scheme \<Rightarrow> nat" where
  "sectors_asked s = (if sector_count s \<noteq> 0 then unat (sector_count s) else 256)"

definition cf_prepare_read :: "'a cf_card_scheme \<Rightarrow> bool \<times> 'a cf_card_scheme" where
  "cf_prepare_read s =
     (if drive_head s AND 0x40 = 0 then (False, cf_set_error 0x04 s)
      else if (unat (cf_current_lba s) + sectors_asked s) * CF_SECTOR_SIZE > image_size s then (False, cf_set_error 0x10 s)
      else cf_load_read_sector
             (s\<lparr>transfer_lba := cf_current_lba s, transfer_remaining := of_nat (sectors_asked s)\<rparr>))"

definition cf_begin_write :: "'a cf_card_scheme \<Rightarrow> bool \<times> 'a cf_card_scheme" where
  "cf_begin_write s =
     (if drive_head s AND 0x40 = 0 then (False, cf_set_error 0x04 s)
      else if (unat (cf_current_lba s) + sectors_asked s) * CF_SECTOR_SIZE > image_size s then (False, cf_set_error 0x10 s)
      else cf_prepare_write_sector
             (s\<lparr>transfer_lba := cf_current_lba s, transfer_remaining := of_nat (sectors_asked s)\<rparr>))"

definition cf_execute_command :: "u8 \<Rightarrow> 'a cf_card_scheme \<Rightarrow> 'a cf_card_scheme" where
  "cf_execute_command c s =
     (let s = s\<lparr>command_reg := c, error_reg := 0\<rparr>
      in if \<not> attached s then cf_set_error 0x04 s
         else if c = 0xEC then (case cf_prepare_identify s of None \<Rightarrow> cf_set_error 0x04 s | Some s \<Rightarrow> s)
         else if c = 0x20 then snd (cf_prepare_read s)
         else if c = 0x30 then snd (cf_begin_write s)
         else if c = 0x10 \<or> c = 0x40 \<or> c = 0x90 then cf_set_ready (attached s) s
         else if c = 0xEF then
           (if feature_reg s = 0x03 \<or> feature_reg s = 0x01 then cf_set_ready (attached s) s else cf_set_error 0x04 s)
         else cf_set_error 0x04 s)"

section \<open>The data port\<close>

definition all_ones :: "nat \<Rightarrow> u64" where
  "all_ones sz = (if sz \<ge> 8 then NOT 0 else mask (8 * sz))"

definition cf_data_read :: "nat \<Rightarrow> 'a cf_card_scheme \<Rightarrow> u64 \<times> 'a cf_card_scheme" where
  "cf_data_read sz s =
     (if data_length s = 0 \<or> pending_write s then (all_ones sz, s)
      else
        let val = lanes sz (\<lambda>i. if data_pos s + i < data_length s then data_buffer s ! (data_pos s + i) else 0xFF);
            s = s\<lparr>data_pos := min (data_pos s + sz) (max (data_length s) (data_pos s))\<rparr>
        in if data_pos s < data_length s then (val, s)
           else
             let next_lba = transfer_lba s + 1;
                 remaining = (if transfer_remaining s > 0 then transfer_remaining s - 1 else transfer_remaining s);
                 s = (cf_update_taskfile_after_sector next_lba remaining s)
                       \<lparr>transfer_lba := next_lba, transfer_remaining := remaining\<rparr>
             in (val, if remaining > 0
                      then (case cf_load_read_sector s of (True, s) \<Rightarrow> s | (False, s) \<Rightarrow> cf_set_error 0x10 s)
                      else cf_finish_transfer s))"

definition overwrite :: "nat \<Rightarrow> u8 list \<Rightarrow> u8 list \<Rightarrow> u8 list" where
  "overwrite off bs m = take off m @ bs @ drop (off + length bs) m"

definition cf_commit_write :: "'a cf_card_scheme \<Rightarrow> 'a cf_card_scheme" where
  "cf_commit_write s =
     (let next_lba = transfer_lba s + 1;
          s' = s\<lparr>image := overwrite (unat (transfer_lba s) * CF_SECTOR_SIZE) (take CF_SECTOR_SIZE (data_buffer s)) (image s),
                dirty := True\<rparr>;
          remaining = (if transfer_remaining s > 0 then transfer_remaining s - 1 else transfer_remaining s);
          s' = (cf_update_taskfile_after_sector next_lba remaining s')
                 \<lparr>transfer_lba := next_lba, transfer_remaining := remaining\<rparr>
      in if remaining > 0
         then (case cf_prepare_write_sector s' of (True, s) \<Rightarrow> s | (False, s) \<Rightarrow> cf_set_error 0x10 s)
         else cf_finish_transfer s')"

definition cf_data_write :: "nat \<Rightarrow> u64 \<Rightarrow> 'a cf_card_scheme \<Rightarrow> 'a cf_card_scheme" where
  "cf_data_write sz value s =
     (if \<not> pending_write s \<or> data_length s = 0 then s
      else
        let n = min sz (data_length s - data_pos s);
            s = s\<lparr>data_buffer := take (data_pos s) (data_buffer s) @ map (byte_at value) [0..<n] @
                                 drop (data_pos s + n) (data_buffer s),
                  data_pos := data_pos s + n\<rparr>
        in if data_pos s \<ge> data_length s then cf_commit_write s else s)"

section \<open>Task-file accesses\<close>

definition cf_read_reg8 :: "'a cf_card_scheme \<Rightarrow> int \<Rightarrow> bool \<Rightarrow> bool \<Rightarrow> u8" where
  "cf_read_reg8 s reg is_alt boot_path =
     (if boot_path \<and> \<not> boot_visible s then (if is_alt \<or> reg = 7 then 0x00 else 0xFF)
      else if boot_path \<and> boot_status_floating s \<and> (is_alt \<or> reg = 7) then 0xFF
      else if is_alt then status_reg s
      else if reg = 1 then error_reg s else if reg = 2 then sector_count s else if reg = 3 then sector_number s
      else if reg = 4 then cylinder_low s else if reg = 5 then cylinder_high s else if reg = 6 then drive_head s
      else if reg = 7 then status_reg s else 0xFF)"

definition cf_write_reg8 :: "int \<Rightarrow> bool \<Rightarrow> bool \<Rightarrow> u8 \<Rightarrow> 'a cf_card_scheme \<Rightarrow> 'a cf_card_scheme" where
  "cf_write_reg8 reg is_alt boot_path value s =
     (if is_alt then
        (let s = s\<lparr>device_control := value\<rparr>
         in if boot_path \<and> boot_visible s \<and> value = 0 then (cf_reset_taskfile s)\<lparr>boot_status_floating := False\<rparr>
            else if value AND 0x04 \<noteq> 0 then cf_reset_taskfile s else s)
      else if boot_path \<and> \<not> boot_visible s then s
      else if reg = 1 then s\<lparr>feature_reg := value\<rparr>
      else if reg = 2 then s\<lparr>sector_count := value\<rparr>
      else if reg = 3 then s\<lparr>sector_number := value\<rparr>
      else if reg = 4 then s\<lparr>cylinder_low := value\<rparr>
      else if reg = 5 then s\<lparr>cylinder_high := value\<rparr>
      else if reg = 6 then s\<lparr>drive_head := value\<rparr>
      else if reg = 7 then cf_execute_command value s
      else s)"

definition cf_read_regs :: "'a cf_card_scheme \<Rightarrow> int \<Rightarrow> bool \<Rightarrow> bool \<Rightarrow> nat \<Rightarrow> u64" where
  "cf_read_regs s reg is_alt boot_path sz =
     lanes sz (\<lambda>i. if i = 0 \<or> \<not> is_alt \<and> reg + int i \<le> 7
                   then cf_read_reg8 s (reg + (if is_alt then 0 else int i)) is_alt boot_path else 0xFF)"

fun write_regs_loop :: "nat \<Rightarrow> nat \<Rightarrow> int \<Rightarrow> bool \<Rightarrow> bool \<Rightarrow> u64 \<Rightarrow> 'a cf_card_scheme \<Rightarrow> 'a cf_card_scheme" where
  "write_regs_loop i 0 reg is_alt boot_path value s = s"
| "write_regs_loop i (Suc n) reg is_alt boot_path value s =
     (if i > 0 \<and> (is_alt \<or> reg + int i > 7) then s
      else write_regs_loop (i + 1) n reg is_alt boot_path value
             (cf_write_reg8 (reg + int i) is_alt boot_path (byte_at value i) s))"

definition cf_write_regs :: "int \<Rightarrow> bool \<Rightarrow> bool \<Rightarrow> nat \<Rightarrow> u64 \<Rightarrow> 'a cf_card_scheme \<Rightarrow> 'a cf_card_scheme" where
  "cf_write_regs reg is_alt boot_path sz value s = write_regs_loop 0 sz reg is_alt boot_path value s"

text \<open>Which register an offset of the card's window, or of the boot ROM's window, selects.\<close>

definition cf_decode_taskfile_offset :: "u32 \<Rightarrow> int \<times> bool" where
  "cf_decode_taskfile_offset offset =
     (let page_off = offset AND 0x3FF
      in if page_off \<ge> 0x1F0 \<and> page_off \<le> 0x1F7 then (uint (page_off - 0x1F0), False)
         else if page_off \<ge> 0x170 \<and> page_off \<le> 0x177 then (uint (page_off - 0x170), False)
         else if page_off \<ge> 0x180 \<and> page_off \<le> 0x187 then (uint (page_off - 0x180), False)
         else if page_off = 0x206 \<or> page_off = 0x376 \<or> page_off = 0x3F6 then (0, True)
         else (-1, False))"

definition cf_decode_boot_offset :: "u32 \<Rightarrow> int \<times> bool" where
  "cf_decode_boot_offset offset =
     (if offset \<ge> 0xC170 \<and> offset < 0xC178 then (uint (offset - 0xC170), False)
      else if offset = 0xC376 then (0, True)
      else (-1, False))"

definition boot_float :: "nat \<Rightarrow> u64" where
  "boot_float sz = (if sz \<ge> 4 then 0xFFFFFFFF else 0xFF)"

definition cf_boot_read :: "u32 \<Rightarrow> nat \<Rightarrow> 'a cf_card_scheme \<Rightarrow> u64 \<times> 'a cf_card_scheme" where
  "cf_boot_read offset sz s =
     (if sz = 0 then (0, s)
      else if \<not> attached s then (boot_float sz, s)
      else
        let (reg, is_alt) = cf_decode_boot_offset offset
        in if reg = 0 \<and> \<not> is_alt then (if boot_visible s then cf_data_read sz s else (boot_float sz, s))
           else if reg \<ge> 0 then (cf_read_regs s reg is_alt True sz, s)
           else (boot_float sz, s))"

definition cf_boot_write :: "u32 \<Rightarrow> nat \<Rightarrow> u64 \<Rightarrow> 'a cf_card_scheme \<Rightarrow> 'a cf_card_scheme" where
  "cf_boot_write offset sz value s =
     (if sz = 0 \<or> \<not> attached s then s
      else
        let (reg, is_alt) = cf_decode_boot_offset offset
        in if reg = 0 \<and> \<not> is_alt then (if boot_visible s then cf_data_write sz value s else s)
           else if reg \<ge> 0 then cf_write_regs reg is_alt True sz value s
           else s)"

end
