(* ===== verification/Ata_Spec.thy ===== *)
theory Ata_Spec
  imports Ata
begin

text \<open>
  What a guest sees of the storage card, without buffers and positions: a disk that is idle, that is
  sending a list of bytes, or that is gathering the bytes of a sector. The card of \<open>Ata\<close>
  implements it, access by access, and the round trip through the disk follows.
\<close>

section \<open>The abstract disk\<close>

datatype phase =
    Quiet
  | Sending "u8 list"            \<comment> \<open>every byte still to be read, over all the sectors asked for\<close>
  | Gathering nat "u8 list"      \<comment> \<open>sectors still to come, bytes of this one received\<close>

record disk_spec = ata_regs +
  disk :: "u8 list"
  sector :: u32
  phase :: phase
  card_in :: bool
  boot_on :: bool
  boot_floats :: bool

definition a_error :: "u8 \<Rightarrow> disk_spec \<Rightarrow> disk_spec" where
  "a_error err d = (error_regs (card_in d) err d)\<lparr>phase := Quiet\<rparr>"

definition a_done :: "disk_spec \<Rightarrow> disk_spec" where
  "a_done d = (cf_set_ready (card_in d) d)\<lparr>phase := Quiet\<rparr>"

definition a_reset :: "disk_spec \<Rightarrow> disk_spec" where
  "a_reset d = (reset_regs (card_in d) d)\<lparr>phase := Quiet, sector := 0\<rparr>"

definition a_start :: "phase \<Rightarrow> disk_spec \<Rightarrow> disk_spec" where
  "a_start p d = d\<lparr>phase := p, status_reg := 0x58\<rparr>"

definition a_transfer :: "(u32 \<Rightarrow> nat \<Rightarrow> phase) \<Rightarrow> disk_spec \<Rightarrow> disk_spec" where
  "a_transfer p d =
     (if drive_head d AND 0x40 = 0 then a_error 0x04 d
      else if (unat (cf_current_lba d) + sectors_asked d) * CF_SECTOR_SIZE > length (disk d) then a_error 0x10 d
      else a_start (p (cf_current_lba d) (sectors_asked d)) (d\<lparr>sector := cf_current_lba d\<rparr>))"

definition a_command :: "u8 \<Rightarrow> disk_spec \<Rightarrow> disk_spec" where
  "a_command c d =
     (let d = d\<lparr>command_reg := c, error_reg := 0\<rparr>
      in if \<not> card_in d then a_error 0x04 d
         else if c = 0xEC then a_start (Sending (identify_block (of_nat (length (disk d) div CF_SECTOR_SIZE)))) d
         else if c = 0x20 then
           a_transfer (\<lambda>lba n. Sending (take (n * CF_SECTOR_SIZE) (drop (unat lba * CF_SECTOR_SIZE) (disk d)))) d
         else if c = 0x30 then a_transfer (\<lambda>lba n. Gathering n []) d
         else if c = 0x10 \<or> c = 0x40 \<or> c = 0x90 then cf_set_ready True d
         else if c = 0xEF then
           (if feature_reg d = 0x03 \<or> feature_reg d = 0x01 then cf_set_ready True d else a_error 0x04 d)
         else a_error 0x04 d)"

text \<open>A sector is over: the task file and \<open>sector\<close> move to the next one, \<open>m\<close> sectors are left.\<close>

definition a_next :: "nat \<Rightarrow> disk_spec \<Rightarrow> disk_spec" where
  "a_next m d = (cf_update_taskfile_after_sector (sector d + 1) (of_nat m) d)\<lparr>sector := sector d + 1\<rparr>"

definition a_read :: "nat \<Rightarrow> disk_spec \<Rightarrow> u64 \<times> disk_spec" where
  "a_read sz d =
     (case phase d of
        Sending bs \<Rightarrow>
          (let k = (length bs - 1) mod CF_SECTOR_SIZE + 1; rest = drop (min sz k) bs;
               val = lanes sz (\<lambda>i. if i < k then bs ! i else 0xFF)
           in (val, if sz < k then d\<lparr>phase := Sending rest\<rparr>
                    else let d = a_next (length rest div CF_SECTOR_SIZE) d
                         in if rest = [] then a_done d else a_start (Sending rest) d))
      | _ \<Rightarrow> (all_ones sz, d))"

definition a_write :: "nat \<Rightarrow> u64 \<Rightarrow> disk_spec \<Rightarrow> disk_spec" where
  "a_write sz value d =
     (case phase d of
        Gathering m got \<Rightarrow>
          (let got = got @ map (byte_at value) [0..<min sz (CF_SECTOR_SIZE - length got)]
           in if length got < CF_SECTOR_SIZE then d\<lparr>phase := Gathering m got\<rparr>
              else let d = a_next (m - 1) (d\<lparr>disk := overwrite (unat (sector d) * CF_SECTOR_SIZE) got (disk d)\<rparr>)
                   in if m = 1 then a_done d else a_start (Gathering (m - 1) []) d)
      | _ \<Rightarrow> d)"

definition a_read_reg8 :: "disk_spec \<Rightarrow> int \<Rightarrow> bool \<Rightarrow> bool \<Rightarrow> u8" where
  "a_read_reg8 d reg is_alt boot_path =
     (if boot_path \<and> \<not> boot_on d then (if is_alt \<or> reg = 7 then 0x00 else 0xFF)
      else if boot_path \<and> boot_floats d \<and> (is_alt \<or> reg = 7) then 0xFF
      else if is_alt then status_reg d
      else if reg = 1 then error_reg d else if reg = 2 then sector_count d else if reg = 3 then sector_number d
      else if reg = 4 then cylinder_low d else if reg = 5 then cylinder_high d else if reg = 6 then drive_head d
      else if reg = 7 then status_reg d else 0xFF)"

definition a_write_reg8 :: "int \<Rightarrow> bool \<Rightarrow> bool \<Rightarrow> u8 \<Rightarrow> disk_spec \<Rightarrow> disk_spec" where
  "a_write_reg8 reg is_alt boot_path value d =
     (if is_alt then
        (let d = d\<lparr>device_control := value\<rparr>
         in if boot_path \<and> boot_on d \<and> value = 0 then (a_reset d)\<lparr>boot_floats := False\<rparr>
            else if value AND 0x04 \<noteq> 0 then a_reset d else d)
      else if boot_path \<and> \<not> boot_on d then d
      else if reg = 1 then d\<lparr>feature_reg := value\<rparr>
      else if reg = 2 then d\<lparr>sector_count := value\<rparr>
      else if reg = 3 then d\<lparr>sector_number := value\<rparr>
      else if reg = 4 then d\<lparr>cylinder_low := value\<rparr>
      else if reg = 5 then d\<lparr>cylinder_high := value\<rparr>
      else if reg = 6 then d\<lparr>drive_head := value\<rparr>
      else if reg = 7 then a_command value d
      else d)"

fun a_write_regs :: "nat \<Rightarrow> nat \<Rightarrow> int \<Rightarrow> bool \<Rightarrow> bool \<Rightarrow> u64 \<Rightarrow> disk_spec \<Rightarrow> disk_spec" where
  "a_write_regs i 0 reg is_alt boot_path value d = d"
| "a_write_regs i (Suc n) reg is_alt boot_path value d =
     (if i > 0 \<and> (is_alt \<or> reg + int i > 7) then d
      else a_write_regs (i + 1) n reg is_alt boot_path value
             (a_write_reg8 (reg + int i) is_alt boot_path (byte_at value i) d))"

definition a_read_regs :: "disk_spec \<Rightarrow> int \<Rightarrow> bool \<Rightarrow> bool \<Rightarrow> nat \<Rightarrow> u64" where
  "a_read_regs d reg is_alt boot_path sz =
     lanes sz (\<lambda>i. if i = 0 \<or> \<not> is_alt \<and> reg + int i \<le> 7
                   then a_read_reg8 d (reg + (if is_alt then 0 else int i)) is_alt boot_path else 0xFF)"

section \<open>Accesses\<close>

datatype ata_access =
    Read_data nat
  | Write_data nat u64
  | Read_regs int bool bool nat
  | Write_regs int bool bool nat u64

text \<open>What is observed: the list of the values read, latest first, beside the state.\<close>

fun ata_step :: "ata_access \<Rightarrow> u64 list \<times> cf_card \<Rightarrow> u64 list \<times> cf_card" where
  "ata_step (Read_data sz) (out, s) = (let (v, s) = cf_data_read sz s in (v # out, s))"
| "ata_step (Write_data sz v) (out, s) = (out, cf_data_write sz v s)"
| "ata_step (Read_regs reg alt boot sz) (out, s) = (cf_read_regs s reg alt boot sz # out, s)"
| "ata_step (Write_regs reg alt boot sz v) (out, s) = (out, cf_write_regs reg alt boot sz v s)"

fun a_step :: "ata_access \<Rightarrow> u64 list \<times> disk_spec \<Rightarrow> u64 list \<times> disk_spec" where
  "a_step (Read_data sz) (out, d) = (let (v, d) = a_read sz d in (v # out, d))"
| "a_step (Write_data sz v) (out, d) = (out, a_write sz v d)"
| "a_step (Read_regs reg alt boot sz) (out, d) = (a_read_regs d reg alt boot sz # out, d)"
| "a_step (Write_regs reg alt boot sz v) (out, d) = (out, a_write_regs 0 sz reg alt boot v d)"

section \<open>What the card keeps, and the disk it stands for\<close>

definition buffer_ok :: "cf_card \<Rightarrow> bool" where
  "buffer_ok s \<longleftrightarrow> image_size s = length (image s) \<and> length (data_buffer s) = data_capacity s \<and>
     (can_alloc s \<or> CF_SECTOR_SIZE \<le> data_capacity s)"

definition transfer_ok :: "cf_card \<Rightarrow> bool" where
  "transfer_ok s \<longleftrightarrow>
     (if data_length s = 0 then data_pos s = 0 \<and> \<not> pending_write s
      else data_length s = CF_SECTOR_SIZE \<and> data_pos s < CF_SECTOR_SIZE \<and> CF_SECTOR_SIZE \<le> data_capacity s \<and>
           (pending_write s \<longrightarrow> transfer_remaining s \<noteq> 0) \<and>
           (transfer_remaining s \<noteq> 0 \<longrightarrow>
              unat (transfer_lba s) + unat (transfer_remaining s) \<le> 2 ^ 28 + 256 \<and>
              (unat (transfer_lba s) + unat (transfer_remaining s)) * CF_SECTOR_SIZE \<le> length (image s)))"

definition ata_ok :: "cf_card \<Rightarrow> bool" where
  "ata_ok s \<longleftrightarrow> buffer_ok s \<and> transfer_ok s"

definition left_over :: "u16 \<Rightarrow> u16" where
  "left_over r = (if r > 0 then r - 1 else r)"

definition later_sectors :: "cf_card \<Rightarrow> u8 list" where
  "later_sectors s = take (unat (left_over (transfer_remaining s)) * CF_SECTOR_SIZE)
     (drop (unat (transfer_lba s + 1) * CF_SECTOR_SIZE) (image s))"

definition card_phase :: "cf_card \<Rightarrow> phase" where
  "card_phase s =
     (if data_length s = 0 then Quiet
      else if pending_write s then Gathering (unat (transfer_remaining s)) (take (data_pos s) (data_buffer s))
      else Sending (drop (data_pos s) (take CF_SECTOR_SIZE (data_buffer s)) @ later_sectors s))"

definition abs_card :: "cf_card \<Rightarrow> disk_spec" where
  "abs_card s = \<lparr>error_reg = error_reg s, feature_reg = feature_reg s, sector_count = sector_count s,
     sector_number = sector_number s, cylinder_low = cylinder_low s, cylinder_high = cylinder_high s,
     drive_head = drive_head s, command_reg = command_reg s, status_reg = status_reg s,
     device_control = device_control s, disk = image s, sector = transfer_lba s, phase = card_phase s,
     card_in = attached s, boot_on = boot_visible s, boot_floats = boot_status_floating s\<rparr>"


section \<open>Register operations commute with the abstraction\<close>

lemmas ata_reg_defs = cf_set_ready_def reset_regs_def error_regs_def cf_update_taskfile_after_sector_def
  cf_set_current_lba_def

lemmas a_defs = a_error_def a_done_def a_reset_def a_start_def a_next_def

lemma abs_card_sel [simp]:
  "error_reg (abs_card s) = error_reg s" "feature_reg (abs_card s) = feature_reg s"
  "sector_count (abs_card s) = sector_count s" "sector_number (abs_card s) = sector_number s"
  "cylinder_low (abs_card s) = cylinder_low s" "cylinder_high (abs_card s) = cylinder_high s"
  "drive_head (abs_card s) = drive_head s" "command_reg (abs_card s) = command_reg s"
  "status_reg (abs_card s) = status_reg s" "device_control (abs_card s) = device_control s"
  "disk (abs_card s) = image s" "sector (abs_card s) = transfer_lba s" "phase (abs_card s) = card_phase s"
  "card_in (abs_card s) = attached s" "boot_on (abs_card s) = boot_visible s"
  "boot_floats (abs_card s) = boot_status_floating s"
  by (simp_all add: abs_card_def)

lemma card_phase_quiet [simp]: "data_length s = 0 \<Longrightarrow> card_phase s = Quiet"
  by (simp add: card_phase_def)

lemma abs_set_error: "abs_card (cf_set_error err s) = a_error err (abs_card s)"
  by (simp add: abs_card_def card_phase_def cf_set_error_def a_error_def error_regs_def)

lemma abs_reset: "abs_card (cf_reset_taskfile s) = a_reset (abs_card s)"
  by (simp add: abs_card_def card_phase_def cf_reset_taskfile_def a_reset_def reset_regs_def)

lemma abs_finish: "abs_card (cf_finish_transfer s) = a_done (abs_card s)"
  by (simp add: abs_card_def card_phase_def cf_finish_transfer_def a_done_def cf_set_ready_def)

lemma abs_ready: "abs_card (cf_set_ready att s) = cf_set_ready att (abs_card s)"
  by (simp add: abs_card_def card_phase_def later_sectors_def cf_set_ready_def)

lemma ata_ok_quiet:
  "buffer_ok s \<Longrightarrow> ata_ok (cf_set_error err s)" "buffer_ok s \<Longrightarrow> ata_ok (cf_reset_taskfile s)"
  "buffer_ok s \<Longrightarrow> ata_ok (cf_finish_transfer s)"
  by (simp_all add: ata_ok_def buffer_ok_def transfer_ok_def cf_set_error_def cf_reset_taskfile_def
      cf_finish_transfer_def ata_reg_defs)

section \<open>The buffer\<close>

lemma reserve_sector:
  assumes "buffer_ok s"
  obtains b where "cf_reserve_buffer CF_SECTOR_SIZE s = Some (s\<lparr>data_buffer := b, data_capacity := length b\<rparr>)"
    "CF_SECTOR_SIZE \<le> length b"
proof (cases "CF_SECTOR_SIZE \<le> data_capacity s")
  case True
  then have "cf_reserve_buffer CF_SECTOR_SIZE s = Some (s\<lparr>data_buffer := data_buffer s, data_capacity := length (data_buffer s)\<rparr>)"
    using assms by (simp add: cf_reserve_buffer_def buffer_ok_def)
  then show ?thesis by (rule that) (use True assms in \<open>simp add: buffer_ok_def\<close>)
next
  case False
  then show ?thesis
    using assms that [of "data_buffer s @ replicate (CF_SECTOR_SIZE - data_capacity s) 0"]
    by (simp add: cf_reserve_buffer_def buffer_ok_def)
qed

definition filled :: "u8 list \<Rightarrow> bool \<Rightarrow> cf_card \<Rightarrow> cf_card" where
  "filled b w s = s\<lparr>data_buffer := b, data_capacity := length b, data_length := CF_SECTOR_SIZE, data_pos := 0,
     pending_write := w, status_reg := 0x58\<rparr>"

lemma load_sector:
  assumes "buffer_ok s" "unat (transfer_lba s) * CF_SECTOR_SIZE + CF_SECTOR_SIZE \<le> length (image s)"
  obtains b where "cf_load_read_sector s = (True, filled b False s)" "CF_SECTOR_SIZE \<le> length b"
    "take CF_SECTOR_SIZE b = take CF_SECTOR_SIZE (drop (unat (transfer_lba s) * CF_SECTOR_SIZE) (image s))"
proof -
  obtain b where b: "cf_reserve_buffer CF_SECTOR_SIZE s = Some (s\<lparr>data_buffer := b, data_capacity := length b\<rparr>)"
    "CF_SECTOR_SIZE \<le> length b"
    using reserve_sector [OF assms(1)] by blast
  let ?sec = "take CF_SECTOR_SIZE (drop (unat (transfer_lba s) * CF_SECTOR_SIZE) (image s))"
  have len: "length ?sec = CF_SECTOR_SIZE" using assms(2) by simp
  have "cf_load_read_sector s = (True, filled (?sec @ drop CF_SECTOR_SIZE b) False s)"
    using assms b len
    by (simp add: cf_load_read_sector_def set_buffer_def filled_def buffer_ok_def Let_def)
  then show ?thesis by (rule that) (use b len in simp_all)
qed

lemma prepare_write_sector:
  assumes "buffer_ok s"
  obtains b where "cf_prepare_write_sector s = (True, filled b True s)" "CF_SECTOR_SIZE \<le> length b"
proof -
  obtain b where b: "cf_reserve_buffer CF_SECTOR_SIZE s = Some (s\<lparr>data_buffer := b, data_capacity := length b\<rparr>)"
    "CF_SECTOR_SIZE \<le> length b"
    using reserve_sector [OF assms(1)] by blast
  have "cf_prepare_write_sector s = (True, filled (replicate CF_SECTOR_SIZE 0 @ drop CF_SECTOR_SIZE b) True s)"
    using b by (simp add: cf_prepare_write_sector_def set_buffer_def filled_def)
  then show ?thesis by (rule that) (use b in simp)
qed

lemma identify_length [simp]: "length (identify_block n) = CF_SECTOR_SIZE"
proof -
  have [simp]: "length (put_string_loop w i n str buf) = length buf" for w i n and str :: string and buf :: "u8 list"
    by (induction n arbitrary: i buf) (simp_all add: Let_def)
  show ?thesis by (simp add: identify_block_def cf_put_word_le_def cf_put_ata_string_def Let_def)
qed

lemma prepare_identify:
  assumes "buffer_ok s"
  obtains b where "cf_prepare_identify s = Some ((filled b False s)\<lparr>transfer_remaining := 0\<rparr>)"
    "CF_SECTOR_SIZE \<le> length b"
    "take CF_SECTOR_SIZE b = identify_block (of_nat (length (image s) div CF_SECTOR_SIZE))"
proof -
  obtain b where b: "cf_reserve_buffer CF_SECTOR_SIZE s = Some (s\<lparr>data_buffer := b, data_capacity := length b\<rparr>)"
    "CF_SECTOR_SIZE \<le> length b"
    using reserve_sector [OF assms(1)] by blast
  have "cf_prepare_identify s = Some ((filled (identify_block (of_nat (length (image s) div CF_SECTOR_SIZE)) @
      drop CF_SECTOR_SIZE b) False s)\<lparr>transfer_remaining := 0\<rparr>)"
    using b assms by (simp add: cf_prepare_identify_def set_buffer_def filled_def buffer_ok_def)
  then show ?thesis by (rule that) (use b in simp_all)
qed

section \<open>Starting a sector\<close>

definition room_for :: "nat \<Rightarrow> cf_card \<Rightarrow> bool" where
  "room_for n s \<longleftrightarrow> 0 < n \<and> unat (transfer_remaining s) = n \<and> unat (transfer_lba s) + n \<le> 2 ^ 28 + 256 \<and>
     (unat (transfer_lba s) + n) * CF_SECTOR_SIZE \<le> length (image s)"

lemma room_for_sector:
  assumes "room_for n s"
  shows "unat (transfer_lba s) * CF_SECTOR_SIZE + CF_SECTOR_SIZE \<le> length (image s)"
proof -
  have "(unat (transfer_lba s) + 1) * CF_SECTOR_SIZE \<le> (unat (transfer_lba s) + n) * CF_SECTOR_SIZE"
    by (rule mult_le_mono1) (use assms in \<open>simp add: room_for_def\<close>)
  then show ?thesis using assms by (simp add: room_for_def)
qed

lemma unat_next_lba: "unat (lba :: u32) < 2 ^ 29 \<Longrightarrow> unat (lba + 1) = unat lba + 1"
  by (simp add: unat_word_ariths)

lemma filled_ok:
  assumes "buffer_ok s" "room_for n s" "CF_SECTOR_SIZE \<le> length b"
  shows "ata_ok (filled b w s)"
proof -
  have "transfer_remaining s \<noteq> 0" using assms(2) by (auto simp: room_for_def)
  then show ?thesis
    using assms by (auto simp: ata_ok_def buffer_ok_def transfer_ok_def filled_def room_for_def)
qed

lemma left_over_unat: "unat (left_over r) = unat r - 1"
proof (cases "r = 0")
  case True
  then show ?thesis by (simp add: left_over_def)
next
  case False
  then have "0 < unat r" "r > 0" by (simp_all add: unat_gt_0 word_gt_0)
  then show ?thesis by (simp add: left_over_def unat_sub word_le_nat_alt)
qed

lemma filled_read_abs:
  assumes room: "room_for n s" and b: "CF_SECTOR_SIZE \<le> length b"
    and eq: "take CF_SECTOR_SIZE b = take CF_SECTOR_SIZE (drop (unat (transfer_lba s) * CF_SECTOR_SIZE) (image s))"
  shows "abs_card (filled b False s) =
    a_start (Sending (take (n * CF_SECTOR_SIZE) (drop (unat (transfer_lba s) * CF_SECTOR_SIZE) (image s)))) (abs_card s)"
proof -
  let ?off = "unat (transfer_lba s) * CF_SECTOR_SIZE"
  have "unat (transfer_lba s + 1) = unat (transfer_lba s) + 1"
    by (rule unat_next_lba) (use room in \<open>simp add: room_for_def\<close>)
  then have off: "unat (transfer_lba s + 1) * CF_SECTOR_SIZE = CF_SECTOR_SIZE + ?off"
    by (simp only: add_mult_distrib mult_1 add.commute)
  have n: "n * CF_SECTOR_SIZE = CF_SECTOR_SIZE + unat (left_over (transfer_remaining s)) * CF_SECTOR_SIZE"
    using room by (cases n) (simp_all add: room_for_def left_over_unat)
  have ls: "later_sectors (filled b False s) = later_sectors s"
    by (simp add: later_sectors_def filled_def)
  have "take CF_SECTOR_SIZE b @ later_sectors s = take (n * CF_SECTOR_SIZE) (drop ?off (image s))"
    unfolding eq n take_add later_sectors_def off drop_drop ..
  then have ph: "card_phase (filled b False s) = Sending (take (n * CF_SECTOR_SIZE) (drop ?off (image s)))"
    unfolding card_phase_def ls by (simp add: filled_def)
  show ?thesis unfolding a_start_def by (simp add: abs_card_def ph) (simp add: filled_def)
qed

lemma filled_write_abs:
  assumes "room_for n s"
  shows "abs_card (filled b True s) = a_start (Gathering n []) (abs_card s)"
  using assms by (simp add: abs_card_def filled_def a_start_def card_phase_def room_for_def)


section \<open>The data port\<close>

definition advance :: "cf_card \<Rightarrow> cf_card" where
  "advance s = (cf_update_taskfile_after_sector (transfer_lba s + 1) (left_over (transfer_remaining s)) s)
     \<lparr>transfer_lba := transfer_lba s + 1, transfer_remaining := left_over (transfer_remaining s)\<rparr>"

lemma advance_sel [simp]:
  "image (advance s) = image s" "image_size (advance s) = image_size s" "data_buffer (advance s) = data_buffer s"
  "data_capacity (advance s) = data_capacity s" "can_alloc (advance s) = can_alloc s"
  "transfer_lba (advance s) = transfer_lba s + 1" "transfer_remaining (advance s) = left_over (transfer_remaining s)"
  "buffer_ok (advance s) = buffer_ok s"
  by (simp_all add: advance_def ata_reg_defs buffer_ok_def)

lemma advance_abs:
  "(abs_card (advance s))\<lparr>phase := p\<rparr> = (a_next (unat (left_over (transfer_remaining s))) (abs_card s))\<lparr>phase := p\<rparr>"
  by (simp add: abs_card_def advance_def a_next_def ata_reg_defs cf_update_taskfile_after_sector_def)

lemma advance_room:
  assumes "transfer_ok s" "data_length s \<noteq> 0" "left_over (transfer_remaining s) \<noteq> 0"
  shows "room_for (unat (left_over (transfer_remaining s))) (advance s)"
proof -
  have nz: "transfer_remaining s \<noteq> 0" using assms(3) by (auto simp: left_over_def)
  have u: "unat (left_over (transfer_remaining s)) = unat (transfer_remaining s) - 1" by (rule left_over_unat)
  have pos: "0 < unat (left_over (transfer_remaining s))" using assms(3) by (simp add: unat_gt_0)
  have bnd: "unat (transfer_lba s) + unat (transfer_remaining s) \<le> 2 ^ 28 + 256"
    "(unat (transfer_lba s) + unat (transfer_remaining s)) * CF_SECTOR_SIZE \<le> length (image s)"
    using assms(1,2) nz by (simp_all add: transfer_ok_def)
  have "unat (transfer_lba s + 1) = unat (transfer_lba s) + 1"
    by (rule unat_next_lba) (use bnd in simp)
  then have "unat (transfer_lba s + 1) + unat (left_over (transfer_remaining s)) =
      unat (transfer_lba s) + unat (transfer_remaining s)"
    using pos u by simp
  then show ?thesis using bnd pos by (simp add: room_for_def)
qed

lemma data_read_active:
  assumes "data_length s = CF_SECTOR_SIZE" "\<not> pending_write s" "data_pos s < CF_SECTOR_SIZE"
  shows "cf_data_read sz s =
    (lanes sz (\<lambda>i. if data_pos s + i < CF_SECTOR_SIZE then data_buffer s ! (data_pos s + i) else 0xFF),
     if data_pos s + sz < CF_SECTOR_SIZE then s\<lparr>data_pos := data_pos s + sz\<rparr>
     else let t = advance (s\<lparr>data_pos := CF_SECTOR_SIZE\<rparr>)
          in if left_over (transfer_remaining s) > 0
             then (case cf_load_read_sector t of (True, t) \<Rightarrow> t | (False, t) \<Rightarrow> cf_set_error 0x10 t)
             else cf_finish_transfer t)"
proof (cases "data_pos s + sz < CF_SECTOR_SIZE")
  case True
  then show ?thesis using assms by (simp add: cf_data_read_def Let_def)
next
  case False
  then have pos: "min (data_pos s + sz) (max CF_SECTOR_SIZE (data_pos s)) = CF_SECTOR_SIZE" using assms(3) by simp
  show ?thesis using assms False
    by (simp add: cf_data_read_def Let_def pos advance_def left_over_def [symmetric] cong: if_cong)
qed

lemma sending_length:
  assumes "ata_ok s" "data_length s \<noteq> 0" "\<not> pending_write s"
  shows "length (later_sectors s) = unat (left_over (transfer_remaining s)) * CF_SECTOR_SIZE"
proof (cases "transfer_remaining s = 0")
  case True
  then show ?thesis by (simp add: later_sectors_def left_over_def)
next
  case False
  have bnd: "unat (transfer_lba s) + unat (transfer_remaining s) \<le> 2 ^ 28 + 256"
    "(unat (transfer_lba s) + unat (transfer_remaining s)) * CF_SECTOR_SIZE \<le> length (image s)"
    using assms False by (simp_all add: ata_ok_def transfer_ok_def)
  have l: "unat (transfer_lba s + 1) = unat (transfer_lba s) + 1"
    by (rule unat_next_lba) (use bnd in simp)
  have "0 < unat (transfer_remaining s)" using False by (simp add: unat_gt_0)
  then show ?thesis using bnd(2) unfolding later_sectors_def l left_over_unat by simp
qed

lemma data_read_abs:
  assumes ok: "ata_ok s"
  shows "ata_ok (snd (cf_data_read sz s)) \<and>
         a_read sz (abs_card s) = (fst (cf_data_read sz s), abs_card (snd (cf_data_read sz s)))"
proof (cases "data_length s = 0 \<or> pending_write s")
  case True
  then have "card_phase s = Quiet \<or> (\<exists>m got. card_phase s = Gathering m got)" by (auto simp: card_phase_def)
  then show ?thesis using ok True by (auto simp: cf_data_read_def a_read_def)
next
  case False
  then have act: "data_length s = CF_SECTOR_SIZE" "\<not> pending_write s" "data_pos s < CF_SECTOR_SIZE"
    and bok: "buffer_ok s" and tok: "transfer_ok s"
    and cap: "CF_SECTOR_SIZE \<le> length (data_buffer s)"
    using ok by (simp_all add: ata_ok_def transfer_ok_def buffer_ok_def)
  let ?r = "left_over (transfer_remaining s)"
  let ?cur = "drop (data_pos s) (take CF_SECTOR_SIZE (data_buffer s))"
  have ph: "card_phase s = Sending (?cur @ later_sectors s)" using act by (simp add: card_phase_def)
  have lcur: "length ?cur = CF_SECTOR_SIZE - data_pos s" using cap by simp
  have llater: "length (later_sectors s) = unat ?r * CF_SECTOR_SIZE"
    by (rule sending_length [OF ok]) (use False in simp_all)
  have k: "(length (?cur @ later_sectors s) - 1) mod CF_SECTOR_SIZE + 1 = CF_SECTOR_SIZE - data_pos s"
  proof -
    have "length (?cur @ later_sectors s) - 1 = (CF_SECTOR_SIZE - data_pos s - 1) + unat ?r * CF_SECTOR_SIZE"
      using act(3) lcur llater by (simp only: length_append)
    then show ?thesis using act(3) by (simp only: mod_mult_self1) simp
  qed
  have val: "lanes sz (\<lambda>i. if i < CF_SECTOR_SIZE - data_pos s then (?cur @ later_sectors s) ! i else 0xFF) =
      lanes sz (\<lambda>i. if data_pos s + i < CF_SECTOR_SIZE then data_buffer s ! (data_pos s + i) else 0xFF)"
    using lcur cap act(3) by (intro lanes_cong) (auto simp: nth_append)
  show ?thesis
  proof (cases "data_pos s + sz < CF_SECTOR_SIZE")
    case True
    let ?s' = "s\<lparr>data_pos := data_pos s + sz\<rparr>"
    have rd: "cf_data_read sz s = (fst (cf_data_read sz s), ?s')" and
      v: "fst (cf_data_read sz s) = lanes sz (\<lambda>i. if data_pos s + i < CF_SECTOR_SIZE then data_buffer s ! (data_pos s + i) else 0xFF)"
      using True by (simp_all add: data_read_active [OF act])
    have ok': "ata_ok ?s'"
      using ok act True by (auto simp: ata_ok_def buffer_ok_def transfer_ok_def)
    have "card_phase ?s' = Sending (drop sz (?cur @ later_sectors s))"
    proof -
      have "drop sz (?cur @ later_sectors s) = drop (data_pos s + sz) (take CF_SECTOR_SIZE (data_buffer s)) @ later_sectors s"
        using True lcur by (simp add: add.commute)
      moreover have "later_sectors ?s' = later_sectors s" by (simp add: later_sectors_def)
      ultimately show ?thesis using act by (simp add: card_phase_def)
    qed
    then have "abs_card ?s' = (abs_card s)\<lparr>phase := Sending (drop sz (?cur @ later_sectors s))\<rparr>"
      by (simp add: abs_card_def)
    moreover have "a_read sz (abs_card s) = (fst (cf_data_read sz s), (abs_card s)\<lparr>phase := Sending (drop sz (?cur @ later_sectors s))\<rparr>)"
      unfolding a_read_def abs_card_sel ph phase.case Let_def k val v using True by simp
    ultimately show ?thesis using rd ok' by (metis snd_conv)
  next
    case False
    then have mn: "min sz (CF_SECTOR_SIZE - data_pos s) = CF_SECTOR_SIZE - data_pos s"
      and ge: "\<not> sz < CF_SECTOR_SIZE - data_pos s" by auto
    define t where "t = advance (s\<lparr>data_pos := CF_SECTOR_SIZE\<rparr>)"
    define s' where "s' = snd (cf_data_read sz s)"
    have v: "fst (cf_data_read sz s) = lanes sz (\<lambda>i. if data_pos s + i < CF_SECTOR_SIZE then data_buffer s ! (data_pos s + i) else 0xFF)"
      by (simp add: data_read_active [OF act])
    have s': "s' = (if ?r > 0 then (case cf_load_read_sector t of (True, t) \<Rightarrow> t | (False, t) \<Rightarrow> cf_set_error 0x10 t)
        else cf_finish_transfer t)"
      using False by (simp add: s'_def data_read_active [OF act] t_def)
    have tbok: "buffer_ok t" using bok by (simp add: t_def buffer_ok_def)
    have tabs: "(abs_card t)\<lparr>phase := p\<rparr> = (a_next (unat ?r) (abs_card s))\<lparr>phase := p\<rparr>" for p
      unfolding t_def advance_abs by (simp add: abs_card_def a_next_def ata_reg_defs)
    have rest: "drop (min sz (CF_SECTOR_SIZE - data_pos s)) (?cur @ later_sectors s) = later_sectors s"
      unfolding mn using lcur by simp
    have ar: "a_read sz (abs_card s) = (fst (cf_data_read sz s),
        let d = a_next (unat ?r) (abs_card s) in if later_sectors s = [] then a_done d else a_start (Sending (later_sectors s)) d)"
      unfolding a_read_def abs_card_sel ph phase.case Let_def k val v rest llater using ge by simp
    show ?thesis
    proof (cases "?r = 0")
      case True
      then have "later_sectors s = []" using llater by simp
      moreover have "abs_card (cf_finish_transfer t) = a_done (a_next (unat ?r) (abs_card s))"
        using tabs [of Quiet] unfolding abs_finish a_done_def by (simp add: cf_set_ready_def abs_card_def a_next_def ata_reg_defs)
      ultimately show ?thesis using True ar ata_ok_quiet(3) [OF tbok] s' by (simp add: s'_def [symmetric])
    next
      case nz: False
      have room: "room_for (unat ?r) t"
        using advance_room [OF tok] nz act by (simp add: t_def room_for_def)
      then have im: "unat (transfer_lba t) * CF_SECTOR_SIZE + CF_SECTOR_SIZE \<le> length (image t)"
        by (rule room_for_sector)
      obtain b where b: "cf_load_read_sector t = (True, filled b False t)" "CF_SECTOR_SIZE \<le> length b"
        "take CF_SECTOR_SIZE b = take CF_SECTOR_SIZE (drop (unat (transfer_lba t) * CF_SECTOR_SIZE) (image t))"
        using load_sector [OF tbok im] by blast
      have s'2: "s' = filled b False t" using s' b nz by (simp add: word_gt_0)
      have lt: "later_sectors s = take (unat ?r * CF_SECTOR_SIZE) (drop (unat (transfer_lba t) * CF_SECTOR_SIZE) (image t))"
        by (simp add: later_sectors_def t_def)
      have "later_sectors s \<noteq> []" using llater nz by (auto simp: unat_eq_0)
      moreover have "abs_card s' = a_start (Sending (later_sectors s)) (a_next (unat ?r) (abs_card s))"
        using tabs [of "Sending (later_sectors s)"] unfolding s'2 filled_read_abs [OF room b(2,3)] lt [symmetric] a_start_def
        by (simp add: abs_card_def a_next_def ata_reg_defs)
      moreover have "ata_ok s'" unfolding s'2 by (rule filled_ok [OF tbok room b(2)])
      ultimately show ?thesis using ar by (simp add: s'_def [symmetric] Let_def)
    qed
  qed
qed


lemma commit_write_eq:
  "cf_commit_write s =
    (let t = (advance s)\<lparr>image := overwrite (unat (transfer_lba s) * CF_SECTOR_SIZE) (take CF_SECTOR_SIZE (data_buffer s)) (image s),
                         dirty := True\<rparr>
     in if left_over (transfer_remaining s) > 0
        then (case cf_prepare_write_sector t of (True, t) \<Rightarrow> t | (False, t) \<Rightarrow> cf_set_error 0x10 t)
        else cf_finish_transfer t)"
proof -
  have "(advance s)\<lparr>image := m, dirty := True\<rparr> =
      (cf_update_taskfile_after_sector (transfer_lba s + 1) (left_over (transfer_remaining s)) (s\<lparr>image := m, dirty := True\<rparr>))
        \<lparr>transfer_lba := transfer_lba s + 1, transfer_remaining := left_over (transfer_remaining s)\<rparr>" for m
    by (rule cf_card.equality) (simp_all add: advance_def ata_reg_defs)
  then show ?thesis unfolding cf_commit_write_def Let_def left_over_def [symmetric] by simp
qed

lemma length_overwrite: "off + length bs \<le> length m \<Longrightarrow> length (overwrite off bs m) = length m"
  by (simp add: overwrite_def)

lemma commit_write_abs:
  assumes bok: "buffer_ok s" and tok: "transfer_ok (s\<lparr>data_pos := 0\<rparr>)" and act: "data_length s = CF_SECTOR_SIZE" "pending_write s"
    and got: "take CF_SECTOR_SIZE (data_buffer s) = got"
    and d: "d = abs_card s"
  shows "ata_ok (cf_commit_write s) \<and> abs_card (cf_commit_write s) =
    (let d' = a_next (unat (transfer_remaining s) - 1) (d\<lparr>disk := overwrite (unat (sector d) * CF_SECTOR_SIZE) got (disk d)\<rparr>)
     in if unat (transfer_remaining s) = 1 then a_done d' else a_start (Gathering (unat (transfer_remaining s) - 1) []) d')"
proof -
  let ?r = "left_over (transfer_remaining s)"
  let ?im = "overwrite (unat (transfer_lba s) * CF_SECTOR_SIZE) got (image s)"
  define t where "t = (advance s)\<lparr>image := ?im, dirty := True\<rparr>"
  have rem: "transfer_remaining s \<noteq> 0" and cap: "CF_SECTOR_SIZE \<le> length (data_buffer s)"
    and bnd: "(unat (transfer_lba s) + unat (transfer_remaining s)) * CF_SECTOR_SIZE \<le> length (image s)"
    using tok bok act by (simp_all add: transfer_ok_def buffer_ok_def)
  have pos: "0 < unat (transfer_remaining s)" using rem by (simp add: unat_gt_0)
  have lgot: "length got = CF_SECTOR_SIZE" unfolding got [symmetric] using cap by simp
  have "unat (transfer_lba s) * CF_SECTOR_SIZE + CF_SECTOR_SIZE \<le> length (image s)"
  proof (rule room_for_sector)
    show "room_for (unat (transfer_remaining s)) s"
      using tok act rem pos by (simp add: transfer_ok_def room_for_def)
  qed
  then have lim: "length ?im = length (image s)" by (intro length_overwrite) (simp only: lgot)
  have tbok: "buffer_ok t" using bok lim by (simp add: t_def buffer_ok_def)
  have cw: "cf_commit_write s = (if ?r > 0
      then (case cf_prepare_write_sector t of (True, t) \<Rightarrow> t | (False, t) \<Rightarrow> cf_set_error 0x10 t) else cf_finish_transfer t)"
    by (simp add: commit_write_eq got t_def)
  have tabs: "(abs_card t)\<lparr>phase := p\<rparr> = (a_next (unat ?r) (d\<lparr>disk := ?im\<rparr>))\<lparr>phase := p\<rparr>" for p
    by (simp add: d t_def abs_card_def advance_def a_next_def ata_reg_defs)
  have r: "unat (transfer_remaining s) - 1 = unat ?r" by (simp add: left_over_unat)
  show ?thesis
  proof (cases "?r = 0")
    case True
    then have one: "unat (transfer_remaining s) = 1" using r pos by simp
    have "abs_card (cf_finish_transfer t) = a_done (a_next (unat ?r) (d\<lparr>disk := ?im\<rparr>))"
      using tabs [of Quiet] unfolding abs_finish a_done_def by (simp add: cf_set_ready_def abs_card_def a_next_def ata_reg_defs d)
    then show ?thesis using True one ata_ok_quiet(3) [OF tbok] by (simp add: cw Let_def d)
  next
    case False
    then have many: "unat (transfer_remaining s) \<noteq> 1" using r by (auto simp: unat_eq_0)
    have "room_for (unat ?r) (advance (s\<lparr>data_pos := 0\<rparr>))"
      by (rule advance_room [OF tok, simplified]) (use act False in simp_all)
    then have room: "room_for (unat ?r) t" using lim by (simp add: t_def room_for_def)
    obtain b where b: "cf_prepare_write_sector t = (True, filled b True t)" "CF_SECTOR_SIZE \<le> length b"
      using prepare_write_sector [OF tbok] by blast
    have "abs_card (filled b True t) = a_start (Gathering (unat ?r) []) (a_next (unat ?r) (d\<lparr>disk := ?im\<rparr>))"
      using tabs [of "Gathering (unat ?r) []"] unfolding filled_write_abs [OF room] a_start_def
      by (simp add: abs_card_def a_next_def ata_reg_defs d)
    then show ?thesis using False many b filled_ok [OF tbok room b(2)] by (simp add: cw r [simplified] d word_gt_0)
  qed
qed

lemma data_write_abs:
  assumes ok: "ata_ok s"
  shows "ata_ok (cf_data_write sz v s) \<and> abs_card (cf_data_write sz v s) = a_write sz v (abs_card s)"
proof (cases "\<not> pending_write s \<or> data_length s = 0")
  case True
  then have "card_phase s = Quiet \<or> (\<exists>bs. card_phase s = Sending bs)" by (auto simp: card_phase_def)
  then show ?thesis using ok True by (auto simp: cf_data_write_def a_write_def)
next
  case False
  then have act: "data_length s = CF_SECTOR_SIZE" "pending_write s" "data_pos s < CF_SECTOR_SIZE"
    and bok: "buffer_ok s" and tok: "transfer_ok s" and cap: "CF_SECTOR_SIZE \<le> length (data_buffer s)"
    using ok by (simp_all add: ata_ok_def transfer_ok_def buffer_ok_def)
  define n where "n = min sz (CF_SECTOR_SIZE - data_pos s)"
  define got where "got = take (data_pos s) (data_buffer s) @ map (byte_at v) [0..<n]"
  define s1 where "s1 = s\<lparr>data_buffer := got @ drop (data_pos s + n) (data_buffer s), data_pos := data_pos s + n\<rparr>"
  have lgot: "length got = data_pos s + n" using act(3) cap by (simp add: got_def)
  have n: "data_pos s + n \<le> CF_SECTOR_SIZE" using act(3) by (simp add: n_def)
  have dw: "cf_data_write sz v s = (if data_pos s + n \<ge> CF_SECTOR_SIZE then cf_commit_write s1 else s1)"
    using act by (simp add: cf_data_write_def Let_def s1_def got_def n_def)
  have bok1: "buffer_ok s1" using bok lgot n cap by (simp add: buffer_ok_def s1_def)
  have ph: "card_phase s = Gathering (unat (transfer_remaining s)) (take (data_pos s) (data_buffer s))"
    using act by (simp add: card_phase_def)
  have aw: "a_write sz v (abs_card s) =
     (if data_pos s + n < CF_SECTOR_SIZE then (abs_card s)\<lparr>phase := Gathering (unat (transfer_remaining s)) got\<rparr>
      else let d = a_next (unat (transfer_remaining s) - 1)
                     ((abs_card s)\<lparr>disk := overwrite (unat (transfer_lba s) * CF_SECTOR_SIZE) got (image s)\<rparr>)
           in if unat (transfer_remaining s) = 1 then a_done d
              else a_start (Gathering (unat (transfer_remaining s) - 1) []) d)"
  proof -
    have "take (data_pos s) (data_buffer s) @ map (byte_at v) [0..<min sz (CF_SECTOR_SIZE - length (take (data_pos s) (data_buffer s)))] = got"
      using act(3) cap by (simp add: got_def n_def)
    then show ?thesis unfolding a_write_def abs_card_sel ph phase.case Let_def lgot [symmetric] by simp
  qed
  show ?thesis
  proof (cases "data_pos s + n < CF_SECTOR_SIZE")
    case True
    have "ata_ok s1"
      using bok1 tok act True by (simp add: ata_ok_def transfer_ok_def s1_def)
    moreover have "card_phase s1 = Gathering (unat (transfer_remaining s)) got"
      using act lgot by (simp add: card_phase_def s1_def)
    then have "abs_card s1 = (abs_card s)\<lparr>phase := Gathering (unat (transfer_remaining s)) got\<rparr>"
      by (simp add: abs_card_def) (simp add: s1_def)
    ultimately show ?thesis using True by (simp add: dw aw)
  next
    case False
    then have full: "data_pos s + n = CF_SECTOR_SIZE" using n by simp
    have tk: "take CF_SECTOR_SIZE (data_buffer s1) = got" using lgot full by (simp add: s1_def)
    have tok1: "transfer_ok (s1\<lparr>data_pos := 0\<rparr>)" using tok act by (simp add: transfer_ok_def s1_def)
    have "data_length s1 = CF_SECTOR_SIZE" "pending_write s1" using act by (simp_all add: s1_def)
    note c = commit_write_abs [OF bok1 tok1 this tk refl]
    have fields: "transfer_remaining s1 = transfer_remaining s" "transfer_lba s1 = transfer_lba s" "image s1 = image s"
      by (simp_all add: s1_def)
    have sm: "a_next m ((abs_card s1)\<lparr>disk := x\<rparr>) = (a_next m ((abs_card s)\<lparr>disk := x\<rparr>))\<lparr>phase := card_phase s1\<rparr>" for m x
      by (simp add: a_next_def ata_reg_defs abs_card_def) (simp add: s1_def)
    have "a_done (d\<lparr>phase := p\<rparr>) = a_done d" "a_start q (d\<lparr>phase := p\<rparr>) = a_start q d" for d p q
      by (simp_all add: a_done_def a_start_def cf_set_ready_def)
    then show ?thesis using c False by (simp add: dw aw Let_def fields sm full)
  qed
qed


section \<open>Commands and registers\<close>

lemma current_lba_abs [simp]: "cf_current_lba (abs_card s) = cf_current_lba s" "sectors_asked (abs_card s) = sectors_asked s"
  by (simp_all add: cf_current_lba_def sectors_asked_def)

lemma current_lba_bound: "unat (cf_current_lba s) < 2 ^ 28"
proof -
  have "fits 28 (cf_current_lba s)"
    unfolding fits_bits cf_current_lba_def mask_lits
    by (auto simp: bit_simps dest: bit_imp_le_length)
  then show ?thesis by (simp only: fits_def)
qed

lemma sectors_asked_bounds: "0 < sectors_asked s" "sectors_asked s \<le> 256"
  using unat_lt2p [of "sector_count s"] by (auto simp: sectors_asked_def unat_gt_0)

lemma transfer_room:
  assumes "(unat (cf_current_lba s) + sectors_asked s) * CF_SECTOR_SIZE \<le> length (image s)"
  shows "room_for (sectors_asked s) (s\<lparr>transfer_lba := cf_current_lba s, transfer_remaining := of_nat (sectors_asked s)\<rparr>)"
proof -
  have "unat (of_nat (sectors_asked s) :: u16) = sectors_asked s"
    using sectors_asked_bounds [of s] by (simp add: unat_of_nat)
  then show ?thesis
    using assms sectors_asked_bounds [of s] current_lba_bound [of s] by (simp add: room_for_def)
qed

lemma a_start_sector [simp]:
  "a_start (Sending bs) (abs_card (s\<lparr>transfer_lba := l, transfer_remaining := n\<rparr>)) = a_start (Sending bs) ((abs_card s)\<lparr>sector := l\<rparr>)"
  "a_start (Gathering k bs) (abs_card (s\<lparr>transfer_lba := l, transfer_remaining := n\<rparr>)) = a_start (Gathering k bs) ((abs_card s)\<lparr>sector := l\<rparr>)"
  by (simp_all add: a_start_def abs_card_def)

lemma prepare_read_abs:
  assumes "buffer_ok s"
  shows "ata_ok (snd (cf_prepare_read s)) \<and> abs_card (snd (cf_prepare_read s)) =
    a_transfer (\<lambda>lba n. Sending (take (n * CF_SECTOR_SIZE) (drop (unat lba * CF_SECTOR_SIZE) (image s)))) (abs_card s)"
proof (cases "drive_head s AND 0x40 = 0 \<or> (unat (cf_current_lba s) + sectors_asked s) * CF_SECTOR_SIZE > length (image s)")
  case True
  then show ?thesis
    using assms ata_ok_quiet(1) [OF assms]
    by (auto simp: cf_prepare_read_def a_transfer_def abs_set_error buffer_ok_def)
next
  case False
  define t where "t = s\<lparr>transfer_lba := cf_current_lba s, transfer_remaining := of_nat (sectors_asked s)\<rparr>"
  have room: "room_for (sectors_asked s) t" unfolding t_def by (rule transfer_room) (use False in simp)
  have tbok: "buffer_ok t" using assms by (simp add: t_def buffer_ok_def)
  obtain b where b: "cf_load_read_sector t = (True, filled b False t)" "CF_SECTOR_SIZE \<le> length b"
    "take CF_SECTOR_SIZE b = take CF_SECTOR_SIZE (drop (unat (transfer_lba t) * CF_SECTOR_SIZE) (image t))"
    using load_sector [OF tbok room_for_sector [OF room]] by blast
  have "cf_prepare_read s = (True, filled b False t)"
    using False assms b(1) by (simp add: cf_prepare_read_def t_def buffer_ok_def)
  then show ?thesis
    using False filled_ok [OF tbok room b(2)] filled_read_abs [OF room b(2,3)]
    by (simp add: a_transfer_def) (simp add: t_def)
qed

lemma begin_write_abs:
  assumes "buffer_ok s"
  shows "ata_ok (snd (cf_begin_write s)) \<and>
    abs_card (snd (cf_begin_write s)) = a_transfer (\<lambda>lba n. Gathering n []) (abs_card s)"
proof (cases "drive_head s AND 0x40 = 0 \<or> (unat (cf_current_lba s) + sectors_asked s) * CF_SECTOR_SIZE > length (image s)")
  case True
  then show ?thesis
    using assms ata_ok_quiet(1) [OF assms]
    by (auto simp: cf_begin_write_def a_transfer_def abs_set_error buffer_ok_def)
next
  case False
  define t where "t = s\<lparr>transfer_lba := cf_current_lba s, transfer_remaining := of_nat (sectors_asked s)\<rparr>"
  have room: "room_for (sectors_asked s) t" unfolding t_def by (rule transfer_room) (use False in simp)
  have tbok: "buffer_ok t" using assms by (simp add: t_def buffer_ok_def)
  obtain b where b: "cf_prepare_write_sector t = (True, filled b True t)" "CF_SECTOR_SIZE \<le> length b"
    using prepare_write_sector [OF tbok] by blast
  have "cf_begin_write s = (True, filled b True t)"
    using False assms b(1) by (simp add: cf_begin_write_def t_def buffer_ok_def)
  then show ?thesis
    using False filled_ok [OF tbok room b(2)] filled_write_abs [OF room]
    by (simp add: a_transfer_def) (simp add: t_def)
qed

lemma identify_abs:
  assumes "buffer_ok s"
  obtains t where "cf_prepare_identify s = Some t" "ata_ok t"
    "abs_card t = a_start (Sending (identify_block (of_nat (length (image s) div CF_SECTOR_SIZE)))) (abs_card s)"
proof -
  obtain b where b: "cf_prepare_identify s = Some ((filled b False s)\<lparr>transfer_remaining := 0\<rparr>)"
    "CF_SECTOR_SIZE \<le> length b"
    "take CF_SECTOR_SIZE b = identify_block (of_nat (length (image s) div CF_SECTOR_SIZE))"
    using prepare_identify [OF assms] by blast
  let ?t = "(filled b False s)\<lparr>transfer_remaining := 0\<rparr>"
  have "ata_ok ?t" using assms b(2) by (simp add: ata_ok_def buffer_ok_def transfer_ok_def filled_def)
  moreover have "card_phase ?t = Sending (take CF_SECTOR_SIZE b)"
    by (simp add: card_phase_def later_sectors_def left_over_def) (simp add: filled_def)
  then have "abs_card ?t = a_start (Sending (take CF_SECTOR_SIZE b)) (abs_card s)"
    by (simp add: abs_card_def a_start_def) (simp add: filled_def)
  ultimately show ?thesis using that b(1,3) by simp
qed

lemma ata_ok_unchanged:
  assumes "image t = image s" "image_size t = image_size s" "data_buffer t = data_buffer s"
    "data_capacity t = data_capacity s" "can_alloc t = can_alloc s" "data_length t = data_length s"
    "data_pos t = data_pos s" "pending_write t = pending_write s" "transfer_lba t = transfer_lba s"
    "transfer_remaining t = transfer_remaining s" "ata_ok s"
  shows "ata_ok t"
  using assms(11) unfolding ata_ok_def buffer_ok_def transfer_ok_def assms(1-10) .

lemma ata_ok_regs:
  assumes "ata_ok s"
  shows "ata_ok (cf_set_ready att s)" "ata_ok (s\<lparr>command_reg := c\<rparr>)" "ata_ok (s\<lparr>error_reg := c\<rparr>)"
    "ata_ok (s\<lparr>device_control := c\<rparr>)" "ata_ok (s\<lparr>feature_reg := c\<rparr>)" "ata_ok (s\<lparr>sector_count := c\<rparr>)"
    "ata_ok (s\<lparr>sector_number := c\<rparr>)" "ata_ok (s\<lparr>cylinder_low := c\<rparr>)" "ata_ok (s\<lparr>cylinder_high := c\<rparr>)"
    "ata_ok (s\<lparr>drive_head := c\<rparr>)" "ata_ok (s\<lparr>boot_status_floating := f\<rparr>)"
  by (rule ata_ok_unchanged [OF _ _ _ _ _ _ _ _ _ _ assms]; simp add: cf_set_ready_def)+

lemma abs_regs:
  "abs_card (s\<lparr>command_reg := c\<rparr>) = (abs_card s)\<lparr>command_reg := c\<rparr>"
  "abs_card (s\<lparr>error_reg := c\<rparr>) = (abs_card s)\<lparr>error_reg := c\<rparr>"
  "abs_card (s\<lparr>device_control := c\<rparr>) = (abs_card s)\<lparr>device_control := c\<rparr>"
  "abs_card (s\<lparr>feature_reg := c\<rparr>) = (abs_card s)\<lparr>feature_reg := c\<rparr>"
  "abs_card (s\<lparr>sector_count := c\<rparr>) = (abs_card s)\<lparr>sector_count := c\<rparr>"
  "abs_card (s\<lparr>sector_number := c\<rparr>) = (abs_card s)\<lparr>sector_number := c\<rparr>"
  "abs_card (s\<lparr>cylinder_low := c\<rparr>) = (abs_card s)\<lparr>cylinder_low := c\<rparr>"
  "abs_card (s\<lparr>cylinder_high := c\<rparr>) = (abs_card s)\<lparr>cylinder_high := c\<rparr>"
  "abs_card (s\<lparr>drive_head := c\<rparr>) = (abs_card s)\<lparr>drive_head := c\<rparr>"
  "abs_card (s\<lparr>boot_status_floating := f\<rparr>) = (abs_card s)\<lparr>boot_floats := f\<rparr>"
  by (simp_all add: abs_card_def card_phase_def later_sectors_def)

lemma execute_abs:
  assumes "ata_ok s"
  shows "ata_ok (cf_execute_command c s) \<and> abs_card (cf_execute_command c s) = a_command c (abs_card s)"
proof -
  define t where "t = s\<lparr>command_reg := c, error_reg := 0\<rparr>"
  have tok: "ata_ok t" using assms by (simp add: t_def ata_ok_regs)
  then have bok: "buffer_ok t" by (simp add: ata_ok_def)
  have tabs: "(abs_card s)\<lparr>command_reg := c, error_reg := 0\<rparr> = abs_card t" by (simp add: t_def abs_regs)
  obtain u where u: "cf_prepare_identify t = Some u" "ata_ok u"
    "abs_card u = a_start (Sending (identify_block (of_nat (length (image t) div CF_SECTOR_SIZE)))) (abs_card t)"
    using identify_abs [OF bok] by blast
  note rd = prepare_read_abs [OF bok] and wr = begin_write_abs [OF bok]
  show ?thesis
    unfolding cf_execute_command_def a_command_def Let_def tabs t_def [symmetric] abs_card_sel
    by (simp add: u rd wr ata_ok_quiet [OF bok] abs_set_error abs_ready ata_ok_regs [OF tok])
qed

lemma write_reg8_abs:
  assumes "ata_ok s"
  shows "ata_ok (cf_write_reg8 reg alt boot v s) \<and>
         abs_card (cf_write_reg8 reg alt boot v s) = a_write_reg8 reg alt boot v (abs_card s)"
proof (cases alt)
  case True
  have q: "ata_ok (cf_reset_taskfile (s\<lparr>device_control := w\<rparr>))" for w
    using ata_ok_regs(4) [OF assms, of w] by (intro ata_ok_quiet) (simp add: ata_ok_def)
  have q': "ata_ok ((cf_reset_taskfile (s\<lparr>device_control := w\<rparr>))\<lparr>boot_status_floating := False\<rparr>)" for w
    using q by (rule ata_ok_regs)
  show ?thesis using True assms
    by (simp add: cf_write_reg8_def a_write_reg8_def Let_def ata_ok_regs q q' abs_regs abs_reset)
next
  case False
  then show ?thesis using assms execute_abs [OF assms]
    by (simp add: cf_write_reg8_def a_write_reg8_def ata_ok_regs abs_regs)
qed

lemma write_regs_abs:
  "ata_ok s \<Longrightarrow> ata_ok (write_regs_loop i n reg alt boot v s) \<and>
   abs_card (write_regs_loop i n reg alt boot v s) = a_write_regs i n reg alt boot v (abs_card s)"
proof (induction n arbitrary: i s)
  case 0
  then show ?case by simp
next
  case (Suc n)
  note w = write_reg8_abs [OF Suc.prems, of "reg + int i" alt boot "byte_at v i"]
  show ?case
  proof (cases "i > 0 \<and> (alt \<or> reg + int i > 7)")
    case True
    then show ?thesis using Suc.prems by simp
  next
    case False
    then show ?thesis
      using Suc.IH [OF conjunct1 [OF w], of "i + 1"] w
      by (simp only: write_regs_loop.simps a_write_regs.simps if_False)
  qed
qed

lemma read_regs_abs: "cf_read_regs s reg alt boot sz = a_read_regs (abs_card s) reg alt boot sz"
  by (simp add: cf_read_regs_def a_read_regs_def cf_read_reg8_def a_read_reg8_def cong: if_cong)

section \<open>The card implements the disk\<close>

lemma ata_step_abs:
  assumes "ata_ok (snd x)"
  shows "ata_ok (snd (ata_step e x)) \<and>
         (fst (ata_step e x), abs_card (snd (ata_step e x))) = a_step e (fst x, abs_card (snd x))"
proof -
  obtain out s where x: "x = (out, s)" by (cases x)
  have ok: "ata_ok s" using assms x by simp
  show ?thesis
  proof (cases e)
    case (Read_data sz)
    then show ?thesis using data_read_abs [OF ok, of sz] by (simp add: x split_beta)
  next
    case (Write_data sz v)
    then show ?thesis using data_write_abs [OF ok, of sz v] by (simp add: x)
  next
    case (Read_regs reg alt boot sz)
    then show ?thesis using ok by (simp add: x read_regs_abs)
  next
    case (Write_regs reg alt boot sz v)
    then show ?thesis using write_regs_abs [OF ok] by (simp add: x cf_write_regs_def)
  qed
qed

interpretation ata: refined_device ata_step "\<lambda>(out, s). ata_ok s" "\<lambda>(out, s). (out, abs_card s)" a_step
proof unfold_locales
  fix e and x :: "u64 list \<times> cf_card"
  assume "case x of (out, s) \<Rightarrow> ata_ok s"
  then have "ata_ok (snd x)" by (simp add: split_beta)
  from ata_step_abs [OF this, of e]
  show "case ata_step e x of (out, s) \<Rightarrow> ata_ok s"
    and "(case ata_step e x of (out, s) \<Rightarrow> (out, abs_card s)) = a_step e (case x of (out, s) \<Rightarrow> (out, abs_card s))"
    by (simp_all add: split_beta)
qed

text \<open>C9: Every sequence of accesses to the card, of any width and in any order, reads exactly the
  values the abstract disk gives, and leaves the disk contents, registers and phase that the abstract
  disk reaches: the buffering, the positions and the sector-by-sector reloading are not visible.\<close>

theorem ata_refines_disk:
  assumes "ata_ok s"
  shows "(let (out, t) = fold ata_step es ([], s) in (out, abs_card t)) = fold a_step es ([], abs_card s)"
  using ata.run_abs [of "([], s)" es] assms by (simp add: split_beta)

definition blank_card :: "nat \<Rightarrow> cf_card" where
  "blank_card n = cf_reset_taskfile \<lparr>error_reg = 0, feature_reg = 0, sector_count = 0, sector_number = 0,
     cylinder_low = 0, cylinder_high = 0, drive_head = 0, command_reg = 0, status_reg = 0, device_control = 0,
     image = replicate (n * CF_SECTOR_SIZE) 0, image_size = n * CF_SECTOR_SIZE, attached = True, dirty = False,
     boot_visible = False, boot_status_floating = False, data_buffer = [], data_capacity = 0, data_length = 0,
     data_pos = 0, pending_write = False, transfer_lba = 0, transfer_remaining = 0, can_alloc = True\<rparr>"

lemma blank_card_ok: "ata_ok (blank_card n)"
  by (simp add: blank_card_def ata_ok_def buffer_ok_def transfer_ok_def cf_reset_taskfile_def reset_regs_def)

theorem ata_refines_disk_witness:
  "(let (out, t) = fold ata_step [Write_regs 7 False False 1 0xEC, Read_data 4] ([], blank_card 3) in (out, abs_card t)) =
   fold a_step [Write_regs 7 False False 1 0xEC, Read_data 4] ([], abs_card (blank_card 3))"
  by (rule ata_refines_disk [OF blank_card_ok])

end
