(* ===== verification/Ata_Disk.thy ===== *)
theory Ata_Disk
  imports Ata_Spec
begin

text \<open>
  Whole transfers. On the abstract disk a WRITE SECTORS command followed by its data overwrites the
  sectors asked for, and a READ SECTORS command hands the same bytes back; the refinement of
  \<open>Ata_Spec\<close> carries both to the card.
\<close>

section \<open>Streams of values\<close>

definition access_width :: "nat \<Rightarrow> bool" where
  "access_width w \<longleftrightarrow> w = 1 \<or> w = 2 \<or> w = 4 \<or> w = 8"

definition bytes_of :: "nat \<Rightarrow> u64 list \<Rightarrow> u8 list" where
  "bytes_of w vs = concat (map (\<lambda>v. map (byte_at v) [0..<w]) vs)"

lemma bytes_of_simps [simp]:
  "bytes_of w [] = []" "bytes_of w (v # vs) = map (byte_at v) [0..<w] @ bytes_of w vs"
  "length (bytes_of w vs) = w * length vs"
  by (simp_all add: bytes_of_def) (induction vs; simp)

lemma access_width_facts: "access_width w \<Longrightarrow> w dvd CF_SECTOR_SIZE" "access_width w \<Longrightarrow> 0 < w" "access_width w \<Longrightarrow> w \<le> 8"
  by (auto simp: access_width_def)

lemma dvd_leaves_room: "(w :: nat) dvd m \<Longrightarrow> w dvd k \<Longrightarrow> k < m \<Longrightarrow> w \<le> m - k"
  by (intro dvd_imp_le dvd_diff_nat) auto

section \<open>Writing the disk\<close>

lemma overwrite_overwrite:
  assumes "length g = k" "off + k + length bs \<le> length m"
  shows "overwrite (off + k) bs (overwrite off g m) = overwrite off (g @ bs) m"
proof -
  have "take (off + k) (take off m @ g @ drop (off + k) m) = take off m @ g"
    using assms by (simp add: min_def)
  moreover have "drop (off + k + length bs) (take off m @ g @ drop (off + k) m) = drop (off + k + length bs) m"
    using assms by (simp add: ac_simps)
  ultimately show ?thesis using assms by (simp add: overwrite_def add.assoc)
qed

lemma a_next_sel [simp]:
  "disk (a_next m d) = disk d" "sector (a_next m d) = sector d + 1" "card_in (a_next m d) = card_in d"
  by (simp_all add: a_next_def ata_reg_defs)

lemma a_ends_sel [simp]:
  "disk (a_done d) = disk d" "sector (a_done d) = sector d" "card_in (a_done d) = card_in d" "phase (a_done d) = Quiet"
  "disk (a_start p d) = disk d" "sector (a_start p d) = sector d" "card_in (a_start p d) = card_in d" "phase (a_start p d) = p"
  by (simp_all add: a_done_def a_start_def cf_set_ready_def)

lemma write_stream:
  assumes w: "access_width w"
    and "phase d = Gathering m got" "0 < m" "w dvd length got" "length got < CF_SECTOR_SIZE"
    and "length got + w * length vs = m * CF_SECTOR_SIZE"
    and "unat (sector d) + m \<le> 2 ^ 28 + 256" "(unat (sector d) + m) * CF_SECTOR_SIZE \<le> length (disk d)"
  shows "\<exists>d'. fold a_step (map (Write_data w) vs) (out, d) = (out, d') \<and> phase d' = Quiet \<and> card_in d' = card_in d \<and>
     disk d' = overwrite (unat (sector d) * CF_SECTOR_SIZE) (got @ bytes_of w vs) (disk d)"
  using assms(2-)
proof (induction vs arbitrary: d m got)
  case Nil
  then show ?case by (cases m) auto
next
  case (Cons v vs)
  let ?got = "got @ map (byte_at v) [0..<w]"
  have room: "w \<le> CF_SECTOR_SIZE - length got"
    by (rule dvd_leaves_room [OF access_width_facts(1) [OF w] Cons.prems(3,4)])
  then have mn: "min w (CF_SECTOR_SIZE - length got) = w" by simp
  show ?case
  proof (cases "length ?got < CF_SECTOR_SIZE")
    case True
    let ?d = "d\<lparr>phase := Gathering m ?got\<rparr>"
    have "a_write w v d = ?d" unfolding a_write_def Cons.prems(1) phase.case mn Let_def using True by simp
    moreover have "\<exists>d'. fold a_step (map (Write_data w) vs) (out, ?d) = (out, d') \<and> phase d' = Quiet \<and> card_in d' = card_in ?d \<and>
        disk d' = overwrite (unat (sector ?d) * CF_SECTOR_SIZE) (?got @ bytes_of w vs) (disk ?d)"
      by (rule Cons.IH) (use Cons.prems True in \<open>simp_all add: add.assoc\<close>)
    ultimately show ?thesis by simp
  next
    case False
    then have full: "length ?got = CF_SECTOR_SIZE" using room Cons.prems(4) by simp
    let ?im = "overwrite (unat (sector d) * CF_SECTOR_SIZE) ?got (disk d)"
    let ?d = "a_next (m - 1) (d\<lparr>disk := ?im\<rparr>)"
    have aw: "a_write w v d = (if m = 1 then a_done ?d else a_start (Gathering (m - 1) []) ?d)"
      unfolding a_write_def Cons.prems(1) phase.case mn Let_def using False by simp
    have cnt: "CF_SECTOR_SIZE + w * length vs = m * CF_SECTOR_SIZE" using Cons.prems(5) full by simp
    show ?thesis
    proof (cases "m = 1")
      case True
      then have "vs = []" using cnt access_width_facts(2) [OF w] by simp
      then show ?thesis using True aw by simp
    next
      case m: False
      then have m1: "0 < m - 1" "w * length vs = (m - 1) * CF_SECTOR_SIZE" using cnt by (cases m; simp)+
      let ?e = "a_start (Gathering (m - 1) []) ?d"
      have lba: "unat (sector d + 1) = unat (sector d) + 1"
        by (rule unat_next_lba) (use Cons.prems(6) in simp)
      have sum: "unat (sector d + 1) + (m - 1) = unat (sector d) + m" using lba m1(1) by simp
      have "(unat (sector d) + 1) * CF_SECTOR_SIZE \<le> (unat (sector d) + m) * CF_SECTOR_SIZE"
        using m1(1) by (intro mult_le_mono1) simp
      then have lim: "length ?im = length (disk d)"
        using Cons.prems(7) full by (intro length_overwrite) (simp only: full, simp)
      have "\<exists>d'. fold a_step (map (Write_data w) vs) (out, ?e) = (out, d') \<and> phase d' = Quiet \<and> card_in d' = card_in ?e \<and>
          disk d' = overwrite (unat (sector ?e) * CF_SECTOR_SIZE) ([] @ bytes_of w vs) (disk ?e)"
      proof (rule Cons.IH)
        have "sector ?e = sector d + 1" by simp
        then have e: "unat (sector ?e) + (m - 1) = unat (sector d) + m" by (simp only: sum)
        show "phase ?e = Gathering (m - 1) []" by simp
        show "0 < m - 1" by (rule m1)
        show "length [] + w * length vs = (m - 1) * CF_SECTOR_SIZE" using m1(2) by simp
        show "unat (sector ?e) + (m - 1) \<le> 2 ^ 28 + 256" unfolding e by (rule Cons.prems)
        have "length (disk ?e) = length (disk d)" using lim by simp
        then show "(unat (sector ?e) + (m - 1)) * CF_SECTOR_SIZE \<le> length (disk ?e)"
          unfolding e by (simp only: Cons.prems)
      qed simp_all
      moreover have "overwrite (unat (sector d + 1) * CF_SECTOR_SIZE) (bytes_of w vs) ?im =
          overwrite (unat (sector d) * CF_SECTOR_SIZE) (?got @ bytes_of w vs) (disk d)"
      proof -
        have "unat (sector d + 1) * CF_SECTOR_SIZE = unat (sector d) * CF_SECTOR_SIZE + CF_SECTOR_SIZE" using lba by simp
        moreover have "unat (sector d) * CF_SECTOR_SIZE + CF_SECTOR_SIZE + length (bytes_of w vs) \<le> length (disk d)"
          using Cons.prems(7) m1 cnt by (simp add: add_mult_distrib)
        ultimately show ?thesis using overwrite_overwrite [OF full] by simp
      qed
      ultimately show ?thesis using m aw by simp
    qed
  qed
qed

section \<open>Reading it\<close>

lemma read_stream:
  assumes w: "access_width w"
    and "phase d = Sending (bytes_of w vs)" "vs \<noteq> []"
  shows "\<exists>d'. fold a_step (replicate (length vs) (Read_data w)) (out, d) = (rev (map (take_bit (8 * w)) vs) @ out, d') \<and>
     phase d' = Quiet \<and> disk d' = disk d \<and> card_in d' = card_in d"
  using assms(2-)
proof (induction vs arbitrary: d out)
  case Nil
  then show ?case by simp
next
  case (Cons v vs)
  let ?bs = "bytes_of w (v # vs)"
  let ?k = "(length ?bs - 1) mod CF_SECTOR_SIZE + 1"
  have w0: "0 < w" "w \<le> 8" "w dvd CF_SECTOR_SIZE" using access_width_facts [OF w] by auto
  have wk: "w \<le> ?k"
  proof -
    have "w dvd ?k"
    proof -
      have "0 < length ?bs" "w dvd length ?bs" using w0 by simp_all
      moreover have "length ?bs = (length ?bs - 1) div CF_SECTOR_SIZE * CF_SECTOR_SIZE + ?k"
        using \<open>0 < length ?bs\<close> div_mult_mod_eq [of "length ?bs - 1" CF_SECTOR_SIZE] by linarith
      ultimately show ?thesis using w0(3) by (metis dvd_add_right_iff dvd_mult)
    qed
    then show ?thesis by (rule dvd_imp_le) simp
  qed
  have "lanes w (\<lambda>i. if i < ?k then ?bs ! i else 0xFF) = lanes w (byte_at v)"
    using wk by (intro lanes_cong) (simp add: nth_append)
  then have val: "lanes w (\<lambda>i. if i < ?k then ?bs ! i else 0xFF) = take_bit (8 * w) v"
    using lanes_byte_at [OF w0(2)] by simp
  have rest: "drop (min w ?k) ?bs = bytes_of w vs" using wk by simp
  let ?e = "a_next (length (bytes_of w vs) div CF_SECTOR_SIZE) d"
  let ?d = "if w < ?k then d\<lparr>phase := Sending (bytes_of w vs)\<rparr>
            else if bytes_of w vs = [] then a_done ?e else a_start (Sending (bytes_of w vs)) ?e"
  have rd: "a_read w d = (take_bit (8 * w) v, ?d)"
    unfolding a_read_def Cons.prems(1) phase.case Let_def val rest by simp
  have sel: "disk ?d = disk d" "card_in ?d = card_in d" by simp_all
  show ?case
  proof (cases "vs = []")
    case True
    then have "?k = w" using w0 by simp
    then have "phase ?d = Quiet" using True by simp
    then show ?thesis using rd sel True by simp
  next
    case False
    then have "bytes_of w vs \<noteq> []" using w0(1) by (cases vs) auto
    then have ph: "phase ?d = Sending (bytes_of w vs)" by simp
    obtain d' where "fold a_step (replicate (length vs) (Read_data w)) (take_bit (8 * w) v # out, ?d) =
        (rev (map (take_bit (8 * w)) vs) @ take_bit (8 * w) v # out, d')" "phase d' = Quiet" "disk d' = disk ?d" "card_in d' = card_in ?d"
      using Cons.IH [OF ph False, of "take_bit (8 * w) v # out"] by blast
    then show ?thesis using rd sel by simp
  qed
qed


section \<open>Commands\<close>

text \<open>The accesses that select \<open>n\<close> sectors from \<open>lba\<close>, byte by byte, and issue a command.\<close>

definition poke :: "int \<Rightarrow> u8 \<Rightarrow> ata_access" where
  "poke reg v = Write_regs reg False False 1 (ucast v)"

definition issue :: "u8 \<Rightarrow> u32 \<Rightarrow> nat \<Rightarrow> ata_access list" where
  "issue c lba n = [poke 2 (of_nat n), poke 3 (ucast lba), poke 4 (ucast (drop_bit 8 lba)), poke 5 (ucast (drop_bit 16 lba)),
     poke 6 (0xE0 OR ucast (drop_bit 24 lba)), poke 7 c]"

lemma poke_step: "a_step (poke reg v) (out, d) = (out, a_write_reg8 reg False False v d)"
proof -
  have "byte_at (ucast v) 0 = v" by (rule bit_word_eqI) (simp add: byte_at_def bit_simps)
  then show ?thesis by (simp add: poke_def)
qed

definition selected :: "u32 \<Rightarrow> nat \<Rightarrow> disk_spec \<Rightarrow> disk_spec" where
  "selected lba n d = d\<lparr>sector_count := of_nat n, sector_number := ucast lba, cylinder_low := ucast (drop_bit 8 lba),
     cylinder_high := ucast (drop_bit 16 lba), drive_head := 0xE0 OR ucast (drop_bit 24 lba)\<rparr>"

lemma issue_step: "fold a_step (issue c lba n) (out, d) = (out, a_command c (selected lba n d))"
  by (simp add: issue_def poke_step a_write_reg8_def selected_def)

lemma selected_sel [simp]:
  "disk (selected lba n d) = disk d" "card_in (selected lba n d) = card_in d" "sector (selected lba n d) = sector d"
  by (simp_all add: selected_def)

lemma selected_sectors:
  assumes "0 < n" "n \<le> 256"
  shows "sectors_asked (selected lba n d) = n"
proof (cases "n = 256")
  case True
  then show ?thesis by (simp add: sectors_asked_def selected_def)
next
  case False
  then have "unat (of_nat n :: u8) = n" using assms by (simp add: unat_of_nat)
  then show ?thesis using assms by (auto simp: sectors_asked_def selected_def simp flip: unat_eq_0)
qed

lemma selected_lba:
  assumes "unat lba < 2 ^ 28"
  shows "cf_current_lba (selected lba n d) = lba"
proof -
  have "fits 28 lba" using assms by (simp only: fits_def)
  then have b: "bit lba k \<Longrightarrow> k < 28" for k by (simp add: fits_bits)
  have "(0xE0 OR ucast (drop_bit 24 lba)) AND (0x0F :: u8) = ucast (drop_bit 24 lba)"
  proof (rule bit_word_eqI)
    fix k :: nat assume "k < LENGTH(8)"
    then have "k = 0 \<or> k = 1 \<or> k = 2 \<or> k = 3 \<or> k = 4 \<or> k = 5 \<or> k = 6 \<or> k = 7" by auto
    then show "bit ((0xE0 OR ucast (drop_bit 24 lba)) AND (0x0F :: u8)) k \<longleftrightarrow> bit (ucast (drop_bit 24 lba) :: u8) k"
      using b [of "24 + k"] by (auto simp: bit_simps)
  qed
  then have hd: "drive_head (selected lba n d) AND 0x0F = ucast (drop_bit 24 lba)" by (simp add: selected_def)
  show ?thesis
  proof (rule bit_word_eqI)
    fix k :: nat assume "k < LENGTH(32)"
    then have "k < 8 \<or> 8 \<le> k \<and> k < 16 \<or> 16 \<le> k \<and> k < 24 \<or> 24 \<le> k \<and> k < 32" by auto
    then show "bit (cf_current_lba (selected lba n d)) k \<longleftrightarrow> bit lba k"
      unfolding cf_current_lba_def hd
      by (auto simp: selected_def bit_simps dest: b)
  qed
qed

lemma selected_lba_mode: "drive_head (selected lba n d) AND 0x40 \<noteq> 0"
proof -
  have "bit (drive_head (selected lba n d) AND 0x40) 6" by (simp add: selected_def bit_simps)
  then show ?thesis by (metis bit_0_eq bot_apply bot_bool_def)
qed

definition transfer_fits :: "u32 \<Rightarrow> nat \<Rightarrow> nat \<Rightarrow> bool" where
  "transfer_fits lba n len \<longleftrightarrow> 0 < n \<and> n \<le> 256 \<and> unat lba < 2 ^ 28 \<and> (unat lba + n) * CF_SECTOR_SIZE \<le> len"

lemma issue_transfer:
  assumes "transfer_fits lba n (length (disk d))" "card_in d" and c: "c = 0x20 \<or> c = 0x30"
    and p: "p = (if c = 0x20 then Sending (take (n * CF_SECTOR_SIZE) (drop (unat lba * CF_SECTOR_SIZE) (disk d))) else Gathering n [])"
  shows "\<exists>d'. fold a_step (issue c lba n) (out, d) = (out, d') \<and> phase d' = p \<and> sector d' = lba \<and> disk d' = disk d \<and> card_in d'"
proof -
  define e where "e = (selected lba n d)\<lparr>command_reg := c, error_reg := 0\<rparr>"
  have same: "cf_current_lba e = cf_current_lba (selected lba n d)" "sectors_asked e = sectors_asked (selected lba n d)"
    by (simp_all add: e_def cf_current_lba_def sectors_asked_def)
  have e: "drive_head e AND 0x40 \<noteq> 0" "cf_current_lba e = lba" "sectors_asked e = n" "disk e = disk d" "card_in e"
    using assms selected_lba_mode [of lba n d] selected_lba [of lba n d] selected_sectors [of n lba d] same
    unfolding transfer_fits_def by (simp_all add: e_def)
  have "a_transfer q e = a_start (q lba n) (e\<lparr>sector := lba\<rparr>)" for q
    using e assms(1) by (simp add: a_transfer_def transfer_fits_def)
  then have "a_command c (selected lba n d) = a_start p (e\<lparr>sector := lba\<rparr>)"
    using c e(4,5) by (auto simp: a_command_def Let_def e_def [symmetric] p)
  then show ?thesis using e(4,5) by (simp add: issue_step)
qed

section \<open>The round trip\<close>

definition write_sectors :: "u32 \<Rightarrow> nat \<Rightarrow> nat \<Rightarrow> u64 list \<Rightarrow> ata_access list" where
  "write_sectors lba n w vs = issue 0x30 lba n @ map (Write_data w) vs"

definition read_sectors :: "u32 \<Rightarrow> nat \<Rightarrow> nat \<Rightarrow> nat \<Rightarrow> ata_access list" where
  "read_sectors lba n w k = issue 0x20 lba n @ replicate k (Read_data w)"

lemma a_write_sectors:
  assumes fits: "transfer_fits lba n (length (disk d))" "card_in d" and w: "access_width w" "w * length vs = n * CF_SECTOR_SIZE"
  shows "\<exists>d'. fold a_step (write_sectors lba n w vs) (out, d) = (out, d') \<and> phase d' = Quiet \<and> card_in d' \<and>
    disk d' = overwrite (unat lba * CF_SECTOR_SIZE) (bytes_of w vs) (disk d)"
proof -
  obtain e where e: "fold a_step (issue 0x30 lba n) (out, d) = (out, e)" "phase e = Gathering n []" "sector e = lba"
    "disk e = disk d" "card_in e"
    using issue_transfer [OF fits, of "0x30"] by auto
  have "\<exists>d'. fold a_step (map (Write_data w) vs) (out, e) = (out, d') \<and> phase d' = Quiet \<and> card_in d' = card_in e \<and>
      disk d' = overwrite (unat (sector e) * CF_SECTOR_SIZE) ([] @ bytes_of w vs) (disk e)"
    by (rule write_stream [OF w(1) e(2)]) (use fits w(2) e in \<open>simp_all add: transfer_fits_def\<close>)
  then show ?thesis using e by (simp add: write_sectors_def)
qed

lemma take_drop_overwrite:
  "off + length bs \<le> length m \<Longrightarrow> take (length bs) (drop off (overwrite off bs m)) = bs"
  by (simp add: overwrite_def)

lemma a_round_trip:
  assumes fits: "transfer_fits lba n (length (disk d))" "card_in d" and w: "access_width w" "w * length vs = n * CF_SECTOR_SIZE"
  shows "\<exists>d'. fold a_step (write_sectors lba n w vs @ read_sectors lba n w (length vs)) ([], d) =
      (rev (map (take_bit (8 * w)) vs), d') \<and> phase d' = Quiet \<and>
    disk d' = overwrite (unat lba * CF_SECTOR_SIZE) (bytes_of w vs) (disk d)"
proof -
  let ?im = "overwrite (unat lba * CF_SECTOR_SIZE) (bytes_of w vs) (disk d)"
  obtain e where e: "fold a_step (write_sectors lba n w vs) ([], d) = ([], e)" "phase e = Quiet" "card_in e" "disk e = ?im"
    using a_write_sectors [OF fits w] by blast
  have len: "length (bytes_of w vs) = n * CF_SECTOR_SIZE" by (simp add: w(2))
  have inside: "unat lba * CF_SECTOR_SIZE + length (bytes_of w vs) \<le> length (disk d)"
    using fits(1) by (simp add: transfer_fits_def add_mult_distrib w(2))
  have fits': "transfer_fits lba n (length (disk e))"
    using fits(1) length_overwrite [OF inside] by (simp add: e(4))
  have cut: "take (n * CF_SECTOR_SIZE) (drop (unat lba * CF_SECTOR_SIZE) (disk e)) = bytes_of w vs"
    using take_drop_overwrite [OF inside] by (simp only: e(4) len)
  obtain f where f: "fold a_step (issue 0x20 lba n) ([], e) = ([], f)" "phase f = Sending (bytes_of w vs)" "disk f = disk e"
    using issue_transfer [OF fits' e(3), of "0x20"] cut by auto
  have "vs \<noteq> []" using fits(1) w(2) by (auto simp: transfer_fits_def)
  from read_stream [OF w(1) f(2) this, of "[]"] show ?thesis
    using e f by (auto simp: read_sectors_def)
qed

text \<open>C8: On a well-formed card, writing any run of sectors inside the image with WRITE SECTORS, through
  data-port accesses of any one width, and reading the run back with READ SECTORS returns the values
  written; the image then holds those bytes at that place and everything else as before.\<close>

theorem ata_write_then_read:
  assumes ok: "ata_ok s" and att: "attached s" and fits: "transfer_fits lba n (length (image s))"
    and w: "access_width w" "w * length vs = n * CF_SECTOR_SIZE"
  shows "\<exists>t. fold ata_step (write_sectors lba n w vs @ read_sectors lba n w (length vs)) ([], s) =
      (rev (map (take_bit (8 * w)) vs), t) \<and> data_length t = 0 \<and>
    image t = overwrite (unat lba * CF_SECTOR_SIZE) (bytes_of w vs) (image s)"
proof -
  let ?es = "write_sectors lba n w vs @ read_sectors lba n w (length vs)"
  obtain out t where r: "fold ata_step ?es ([], s) = (out, t)" by (cases "fold ata_step ?es ([], s)")
  obtain d' where d: "fold a_step ?es ([], abs_card s) = (rev (map (take_bit (8 * w)) vs), d')" "phase d' = Quiet"
    "disk d' = overwrite (unat lba * CF_SECTOR_SIZE) (bytes_of w vs) (image s)"
    using a_round_trip [of lba n "abs_card s" w vs] fits att w by auto
  have "(out, abs_card t) = fold a_step ?es ([], abs_card s)"
    using ata.run_abs [of "([], s)" ?es] ok r by simp
  then have o: "out = rev (map (take_bit (8 * w)) vs)" and t: "abs_card t = d'" using d by simp_all
  have "card_phase t = Quiet" using t d(2) by auto
  then have "data_length t = 0" by (simp add: card_phase_def split: if_splits)
  moreover have "image t = overwrite (unat lba * CF_SECTOR_SIZE) (bytes_of w vs) (image s)" using t d(3) by auto
  ultimately show ?thesis using r o by simp
qed

theorem ata_write_then_read_witness:
  "\<exists>t. fold ata_step (write_sectors 2 1 4 (replicate 128 0xCAFE) @ read_sectors 2 1 4 (length (replicate 128 (0xCAFE :: u64)))) ([], blank_card 3) =
      (rev (map (take_bit (8 * 4)) (replicate 128 0xCAFE)), t) \<and> data_length t = 0 \<and>
    image t = overwrite (unat (2 :: u32) * CF_SECTOR_SIZE) (bytes_of 4 (replicate 128 0xCAFE)) (image (blank_card 3))"
  by (rule ata_write_then_read [OF blank_card_ok])
    (simp_all add: blank_card_def cf_reset_taskfile_def reset_regs_def transfer_fits_def access_width_def)

end
