(* ===== verification/Wifi_Security.thy ===== *)
theory Wifi_Security
  imports Prelude
begin

text \<open>
  The virtual access point of the wireless cards (\<open>src/hw/wifi_security.c\<close>): WEP key check, and
  the WPA and WPA2 four-way and group handshakes. OpenSSL is outside the repository: \<open>wifi_crypto\<close>
  holds its functions (\<open>None\<close> where they report an error), and the program may be built without
  it, which is \<open>None\<close> for the whole record. Random bytes are arguments (\<open>None\<close>: \<open>RAND_bytes\<close>
  fails). Arrays of the C structure are lists of their full length.
\<close>

section \<open>State and parameters\<close>

record wifi_crypto =
  pbkdf2 :: "u8 list \<Rightarrow> u8 list option"            \<comment> \<open>of the passphrase, salt BE300, 4096 rounds, 32 bytes\<close>
  hmac_sha1 :: "u8 list \<Rightarrow> u8 list \<Rightarrow> u8 list option"
  hmac_md5 :: "u8 list \<Rightarrow> u8 list \<Rightarrow> u8 list option"
  aes_wrap :: "u8 list \<Rightarrow> u8 list \<Rightarrow> u8 list option"

record wifi_security =
  mode :: nat
  stage :: nat
  valid :: bool
  authorized :: bool
  pairwise :: bool
  group :: bool
  secret :: "u8 list"
  secret_len :: nat
  mac :: "u8 list"
  bssid :: "u8 list"
  pmk :: "u8 list"
  ptk :: "u8 list"
  anonce :: "u8 list"
  gtk :: "u8 list"
  ie :: "u8 list"
  ie_len :: nat
  replay :: u64
  pending :: "u8 list"
  pending_len :: nat

section \<open>Bytes\<close>

definition be16 :: "u8 list \<Rightarrow> nat \<Rightarrow> nat" where
  "be16 p i = unat (p ! i) * 256 + unat (p ! (i + 1))"

definition put16 :: "nat \<Rightarrow> u8 list" where
  "put16 v = [of_nat (v div 256), of_nat v]"

definition put64 :: "u64 \<Rightarrow> u8 list" where
  "put64 v = map (\<lambda>i. ucast (drop_bit (56 - 8 * i) v)) [0..<8]"

definition get64 :: "u8 list \<Rightarrow> u64" where
  "get64 bs = foldl (\<lambda>r b. push_bit 8 r OR ucast b) 0 bs"

definition hex :: "u8 \<Rightarrow> nat option" where
  "hex c = (if 48 \<le> c \<and> c \<le> 57 then Some (unat (c - 48))
            else if 97 \<le> c \<and> c \<le> 102 then Some (unat (c - 97 + 10))
            else if 65 \<le> c \<and> c \<le> 70 then Some (unat (c - 65 + 10)) else None)"

definition unhex :: "u8 list \<Rightarrow> nat \<Rightarrow> u8 option" where
  "unhex key i = (case (hex (key ! (2 * i)), hex (key ! (2 * i + 1))) of
                    (Some h, Some l) \<Rightarrow> Some (of_nat (h * 16 + l)) | _ \<Rightarrow> None)"

text \<open>The decoding loops stop at the first byte that is not two hexadecimal digits; what was decoded
  stays.\<close>

fun unhex_loop :: "nat \<Rightarrow> nat \<Rightarrow> u8 list \<Rightarrow> u8 list \<Rightarrow> bool \<times> u8 list" where
  "unhex_loop i 0 key dst = (True, dst)"
| "unhex_loop i (Suc n) key dst =
     (case unhex key i of None \<Rightarrow> (False, dst) | Some b \<Rightarrow> unhex_loop (i + 1) n key (dst[i := b]))"

definition overlay :: "nat \<Rightarrow> u8 list \<Rightarrow> u8 list \<Rightarrow> u8 list" where
  "overlay off bs m = take off m @ bs @ drop (off + length bs) m"

section \<open>Configuration\<close>

definition wifi_security_reset :: "wifi_security \<Rightarrow> wifi_security" where
  "wifi_security_reset s =
     s\<lparr>stage := 0, pending_len := 0, authorized := False, pairwise := False, group := False, ptk := replicate 64 0\<rparr>"

definition rsn_ie :: "u8 list" where
  "rsn_ie = [48, 20, 1, 0, 0, 15, 172, 4, 1, 0, 0, 15, 172, 4, 1, 0, 0, 15, 172, 2, 0, 0]"

definition wpa_ie :: "u8 list" where
  "wpa_ie = [221, 22, 0, 80, 242, 1, 1, 0, 0, 80, 242, 2, 1, 0, 0, 80, 242, 2, 1, 0, 0, 80, 242, 2]"

definition configure_wep :: "u8 list \<Rightarrow> wifi_security \<Rightarrow> bool \<times> wifi_security" where
  "configure_wep key s =
     (let n = length key
      in if n \<noteq> 5 \<and> n \<noteq> 13 \<and> n \<noteq> 10 \<and> n \<noteq> 26 then (False, s)
         else let h = (n = 10 \<or> n = 26); len = (if h then n div 2 else n);
                  (ok, sec) = (if h then unhex_loop 0 len key (secret s) else (True, overlay 0 key (secret s)))
              in (ok, s\<lparr>secret_len := len, secret := sec\<rparr>))"

definition configure_wpa :: "wifi_crypto option \<Rightarrow> u8 list \<Rightarrow> wifi_security \<Rightarrow> bool \<times> wifi_security" where
  "configure_wpa c key s =
     (case c of
        None \<Rightarrow> (False, s)
      | Some c \<Rightarrow>
          if length key < 8 then (False, s)
          else let (ok, pmk') = (if length key = 64 then unhex_loop 0 32 key (pmk s)
                                 else case pbkdf2 c key of None \<Rightarrow> (False, pmk s) | Some k \<Rightarrow> (True, k));
                   s = s\<lparr>pmk := pmk'\<rparr>
               in if \<not> ok then (False, s)
                  else let e = (if mode s = 3 then rsn_ie else wpa_ie)
                       in (True, s\<lparr>ie_len := length e, ie := overlay 0 e (ie s)\<rparr>))"

definition wifi_security_configure :: "wifi_crypto option \<Rightarrow> nat \<Rightarrow> u8 list \<Rightarrow> wifi_security \<Rightarrow> bool \<times> wifi_security" where
  "wifi_security_configure c md key s =
     (let s = (wifi_security_reset s)\<lparr>valid := False, mode := md, ie_len := 0, secret := replicate 65 0, pmk := replicate 32 0\<rparr>
      in if md > 3 \<or> length key > 64 then (False, s)
         else let (ok, s) = (if md = 1 then configure_wep key s else if md \<ge> 2 then configure_wpa c key s else (True, s))
              in (ok, s\<lparr>valid := ok\<rparr>))"

text \<open>The environment's BE300_WIFI_SECURITY and BE300_WIFI_KEY: \<open>None\<close> when unset.\<close>

definition wifi_mode :: "string option \<Rightarrow> nat" where
  "wifi_mode m = (case m of None \<Rightarrow> 0
     | Some m \<Rightarrow> if m = ''open'' then 0 else if m = ''wep'' then 1 else if m = ''wpa'' then 2
                 else if m = ''wpa2'' then 3 else 99)"

definition wifi_security_init :: "wifi_crypto option \<Rightarrow> string option \<Rightarrow> u8 list option \<Rightarrow> u8 list \<Rightarrow> wifi_security" where
  "wifi_security_init c md key m =
     snd (wifi_security_configure c (wifi_mode md) (case key of None \<Rightarrow> [] | Some k \<Rightarrow> k)
       \<lparr>mode = 0, stage = 0, valid = False, authorized = False, pairwise = False, group = False, secret = replicate 65 0,
        secret_len = 0, mac = m, bssid = [2, 0x42, 0x45, 0x33, 0x30, 0x30], pmk = replicate 32 0, ptk = replicate 64 0,
        anonce = replicate 32 0, gtk = replicate 32 0, ie = replicate 80 0, ie_len = 0, replay = 0,
        pending = replicate 512 0, pending_len = 0\<rparr>)"

definition wifi_security_wep :: "wifi_security \<Rightarrow> nat \<Rightarrow> u8 list \<Rightarrow> nat \<Rightarrow> bool" where
  "wifi_security_wep s index key n \<longleftrightarrow>
     valid s \<and> mode s = 1 \<and> index < 4 \<and> n = secret_len s \<and> take n key = take n (secret s)"

section \<open>Key frames\<close>

fun memcmp_gt :: "u8 list \<Rightarrow> u8 list \<Rightarrow> bool" where
  "memcmp_gt (a # as) (b # bs) = (if a = b then memcmp_gt as bs else a > b)"
| "memcmp_gt _ _ = False"

definition mic_hash :: "wifi_crypto \<Rightarrow> wifi_security \<Rightarrow> u8 list \<Rightarrow> u8 list option" where
  "mic_hash c s e = (if mode s = 3 then hmac_sha1 c else hmac_md5 c) (take 16 (ptk s)) e"

text \<open>The frame with its integrity code filled in, over the frame with a zero code.\<close>

definition mic :: "wifi_crypto \<Rightarrow> wifi_security \<Rightarrow> u8 list \<Rightarrow> u8 list option" where
  "mic c s e =
     (let z = overlay 81 (replicate 16 0) e in map_option (\<lambda>h. overlay 81 (take 16 h) z) (mic_hash c s z))"

definition key_frame :: "wifi_security \<Rightarrow> nat \<Rightarrow> u8 list \<Rightarrow> u8 list" where
  "key_frame s info key =
     [2, 3] @ put16 (95 + length key) @ [if mode s = 3 then 2 else 254] @ put16 info @ put16 (if mode s = 3 then 16 else 32) @
     put64 (replay s) @ (if bit info 3 then anonce s else replicate 32 0) @ replicate 48 0 @ put16 (length key) @ key"

definition set_pending :: "u8 list \<Rightarrow> wifi_security \<Rightarrow> wifi_security" where
  "set_pending e s = (let p = mac s @ bssid s @ [0x88, 0x8E] @ e in s\<lparr>pending := p @ replicate (512 - length p) 0\<rparr>)"

definition build :: "wifi_crypto \<Rightarrow> nat \<Rightarrow> u8 list \<Rightarrow> wifi_security \<Rightarrow> bool \<times> wifi_security" where
  "build c info key s =
     (let e = key_frame s info key
      in case (if bit info 8 then mic c s e else Some e) of
           None \<Rightarrow> (False, set_pending e s)
         | Some e \<Rightarrow> (True, (set_pending e s)\<lparr>pending_len := 14 + length e\<rparr>))"

definition prf_input :: "wifi_security \<Rightarrow> u8 list \<Rightarrow> nat \<Rightarrow> u8 list" where
  "prf_input s snonce i =
     (let (a, b) = (if memcmp_gt (mac s) (bssid s) then (bssid s, mac s) else (mac s, bssid s));
          (x, y) = (if memcmp_gt (anonce s) snonce then (snonce, anonce s) else (anonce s, snonce))
      in map of_char ''Pairwise key expansion'' @ [0] @ a @ b @ x @ y @ [of_nat i])"

fun derive_loop :: "wifi_crypto \<Rightarrow> u8 list \<Rightarrow> nat \<Rightarrow> nat \<Rightarrow> wifi_security \<Rightarrow> bool \<times> wifi_security" where
  "derive_loop c snonce i 0 s = (True, s)"
| "derive_loop c snonce i (Suc k) s =
     (case hmac_sha1 c (pmk s) (prf_input s snonce i) of
        None \<Rightarrow> (False, s)
      | Some h \<Rightarrow> derive_loop c snonce (i + 1) k (s\<lparr>ptk := overlay (20 * i) (take (min 20 (64 - 20 * i)) h) (ptk s)\<rparr>))"

text \<open>Four rounds of 20 bytes cover the 64 bytes of the key.\<close>

definition derive :: "wifi_crypto \<Rightarrow> u8 list \<Rightarrow> wifi_security \<Rightarrow> bool \<times> wifi_security" where
  "derive c snonce s = derive_loop c snonce 0 4 s"

section \<open>RC4, for the WPA group key\<close>

fun rc4_ksa :: "nat \<Rightarrow> nat \<Rightarrow> u8 \<Rightarrow> u8 list \<Rightarrow> u8 list \<Rightarrow> u8 list" where
  "rc4_ksa i 0 j key table = table"
| "rc4_ksa i (Suc n) j key table =
     (let j = j + table ! i + key ! (i mod length key)
      in rc4_ksa (i + 1) n j key (table[i := table ! unat j, unat j := table ! i]))"

fun rc4_stream :: "nat \<Rightarrow> nat \<Rightarrow> u8 \<Rightarrow> u8 \<Rightarrow> u8 list \<Rightarrow> u8 list \<Rightarrow> u8 list" where
  "rc4_stream k 0 i j table data = data"
| "rc4_stream k (Suc n) i j table data =
     (let i = i + 1; j = j + table ! unat i;
          table = table[unat i := table ! unat j, unat j := table ! unat i];
          data = (if k \<ge> 256 then data[k - 256 := data ! (k - 256) XOR table ! unat (table ! unat i + table ! unat j)] else data)
      in rc4_stream (k + 1) n i j table data)"

definition rc4 :: "u8 list \<Rightarrow> u8 list \<Rightarrow> u8 list" where
  "rc4 data key = rc4_stream 0 (length data + 256) 0 0 (rc4_ksa 0 256 0 key (map of_nat [0..<256])) data"

section \<open>The handshakes\<close>

definition wrap_pad :: "u8 list \<Rightarrow> u8 list" where
  "wrap_pad d = (if length d mod 8 = 0 then d else d @ [221] @ replicate ((8 - (length d + 1) mod 8) mod 8) 0)"

definition message3 :: "wifi_crypto \<Rightarrow> wifi_security \<Rightarrow> bool \<times> wifi_security" where
  "message3 c s =
     (let s = s\<lparr>replay := replay s + 1\<rparr>; e = take (ie_len s) (ie s)
      in if mode s = 2 then build c 0x01C9 e s
         else case aes_wrap c (take 16 (drop 16 (ptk s))) (wrap_pad (e @ [221, 22, 0, 15, 172, 1, 1, 0] @ take 16 (gtk s))) of
                None \<Rightarrow> (False, s)
              | Some w \<Rightarrow> build c 0x13CA w s)"

definition group1 :: "wifi_crypto \<Rightarrow> u8 list option \<Rightarrow> wifi_security \<Rightarrow> bool \<times> wifi_security" where
  "group1 c iv s =
     (case iv of
        None \<Rightarrow> (False, s)
      | Some iv \<Rightarrow>
          let data = rc4 (gtk s) (iv @ take 16 (drop 16 (ptk s)));
              (ok, s) = build c 0x0391 data (s\<lparr>replay := replay s + 1\<rparr>)
          in if \<not> ok then (False, s)
             else let p = overlay (14 + 49) iv (pending s); e = take 131 (drop 14 p);
                      z = overlay 81 (replicate 16 0) e
                  in case mic c s e of
                       None \<Rightarrow> (False, s\<lparr>pending := overlay 14 z p\<rparr>)
                     | Some e \<Rightarrow> (True, s\<lparr>pending := overlay 14 e p\<rparr>))"

definition wifi_security_start :: "wifi_crypto option \<Rightarrow> u8 list option \<Rightarrow> u8 list option \<Rightarrow> wifi_security \<Rightarrow> wifi_security" where
  "wifi_security_start c r1 r2 s =
     (let s = wifi_security_reset s
      in if \<not> valid s then s
         else if mode s < 2 then s\<lparr>authorized := True\<rparr>
         else case c of
                None \<Rightarrow> s
              | Some c \<Rightarrow>
                  (case r1 of
                     None \<Rightarrow> s
                   | Some a \<Rightarrow>
                       let s = s\<lparr>anonce := a\<rparr>
                       in case r2 of
                            None \<Rightarrow> s
                          | Some g \<Rightarrow>
                              let (ok, s) = build c (if mode s = 3 then 0x008A else 0x0089) [] (s\<lparr>gtk := g, replay := 1\<rparr>)
                              in if ok then s\<lparr>stage := 1\<rparr> else s))"

text \<open>The header checks of a key frame from the station; \<open>e\<close> is the frame past the Ethernet header.\<close>

definition key_frame_ok :: "wifi_security \<Rightarrow> u8 list \<Rightarrow> bool" where
  "key_frame_ok s p =
     (if mode s < 2 \<or> length p < 113 \<or> take 6 p \<noteq> bssid s \<or> take 6 (drop 6 p) \<noteq> mac s then False
      else let e = drop 14 p; len = be16 e 2 + 4; info = be16 e 5
           in \<not> (len < 99 \<or> len > length p - 14 \<or> len > 400 \<or> e ! 1 \<noteq> 3 \<or> \<not> bit info 8 \<or> bit info 7 \<or>
                  info mod 8 \<noteq> (if mode s = 3 then 2 else 1) \<or> be16 e 97 \<noteq> len - 99) \<and>
              get64 (take 8 (drop 9 e)) = replay s)"

text \<open>What an authentic frame does, by stage; \<open>info\<close> bit 3 tells a pairwise from a group message.\<close>

definition advance_handshake :: "wifi_crypto \<Rightarrow> u8 list option \<Rightarrow> nat \<Rightarrow> nat \<Rightarrow> wifi_security \<Rightarrow> wifi_security" where
  "advance_handshake c iv info key_len s =
     (if stage s = 1 \<and> bit info 3 then (case message3 c s of (ok, s) \<Rightarrow> if ok then s\<lparr>stage := 2\<rparr> else s)
      else if stage s = 2 \<and> bit info 3 \<and> key_len = 0 then
        (if mode s = 3 then s\<lparr>stage := 4, authorized := True\<rparr>
         else case group1 c iv s of (ok, s) \<Rightarrow> if ok then s\<lparr>stage := 3\<rparr> else s)
      else if stage s = 3 \<and> \<not> bit info 3 then s\<lparr>stage := 4, authorized := True\<rparr>
      else s)"

definition mic_matches :: "wifi_crypto \<Rightarrow> wifi_security \<Rightarrow> u8 list \<Rightarrow> bool" where
  "mic_matches c s e =
     (case mic c s e of None \<Rightarrow> False | Some e' \<Rightarrow> take 16 (drop 81 e') = take 16 (drop 81 e))"

definition eapol_tx :: "wifi_crypto \<Rightarrow> u8 list option \<Rightarrow> u8 list \<Rightarrow> wifi_security \<Rightarrow> wifi_security" where
  "eapol_tx c iv p s =
     (if \<not> key_frame_ok s p then s
      else
        let e = take (be16 (drop 14 p) 2 + 4) (drop 14 p);
            (ok, s) = (if stage s = 1 then derive c (take 32 (drop 17 e)) s else (True, s))
        in if \<not> ok \<or> \<not> mic_matches c s e then s
           else advance_handshake c iv (be16 e 5) (be16 e 97) s)"

definition wifi_security_tx :: "wifi_crypto option \<Rightarrow> u8 list option \<Rightarrow> u8 list \<Rightarrow> wifi_security \<Rightarrow> bool \<times> wifi_security" where
  "wifi_security_tx c iv p s =
     (if length p < 14 \<or> \<not> valid s then (False, s)
      else if p ! 12 \<noteq> 0x88 \<or> p ! 13 \<noteq> 0x8E then (authorized s \<and> (mode s < 2 \<or> pairwise s \<and> group s), s)
      else (False, case c of None \<Rightarrow> s | Some c \<Rightarrow> eapol_tx c iv p s))"

text \<open>The pending frame, when it fits the \<open>n\<close> bytes offered.\<close>

definition wifi_security_pop :: "nat \<Rightarrow> wifi_security \<Rightarrow> u8 list \<times> wifi_security" where
  "wifi_security_pop n s =
     (if pending_len s = 0 \<or> n < pending_len s then ([], s)
      else (take (pending_len s) (pending s), s\<lparr>pending_len := 0\<rparr>))"

definition set_key :: "bool \<Rightarrow> bool \<Rightarrow> wifi_security \<Rightarrow> wifi_security" where
  "set_key pw v s = (if pw then s\<lparr>pairwise := v\<rparr> else s\<lparr>group := v\<rparr>)"

definition key_target :: "bool \<Rightarrow> wifi_security \<Rightarrow> u8 list" where
  "key_target pw s =
     (let base = (if pw then drop 32 (ptk s) else gtk s)
      in if mode s = 3 then take 16 base else take 16 base @ take 8 (drop 24 base) @ take 8 (drop 16 base))"

definition wifi_security_key :: "bool \<Rightarrow> nat \<Rightarrow> u8 list \<Rightarrow> wifi_security \<Rightarrow> bool \<times> wifi_security" where
  "wifi_security_key pw cipher key s =
     (if key = [] then (True, set_key pw False s)
      else if stage s < 2 then (False, s)
      else if length key \<noteq> (if mode s = 3 then 16 else 32) \<or> cipher \<noteq> (if mode s = 3 then 2 else 1) then (False, s)
      else if key_target pw s \<noteq> key then (False, s)
      else (True, set_key pw True s))"

definition wifi_security_rekey :: "wifi_crypto option \<Rightarrow> u8 list option \<Rightarrow> u8 list option \<Rightarrow> wifi_security \<Rightarrow> bool \<times> wifi_security" where
  "wifi_security_rekey c g iv s =
     (case c of
        None \<Rightarrow> (False, s)
      | Some c \<Rightarrow>
          if stage s \<noteq> 4 then (False, s)
          else case g of
                 None \<Rightarrow> (False, s)
               | Some g \<Rightarrow>
                   let s = s\<lparr>gtk := g, group := False, stage := 3\<rparr>
                   in if mode s = 2 then group1 c iv s
                      else let s' = s\<lparr>replay := replay s + 1\<rparr>
                           in case aes_wrap c (take 16 (drop 16 (ptk s))) ([221, 22, 0, 15, 172, 1, 1, 0] @ take 16 (gtk s)) of
                                None \<Rightarrow> (False, s')
                              | Some w \<Rightarrow> build c 0x1382 w s')"


section \<open>What the operations leave alone\<close>

lemma length_overlay [simp]: "off + length bs \<le> length m \<Longrightarrow> length (overlay off bs m) = length m"
  by (simp add: overlay_def)

text \<open>The keys, the flags and the stage are changed by few operations; sending a key frame is not one.\<close>

definition same_keys :: "wifi_security \<Rightarrow> wifi_security \<Rightarrow> bool" where
  "same_keys s t \<longleftrightarrow> mode t = mode s \<and> valid t = valid s \<and> stage t = stage s \<and> authorized t = authorized s \<and>
     pairwise t = pairwise s \<and> group t = group s \<and> ptk t = ptk s \<and> gtk t = gtk s \<and> pmk t = pmk s \<and>
     mac t = mac s \<and> bssid t = bssid s \<and> anonce t = anonce s \<and> ie t = ie s \<and> ie_len t = ie_len s"

lemma same_keys_refl [simp]: "same_keys s s"
  by (simp add: same_keys_def)

lemma same_keys_trans: "same_keys s t \<Longrightarrow> same_keys t u \<Longrightarrow> same_keys s u"
  by (simp add: same_keys_def)

lemma set_pending_keys [simp]: "same_keys s (set_pending e s)" "replay (set_pending e s) = replay s"
  "pending_len (set_pending e s) = pending_len s"
  by (simp_all add: same_keys_def set_pending_def Let_def)

lemma same_keys_fields [simp]:
  "same_keys s (t\<lparr>pending := p\<rparr>) = same_keys s t" "same_keys s (t\<lparr>pending_len := n\<rparr>) = same_keys s t"
  "same_keys s (t\<lparr>replay := r\<rparr>) = same_keys s t" "same_keys (s\<lparr>replay := r\<rparr>) t = same_keys s t"
  by (simp_all add: same_keys_def)

lemma build_keys: "same_keys s (snd (build c info key s))"
  by (simp add: build_def Let_def split: option.splits)

lemma message3_keys: "same_keys s (snd (message3 c s))"
  using build_keys [of "s\<lparr>replay := replay s + 1\<rparr>" c] by (simp add: message3_def Let_def split: option.splits)

lemma group1_keys: "same_keys s (snd (group1 c iv s))"
proof (cases iv)
  case None
  then show ?thesis by (simp add: group1_def)
next
  case (Some v)
  obtain ok t where b: "build c 0x0391 (rc4 (gtk s) (v @ take 16 (drop 16 (ptk s)))) (s\<lparr>replay := replay s + 1\<rparr>) = (ok, t)"
    by (cases "build c 0x0391 (rc4 (gtk s) (v @ take 16 (drop 16 (ptk s)))) (s\<lparr>replay := replay s + 1\<rparr>)")
  then have "same_keys (s\<lparr>replay := replay s + 1\<rparr>) t" using build_keys by (metis snd_conv)
  then have "same_keys s t" by simp
  then show ?thesis using Some b by (simp add: group1_def Let_def split: option.splits)
qed

definition outside_ptk :: "wifi_security \<Rightarrow> wifi_security" where
  "outside_ptk s = s\<lparr>ptk := []\<rparr>"

lemma derive_only_ptk: "outside_ptk (snd (derive_loop c nonce i k s)) = outside_ptk s"
  by (induction c nonce i k s rule: derive_loop.induct) (simp_all add: outside_ptk_def split: option.splits)

lemma derive_fields [simp]:
  "mode (snd (derive c nonce s)) = mode s" "stage (snd (derive c nonce s)) = stage s" "valid (snd (derive c nonce s)) = valid s"
  "authorized (snd (derive c nonce s)) = authorized s" "pairwise (snd (derive c nonce s)) = pairwise s"
  "group (snd (derive c nonce s)) = group s" "gtk (snd (derive c nonce s)) = gtk s" "pmk (snd (derive c nonce s)) = pmk s"
  "mac (snd (derive c nonce s)) = mac s" "bssid (snd (derive c nonce s)) = bssid s" "anonce (snd (derive c nonce s)) = anonce s"
  "ie (snd (derive c nonce s)) = ie s" "ie_len (snd (derive c nonce s)) = ie_len s" "replay (snd (derive c nonce s)) = replay s"
  using derive_only_ptk [of c nonce 0 4 s] unfolding derive_def outside_ptk_def
  by (metis (no_types, lifting) wifi_security.select_convs wifi_security.surjective wifi_security.update_convs(12))+

section \<open>Histories\<close>

datatype security_event =
    Start "u8 list option" "u8 list option"
  | Reset
  | Frame "u8 list option" "u8 list"
  | Pop nat
  | Key bool nat "u8 list"
  | Rekey "u8 list option" "u8 list option"

fun security_step :: "wifi_crypto \<Rightarrow> security_event \<Rightarrow> wifi_security \<Rightarrow> wifi_security" where
  "security_step c (Start a g) s = wifi_security_start (Some c) a g s"
| "security_step c Reset s = wifi_security_reset s"
| "security_step c (Frame iv p) s = snd (wifi_security_tx (Some c) iv p s)"
| "security_step c (Pop n) s = snd (wifi_security_pop n s)"
| "security_step c (Key pw cipher k) s = snd (wifi_security_key pw cipher k s)"
| "security_step c (Rekey g iv) s = snd (wifi_security_rekey (Some c) g iv s)"

text \<open>A frame is authentic if it is a well-formed key frame with the current replay counter whose
  integrity code verifies under the pairwise key, derived from its nonce while none is agreed.\<close>

definition authentic :: "wifi_crypto \<Rightarrow> wifi_security \<Rightarrow> u8 list \<Rightarrow> bool" where
  "authentic c s p \<longleftrightarrow> 14 \<le> length p \<and> valid s \<and> p ! 12 = 0x88 \<and> p ! 13 = 0x8E \<and> key_frame_ok s p \<and>
     (let e = take (be16 (drop 14 p) 2 + 4) (drop 14 p)
      in if stage s = 1 then fst (derive c (take 32 (drop 17 e)) s) \<and> mic_matches c (snd (derive c (take 32 (drop 17 e)) s)) e
         else mic_matches c s e)"

text \<open>What an observer has seen since the last start: authentic frames, and the keys the driver
  installed and has not removed.\<close>

record observed =
  frames :: nat
  pair_key :: "u8 list option"
  group_key :: "u8 list option"

definition nothing :: observed where
  "nothing = \<lparr>frames = 0, pair_key = None, group_key = None\<rparr>"

fun observe :: "wifi_crypto \<Rightarrow> security_event \<Rightarrow> wifi_security \<Rightarrow> observed \<Rightarrow> observed" where
  "observe c (Start a g) s h = nothing"
| "observe c Reset s h = nothing"
| "observe c (Frame iv p) s h = (if authentic c s p then h\<lparr>frames := frames h + 1\<rparr> else h)"
| "observe c (Pop n) s h = h"
| "observe c (Key pw cipher k) s h =
     (if fst (wifi_security_key pw cipher k s)
      then (let v = (if k = [] then None else Some k) in if pw then h\<lparr>pair_key := v\<rparr> else h\<lparr>group_key := v\<rparr>) else h)"
| "observe c (Rekey g iv) s h = h"

fun watched_step :: "wifi_crypto \<Rightarrow> security_event \<Rightarrow> wifi_security \<times> observed \<Rightarrow> wifi_security \<times> observed" where
  "watched_step c e (s, h) = (security_step c e s, observe c e s h)"

definition frames_needed :: "wifi_security \<Rightarrow> nat" where
  "frames_needed s = (if stage s \<le> 1 then 0 else if stage s = 2 then 1
                      else if authorized s then (if mode s = 3 then 2 else 3) else 2)"

fun earned :: "wifi_security \<times> observed \<Rightarrow> bool" where
  "earned (s, h) \<longleftrightarrow> (mode s = 2 \<or> mode s = 3) \<and> (stage s < 2 \<longrightarrow> \<not> pairwise s \<and> \<not> group s) \<and> (authorized s \<longrightarrow> stage s \<ge> 3) \<and>
     (mode s = 3 \<and> stage s \<ge> 3 \<longrightarrow> authorized s) \<and> frames_needed s \<le> frames h \<and>
     (pairwise s \<longrightarrow> pair_key h = Some (key_target True s)) \<and> (group s \<longrightarrow> group_key h = Some (key_target False s))"


lemma key_target_cong: "ptk t = ptk s \<Longrightarrow> gtk t = gtk s \<Longrightarrow> mode t = mode s \<Longrightarrow> key_target pw t = key_target pw s"
  by (simp add: key_target_def)

lemma earned_same_keys: "earned (s, h) \<Longrightarrow> same_keys s t \<Longrightarrow> earned (t, h)"
proof -
  assume e: "earned (s, h)" and k: "same_keys s t"
  have kt: "key_target pw t = key_target pw s" for pw by (rule key_target_cong) (use k in \<open>simp_all add: same_keys_def\<close>)
  have fn: "frames_needed t = frames_needed s" using k by (simp add: frames_needed_def same_keys_def)
  from e k show ?thesis by (simp add: kt fn same_keys_def)
qed

text \<open>The handshake moves to a later stage: the keys agreed and installed stay.\<close>

lemma earned_later:
  assumes "earned (s, h)" and "same_keys (s\<lparr>stage := stage t, authorized := authorized t\<rparr>) t"
    and "1 \<le> stage s" "stage s \<le> stage t" "authorized t \<longrightarrow> 3 \<le> stage t" "mode s = 3 \<and> 3 \<le> stage t \<longrightarrow> authorized t"
    and "2 \<le> stage t" "frames_needed t \<le> frames h'" "pair_key h' = pair_key h" "group_key h' = group_key h"
  shows "earned (t, h')"
proof -
  have kt: "key_target pw t = key_target pw s" for pw
    by (rule key_target_cong) (use assms(2) in \<open>simp_all add: same_keys_def\<close>)
  show ?thesis using assms by (simp add: kt same_keys_def)
qed

lemma earned_more: "earned (s, h) \<Longrightarrow> earned (s, h\<lparr>frames := frames h + 1\<rparr>)"
  by auto

lemma earned_idle:
  assumes "mode s = 2 \<or> mode s = 3" "stage s < 2" "\<not> pairwise s" "\<not> group s" "\<not> authorized s"
  shows "earned (s, h)"
  using assms by (auto simp: frames_needed_def)

lemma start_earned:
  assumes "mode s = 2 \<or> mode s = 3"
  shows "earned (wifi_security_start (Some c) a g s, h)"
proof -
  define r where "r = wifi_security_reset s"
  have r: "mode r = mode s" "stage r = 0" "\<not> pairwise r" "\<not> group r" "\<not> authorized r"
    by (simp_all add: r_def wifi_security_reset_def)
  note base = earned_idle [of _ h]
  show ?thesis
  proof (cases "valid r \<and> a \<noteq> None \<and> g \<noteq> None")
    case False
    then show ?thesis using assms r base
      by (auto simp: wifi_security_start_def Let_def r_def [symmetric] simp del: earned.simps split: option.splits)
  next
    case True
    then obtain x y where xy: "a = Some x" "g = Some y" by auto
    let ?i = "if mode r = 3 then 0x008A else 0x0089"
    obtain ok t where b: "build c ?i [] (r\<lparr>anonce := x, gtk := y, replay := 1\<rparr>) = (ok, t)"
      by (cases "build c ?i [] (r\<lparr>anonce := x, gtk := y, replay := 1\<rparr>)")
    then have "same_keys (r\<lparr>anonce := x, gtk := y, replay := 1\<rparr>) t" using build_keys by (metis snd_conv)
    then have t: "mode t = mode s" "stage t = 0" "\<not> pairwise t" "\<not> group t" "\<not> authorized t"
      using r by (simp_all add: same_keys_def)
    have "wifi_security_start (Some c) a g s = (if ok then t\<lparr>stage := 1\<rparr> else t)"
      using True assms b r(1) xy by (auto simp: wifi_security_start_def Let_def r_def [symmetric])
    then show ?thesis using assms t base by (simp del: earned.simps)
  qed
qed

lemma advance_cases:
  obtains (m3) ok t where "stage s = 1" "message3 c s = (ok, t)" "advance_handshake c iv info kl s = (if ok then t\<lparr>stage := 2\<rparr> else t)"
  | (m4) "stage s = 2" "mode s = 3" "advance_handshake c iv info kl s = s\<lparr>stage := 4, authorized := True\<rparr>"
  | (m4_wpa) ok t where "stage s = 2" "mode s \<noteq> 3" "group1 c iv s = (ok, t)"
      "advance_handshake c iv info kl s = (if ok then t\<lparr>stage := 3\<rparr> else t)"
  | (gr) "stage s = 3" "advance_handshake c iv info kl s = s\<lparr>stage := 4, authorized := True\<rparr>"
  | (idle) "advance_handshake c iv info kl s = s"
proof (cases "bit info 3")
  case True
  show ?thesis
  proof (cases "stage s = 1")
    case st: True
    obtain ok t where m: "message3 c s = (ok, t)" by (cases "message3 c s")
    show ?thesis by (rule m3 [OF st m]) (simp add: advance_handshake_def st True m)
  next
    case st: False
    show ?thesis
    proof (cases "stage s = 2 \<and> kl = 0")
      case st2: True
      obtain ok t where g: "group1 c iv s = (ok, t)" by (cases "group1 c iv s")
      show ?thesis
      proof (cases "mode s = 3")
        case md: True
        show ?thesis by (rule m4) (simp_all add: advance_handshake_def st st2 md True)
      next
        case md: False
        show ?thesis by (rule m4_wpa) (simp_all add: advance_handshake_def st st2 md True g)
      qed
    next
      case False
      with st True show ?thesis by (intro idle) (auto simp: advance_handshake_def)
    qed
  qed
next
  case False
  show ?thesis
  proof (cases "stage s = 3")
    case True
    then show ?thesis using False by (intro gr) (simp_all add: advance_handshake_def)
  next
    case st: False
    show ?thesis by (rule idle) (simp add: advance_handshake_def st False)
  qed
qed

lemma advance_earned:
  assumes e: "earned (s, h)"
  shows "earned (advance_handshake c iv info kl s, h\<lparr>frames := frames h + 1\<rparr>)"
proof -
  have fn: "frames_needed s \<le> frames h" using e by simp
  show ?thesis
  proof (cases rule: advance_cases [of s c iv info kl])
    case (m3 ok t)
    then have k: "same_keys s t" using message3_keys [of s c] by simp
    show ?thesis
    proof (cases ok)
      case False
      then show ?thesis using m3 earned_same_keys [OF earned_more [OF e] k] by simp
    next
      case True
      then have a: "advance_handshake c iv info kl s = t\<lparr>stage := 2\<rparr>" using m3 by simp
      show ?thesis unfolding a
        by (rule earned_later [OF e]) (use k m3 e in \<open>auto simp: same_keys_def frames_needed_def\<close>)
    qed
  next
    case m4
    show ?thesis unfolding m4(3)
      by (rule earned_later [OF e]) (use m4 fn in \<open>simp_all add: frames_needed_def same_keys_def\<close>)
  next
    case (m4_wpa ok t)
    then have k: "same_keys s t" using group1_keys [of s c iv] by simp
    show ?thesis
    proof (cases ok)
      case False
      then show ?thesis using m4_wpa earned_same_keys [OF earned_more [OF e] k] by simp
    next
      case True
      then have a: "advance_handshake c iv info kl s = t\<lparr>stage := 3\<rparr>" using m4_wpa by simp
      have "\<not> authorized s" using e m4_wpa(1) by auto
      then show ?thesis unfolding a
        by (intro earned_later [OF e]) (use k m4_wpa fn in \<open>simp_all add: frames_needed_def same_keys_def\<close>)
    qed
  next
    case gr
    show ?thesis unfolding gr(2)
      by (rule earned_later [OF e]) (use gr fn e in \<open>auto simp: frames_needed_def same_keys_def split: if_splits\<close>)
  next
    case idle
    then show ?thesis using e by (simp only: earned_more)
  qed
qed


lemma frame_earned:
  assumes e: "earned (s, h)"
  shows "earned (watched_step c (Frame iv p) (s, h))"
proof (cases "14 \<le> length p \<and> valid s \<and> p ! 12 = 0x88 \<and> p ! 13 = 0x8E \<and> key_frame_ok s p")
  case False
  then have "\<not> authentic c s p" by (auto simp: authentic_def)
  moreover have "snd (wifi_security_tx (Some c) iv p s) = s"
    using False by (auto simp: wifi_security_tx_def eapol_tx_def)
  ultimately show ?thesis using e by (simp del: earned.simps)
next
  case True
  define f where "f = take (be16 (drop 14 p) 2 + 4) (drop 14 p)"
  define ok where "ok = (if stage s = 1 then fst (derive c (take 32 (drop 17 f)) s) else True)"
  define u where "u = (if stage s = 1 then snd (derive c (take 32 (drop 17 f)) s) else s)"
  have eu: "earned (u, h)"
  proof (cases "stage s = 1")
    case True
    then show ?thesis using e by (intro earned_idle) (auto simp: u_def)
  next
    case False
    then show ?thesis using e by (simp add: u_def del: earned.simps)
  qed
  have au: "authentic c s p \<longleftrightarrow> ok \<and> mic_matches c u f"
    using True by (simp add: authentic_def f_def [symmetric] Let_def ok_def u_def)
  have "snd (wifi_security_tx (Some c) iv p s) = eapol_tx c iv p s" using True by (simp add: wifi_security_tx_def)
  also have "... = (if ok \<and> mic_matches c u f then advance_handshake c iv (be16 f 5) (be16 f 97) u else u)"
    using True by (simp add: eapol_tx_def f_def [symmetric] Let_def ok_def u_def split_beta)
  finally show ?thesis using au eu advance_earned [OF eu] by (simp del: earned.simps)
qed

lemma key_earned:
  assumes e: "earned (s, h)"
  shows "earned (watched_step c (Key pw cipher k) (s, h))"
proof -
  have kt: "key_target q (s\<lparr>pairwise := v\<rparr>) = key_target q s" "key_target q (s\<lparr>group := v\<rparr>) = key_target q s" for q v
    by (simp_all add: key_target_def)
  have fn: "frames_needed (s\<lparr>pairwise := v\<rparr>) = frames_needed s" "frames_needed (s\<lparr>group := v\<rparr>) = frames_needed s" for v
    by (simp_all add: frames_needed_def)
  consider (none) "k = []" | (no) "wifi_security_key pw cipher k s = (False, s)" "k \<noteq> []"
    | (yes) "wifi_security_key pw cipher k s = (True, set_key pw True s)" "k \<noteq> []" "stage s \<ge> 2" "key_target pw s = k"
  proof -
    have "k = [] \<or> wifi_security_key pw cipher k s = (False, s) \<or>
        wifi_security_key pw cipher k s = (True, set_key pw True s) \<and> stage s \<ge> 2 \<and> key_target pw s = k"
      by (simp add: wifi_security_key_def)
    then show ?thesis using that by blast
  qed
  then show ?thesis
  proof cases
    case none
    then show ?thesis using e by (cases pw) (simp_all add: wifi_security_key_def set_key_def kt fn)
  next
    case no
    then show ?thesis using e by (simp del: earned.simps)
  next
    case yes
    then show ?thesis using e by (cases pw) (simp_all add: set_key_def kt fn)
  qed
qed

lemma rekey_earned:
  assumes e: "earned (s, h)"
  shows "earned (snd (wifi_security_rekey (Some c) g iv s), h)"
proof (cases "stage s = 4 \<and> g \<noteq> None")
  case False
  then show ?thesis using e by (auto simp: wifi_security_rekey_def simp del: earned.simps)
next
  case True
  then obtain x where g: "g = Some x" and st: "stage s = 4" by auto
  define r where "r = s\<lparr>gtk := x, group := False, stage := 3\<rparr>"
  have "key_target True r = key_target True s" by (simp add: r_def key_target_def)
  then have er: "earned (r, h)" using e st by (auto simp: r_def frames_needed_def)
  have "same_keys r (snd (wifi_security_rekey (Some c) g iv s))"
    using group1_keys [of r c iv] build_keys [of "r\<lparr>replay := replay r + 1\<rparr>" c "0x1382"]
    by (auto simp: wifi_security_rekey_def g st r_def [symmetric] Let_def split: option.splits)
  then show ?thesis by (rule earned_same_keys [OF er])
qed

interpretation security: device "watched_step c" earned for c
proof unfold_locales
  fix x e assume inv: "earned x"
  obtain s h where x: "x = (s, h)" by (cases x)
  have e0: "earned (s, h)" using inv x by simp
  then have md: "mode s = 2 \<or> mode s = 3" by simp
  show "earned (watched_step c e x)"
  proof (cases e)
    case (Start a g)
    then show ?thesis using start_earned [OF md] by (simp add: x del: earned.simps)
  next
    case Reset
    then show ?thesis using md by (auto simp: x wifi_security_reset_def frames_needed_def)
  next
    case (Frame iv p)
    then show ?thesis using frame_earned [OF e0] by (simp add: x del: earned.simps watched_step.simps)
  next
    case (Pop n)
    have "same_keys s (snd (wifi_security_pop n s))" by (simp add: wifi_security_pop_def)
    then show ?thesis using Pop earned_same_keys [OF e0] by (simp add: x del: earned.simps)
  next
    case (Key pw cipher k)
    then show ?thesis using key_earned [OF e0] by (simp add: x del: earned.simps watched_step.simps)
  next
    case (Rekey g iv)
    then show ?thesis using rekey_earned [OF e0] by (simp add: x del: earned.simps)
  qed
qed

end
