(* ===== verification/Wifi_Handshake.thy ===== *)
theory Wifi_Handshake
  imports Wifi_Security
begin

text \<open>
  The station's side of the WPA2 four-way handshake, written from the protocol, against the access
  point of \<open>Wifi_Security\<close>: a station that knows the pairwise master key gets through.
\<close>

section \<open>The key frame of the protocol\<close>

definition eapol_key :: "u8 \<Rightarrow> u8 \<Rightarrow> nat \<Rightarrow> nat \<Rightarrow> u64 \<Rightarrow> u8 list \<Rightarrow> u8 list \<Rightarrow> u8 list \<Rightarrow> u8 list" where
  "eapol_key ver desc info klen r nonce code kd =
     [ver, 3] @ put16 (95 + length kd) @ [desc] @ put16 info @ put16 klen @ put64 r @ nonce @ replicate 32 0 @ code @
     put16 (length kd) @ kd"

lemma length_put [simp]: "length (put16 v) = 2" "length (put64 r) = 8"
  by (simp_all add: put16_def put64_def)

lemma be16_put16: "v < 65536 \<Longrightarrow> be16 (put16 v @ rest) 0 = v"
  by (simp add: be16_def put16_def unat_of_nat)

lemma be16_drop: "i < length xs \<Longrightarrow> be16 xs i = be16 (drop i xs) 0"
  by (simp add: be16_def)

lemma bit_foldl_bytes:
  fixes r :: u64 and bs :: "u8 list" and k :: nat
  shows "bit (foldl (\<lambda>r b. push_bit 8 r OR ucast b) r bs) k \<longleftrightarrow>
    k < 64 \<and> (if k < 8 * length bs then bit (bs ! (length bs - 1 - k div 8)) (k mod 8) else bit r (k - 8 * length bs))"
proof (induction bs arbitrary: k rule: rev_induct)
  case Nil
  then show ?case by (auto dest: bit_imp_le_length)
next
  case (snoc b bs)
  show ?case
  proof (cases "k < 8")
    case True
    then show ?thesis by (auto simp: bit_simps nth_append)
  next
    case False
    then obtain j where k: "k = j + 8" by (metis add.commute le_add_diff_inverse not_less)
    have dv: "(j + 8) div 8 = j div 8 + 1" "(j + 8) mod 8 = j mod 8"
      using div_add_self2 [of 8 j] mod_add_self2 [of j 8] by simp_all
    let ?F = "foldl (\<lambda>r b. push_bit 8 r OR ucast b) r bs"
    have "\<not> bit (ucast b :: u64) k" using False by (auto simp: bit_simps dest: bit_imp_le_length)
    then have l: "bit (foldl (\<lambda>r b. push_bit 8 r OR ucast b) r (bs @ [b])) k \<longleftrightarrow> k < 64 \<and> bit ?F j"
      by (auto simp: k bit_simps)
    show ?thesis
    proof (cases "j < 8 * length bs")
      case True
      then have i: "j div 8 < length bs" by (simp add: less_mult_imp_div_less mult.commute)
      then have "length bs - Suc (j div 8) < length bs" by (intro diff_less) auto
      then have "(bs @ [b]) ! (length (bs @ [b]) - 1 - k div 8) = bs ! (length bs - 1 - j div 8)"
        by (simp add: k nth_append dv)
      then show ?thesis unfolding l snoc.IH using True by (auto simp: k dv)
    next
      case False
      then show ?thesis unfolding l snoc.IH by (auto simp: k)
    qed
  qed
qed

lemma get64_put64 [simp]: "get64 (put64 r) = r"
proof (rule bit_word_eqI)
  fix k :: nat assume k: "k < LENGTH(64)"
  then have i: "k div 8 < 8" by auto
  then have "[0..<8] ! (7 - k div 8) = 7 - k div 8" by (intro nth_upt [of 0, simplified]) simp
  then have "put64 r ! (7 - k div 8) = ucast (drop_bit (56 - 8 * (7 - k div 8)) r)"
    using i by (simp add: put64_def)
  moreover have "56 - 8 * (7 - k div 8) + k mod 8 = k"
  proof -
    have "56 - 8 * (7 - k div 8) = 8 * (k div 8)" using i by (simp add: diff_mult_distrib2)
    then show ?thesis by simp
  qed
  ultimately have "bit (put64 r ! (7 - k div 8)) (k mod 8) = bit r k" by (simp add: bit_simps)
  then show "bit (get64 (put64 r)) k = bit r k"
    using k by (simp add: get64_def bit_foldl_bytes)
qed

lemma eapol_key_fields:
  assumes nonce: "length nonce = 32" and code: "length code = 16" and "length kd < 400" "info < 65536"
  shows "length (eapol_key ver desc info klen r nonce code kd) = 99 + length kd"
    "eapol_key ver desc info klen r nonce code kd ! 1 = 3"
    "be16 (eapol_key ver desc info klen r nonce code kd) 2 = 95 + length kd"
    "be16 (eapol_key ver desc info klen r nonce code kd) 5 = info"
    "be16 (eapol_key ver desc info klen r nonce code kd) 97 = length kd"
    "take 8 (drop 9 (eapol_key ver desc info klen r nonce code kd)) = put64 r"
    "take 32 (drop 17 (eapol_key ver desc info klen r nonce code kd)) = nonce"
    "take 16 (drop 81 (eapol_key ver desc info klen r nonce code kd)) = code"
proof -
  let ?e = "eapol_key ver desc info klen r nonce code kd"
  show l: "length ?e = 99 + length kd" using nonce code by (simp add: eapol_key_def)
  show "?e ! 1 = 3" by (simp add: eapol_key_def)
  have "drop 2 ?e = put16 (95 + length kd) @ drop 4 ?e" by (simp add: eapol_key_def)
  then show "be16 ?e 2 = 95 + length kd" using be16_drop [of 2 ?e] l assms by (simp add: be16_put16)
  have "drop 5 ?e = put16 info @ drop 7 ?e" by (simp add: eapol_key_def)
  then show "be16 ?e 5 = info" using be16_drop [of 5 ?e] l assms by (simp add: be16_put16)
  have "drop 97 ?e = put16 (length kd) @ kd" using nonce code by (simp add: eapol_key_def)
  then show "be16 ?e 97 = length kd" using be16_drop [of 97 ?e] l assms by (simp add: be16_put16)
  show "take 8 (drop 9 ?e) = put64 r" by (simp add: eapol_key_def)
  show "take 32 (drop 17 ?e) = nonce" using nonce by (simp add: eapol_key_def)
  show "take 16 (drop 81 ?e) = code" using nonce code by (simp add: eapol_key_def)
qed

lemma overlay_eapol_key:
  assumes nonce: "length nonce = 32" and code: "length code = 16" and "length h = 16"
  shows "overlay 81 h (eapol_key ver desc info klen r nonce code kd) = eapol_key ver desc info klen r nonce h kd"
  using assms by (simp add: overlay_def eapol_key_def)

lemma key_frame_eapol:
  "key_frame s info key = eapol_key 2 (if mode s = 3 then 2 else 254) info (if mode s = 3 then 16 else 32) (replay s)
     (if bit info 3 then anonce s else replicate 32 0) (replicate 16 0) key"
proof -
  have "replicate 48 (0 :: u8) = replicate 32 0 @ replicate 16 0" by (simp flip: replicate_add)
  then show ?thesis by (simp add: key_frame_def eapol_key_def)
qed


section \<open>The station\<close>

definition crypto_works :: "wifi_crypto \<Rightarrow> bool" where
  "crypto_works c \<longleftrightarrow> (\<forall>k d. \<exists>h. hmac_sha1 c k d = Some h \<and> length h = 20) \<and>
     (\<forall>k d. 16 \<le> length d \<longrightarrow> 8 dvd length d \<longrightarrow> (\<exists>w. aes_wrap c k d = Some w \<and> length w = length d + 8))"

definition smaller_first :: "u8 list \<Rightarrow> u8 list \<Rightarrow> u8 list" where
  "smaller_first x y = (if memcmp_gt x y then y @ x else x @ y)"

text \<open>The pairwise transient key: the first 64 bytes of the expansion of the master key.\<close>

definition transient_key :: "wifi_crypto \<Rightarrow> u8 list \<Rightarrow> u8 list \<Rightarrow> u8 list \<Rightarrow> u8 list \<Rightarrow> u8 list \<Rightarrow> u8 list" where
  "transient_key c master sta ap an sn = take 64 (concat (map (\<lambda>i. the (hmac_sha1 c master
     (map of_char ''Pairwise key expansion'' @ [0] @ smaller_first sta ap @ smaller_first an sn @ [of_nat i]))) [0..<4]))"

definition station_frame :: "wifi_crypto \<Rightarrow> u8 list \<Rightarrow> u8 list \<Rightarrow> u8 list \<Rightarrow> nat \<Rightarrow> u64 \<Rightarrow> u8 list \<Rightarrow> u8 list \<Rightarrow> u8 list" where
  "station_frame c key sta ap info r nonce kd =
     (let e = (\<lambda>code. eapol_key 2 2 info 16 r nonce code kd);
          code = take 16 (the (hmac_sha1 c (take 16 key) (e (replicate 16 0))))
      in ap @ sta @ [0x88, 0x8E] @ e code)"

definition nonce_of :: "u8 list \<Rightarrow> u8 list" where
  "nonce_of m = take 32 (drop 31 m)"

definition counter_of :: "u8 list \<Rightarrow> u64" where
  "counter_of m = get64 (take 8 (drop 23 m))"

definition message_2 :: "wifi_crypto \<Rightarrow> u8 list \<Rightarrow> u8 list \<Rightarrow> u8 list \<Rightarrow> u8 list \<Rightarrow> u8 list \<Rightarrow> u8 list \<Rightarrow> u8 list" where
  "message_2 c key sta ap sn kd m = station_frame c key sta ap 0x010A (counter_of m) sn kd"

definition message_4 :: "wifi_crypto \<Rightarrow> u8 list \<Rightarrow> u8 list \<Rightarrow> u8 list \<Rightarrow> u8 list \<Rightarrow> u8 list" where
  "message_4 c key sta ap m = station_frame c key sta ap 0x030A (counter_of m) (replicate 32 0) []"

text \<open>What the station takes from message 3. It accepts a frame of message 3's kind whose integrity code verifies
  under the key's first 16 bytes and which repeats the nonce of message 1; it unwraps the key data with the next
  16 bytes, compares the element at its head with the beacon's, and looks for the group key among the elements.\<close>

function gtk_kde :: "u8 list \<Rightarrow> u8 list option" where
  "gtk_kde d =
     (if length d < 2 \<or> length d < 2 + unat (d ! 1) then None
      else let n = unat (d ! 1); body = take n (drop 2 d)
           in if d ! 0 = 221 \<and> 6 \<le> n \<and> take 4 body = [0, 15, 172, 1] then Some (drop 6 body)
              else gtk_kde (drop (2 + n) d))"
  by pat_completeness auto
termination by (relation "measure length") auto

declare gtk_kde.simps [simp del]

definition gtk_from ::
  "wifi_crypto \<Rightarrow> (u8 list \<Rightarrow> u8 list \<Rightarrow> u8 list option) \<Rightarrow> u8 list \<Rightarrow> u8 list \<Rightarrow> u8 list \<Rightarrow> u8 list \<Rightarrow> u8 list option" where
  "gtk_from c unwrap key an beacon m =
     (let e = drop 14 m; n = be16 e 97
      in if length e \<noteq> 99 + n \<or> be16 e 5 \<noteq> 0x13CA \<or> take 32 (drop 17 e) \<noteq> an \<or>
            hmac_sha1 c (take 16 key) (overlay 81 (replicate 16 0) e) = None \<or>
            take 16 (the (hmac_sha1 c (take 16 key) (overlay 81 (replicate 16 0) e))) \<noteq> take 16 (drop 81 e)
         then None
         else case unwrap (take 16 (drop 16 key)) (drop 99 e) of
                None \<Rightarrow> None
              | Some d \<Rightarrow> if take (length beacon) d \<noteq> beacon then None else gtk_kde d)"

text \<open>RFC 3394: unwrapping under the same key returns what was wrapped.\<close>

definition unwraps :: "wifi_crypto \<Rightarrow> (u8 list \<Rightarrow> u8 list \<Rightarrow> u8 list option) \<Rightarrow> bool" where
  "unwraps c unwrap \<longleftrightarrow> (\<forall>k d w. aes_wrap c k d = Some w \<longrightarrow> unwrap k w = Some d)"

section \<open>The access point's view of a station frame\<close>

lemma hmac_total: "crypto_works c \<Longrightarrow> \<exists>h. hmac_sha1 c k d = Some h \<and> length h = 20"
  by (simp add: crypto_works_def)

lemma the_hmac: "crypto_works c \<Longrightarrow> hmac_sha1 c k d = Some (the (hmac_sha1 c k d)) \<and> length (the (hmac_sha1 c k d)) = 20"
  using hmac_total [of c k d] by auto

lemma prf_input_eq:
  "prf_input s sn i = map of_char ''Pairwise key expansion'' @ [0] @ smaller_first (mac s) (bssid s) @
     smaller_first (anonce s) sn @ [of_nat i]"
  by (simp add: prf_input_def smaller_first_def)

lemma derive_transient:
  assumes c: "crypto_works c" and l: "length (ptk s) = 64"
  shows "derive c sn s = (True, s\<lparr>ptk := transient_key c (pmk s) (mac s) (bssid s) (anonce s) sn\<rparr>)"
proof -
  define h where "h i = the (hmac_sha1 c (pmk s) (prf_input s sn i))" for i
  have h: "hmac_sha1 c (pmk s) (prf_input s sn i) = Some (h i)" "length (h i) = 20" for i
    using the_hmac [OF c] by (simp_all add: h_def)
  have in_ptk: "prf_input (s\<lparr>ptk := x\<rparr>) sn i = prf_input s sn i" for x i by (simp add: prf_input_def)
  have t: "transient_key c (pmk s) (mac s) (bssid s) (anonce s) sn = h 0 @ h 1 @ h 2 @ take 4 (h 3)"
  proof -
    have "[0..<4] = [0, 1, 2, 3 :: nat]" by (simp add: upt_rec)
    then have "transient_key c (pmk s) (mac s) (bssid s) (anonce s) sn = take 64 (h 0 @ h 1 @ h 2 @ h 3)"
      by (simp add: transient_key_def h_def prf_input_eq)
    then show ?thesis by (simp add: h(2))
  qed
  have step: "derive_loop c sn i (Suc k) (s\<lparr>ptk := pre @ post\<rparr>) = derive_loop c sn (i + 1) k (s\<lparr>ptk := (pre @ take m (h i)) @ drop m post\<rparr>)"
    if "length pre = 20 * i" "m = min 20 (64 - 20 * i)" for i k m pre post
  proof -
    have "overlay (20 * i) (take m (h i)) (pre @ post) = (pre @ take m (h i)) @ drop m post"
      using that h(2) [of i] by (simp add: overlay_def)
    then show ?thesis by (simp add: in_ptk h that(2))
  qed
  have "derive c sn s = derive_loop c sn 0 (Suc (Suc (Suc (Suc 0)))) (s\<lparr>ptk := [] @ ptk s\<rparr>)"
    by (simp add: derive_def eval_nat_numeral)
  also have "... = derive_loop c sn 1 (Suc (Suc (Suc 0))) (s\<lparr>ptk := h 0 @ drop 20 (ptk s)\<rparr>)"
    using h(2) by (subst step [of _ _ 20]) (simp_all del: derive_loop.simps add: numeral_2_eq_2 numeral_3_eq_3)
  also have "... = derive_loop c sn 2 (Suc (Suc 0)) (s\<lparr>ptk := (h 0 @ h 1) @ drop 40 (ptk s)\<rparr>)"
    using h(2) by (subst step [of _ _ 20]) (simp_all del: derive_loop.simps add: numeral_2_eq_2 numeral_3_eq_3)
  also have "... = derive_loop c sn 3 (Suc 0) (s\<lparr>ptk := (h 0 @ h 1 @ h 2) @ drop 60 (ptk s)\<rparr>)"
    using h(2) by (subst step [of _ _ 20]) (simp_all del: derive_loop.simps add: numeral_2_eq_2 numeral_3_eq_3)
  also have "... = (True, s\<lparr>ptk := transient_key c (pmk s) (mac s) (bssid s) (anonce s) sn\<rparr>)"
    using h(2) l by (subst step [of _ _ 4]) (simp_all del: derive_loop.simps(2) add: t)
  finally show ?thesis .
qed

lemma station_frame_ok:
  assumes c: "crypto_works c" and md: "mode s = 3" and len: "length (mac s) = 6" "length (bssid s) = 6" "length nonce = 32"
    and kd: "length kd < 200" and info: "info < 65536" "bit info 8" "\<not> bit info 7" "info mod 8 = 2" and r: "r = replay s"
    and p: "p = station_frame c key (mac s) (bssid s) info r nonce kd"
  shows "14 \<le> length p" "p ! 12 = 0x88" "p ! 13 = 0x8E" "key_frame_ok s p"
    "take (be16 (drop 14 p) 2 + 4) (drop 14 p) = drop 14 p"
    "be16 (drop 14 p) 5 = info" "be16 (drop 14 p) 97 = length kd" "take 32 (drop 17 (drop 14 p)) = nonce"
    "take 16 (ptk u) = take 16 key \<Longrightarrow> mode u = 3 \<Longrightarrow> mic_matches c u (drop 14 p)"
proof -
  define z where "z = eapol_key 2 2 info 16 r nonce (replicate 16 0) kd"
  define code where "code = take 16 (the (hmac_sha1 c (take 16 key) z))"
  define e where "e = eapol_key 2 2 info 16 r nonce code kd"
  have code: "length code = 16" using the_hmac [OF c] by (simp add: code_def)
  have pe: "p = bssid s @ mac s @ [0x88, 0x8E] @ e" by (simp add: p station_frame_def Let_def e_def code_def z_def)
  have d: "drop 14 p = e" using len by (simp add: pe)
  note f = eapol_key_fields [OF len(3) code, of kd info 2 2 16 r, folded e_def]
  have kd': "length kd < 400" using kd by simp
  have el: "length e = 99 + length kd" using f(1) kd' info by simp
  show "14 \<le> length p" "p ! 12 = 0x88" "p ! 13 = 0x8E" using len by (simp_all add: pe nth_append)
  have h6: "take 6 p = bssid s" "take 6 (drop 6 p) = mac s" using len by (simp_all add: pe)
  have lp: "length p = 113 + length kd" using len el by (simp add: pe)
  show "key_frame_ok s p"
    using f kd kd' info lp h6 by (simp add: key_frame_ok_def d md r)
  show "take (be16 (drop 14 p) 2 + 4) (drop 14 p) = drop 14 p" using f(3) kd' info el by (simp add: d)
  show "be16 (drop 14 p) 5 = info" "be16 (drop 14 p) 97 = length kd" "take 32 (drop 17 (drop 14 p)) = nonce"
    using f kd' info by (simp_all add: d)
  show "mic_matches c u (drop 14 p)" if "take 16 (ptk u) = take 16 key" "mode u = 3"
  proof -
    have "overlay 81 (replicate 16 0) e = z" by (simp add: e_def z_def overlay_eapol_key [OF len(3) code])
    moreover have "overlay 81 code z = e" unfolding z_def e_def by (rule overlay_eapol_key [OF len(3) _ code]) simp
    moreover obtain h where h: "hmac_sha1 c (take 16 key) z = Some h" using hmac_total [OF c] by blast
    ultimately have "mic c u e = Some e" using that by (simp add: mic_def mic_hash_def Let_def code_def h)
    then show ?thesis by (simp add: mic_matches_def d)
  qed
qed


section \<open>What the access point sends\<close>

definition sane :: "wifi_security \<Rightarrow> bool" where
  "sane s \<longleftrightarrow> valid s \<and> mode s = 3 \<and> length (mac s) = 6 \<and> length (bssid s) = 6 \<and> length (anonce s) = 32 \<and>
     length (ptk s) = 64 \<and> length (gtk s) = 32 \<and> take (ie_len s) (ie s) = rsn_ie"

lemma sane_same_keys: "same_keys s t \<Longrightarrow> sane s \<Longrightarrow> sane t"
  by (simp add: sane_def same_keys_def)

text \<open>A frame of the access point, with its integrity code when \<open>info\<close> asks for one.\<close>

definition signed :: "wifi_crypto \<Rightarrow> wifi_security \<Rightarrow> nat \<Rightarrow> u8 list \<Rightarrow> u8 list \<Rightarrow> bool" where
  "signed c s info key m \<longleftrightarrow> (\<exists>code. length code = 16 \<and>
     m = mac s @ bssid s @ [0x88, 0x8E] @
         eapol_key 2 2 info 16 (replay s) (if bit info 3 then anonce s else replicate 32 0) code key \<and>
     (bit info 8 \<longrightarrow> code = take 16 (the (hmac_sha1 c (take 16 (ptk s))
        (eapol_key 2 2 info 16 (replay s) (if bit info 3 then anonce s else replicate 32 0) (replicate 16 0) key)))))"

lemma build_sends:
  assumes c: "crypto_works c" and s: "sane s" and kl: "length key \<le> 300" and info: "info < 65536"
  obtains t m where "build c info key s = (True, t)" "same_keys s t" "replay t = replay s"
    "wifi_security_pop 512 t = (m, t\<lparr>pending_len := 0\<rparr>)" "counter_of m = replay s" "bit info 3 \<longrightarrow> nonce_of m = anonce s"
    "signed c s info key m"
proof -
  define nonce where "nonce = (if bit info 3 then anonce s else replicate 32 0)"
  define e0 where "e0 = eapol_key 2 2 info 16 (replay s) nonce (replicate 16 0) key"
  have md: "mode s = 3" and nl: "length nonce = 32" using s by (simp_all add: sane_def nonce_def)
  have kf: "key_frame s info key = e0" by (simp add: key_frame_eapol md e0_def nonce_def)
  obtain code where code: "length code = 16" "(if bit info 8 then mic c s e0 else Some e0) =
      Some (eapol_key 2 2 info 16 (replay s) nonce code key)"
      "bit info 8 \<longrightarrow> code = take 16 (the (hmac_sha1 c (take 16 (ptk s)) e0))"
  proof (cases "bit info 8")
    case True
    obtain h where h: "hmac_sha1 c (take 16 (ptk s)) e0 = Some h" "length h = 20" using hmac_total [OF c] by blast
    have o: "overlay 81 x e0 = eapol_key 2 2 info 16 (replay s) nonce x key" if "length x = 16" for x
      unfolding e0_def by (rule overlay_eapol_key [OF nl _ that]) simp
    have "overlay 81 (replicate 16 0) e0 = e0" using o [of "replicate 16 0"] by (simp add: e0_def)
    then have "mic c s e0 = Some (eapol_key 2 2 info 16 (replay s) nonce (take 16 h) key)"
      using h o [of "take 16 h"] by (simp add: mic_def mic_hash_def md Let_def)
    then show ?thesis using True h by (intro that [of "take 16 h"]) simp_all
  next
    case False
    then show ?thesis by (intro that [of "replicate 16 0"]) (simp_all add: e0_def)
  qed
  define e where "e = eapol_key 2 2 info 16 (replay s) nonce code key"
  note f = eapol_key_fields [OF nl code(1), of key info 2 2 16 "replay s", folded e_def]
  define m where "m = mac s @ bssid s @ [0x88, 0x8E] @ e"
  define t where "t = (set_pending e s)\<lparr>pending_len := 14 + length e\<rparr>"
  have el: "length e = 99 + length key" using f(1) kl info by simp
  have ml: "length m = 14 + length e" using s by (simp add: m_def sane_def)
  have "take (14 + length e) (pending t) = m"
    using ml by (simp add: t_def set_pending_def Let_def m_def [simplified] m_def)
  then have pop: "wifi_security_pop 512 t = (m, t\<lparr>pending_len := 0\<rparr>)"
    using el kl by (simp add: wifi_security_pop_def t_def)
  have d: "drop 23 m = drop 9 e" "drop 31 m = drop 17 e" using s by (simp_all add: m_def sane_def)
  have "build c info key s = (True, t)" using code(2) by (simp add: build_def kf Let_def e_def t_def)
  moreover have "same_keys s t" "replay t = replay s" by (simp_all add: t_def)
  moreover have "counter_of m = replay s" "nonce_of m = nonce"
    using f(6,7) kl info by (simp_all add: counter_of_def nonce_of_def d)
  moreover have "signed c s info key m"
    unfolding signed_def nonce_def [symmetric] e0_def [symmetric] using code(1,3) by (auto simp: m_def e_def)
  ultimately show ?thesis using pop that by (simp add: nonce_def)
qed

text \<open>What the access point puts into message 3, and that the station finds the group key in it.\<close>

definition key_data :: "u8 list \<Rightarrow> u8 list" where
  "key_data g = wrap_pad (rsn_ie @ [221, 22, 0, 15, 172, 1, 1, 0] @ take 16 g)"

lemma gtk_in_key_data:
  assumes "16 \<le> length g"
  shows "take (length rsn_ie) (key_data g) = rsn_ie" "gtk_kde (key_data g) = Some (take 16 g)"
proof -
  have "length (take 16 g) = 16" using assms by simp
  then obtain pad where k: "key_data g = rsn_ie @ [221, 22, 0, 15, 172, 1, 1, 0] @ take 16 g @ pad"
    by (auto simp: key_data_def wrap_pad_def rsn_ie_def)
  show "take (length rsn_ie) (key_data g) = rsn_ie" by (simp add: k)
  define rest where "rest = [221, 22, 0, 15, 172, 1, 1, 0] @ take 16 g @ pad"
  have "gtk_kde (key_data g) = gtk_kde rest"
    by (subst gtk_kde.simps) (simp add: k rsn_ie_def rest_def)
  also have "... = Some (take 16 g)"
    using assms by (subst gtk_kde.simps) (simp add: rest_def)
  finally show "gtk_kde (key_data g) = Some (take 16 g)" .
qed

lemma signed_message3:
  assumes c: "crypto_works c" and w: "aes_wrap c (take 16 (drop 16 (ptk s))) (key_data g) = Some w" "length w \<le> 300"
    and s: "sane s" and g: "16 \<le> length g" and u: "unwraps c unwrap" and m: "signed c s 0x13CA w m"
  shows "gtk_from c unwrap (ptk s) (anonce s) rsn_ie m = Some (take 16 g)"
proof -
  have bits: "bit (0x13CA :: nat) 3" "bit (0x13CA :: nat) 8" by (simp_all add: bit_iff_odd)
  obtain code where code: "length code = 16" and m: "m = mac s @ bssid s @ [0x88, 0x8E] @
      eapol_key 2 2 0x13CA 16 (replay s) (anonce s) code w" and mic: "code = take 16 (the (hmac_sha1 c (take 16 (ptk s))
        (eapol_key 2 2 0x13CA 16 (replay s) (anonce s) (replicate 16 0) w)))"
    using m bits unfolding signed_def by auto
  have nl: "length (anonce s) = 32" "length (mac s) = 6" "length (bssid s) = 6" using s by (simp_all add: sane_def)
  define e where "e = eapol_key 2 2 0x13CA 16 (replay s) (anonce s) code w"
  have wl: "length w < 400" "(0x13CA :: nat) < 65536" using w(2) by simp_all
  note f = eapol_key_fields [OF nl(1) code wl, of 2 2 16 "replay s", folded e_def]
  have d: "drop 14 m = e" using nl by (simp add: m e_def)
  have tail: "drop 99 e = w" using nl(1) code by (simp add: e_def eapol_key_def)
  have z: "overlay 81 (replicate 16 0) e = eapol_key 2 2 0x13CA 16 (replay s) (anonce s) (replicate 16 0) w"
    unfolding e_def by (rule overlay_eapol_key [OF nl(1) code]) simp
  have un: "unwrap (take 16 (drop 16 (ptk s))) w = Some (key_data g)" using u w(1) by (simp add: unwraps_def)
  note gk = gtk_in_key_data [OF g]
  show ?thesis
    unfolding gtk_from_def Let_def d f(4,5,7,8) tail z un option.case f(1)
    using hmac_total [OF c] mic gk by auto
qed

lemma wrap_pad_length: "8 dvd length (wrap_pad d)" "length d \<le> length (wrap_pad d)" "length (wrap_pad d) \<le> length d + 8"
proof -
  define r where "r = (length d + 1) mod 8"
  define pad where "pad = (8 - r) mod 8"
  have r: "r < 8" "8 dvd length d + 1 - r" "r \<le> length d + 1" by (simp_all add: r_def dvd_minus_mod)
  have p: "pad = (if r = 0 then 0 else 8 - r)" using r(1) by (simp add: pad_def)
  have "length d + 1 + pad = length d + 1 - r + (if r = 0 then 0 else 8)" using r(1,3) p by auto
  then have dv: "8 dvd length d + 1 + pad" using r(2) by simp
  have len: "length (wrap_pad d) = (if length d mod 8 = 0 then length d else length d + 1 + pad)"
    by (simp add: wrap_pad_def pad_def r_def)
  show "8 dvd length (wrap_pad d)" using dv by (simp add: len dvd_eq_mod_eq_0)
  show "length d \<le> length (wrap_pad d)" by (simp add: len)
  show "length (wrap_pad d) \<le> length d + 8" using p by (auto simp: len)
qed

lemma message3_sends:
  assumes c: "crypto_works c" and s: "sane s"
  obtains t m where "message3 c s = (True, t)" "same_keys s t" "replay t = replay s + 1"
    "wifi_security_pop 512 t = (m, t\<lparr>pending_len := 0\<rparr>)" "counter_of m = replay s + 1"
    "\<And>unwrap. unwraps c unwrap \<Longrightarrow> gtk_from c unwrap (ptk s) (anonce s) rsn_ie m = Some (take 16 (gtk s))"
proof -
  define d where "d = key_data (gtk s)"
  define u where "u = s\<lparr>replay := replay s + 1\<rparr>"
  have "length (rsn_ie @ [221, 22, 0, 15, 172, 1, 1, 0 :: u8] @ take 16 (gtk s)) = 46"
    using s by (simp add: sane_def rsn_ie_def)
  then have dl: "8 dvd length d" "16 \<le> length d" "length d \<le> 54"
    using wrap_pad_length [of "rsn_ie @ [221, 22, 0, 15, 172, 1, 1, 0] @ take 16 (gtk s)"]
    by (simp_all add: d_def key_data_def)
  obtain w where w: "aes_wrap c (take 16 (drop 16 (ptk s))) d = Some w" "length w = length d + 8"
    using c dl(1,2) unfolding crypto_works_def by blast
  have su: "sane u" using s by (simp add: u_def sane_def)
  have "length w \<le> 300" using w(2) dl(3) s by (simp add: sane_def)
  then obtain t m where t: "build c 0x13CA w u = (True, t)" "same_keys u t" "replay t = replay u"
    "wifi_security_pop 512 t = (m, t\<lparr>pending_len := 0\<rparr>)" "counter_of m = replay u" "signed c u 0x13CA w m"
    by (rule build_sends [OF c su, of w "0x13CA"]) simp_all
  have "message3 c s = (True, t)"
    using s w t(1) unfolding message3_def Let_def by (simp add: sane_def u_def d_def key_data_def)
  moreover have "same_keys s t" using t(2) by (simp add: u_def)
  moreover have "gtk_from c unwrap (ptk s) (anonce s) rsn_ie m = Some (take 16 (gtk s))" if "unwraps c unwrap" for unwrap
    using signed_message3 [OF c _ \<open>length w \<le> 300\<close> su _ that t(6), of "gtk s"] w(1) s by (simp add: u_def d_def sane_def)
  ultimately show ?thesis using t that by (simp add: u_def)
qed


section \<open>The handshake\<close>

lemma pop_stage:
  assumes "wifi_security_pop n t = (m, t\<lparr>pending_len := 0\<rparr>)"
  shows "wifi_security_pop n (t\<lparr>stage := k\<rparr>) = (m, t\<lparr>stage := k, pending_len := 0\<rparr>)"
proof (cases "pending_len t = 0 \<or> n < pending_len t")
  case True
  then have "t = t\<lparr>pending_len := 0\<rparr>" "m = []" using assms by (simp_all add: wifi_security_pop_def)
  then have "pending_len t = 0" by (metis wifi_security.select_convs(19) wifi_security.surjective wifi_security.update_convs(19))
  then show ?thesis using assms True by (simp add: wifi_security_pop_def)
next
  case False
  then show ?thesis using assms by (simp add: wifi_security_pop_def)
qed

lemma start_sends:
  assumes c: "crypto_works c" and s: "sane s" and a: "length a = 32" and g: "length g = 32"
  obtains t m where "wifi_security_start (Some c) (Some a) (Some g) s = t\<lparr>stage := 1\<rparr>" "sane t" "stage t = 0"
    "mac t = mac s" "bssid t = bssid s" "pmk t = pmk s" "anonce t = a" "gtk t = g" "ptk t = replicate 64 0"
    "replay t = 1" "wifi_security_pop 512 (t\<lparr>stage := 1\<rparr>) = (m, t\<lparr>stage := 1, pending_len := 0\<rparr>)"
    "counter_of m = 1" "nonce_of m = a"
proof -
  define u where "u = (wifi_security_reset s)\<lparr>anonce := a, gtk := g, replay := 1\<rparr>"
  have su: "sane u" using s a g by (simp add: sane_def u_def wifi_security_reset_def)
  obtain t m where t: "build c 0x008A [] u = (True, t)" "same_keys u t" "replay t = replay u"
    "wifi_security_pop 512 t = (m, t\<lparr>pending_len := 0\<rparr>)" "counter_of m = replay u"
    "bit (0x008A :: nat) 3 \<longrightarrow> nonce_of m = anonce u"
    by (rule build_sends [OF c su, of "[]" "0x008A"]) simp_all
  have "bit (0x008A :: nat) 3" by (simp add: bit_iff_odd)
  then have n: "nonce_of m = a" using t(6) by (simp add: u_def)
  have "wifi_security_start (Some c) (Some a) (Some g) s = t\<lparr>stage := 1\<rparr>"
    using s t(1) by (simp add: wifi_security_start_def Let_def sane_def wifi_security_reset_def u_def)
  moreover have "wifi_security_pop 512 (t\<lparr>stage := 1\<rparr>) = (m, t\<lparr>stage := 1, pending_len := 0\<rparr>)"
    by (rule pop_stage [OF t(4)])
  ultimately show ?thesis
    using that [of t m] t(2,3,5) n sane_same_keys [OF t(2) su]
    by (simp add: same_keys_def u_def wifi_security_reset_def)
qed

lemma bits_of_info:
  "bit (0x010A :: nat) 8" "\<not> bit (0x010A :: nat) 7" "bit (0x010A :: nat) 3"
  "bit (0x030A :: nat) 8" "\<not> bit (0x030A :: nat) 7" "bit (0x030A :: nat) 3"
  by (simp_all add: bit_iff_odd)

lemma transient_key_length:
  assumes "crypto_works c"
  shows "length (transient_key c pm sta ap an sn) = 64"
proof -
  have u: "[0..<4] = [0, 1, 2, 3 :: nat]" by (simp add: upt_rec)
  show ?thesis using the_hmac [OF assms] unfolding transient_key_def u by simp
qed

text \<open>Message 2: the access point derives the station's key, accepts the code and sends message 3.\<close>

lemma message_2_accepted:
  assumes c: "crypto_works c" and s: "sane s" "stage s = 1" and sn: "length sn = 32" and kd: "length kd < 200"
    and m: "counter_of m = replay s" and key: "key = transient_key c (pmk s) (mac s) (bssid s) (anonce s) sn"
  obtains t m3 where "snd (wifi_security_tx (Some c) iv (message_2 c key (mac s) (bssid s) sn kd m) s) = t\<lparr>stage := 2\<rparr>"
    "same_keys (s\<lparr>ptk := key\<rparr>) t" "replay t = replay s + 1"
    "wifi_security_pop 512 (t\<lparr>stage := 2\<rparr>) = (m3, t\<lparr>stage := 2, pending_len := 0\<rparr>)" "counter_of m3 = replay s + 1"
    "\<And>unwrap. unwraps c unwrap \<Longrightarrow> gtk_from c unwrap key (anonce s) rsn_ie m3 = Some (take 16 (gtk s))"
proof -
  define p where "p = station_frame c key (mac s) (bssid s) 0x010A (replay s) sn kd"
  have md: "mode s = 3" "length (mac s) = 6" "length (bssid s) = 6" "valid s" "length (ptk s) = 64"
    using s(1) by (simp_all add: sane_def)
  note f = station_frame_ok [OF c md(1-3) sn kd, of "0x010A" "replay s" p key]
  have i: "(0x010A :: nat) < 65536" "(0x010A :: nat) mod 8 = 2" by simp_all
  note ok = f [OF i(1) bits_of_info(1,2) i(2) refl p_def]
  define u where "u = s\<lparr>ptk := key\<rparr>"
  have d: "derive c sn s = (True, u)" using derive_transient [OF c md(5), of sn] by (simp add: u_def key)
  have su: "sane u" using s(1) transient_key_length [OF c] by (simp add: u_def sane_def key)
  have mic: "mic_matches c u (drop 14 p)" using ok(9) [of u] md(1) by (simp add: u_def)
  obtain t m3 where t: "message3 c u = (True, t)" "same_keys u t" "replay t = replay u + 1"
    "wifi_security_pop 512 t = (m3, t\<lparr>pending_len := 0\<rparr>)" "counter_of m3 = replay u + 1"
    "\<And>unwrap. unwraps c unwrap \<Longrightarrow> gtk_from c unwrap (ptk u) (anonce u) rsn_ie m3 = Some (take 16 (gtk u))"
    using message3_sends [OF c su] by blast
  have "eapol_tx c iv p s = advance_handshake c iv 0x010A (length kd) u"
    unfolding eapol_tx_def Let_def ok(5) using ok(4,6,7,8) d s(2) mic by simp
  also have "... = t\<lparr>stage := 2\<rparr>"
    using t(1) s(2) bits_of_info(3) by (simp add: advance_handshake_def u_def)
  finally have "snd (wifi_security_tx (Some c) iv (message_2 c key (mac s) (bssid s) sn kd m) s) = t\<lparr>stage := 2\<rparr>"
    using ok(1-3) md(4) by (simp add: wifi_security_tx_def message_2_def m p_def [symmetric])
  moreover have "wifi_security_pop 512 (t\<lparr>stage := 2\<rparr>) = (m3, t\<lparr>stage := 2, pending_len := 0\<rparr>)"
    by (rule pop_stage [OF t(4)])
  ultimately show ?thesis using that [of t m3] t(2,3,5,6) by (simp add: u_def)
qed

text \<open>Message 4: the station is authorised.\<close>

lemma message_4_accepted:
  assumes c: "crypto_works c" and s: "sane s" "stage s = 2" and m: "counter_of m = replay s" and key: "ptk s = key"
  shows "snd (wifi_security_tx (Some c) iv (message_4 c key (mac s) (bssid s) m) s) = s\<lparr>stage := 4, authorized := True\<rparr>"
proof -
  define p where "p = station_frame c key (mac s) (bssid s) 0x030A (replay s) (replicate 32 0) []"
  have md: "mode s = 3" "length (mac s) = 6" "length (bssid s) = 6" "valid s" using s(1) by (simp_all add: sane_def)
  have i: "(0x030A :: nat) < 65536" "(0x030A :: nat) mod 8 = 2" "length (replicate 32 (0 :: u8)) = 32" "length ([] :: u8 list) < 200"
    by simp_all
  note ok = station_frame_ok [OF c md(1-3) i(3,4,1) bits_of_info(4,5) i(2) refl p_def]
  have "eapol_tx c iv p s = advance_handshake c iv 0x030A 0 s"
    unfolding eapol_tx_def Let_def ok(5) using ok(4,6,7) s(2) ok(9) [of s] md(1) key by simp
  also have "... = s\<lparr>stage := 4, authorized := True\<rparr>"
    using s(2) md(1) bits_of_info(6) by (simp add: advance_handshake_def)
  finally show ?thesis
    using ok(1-3) md(4) by (simp add: wifi_security_tx_def message_4_def m p_def [symmetric])
qed

lemma keys_accepted:
  assumes "sane s" "stage s = 4" "authorized s" and p: "14 \<le> length p" "p ! 12 \<noteq> 0x88 \<or> p ! 13 \<noteq> 0x8E"
  shows "fst (wifi_security_tx x iv p (snd (wifi_security_key False 2 (take 16 (gtk s))
    (snd (wifi_security_key True 2 (take 16 (drop 32 (ptk s))) s)))))"
proof -
  have l: "length (take 16 (drop 32 (ptk s))) = 16" "length (take 16 (gtk s)) = 16" "mode s = 3" "valid s"
    using assms(1) by (simp_all add: sane_def)
  have ne: "take 16 (drop 32 (ptk s)) \<noteq> []" "take 16 (gtk s) \<noteq> []" using l(1,2) by (metis length_0_conv zero_neq_numeral)+
  have pk: "wifi_security_key True 2 (take 16 (drop 32 (ptk s))) s = (True, s\<lparr>pairwise := True\<rparr>)"
    using assms(2) l ne(1) by (simp add: wifi_security_key_def key_target_def set_key_def)
  have gk: "wifi_security_key False 2 (take 16 (gtk s)) (s\<lparr>pairwise := True\<rparr>) = (True, s\<lparr>pairwise := True, group := True\<rparr>)"
    using assms(2) l ne(2) by (simp add: wifi_security_key_def key_target_def set_key_def)
  show ?thesis using assms(3) p l(4) by (auto simp: pk gk wifi_security_tx_def)
qed

lemma handshake_gets_through:
  assumes "crypto_works c" and "sane s" and "length a = 32" and "length g = 32" and "length sn = 32" and "length kd < 200"
    and "14 \<le> length p" and "p ! 12 \<noteq> 0x88 \<or> p ! 13 \<noteq> 0x8E"
  shows "let (m1, s1) = wifi_security_pop 512 (wifi_security_start (Some c) (Some a) (Some g) s);
      key = transient_key c (pmk s) (mac s) (bssid s) (nonce_of m1) sn;
      (m3, s3) = wifi_security_pop 512 (snd (wifi_security_tx (Some c) iv (message_2 c key (mac s) (bssid s) sn kd m1) s1));
      s5 = snd (wifi_security_tx (Some c) iv (message_4 c key (mac s) (bssid s) m3) s3);
      s6 = snd (wifi_security_key True 2 (take 16 (drop 32 key)) s5);
      s7 = snd (wifi_security_key False 2 (take 16 g) s6)
    in (unwraps c unwrap \<longrightarrow> gtk_from c unwrap key (nonce_of m1) rsn_ie m3 = Some (take 16 g)) \<and>
       fst (wifi_security_tx x iv p s7)"
proof -
  obtain t m1 where t: "wifi_security_start (Some c) (Some a) (Some g) s = t\<lparr>stage := 1\<rparr>" "sane t" "stage t = 0"
    "mac t = mac s" "bssid t = bssid s" "pmk t = pmk s" "anonce t = a" "gtk t = g" "ptk t = replicate 64 0"
    "replay t = 1" "wifi_security_pop 512 (t\<lparr>stage := 1\<rparr>) = (m1, t\<lparr>stage := 1, pending_len := 0\<rparr>)"
    "counter_of m1 = 1" "nonce_of m1 = a"
    by (rule start_sends [OF assms(1-4)])
  define s1 where "s1 = t\<lparr>stage := 1, pending_len := 0\<rparr>"
  define key where "key = transient_key c (pmk s) (mac s) (bssid s) a sn"
  have s1: "sane s1" "stage s1 = 1" "counter_of m1 = replay s1" "mac s1 = mac s" "bssid s1 = bssid s" "gtk s1 = g"
    "key = transient_key c (pmk s1) (mac s1) (bssid s1) (anonce s1) sn"
    using t by (simp_all add: s1_def sane_def key_def)
  obtain u m3 where u: "snd (wifi_security_tx (Some c) iv (message_2 c key (mac s1) (bssid s1) sn kd m1) s1) = u\<lparr>stage := 2\<rparr>"
    "same_keys (s1\<lparr>ptk := key\<rparr>) u" "replay u = replay s1 + 1"
    "wifi_security_pop 512 (u\<lparr>stage := 2\<rparr>) = (m3, u\<lparr>stage := 2, pending_len := 0\<rparr>)" "counter_of m3 = replay s1 + 1"
    "\<And>unwrap. unwraps c unwrap \<Longrightarrow> gtk_from c unwrap key (anonce s1) rsn_ie m3 = Some (take 16 (gtk s1))"
    using message_2_accepted [OF assms(1) s1(1,2) assms(5,6) s1(3,7)] by blast
  define s3 where "s3 = u\<lparr>stage := 2, pending_len := 0\<rparr>"
  have kl: "length key = 64" unfolding key_def by (rule transient_key_length [OF assms(1)])
  have s3: "sane s3" "stage s3 = 2" "counter_of m3 = replay s3" "ptk s3 = key" "mac s3 = mac s" "bssid s3 = bssid s" "gtk s3 = g"
    using u s1(1,4-6) kl by (simp_all add: s3_def same_keys_def sane_def)
  have s5: "snd (wifi_security_tx (Some c) iv (message_4 c key (mac s) (bssid s) m3) s3) = s3\<lparr>stage := 4, authorized := True\<rparr>"
    using message_4_accepted [OF assms(1) s3(1-4)] by (simp add: s3(5,6))
  have "sane (s3\<lparr>stage := 4, authorized := True\<rparr>)" using s3(1) by (simp add: sane_def)
  from keys_accepted [OF this _ _ assms(7,8), of x iv]
  have data: "fst (wifi_security_tx x iv p (snd (wifi_security_key False 2 (take 16 g)
      (snd (wifi_security_key True 2 (take 16 (drop 32 key)) (s3\<lparr>stage := 4, authorized := True\<rparr>))))))"
    by (simp add: s3(4,7))
  have an: "anonce s1 = a" using t(7) by (simp add: s1_def)
  have tx2: "snd (wifi_security_tx (Some c) iv (message_2 c key (mac s) (bssid s) sn kd m1) s1) = u\<lparr>stage := 2\<rparr>"
    using u(1) by (simp add: s1(4,5))
  show ?thesis
    unfolding t(1) t(11) Let_def prod.case t(13) key_def [symmetric] s1_def [symmetric] tx2 u(4) s3_def [symmetric] s5
    using data u(6) s1(6) an by simp
qed

section \<open>Properties\<close>

text \<open>C2: A WPA2 station that knows the master key and follows the protocol gets through. It derives
  its key from the nonce of message 1, answers with message 2, accepts message 3 and finds the group
  key in it, answers with message 4, installs the pairwise key and the group key it found, and its
  data frames are then passed on.\<close>

theorem wifi_handshake_completes:
  assumes "crypto_works c" and "unwraps c unwrap" and "sane s" and "length a = 32" and "length g = 32" and "length sn = 32"
    and "length kd < 200" and "14 \<le> length p" and "p ! 12 \<noteq> 0x88 \<or> p ! 13 \<noteq> 0x8E"
  shows "let (m1, s1) = wifi_security_pop 512 (wifi_security_start (Some c) (Some a) (Some g) s);
      key = transient_key c (pmk s) (mac s) (bssid s) (nonce_of m1) sn;
      (m3, s3) = wifi_security_pop 512 (snd (wifi_security_tx (Some c) iv (message_2 c key (mac s) (bssid s) sn kd m1) s1));
      s5 = snd (wifi_security_tx (Some c) iv (message_4 c key (mac s) (bssid s) m3) s3);
      s6 = snd (wifi_security_key True 2 (take 16 (drop 32 key)) s5)
    in case gtk_from c unwrap key (nonce_of m1) rsn_ie m3 of
         None \<Rightarrow> False
       | Some gk \<Rightarrow> fst (wifi_security_tx x iv p (snd (wifi_security_key False 2 gk s6)))"
  using handshake_gets_through [OF assms(1,3-9), where unwrap = unwrap and iv = iv and x = x] assms(2) by (simp add: Let_def split_beta)

definition demo_crypto :: wifi_crypto where
  "demo_crypto = \<lparr>pbkdf2 = (\<lambda>_. Some (replicate 32 7)), hmac_sha1 = (\<lambda>k d. Some (replicate 20 (of_nat (length d)))),
     hmac_md5 = (\<lambda>k d. Some (replicate 16 (of_nat (length d)))), aes_wrap = (\<lambda>k d. Some (d @ replicate 8 0))\<rparr>"

definition demo_unwrap :: "u8 list \<Rightarrow> u8 list \<Rightarrow> u8 list option" where
  "demo_unwrap k w = Some (take (length w - 8) w)"

lemma demo_unwraps: "unwraps demo_crypto demo_unwrap"
  by (simp add: unwraps_def demo_crypto_def demo_unwrap_def)

definition demo_ap :: wifi_security where
  "demo_ap = wifi_security_init (Some demo_crypto) (Some ''wpa2'') (Some (replicate 8 97)) [2, 0, 0, 0, 0, 1]"

definition demo_data :: "u8 list" where
  "demo_data = replicate 60 8"

lemma demo_facts:
  "crypto_works demo_crypto" "sane demo_ap" "length (replicate 32 (1 :: u8)) = 32" "length (replicate 32 (2 :: u8)) = 32"
  "length (replicate 32 (3 :: u8)) = 32" "length ([] :: u8 list) < 200" "14 \<le> length demo_data"
  "demo_data ! 12 \<noteq> 0x88 \<or> demo_data ! 13 \<noteq> 0x8E"
  by (simp_all add: crypto_works_def demo_crypto_def demo_data_def demo_ap_def wifi_security_init_def wifi_mode_def
      wifi_security_configure_def configure_wpa_def wifi_security_reset_def sane_def rsn_ie_def overlay_def)

theorem wifi_handshake_completes_witness:
  "let (m1, s1) = wifi_security_pop 512 (wifi_security_start (Some demo_crypto) (Some (replicate 32 1)) (Some (replicate 32 2)) demo_ap);
      key = transient_key demo_crypto (pmk demo_ap) (mac demo_ap) (bssid demo_ap) (nonce_of m1) (replicate 32 3);
      (m3, s3) = wifi_security_pop 512 (snd (wifi_security_tx (Some demo_crypto) None
        (message_2 demo_crypto key (mac demo_ap) (bssid demo_ap) (replicate 32 3) [] m1) s1));
      s5 = snd (wifi_security_tx (Some demo_crypto) None (message_4 demo_crypto key (mac demo_ap) (bssid demo_ap) m3) s3);
      s6 = snd (wifi_security_key True 2 (take 16 (drop 32 key)) s5)
    in case gtk_from demo_crypto demo_unwrap key (nonce_of m1) rsn_ie m3 of
         None \<Rightarrow> False
       | Some gk \<Rightarrow> fst (wifi_security_tx None None demo_data (snd (wifi_security_key False 2 gk s6)))"
  by (rule wifi_handshake_completes [OF demo_facts(1) demo_unwraps demo_facts(2-8)])

lemma frame_passed:
  assumes "mode s = 2 \<or> mode s = 3" and "fold (watched_step c) es (wifi_security_reset s, nothing) = (t, h)"
    and "fst (wifi_security_tx x iv p t)"
  shows "(if mode t = 3 then 2 else 3) \<le> frames h \<and> pair_key h = Some (key_target True t) \<and>
    group_key h = Some (key_target False t)"
proof -
  have "earned (wifi_security_reset s, nothing)" using assms(1) by (simp add: wifi_security_reset_def frames_needed_def)
  then have "earned (fold (watched_step c) es (wifi_security_reset s, nothing))" by (rule security.run_inv)
  then have e: "earned (t, h)" by (simp only: assms(2))
  then have "authorized t \<and> pairwise t \<and> group t"
    using assms(3) by (auto simp: wifi_security_tx_def split: if_splits)
  then show ?thesis using e by (auto simp: frames_needed_def split: if_splits)
qed

text \<open>C1: No data frame leaves a WPA or WPA2 station before it has proved the key and installed both
  keys. Whatever frames, key installations, rekeyings and restarts happen, an Ethernet frame is passed
  on only if, since the last start, as many frames with a valid integrity code were received as the
  handshake has messages, the pairwise key the driver installed last is the agreed one, and the group
  key installed last is the current one.\<close>

theorem wifi_data_needs_handshake:
  assumes "mode s = 2 \<or> mode s = 3" and "fold (watched_step c) es (wifi_security_reset s, nothing) = (t, h)"
    and "fst (wifi_security_tx x iv p t)"
  shows "(if mode t = 3 then 2 else 3) \<le> frames h \<and> pair_key h = Some (key_target True t) \<and>
    group_key h = Some (key_target False t)"
  using assms by (rule frame_passed)

text \<open>The honest run as a history.\<close>

definition honest_run :: "wifi_crypto \<Rightarrow> u8 list \<Rightarrow> u8 list \<Rightarrow> u8 list \<Rightarrow> wifi_security \<Rightarrow> security_event list" where
  "honest_run c a g sn s =
     (let (m1, s1) = wifi_security_pop 512 (wifi_security_start (Some c) (Some a) (Some g) s);
          key = transient_key c (pmk s) (mac s) (bssid s) (nonce_of m1) sn;
          (m3, s3) = wifi_security_pop 512 (snd (wifi_security_tx (Some c) None (message_2 c key (mac s) (bssid s) sn [] m1) s1))
      in [Start (Some a) (Some g), Pop 512, Frame None (message_2 c key (mac s) (bssid s) sn [] m1), Pop 512,
          Frame None (message_4 c key (mac s) (bssid s) m3), Key True 2 (take 16 (drop 32 key)), Key False 2 (take 16 g)])"

lemma watched_state: "fst (fold (watched_step c) es (s, h)) = fold (security_step c) es s"
  by (induction es arbitrary: s h) simp_all

lemma start_reset: "wifi_security_start c a g (wifi_security_reset s) = wifi_security_start c a g s"
  by (simp add: wifi_security_start_def wifi_security_reset_def)

lemma honest_run_accepted:
  "fst (wifi_security_tx x None demo_data (fold (security_step demo_crypto)
     (honest_run demo_crypto (replicate 32 1) (replicate 32 2) (replicate 32 3) demo_ap) (wifi_security_reset demo_ap)))"
  using handshake_gets_through [OF demo_facts, where iv = None and x = x]
  by (simp add: honest_run_def Let_def split_beta start_reset)

theorem wifi_data_needs_handshake_witness:
  "let (t, h) = fold (watched_step demo_crypto)
      (honest_run demo_crypto (replicate 32 1) (replicate 32 2) (replicate 32 3) demo_ap) (wifi_security_reset demo_ap, nothing)
   in 2 \<le> frames h \<and> pair_key h = Some (key_target True t) \<and> group_key h = Some (key_target False t)"
proof -
  let ?es = "honest_run demo_crypto (replicate 32 1) (replicate 32 2) (replicate 32 3) demo_ap"
  obtain t h where r: "fold (watched_step demo_crypto) ?es (wifi_security_reset demo_ap, nothing) = (t, h)"
    by (cases "fold (watched_step demo_crypto) ?es (wifi_security_reset demo_ap, nothing)")
  have t: "t = fold (security_step demo_crypto) ?es (wifi_security_reset demo_ap)"
    using r watched_state by (metis fst_conv)
  have "mode demo_ap = 2 \<or> mode demo_ap = 3" using demo_facts(2) by (simp add: sane_def)
  from wifi_data_needs_handshake [OF this r honest_run_accepted [of None, folded t]]
  show ?thesis by (simp add: r split: if_splits)
qed

end
