(* ===== verification/Wl54cf.thy ===== *)
theory Wl54cf
  imports Wifi_Security
begin

text \<open>
  The Marvell wireless card (\<open>src/hw/wl54cf.c\<close>): firmware download, the station commands, data
  frames in both directions and the register window, with the access point of
  \<open>Wifi_Security\<close> behind it. Accesses outside the 2048-byte buffers show: a walk over a command's lists
  that leaves the command buffer, which the code can do, is the value \<open>None\<close>, and any other byte read or
  stored outside a buffer sets its \<open>overrun\<close>. Frames handed to the network are recorded in \<open>sent\<close>.
\<close>

section \<open>State\<close>

record wl_buffer =
  bytes :: "u8 list"
  blen :: nat
  bpos :: nat
  overrun :: bool

record wl54cf =
  station :: "u8 list"
  security :: wifi_security
  wep :: "u8 list list"
  wep_len :: "nat list"
  wep_index :: nat
  rsn :: bool
  firmware_stage :: nat
  irq_mask :: u16
  cause :: u16
  host_status :: u16
  mac_control :: u16
  request :: nat
  firmware_payload :: nat
  helper_bytes :: nat
  firmware_bytes :: nat
  authenticated :: bool
  associated :: bool
  radio :: bool
  channel :: nat
  command :: wl_buffer
  response :: wl_buffer
  txbuf :: wl_buffer
  rxbufs :: "wl_buffer list"
  rx_head :: nat
  rx_count :: nat
  transmit :: bool
  sent :: "u8 list list"

abbreviation (input) WL54CF_BUFFER :: nat where "WL54CF_BUFFER \<equiv> 2048"
abbreviation (input) WL54CF_QUEUE :: nat where "WL54CF_QUEUE \<equiv> 8"

text \<open>OpenSSL and the random bytes one call may draw: two for an association, one for a frame.\<close>

record wifi_env =
  crypto :: "wifi_crypto option"
  random1 :: "u8 list option"
  random2 :: "u8 list option"
  random3 :: "u8 list option"

definition ap_bssid :: "u8 list" where
  "ap_bssid = [2, 0x42, 0x45, 0x33, 0x30, 0x30]"

definition rates :: "u8 list" where
  "rates = [0x82, 0x84, 0x8B, 0x96, 12, 18, 24, 36, 48, 72, 96, 108]"

definition ssid_text :: "u8 list" where
  "ssid_text = [66, 69, 51, 48, 48]"

section \<open>Little-endian fields\<close>

definition get16 :: "u8 list \<Rightarrow> nat \<Rightarrow> nat" where
  "get16 p i = unat (p ! i) + 256 * unat (p ! (i + 1))"

definition get32 :: "u8 list \<Rightarrow> nat \<Rightarrow> nat" where
  "get32 p i = get16 p i + 65536 * get16 p (i + 2)"

definition le16 :: "nat \<Rightarrow> u8 list" where
  "le16 v = [of_nat v, of_nat (v div 256)]"

definition le32 :: "nat \<Rightarrow> u8 list" where
  "le32 v = le16 v @ le16 (v div 65536)"

definition empty_buffer :: wl_buffer where
  "empty_buffer = \<lparr>bytes = replicate WL54CF_BUFFER 0, blen = 0, bpos = 0, overrun = False\<rparr>"

definition fill :: "nat \<Rightarrow> u8 list \<Rightarrow> wl_buffer \<Rightarrow> wl_buffer" where
  "fill off bs b = b\<lparr>bytes := overlay off bs (bytes b), overrun := overrun b \<or> off + length bs > length (bytes b)\<rparr>"

text \<open>Bytes read at a place the guest chooses.\<close>

definition touch :: "nat \<Rightarrow> nat \<Rightarrow> wl_buffer \<Rightarrow> wl_buffer" where
  "touch off n b = b\<lparr>overrun := overrun b \<or> off + n > length (bytes b)\<rparr>"

section \<open>Reset and firmware download\<close>

definition wl54cf_reset :: "wl54cf \<Rightarrow> wl54cf" where
  "wl54cf_reset s =
     s\<lparr>security := wifi_security_reset (security s), wep := replicate 4 (replicate 16 0), wep_len := replicate 4 0,
       wep_index := 0, rsn := False, firmware_stage := 0, irq_mask := 31, cause := 0, host_status := 0, mac_control := 0,
       request := 0, firmware_payload := 0, helper_bytes := 0, firmware_bytes := 0, authenticated := False,
       associated := False, radio := True, channel := 3, command := empty_buffer, response := empty_buffer,
       txbuf := empty_buffer, rxbufs := replicate WL54CF_QUEUE empty_buffer, rx_head := 0, rx_count := 0\<rparr>"

definition wl54cf_init :: "wifi_security \<Rightarrow> u8 list \<Rightarrow> bool \<Rightarrow> wl54cf" where
  "wl54cf_init ap m tx = wl54cf_reset \<lparr>station = m, security = ap, wep = [], wep_len = [], wep_index = 0, rsn = False,
     firmware_stage = 0, irq_mask = 0, cause = 0, host_status = 0, mac_control = 0, request = 0, firmware_payload = 0,
     helper_bytes = 0, firmware_bytes = 0, authenticated = False, associated = False, radio = False, channel = 0,
     command = empty_buffer, response = empty_buffer, txbuf = empty_buffer, rxbufs = [], rx_head = 0, rx_count = 0,
     transmit = tx, sent = []\<rparr>"

definition wl54cf_irq_pending :: "wl54cf \<Rightarrow> bool" where
  "wl54cf_irq_pending s \<longleftrightarrow> cause s AND NOT (irq_mask s) AND 31 \<noteq> 0"

definition firmware_fail :: "wl54cf \<Rightarrow> wl54cf" where
  "firmware_fail s = s\<lparr>firmware_stage := 3, request := 0\<rparr>"

definition helper_block :: "wl54cf \<Rightarrow> wl54cf" where
  "helper_block s =
     (let n = blen (command s)
      in if n = 0 then (if helper_bytes s = 0 then firmware_fail s else s\<lparr>firmware_stage := 1, request := 16\<rparr>)
         else if n > 256 \<or> odd n \<or> helper_bytes s > 65536 - n then firmware_fail s
         else s\<lparr>helper_bytes := helper_bytes s + n\<rparr>)"

definition image_block :: "wl54cf \<Rightarrow> wl54cf" where
  "image_block s =
     (let c = command s
      in if blen c \<noteq> request s then firmware_fail s
         else
           let s = s\<lparr>firmware_bytes := firmware_bytes s + blen c\<rparr>
           in if firmware_bytes s > 512 * 1024 then firmware_fail s
              else if firmware_payload s \<noteq> 0 then s\<lparr>firmware_payload := 0, request := 16\<rparr>
              else
                let cmd = get32 (bytes c) 0; len = get32 (bytes c) 8
                in if cmd = 4 \<and> len = 0 then
                     (if firmware_bytes s \<le> 16 then firmware_fail s else s\<lparr>firmware_stage := 2, request := 0\<rparr>)
                   else if cmd = 1 \<and> len \<noteq> 0 \<and> len \<le> WL54CF_BUFFER \<and> even len then
                     s\<lparr>firmware_payload := len, request := len\<rparr>
                   else firmware_fail s)"

definition firmware_block :: "wl54cf \<Rightarrow> wl54cf" where
  "firmware_block s =
     (if bpos (command s) \<noteq> blen (command s) \<or> blen (command s) > WL54CF_BUFFER then firmware_fail s
      else if firmware_stage s = 0 then helper_block s
      else if firmware_stage s = 1 then image_block s
      else s)"

section \<open>Type-length-value lists\<close>

text \<open>The walk reads at \<open>off\<close> while \<open>n\<close> bytes are left, wherever that leads: past the
  buffer it faults.\<close>

datatype tlv_result = Fault | Absent | Found nat nat

function tlv :: "u8 list \<Rightarrow> nat \<Rightarrow> nat \<Rightarrow> nat \<Rightarrow> tlv_result" where
  "tlv data ty off n =
     (if n < 4 then Absent
      else if off + 4 > length data then Fault
      else let t = get16 data off; l = get16 data (off + 2)
           in if l > n - 4 then Absent
              else if t = ty then Found (off + 4) l
              else tlv data ty (off + 4 + l) (n - (4 + l)))"
  by pat_completeness auto

termination
  by (relation "measure (\<lambda>(data, ty, off, n). n)") auto

declare tlv.simps [simp del]

function valid_tlvs :: "u8 list \<Rightarrow> nat \<Rightarrow> nat \<Rightarrow> bool option" where
  "valid_tlvs data off n =
     (if n < 4 then Some (n = 0)
      else if off + 4 > length data then None
      else let l = get16 data (off + 2)
           in if l > n - 4 then Some False else valid_tlvs data (off + 4 + l) (n - (4 + l)))"
  by pat_completeness auto

termination
  by (relation "measure (\<lambda>(data, off, n). n)") auto

declare valid_tlvs.simps [simp del]

definition bytes_at :: "u8 list \<Rightarrow> nat \<Rightarrow> nat \<Rightarrow> u8 list" where
  "bytes_at data off n = take n (drop off data)"

section \<open>Station commands\<close>

text \<open>Each command takes the length \<open>n\<close> of the request and returns the result code and the state with
  the body of the response filled in.\<close>

definition reply :: "nat \<Rightarrow> (nat \<times> u8 list) list \<Rightarrow> wl54cf \<Rightarrow> wl54cf" where
  "reply len parts s = s\<lparr>response := (fold (\<lambda>(off, bs). fill off bs) parts (response s))\<lparr>blen := len\<rparr>\<rparr>"

definition cmd_hw_spec :: "nat \<Rightarrow> wl54cf \<Rightarrow> nat \<times> wl54cf" where
  "cmd_hw_spec n s =
     (if n < 46 then (2, s)
      else (0, reply 46 [(8, le16 1), (10, le16 0x12), (12, le16 1), (14, le16 32), (16, station s), (22, le16 0x10),
                         (24, le16 2), (26, le32 0x00030208), (42, le32 0x303)] s))"

definition beacon :: "wl54cf \<Rightarrow> u8 list" where
  "beacon s = ap_bssid @ [40] @ replicate 8 0 @ le16 100 @ le16 (if mode (security s) \<noteq> 0 then 0x11 else 1) @
     [0, 5] @ ssid_text @ [1, 8] @ take 8 rates @ [50, 4] @ drop 8 rates @ [3, 1, 3] @
     take (ie_len (security s)) (ie (security s))"

definition cmd_scan :: "nat \<Rightarrow> wl54cf \<Rightarrow> (nat \<times> wl54cf) option" where
  "cmd_scan n s =
     (let d = bytes (command s)
      in case (if n < 15 then Some False else valid_tlvs d 15 (n - 15)) of
           None \<Rightarrow> None
         | Some False \<Rightarrow> Some (2, s)
         | Some True \<Rightarrow>
             (case tlv d 0 15 (n - 15) of
                Fault \<Rightarrow> None
              | r \<Rightarrow>
                  let wanted = (case r of Found off l \<Rightarrow> l = 0 \<or> l = 5 \<and> bytes_at d off 5 = ssid_text | _ \<Rightarrow> True);
                      b = bytes_at d 9 6;
                      found = radio s \<and> (d ! 8 = 1 \<or> d ! 8 = 3) \<and> (b = ap_bssid \<or> b = replicate 6 0) \<and> wanted;
                      p = beacon s
                  in Some (0, if found
                              then reply (13 + length p) [(13, p), (11, le16 (length p)), (8, le16 (length p + 2)), (10, [1])] s
                              else reply 11 [] s)))"

definition cmd_authenticate :: "nat \<Rightarrow> wl54cf \<Rightarrow> nat \<times> wl54cf" where
  "cmd_authenticate n s =
     (let d = bytes (command s)
      in if n \<noteq> 25 \<or> bytes_at d 8 6 \<noteq> ap_bssid \<or> d ! 14 > 1 \<or> \<not> radio s then (2, s) else (0, s\<lparr>authenticated := True\<rparr>))"

text \<open>A comparison with \<open>k\<close> bytes of the command at \<open>off\<close>.\<close>

definition compare_at :: "u8 list \<Rightarrow> nat \<Rightarrow> u8 list \<Rightarrow> bool option" where
  "compare_at data off bs = (if off + length bs > length data then None else Some (bytes_at data off (length bs) = bs))"

definition assoc_basic :: "nat \<Rightarrow> wl54cf \<Rightarrow> bool option" where
  "assoc_basic n s =
     (let d = bytes (command s)
      in if n < 21 then Some False
         else case (tlv d 0 21 (n - 21), valid_tlvs d 21 (n - 21), tlv d 3 21 (n - 21)) of
                (Fault, _, _) \<Rightarrow> None
              | (_, None, _) \<Rightarrow> None
              | (_, _, Fault) \<Rightarrow> None
              | (Found so sl, Some v, Found co cl) \<Rightarrow>
                  (case (if v \<and> sl = 5 then compare_at d so ssid_text else Some False, if cl = 1 then compare_at d co [3] else Some False) of
                     (Some ssid, Some ch) \<Rightarrow>
                       Some (ssid \<and> bytes_at d 8 6 = ap_bssid \<and> authenticated s \<and> radio s \<and> channel s = 3 \<and> ch \<and>
                         valid (security s) \<and> (bit (get16 d 14) 4 \<longleftrightarrow> mode (security s) \<noteq> 0))
                   | _ \<Rightarrow> None)
              | _ \<Rightarrow> Some False)"

text \<open>The information element is looked for whatever the length of the request: \<open>n - 21\<close> is then a
  64-bit size. It is compared only if everything before is in order (\<open>ok\<close>).\<close>

definition assoc_rsn :: "bool \<Rightarrow> nat \<Rightarrow> wl54cf \<Rightarrow> bool option" where
  "assoc_rsn ok n s =
     (let d = bytes (command s); ap = security s; left = (if n < 21 then 2 ^ 64 + n - 21 else n - 21)
      in case tlv d (unat (ie ap ! 0)) 21 left of
           Fault \<Rightarrow> None
         | Absent \<Rightarrow> Some False
         | Found off l \<Rightarrow>
             if ok \<and> rsn s \<and> l = ie_len ap - 2 then compare_at d off (bytes_at (ie ap) 2 l) else Some False)"

definition assoc_ok :: "nat \<Rightarrow> wl54cf \<Rightarrow> bool option" where
  "assoc_ok n s =
     (case assoc_basic n s of
        None \<Rightarrow> None
      | Some ok \<Rightarrow>
          let wep_key = wifi_security_wep (security s) (wep_index s) (wep s ! wep_index s) (wep_len s ! wep_index s);
              ok = (ok \<and> (mode (security s) = 1 \<longrightarrow> wep_key))
          in if mode (security s) \<ge> 2 then assoc_rsn ok n s else Some ok)"

definition cmd_associate :: "wifi_env \<Rightarrow> nat \<Rightarrow> wl54cf \<Rightarrow> (nat \<times> wl54cf) option" where
  "cmd_associate e n s =
     (case assoc_ok n s of
        None \<Rightarrow> None
      | Some ok \<Rightarrow>
          Some (0, reply 14 [(8, le16 1), (10, le16 (if ok then 0 else 4)), (12, le16 (if ok then 1 else 0))]
            (s\<lparr>associated := ok,
               security := (if ok then wifi_security_start (crypto e) (random1 e) (random2 e) (security s) else security s)\<rparr>)))"

fun wep_keys :: "nat \<Rightarrow> nat \<Rightarrow> u8 list \<Rightarrow> u8 list list \<Rightarrow> nat list \<Rightarrow> bool \<times> u8 list list \<times> nat list" where
  "wep_keys i 0 d ks ls = (True, ks, ls)"
| "wep_keys i (Suc k) d ks ls =
     (let t = d ! (12 + i); l = (if t = 1 then 5 else if t = 2 then 13 else 0)
      in if t > 2 then (False, ks, ls)
         else wep_keys (i + 1) k d (ks[i := overlay 0 (bytes_at d (16 + 16 * i) l) (ks ! i)]) (ls[i := l]))"

definition cmd_set_wep :: "nat \<Rightarrow> wl54cf \<Rightarrow> nat \<times> wl54cf" where
  "cmd_set_wep n s =
     (let d = bytes (command s)
      in if n \<noteq> 80 \<or> get16 d 10 > 3 then (2, s)
         else let s = s\<lparr>wep_index := get16 d 10, wep := replicate 4 (replicate 16 0), wep_len := replicate 4 0\<rparr>
              in if get16 d 8 = 2
                 then (let (ok, ks, ls) = wep_keys 0 4 d (wep s) (wep_len s) in (if ok then 0 else 2, s\<lparr>wep := ks, wep_len := ls\<rparr>))
                 else (if get16 d 8 \<noteq> 4 then 2 else 0, s))"

definition cmd_rsn :: "nat \<Rightarrow> wl54cf \<Rightarrow> nat \<times> wl54cf" where
  "cmd_rsn n s =
     (let d = bytes (command s)
      in if n \<noteq> 12 \<or> get16 d 8 \<noteq> 1 \<or> get16 d 10 > 1 then (2, s) else (0, s\<lparr>rsn := get16 d 10 \<noteq> 0\<rparr>))"

definition cmd_key_material :: "nat \<Rightarrow> wl54cf \<Rightarrow> nat \<times> wl54cf" where
  "cmd_key_material n s =
     (let d = bytes (command s)
      in if n \<noteq> 52 \<or> get16 d 8 \<noteq> 1 \<or> get16 d 10 \<noteq> 0x100 \<or> get16 d 12 \<noteq> 38 \<or> get16 d 18 > 32 then (2, s)
         else let (ok, ap) = wifi_security_key (bit (get16 d 16) 1) (get16 d 14) (bytes_at d 20 (get16 d 18)) (security s)
              in (if ok then 0 else 2, s\<lparr>security := ap\<rparr>))"

definition cmd_deauthenticate :: "nat \<Rightarrow> wl54cf \<Rightarrow> nat \<times> wl54cf" where
  "cmd_deauthenticate n s =
     (if n \<noteq> 16 then (2, s)
      else (0, s\<lparr>associated := False, authenticated := False, security := wifi_security_reset (security s)\<rparr>))"

definition cmd_mac_control :: "nat \<Rightarrow> wl54cf \<Rightarrow> nat \<times> wl54cf" where
  "cmd_mac_control n s =
     (let d = bytes (command s); v = of_nat (get16 d 8) :: u16
      in if n \<noteq> 12 \<or> v AND NOT 0x1DB \<noteq> 0 then (2, s)
         else (0, reply n [(8, bytes_at d 8 (n - 8))] (s\<lparr>mac_control := v\<rparr>)))"

definition cmd_radio_control :: "nat \<Rightarrow> wl54cf \<Rightarrow> nat \<times> wl54cf" where
  "cmd_radio_control n s =
     (let d = bytes (command s)
      in if n \<noteq> 12 \<or> get16 d 8 \<noteq> 1 then (2, s)
         else let s = s\<lparr>radio := odd (get16 d 10)\<rparr>;
                  s = (if radio s then s else s\<lparr>associated := False, authenticated := False\<rparr>)
              in (0, reply n [(8, bytes_at d 8 (n - 8))] s))"

definition run_command :: "wifi_env \<Rightarrow> nat \<Rightarrow> nat \<Rightarrow> wl54cf \<Rightarrow> (nat \<times> wl54cf) option" where
  "run_command e op n s =
     (if op = 3 then Some (cmd_hw_spec n s) else if op = 6 then cmd_scan n s
      else if op = 0x11 then Some (cmd_authenticate n s) else if op = 0x50 then cmd_associate e n s
      else if op = 0x13 then Some (cmd_set_wep n s) else if op = 0x2F then Some (cmd_rsn n s)
      else if op = 0x5E then Some (cmd_key_material n s) else if op = 0x24 then Some (cmd_deauthenticate n s)
      else if op = 0x28 then Some (cmd_mac_control n s) else if op = 0x1C then Some (cmd_radio_control n s)
      else Some (2, s))"

definition finish_response :: "nat \<Rightarrow> wl54cf \<Rightarrow> wl54cf" where
  "finish_response result s =
     (let len = blen (response s)
      in (reply (len + 8) [(2, le16 len), (6, le16 result), (len, replicate 8 0)] s)\<lparr>cause := cause s OR 8\<rparr>)"

definition station_command :: "wifi_env \<Rightarrow> wl54cf \<Rightarrow> wl54cf option" where
  "station_command e s =
     (if cause s AND 8 \<noteq> 0 then Some s
      else
        let c = command s; s = s\<lparr>response := empty_buffer\<rparr>
        in if blen c < 8 \<or> blen c > WL54CF_BUFFER \<or> bpos c \<noteq> blen c then Some s
           else
             let op = get16 (bytes c) 0; n = get16 (bytes c) 2;
                 s = reply 8 [(0, le16 (if op < 0x8000 then op + 0x8000 else op)), (4, bytes_at (bytes c) 4 2)] s
             in if n \<noteq> blen c \<or> op \<ge> 0x8000 then Some (finish_response 2 s)
                else map_option (\<lambda>(result, s). finish_response result s) (run_command e op n s))"

section \<open>Data frames\<close>

definition tx_frame :: "wl54cf \<Rightarrow> u8 list option" where
  "tx_frame s =
     (let b = txbuf s; off = get32 (bytes b) 8; n = get16 (bytes b) 12
      in if blen b \<ge> 24 \<and> blen b \<le> WL54CF_BUFFER \<and> bpos b = blen b \<and> associated s \<and> mac_control s AND 2 \<noteq> 0 \<and>
            off \<ge> 24 \<and> off \<le> blen b \<and> n \<ge> 14 \<and> n \<le> 1514 \<and> n \<le> blen b - off \<and> transmit s
         then Some (bytes_at (bytes b) off n) else None)"

definition wl_transmit :: "wifi_env \<Rightarrow> wl54cf \<Rightarrow> wl54cf" where
  "wl_transmit e s =
     (let b = txbuf s;
          s' = (case tx_frame s of
                  None \<Rightarrow> s
                | Some f \<Rightarrow> (case wifi_security_tx (crypto e) (random3 e) f (security s) of (pass, ap) \<Rightarrow>
                    s\<lparr>txbuf := touch (get32 (bytes b) 8) (get16 (bytes b) 12) b, security := ap,
                      sent := (if pass then sent s @ [f] else sent s)\<rparr>))
      in s'\<lparr>cause := cause s' OR 1\<rparr>)"

definition wl_accepts :: "wl54cf \<Rightarrow> u8 list \<Rightarrow> bool" where
  "wl_accepts s p \<longleftrightarrow>
     (let broadcast = (take 6 p = replicate 6 0xFF); m = mac_control s
      in associated s \<and> m AND 1 \<noteq> 0 \<and> 14 \<le> length p \<and> length p \<le> 1514 \<and> rx_count s \<noteq> WL54CF_QUEUE \<and>
         (p ! 12 = 0x88 \<and> p ! 13 = 0x8E \<or> authorized (security s)) \<and>
         (take 6 p = station s \<or> m AND 0x80 \<noteq> 0 \<or> broadcast \<and> m AND 0x40 \<noteq> 0 \<or>
          odd (unat (p ! 0)) \<and> \<not> broadcast \<and> m AND 0x100 \<noteq> 0))"

definition rx_image :: "u8 list \<Rightarrow> u8 list" where
  "rx_image p =
     (let n = length p
      in le16 1 @ [40, 0] @ le16 (n + 8) @ [96, 11] @ le32 20 @ replicate 8 0 @ take 12 p @
         [of_nat ((n - 6) div 256), of_nat (n - 6)] @ [0xAA, 0xAA, 3, 0, 0, 0] @ drop 12 p)"

definition wl54cf_receive :: "u8 list \<Rightarrow> wl54cf \<Rightarrow> bool \<times> wl54cf" where
  "wl54cf_receive p s =
     (if \<not> wl_accepts s p then (False, s)
      else
        let slot = (rx_head s + rx_count s) mod WL54CF_QUEUE;
            b = (fill 0 (rx_image p) empty_buffer)\<lparr>blen := 20 + length p + 8\<rparr>
        in (True, s\<lparr>rxbufs := (rxbufs s)[slot := b], rx_count := rx_count s + 1, cause := cause s OR 2\<rparr>))"

section \<open>The register window\<close>

fun stream_read_loop :: "nat \<Rightarrow> nat \<Rightarrow> u64 \<Rightarrow> wl_buffer \<Rightarrow> u64 \<times> wl_buffer" where
  "stream_read_loop i 0 v b = (v, b)"
| "stream_read_loop i (Suc k) v b =
     (if bpos b < blen b
      then stream_read_loop (i + 1) k (v OR push_bit (8 * i) (ucast (bytes b ! bpos b)))
        ((touch (bpos b) 1 b)\<lparr>bpos := bpos b + 1\<rparr>)
      else stream_read_loop (i + 1) k (v OR push_bit (8 * i) 0xFF) b)"

definition stream_read :: "nat \<Rightarrow> wl_buffer \<Rightarrow> u64 \<times> wl_buffer" where
  "stream_read sz b = stream_read_loop 0 sz 0 b"

definition deliver_pending :: "wl54cf \<Rightarrow> wl54cf" where
  "deliver_pending s =
     (let ap = security s
      in if pending_len ap \<noteq> 0 \<and> associated s \<and> rx_count s < WL54CF_QUEUE
         then (case wl54cf_receive (take (pending_len ap) (pending ap)) s of (took, t) \<Rightarrow>
                 if took then t\<lparr>security := (security t)\<lparr>pending_len := 0\<rparr>\<rparr> else t)
         else s)"

definition reg_word :: "nat \<Rightarrow> wl54cf \<Rightarrow> u16" where
  "reg_word a s =
     (if a = 0 then host_status s else if a = 4 then irq_mask s else if a = 0x14 then of_nat (blen (txbuf s))
      else if a = 0x18 then of_nat (blen (command s)) else if a = 0x1C then 0x12
      else if a = 0x20 then (if firmware_stage s = 2 then 1 OR 4 OR (cause s AND (2 OR 8))
                             else if firmware_stage s < 2 then 4 else 0)
      else if a = 0x22 then cause s
      else if a = 0x24 then (if rx_count s \<noteq> 0 then of_nat (blen (rxbufs s ! rx_head s)) else 0)
      else if a = 0x28 then of_nat (request s) else if a = 0x30 then of_nat (blen (response s))
      else if a = 0x3E then (if firmware_stage s = 2 then 0x5A00 else 0) else 0)"

definition reg_byte :: "nat \<Rightarrow> wl54cf \<Rightarrow> u8" where
  "reg_byte a s = ucast (drop_bit (8 * (a mod 2)) (reg_word (a - a mod 2) s))"

definition wl54cf_read :: "nat \<Rightarrow> nat \<Rightarrow> wl54cf \<Rightarrow> u64 \<times> wl54cf" where
  "wl54cf_read off sz s =
     (let s = deliver_pending s
      in if sz = 0 \<or> sz > 8 \<or> off \<ge> 64 \<or> sz > 64 - off then (NOT 0, s)
         else if off = 0x10 then
           (if rx_count s = 0 then (NOT 0, s)
            else let (v, b) = stream_read sz (rxbufs s ! rx_head s) in (v, s\<lparr>rxbufs := (rxbufs s)[rx_head s := b]\<rparr>))
         else if off = 0x12 then (let (v, b) = stream_read sz (response s) in (v, s\<lparr>response := b\<rparr>))
         else (lanes sz (\<lambda>i. reg_byte (off + i) s), s))"

fun stream_write_loop :: "nat \<Rightarrow> nat \<Rightarrow> u64 \<Rightarrow> wl_buffer \<Rightarrow> wl_buffer" where
  "stream_write_loop i 0 v b = b"
| "stream_write_loop i (Suc k) v b =
     stream_write_loop (i + 1) k v
       (if bpos b < blen b \<and> bpos b < WL54CF_BUFFER
        then (fill (bpos b) [byte_at v i] b)\<lparr>bpos := bpos b + 1\<rparr> else b)"

definition stream_write :: "nat \<Rightarrow> u64 \<Rightarrow> wl_buffer \<Rightarrow> wl_buffer" where
  "stream_write sz v b = stream_write_loop 0 sz v b"

text \<open>The doorbell at offset 2: command, transmit and receive-release, in this order.\<close>

definition ring_command :: "wifi_env \<Rightarrow> u16 \<Rightarrow> wl54cf \<Rightarrow> wl54cf option" where
  "ring_command e v s =
     (if v AND 4 = 0 then Some s
      else if firmware_stage s < 2 then Some (firmware_block s)
      else if firmware_stage s = 2 then station_command e s
      else Some s)"

definition ring_data :: "wifi_env \<Rightarrow> u16 \<Rightarrow> wl54cf \<Rightarrow> wl54cf" where
  "ring_data e v s =
     (let s = (if v AND 1 \<noteq> 0 \<and> firmware_stage s = 2 then wl_transmit e s else s);
          s = (if v AND 2 \<noteq> 0 \<and> rx_count s \<noteq> 0
               then s\<lparr>rx_head := (rx_head s + 1) mod WL54CF_QUEUE, rx_count := rx_count s - 1\<rparr> else s)
      in s\<lparr>host_status := 0\<rparr>)"

definition acknowledge :: "u16 \<Rightarrow> wl54cf \<Rightarrow> wl54cf" where
  "acknowledge v s =
     (let s = s\<lparr>cause := cause s AND NOT v\<rparr>;
          s = (if v AND 8 \<noteq> 0 then s\<lparr>response := (response s)\<lparr>blen := 0, bpos := 0\<rparr>\<rparr> else s)
      in if rx_count s \<noteq> 0 then s\<lparr>cause := cause s OR 2\<rparr> else s)"

definition wl54cf_write :: "wifi_env \<Rightarrow> nat \<Rightarrow> nat \<Rightarrow> u64 \<Rightarrow> wl54cf \<Rightarrow> wl54cf option" where
  "wl54cf_write e off sz v s =
     (let w = ucast v :: u16
      in if sz = 0 \<or> sz > 8 \<or> off \<ge> 64 \<or> sz > 64 - off then Some s
         else if off = 0x16 then Some (s\<lparr>txbuf := stream_write sz v (txbuf s)\<rparr>)
         else if off = 0x1A then Some (s\<lparr>command := stream_write sz v (command s)\<rparr>)
         else if sz \<noteq> 1 \<and> sz \<noteq> 2 \<or> odd off then Some s
         else if off = 0 then Some (s\<lparr>host_status := w AND 31\<rparr>)
         else if off = 2 then map_option (ring_data e (w AND host_status s)) (ring_command e (w AND host_status s) s)
         else if off = 4 then Some (s\<lparr>irq_mask := w AND 31\<rparr>)
         else if off = 0x14 then Some (s\<lparr>txbuf := (txbuf s)\<lparr>blen := unat w, bpos := 0\<rparr>\<rparr>)
         else if off = 0x18 then Some (s\<lparr>command := (command s)\<lparr>blen := unat w, bpos := 0\<rparr>\<rparr>)
         else if off = 0x22 then Some (acknowledge w s)
         else Some s)"

end
