(* ===== verification/Wl54cf_Card.thy ===== *)
theory Wl54cf_Card
  imports Wl54cf Wifi_Handshake
begin

text \<open>
  Histories of the Marvell card: window accesses, frames from the network and resets. What the card
  does to the access point behind it is a history of \<open>Wifi_Security\<close>; the card's buffers stay
  within their bounds.
\<close>

section \<open>Accesses\<close>

datatype wl_event =
    Read nat nat
  | Write "u8 list option" "u8 list option" "u8 list option" nat nat u64
  | Receive "u8 list"
  | Card_Reset

definition env_of :: "wifi_crypto \<Rightarrow> u8 list option \<Rightarrow> u8 list option \<Rightarrow> u8 list option \<Rightarrow> wifi_env" where
  "env_of c a g iv = \<lparr>crypto = Some c, random1 = a, random2 = g, random3 = iv\<rparr>"

lemma env_of_fields [simp]:
  "crypto (env_of c a g iv) = Some c" "random1 (env_of c a g iv) = a" "random2 (env_of c a g iv) = g" "random3 (env_of c a g iv) = iv"
  by (simp_all add: env_of_def)

fun wl_step :: "wifi_crypto \<Rightarrow> wl_event \<Rightarrow> wl54cf \<Rightarrow> wl54cf option" where
  "wl_step c (Read off sz) s = Some (snd (wl54cf_read off sz s))"
| "wl_step c (Write a g iv off sz v) s = wl54cf_write (env_of c a g iv) off sz v s"
| "wl_step c (Receive p) s = Some (snd (wl54cf_receive p s))"
| "wl_step c Card_Reset s = Some (wl54cf_reset s)"

fun wl_run :: "wifi_crypto \<Rightarrow> wl_event list \<Rightarrow> wl54cf \<Rightarrow> wl54cf option" where
  "wl_run c [] s = Some s"
| "wl_run c (e # es) s = Option.bind (wl_step c e s) (wl_run c es)"

lemma wl_run_append: "wl_run c (es @ fs) s = Option.bind (wl_run c es s) (wl_run c fs)"
  by (induction es arbitrary: s) (simp_all split: bind_split)

section \<open>What the access point sees\<close>

text \<open>The doorbell bits an access rings.\<close>

definition doorbell :: "nat \<Rightarrow> nat \<Rightarrow> u64 \<Rightarrow> wl54cf \<Rightarrow> u16" where
  "doorbell off sz v s = (if off = 2 \<and> (sz = 1 \<or> sz = 2) then ucast v AND host_status s else 0)"

definition command_history :: "u8 list option \<Rightarrow> u8 list option \<Rightarrow> wl54cf \<Rightarrow> security_event list" where
  "command_history a g s =
     (let d = bytes (command s); op = get16 d 0; n = get16 d 2
      in if firmware_stage s \<noteq> 2 \<or> cause s AND 8 \<noteq> 0 \<or> blen (command s) < 8 \<or> blen (command s) > WL54CF_BUFFER \<or>
            bpos (command s) \<noteq> blen (command s) \<or> n \<noteq> blen (command s) \<or> op \<ge> 0x8000 then []
         else if op = 0x50 then (if assoc_ok n s = Some True then [Start a g] else [])
         else if op = 0x24 then (if n = 16 then [Reset] else [])
         else if op = 0x5E then
           (if n = 52 \<and> get16 d 8 = 1 \<and> get16 d 10 = 0x100 \<and> get16 d 12 = 38 \<and> get16 d 18 \<le> 32
            then [Key (bit (get16 d 16) 1) (get16 d 14) (bytes_at d 20 (get16 d 18))] else [])
         else [])"

definition frame_history :: "u8 list option \<Rightarrow> wl54cf \<Rightarrow> security_event list" where
  "frame_history iv s = (case tx_frame s of None \<Rightarrow> [] | Some f \<Rightarrow> [Frame iv f])"

definition pending_history :: "wl54cf \<Rightarrow> security_event list" where
  "pending_history s =
     (let ap = security s
      in if pending_len ap \<noteq> 0 \<and> associated s \<and> rx_count s < WL54CF_QUEUE \<and> wl_accepts s (take (pending_len ap) (pending ap))
         then [Pop (pending_len ap)] else [])"

fun wl_history :: "wifi_crypto \<Rightarrow> wl_event \<Rightarrow> wl54cf \<Rightarrow> security_event list" where
  "wl_history c (Read off sz) s = pending_history s"
| "wl_history c (Write a g iv off sz v) s =
     (let w = doorbell off sz v s
      in (if w AND 4 \<noteq> 0 then command_history a g s else []) @
         (case ring_command (env_of c a g iv) w s of
            Some t \<Rightarrow> (if w AND 1 \<noteq> 0 \<and> firmware_stage t = 2 then frame_history iv t else [])
          | None \<Rightarrow> []))"
| "wl_history c (Receive p) s = []"
| "wl_history c Card_Reset s = [Reset]"

fun wl_histories :: "wifi_crypto \<Rightarrow> wl_event list \<Rightarrow> wl54cf \<Rightarrow> security_event list" where
  "wl_histories c [] s = []"
| "wl_histories c (e # es) s =
     wl_history c e s @ (case wl_step c e s of Some t \<Rightarrow> wl_histories c es t | None \<Rightarrow> [])"

lemma reply_fields [simp]:
  "security (reply n ps s) = security s" "sent (reply n ps s) = sent s" "command (reply n ps s) = command s"
  "associated (reply n ps s) = associated s" "firmware_stage (reply n ps s) = firmware_stage s"
  by (simp_all add: reply_def)

lemma assoc_response:
  "assoc_basic n (s\<lparr>response := r\<rparr>) = assoc_basic n s" "assoc_rsn ok n (s\<lparr>response := r\<rparr>) = assoc_rsn ok n s"
  by (simp_all add: assoc_basic_def assoc_rsn_def cong: if_cong tlv_result.case_cong prod.case_cong option.case_cong)

lemma assoc_ok_response [simp]: "assoc_ok n (s\<lparr>response := r\<rparr>) = assoc_ok n s"
  by (simp add: assoc_ok_def assoc_response cong: option.case_cong if_cong)

lemma assoc_ok_reply [simp]: "assoc_ok n (reply k ps s) = assoc_ok n s"
  by (simp add: reply_def)

lemma finish_response_fields [simp]:
  "security (finish_response r s) = security s" "sent (finish_response r s) = sent s"
  by (simp_all add: finish_response_def Let_def)

lemma security_if: "security (if b then s else t) = (if b then security s else security t)"
  "sent (if b then s else t) = (if b then sent s else sent t)" "command (if b then s else t) = (if b then command s else command t)"
  by simp_all

lemma firmware_block_fields [simp]:
  "security (firmware_block s) = security s" "sent (firmware_block s) = sent s"
  by (simp_all add: firmware_block_def helper_block_def image_block_def firmware_fail_def Let_def security_if
      cong: if_cong split del: if_split)

lemma scan_cases:
  assumes "cmd_scan n s = Some (r, t)"
  shows "t = s \<or> t = reply (13 + length (beacon s)) [(13, beacon s), (11, le16 (length (beacon s))), (8, le16 (length (beacon s) + 2)),
    (10, [1])] s \<or> t = reply 11 [] s"
  using assms by (simp add: cmd_scan_def Let_def split: if_split_asm tlv_result.split_asm option.split_asm bool.split_asm)

lemma scan_sent: "cmd_scan n s = Some (r, t) \<Longrightarrow> security t = security s \<and> sent t = sent s"
  by (drule scan_cases) auto

lemma set_wep_sent: "security (snd (cmd_set_wep n s)) = security s" "sent (snd (cmd_set_wep n s)) = sent s"
  by (simp_all add: cmd_set_wep_def Let_def split_beta)

lemma command_sent:
  "security (snd (cmd_hw_spec n s)) = security s" "sent (snd (cmd_hw_spec n s)) = sent s"
  "security (snd (cmd_authenticate n s)) = security s" "sent (snd (cmd_authenticate n s)) = sent s"
  "security (snd (cmd_rsn n s)) = security s" "sent (snd (cmd_rsn n s)) = sent s"
  "security (snd (cmd_mac_control n s)) = security s" "sent (snd (cmd_mac_control n s)) = sent s"
  "security (snd (cmd_radio_control n s)) = security s" "sent (snd (cmd_radio_control n s)) = sent s"
  "sent (snd (cmd_deauthenticate n s)) = sent s" "sent (snd (cmd_key_material n s)) = sent s"
  by (simp_all add: cmd_hw_spec_def cmd_authenticate_def cmd_rsn_def cmd_mac_control_def cmd_radio_control_def
      cmd_deauthenticate_def cmd_key_material_def Let_def split_beta)

lemma wl_security_fields [simp]: "wifi_security_pop n s = (m, t) \<Longrightarrow> mode t = mode s"
  by (auto simp: wifi_security_pop_def split: if_splits)

lemma key_material_eq:
  "snd (cmd_key_material n s) =
     (if n = 52 \<and> get16 (bytes (command s)) 8 = 1 \<and> get16 (bytes (command s)) 10 = 0x100 \<and>
         get16 (bytes (command s)) 12 = 38 \<and> get16 (bytes (command s)) 18 \<le> 32
      then s\<lparr>security := snd (wifi_security_key (bit (get16 (bytes (command s)) 16) 1) (get16 (bytes (command s)) 14)
        (bytes_at (bytes (command s)) 20 (get16 (bytes (command s)) 18)) (security s))\<rparr>
      else s)"
  unfolding cmd_key_material_def Let_def by (simp add: split_beta)

lemma picked:
  "(if A then x else if B then y else if C then z else w) = r \<Longrightarrow> r = x \<or> r = y \<or> r = z \<or> \<not> A \<and> \<not> B \<and> \<not> C \<and> r = w"
  by (simp split: if_splits)

text \<open>Running a command sends nothing and changes the access point as its history says.\<close>

lemma station_command_history:
  assumes "station_command (env_of c a g iv) s = Some t" and "firmware_stage s = 2"
  shows "security t = fold (security_step c) (command_history a g s) (security s) \<and> sent t = sent s"
proof -
  define d where "d = bytes (command s)"
  define op where "op = get16 d 0"
  define n where "n = get16 d 2"
  define u where "u = reply 8 [(0, le16 (if op < 0x8000 then op + 0x8000 else op)), (4, bytes_at d 4 2)] (s\<lparr>response := empty_buffer\<rparr>)"
  have sc: "station_command (env_of c a g iv) s =
      (if cause s AND 8 \<noteq> 0 then Some s
       else if blen (command s) < 8 \<or> blen (command s) > WL54CF_BUFFER \<or> bpos (command s) \<noteq> blen (command s)
         then Some (s\<lparr>response := empty_buffer\<rparr>)
       else if n \<noteq> blen (command s) \<or> op \<ge> 0x8000 then Some (finish_response 2 u)
       else map_option (\<lambda>(result, s). finish_response result s) (run_command (env_of c a g iv) op n u))"
    unfolding station_command_def Let_def u_def d_def n_def op_def by (rule refl)
  have u: "security u = security s" "sent u = sent s" "command u = command s" "assoc_ok n u = assoc_ok n s"
    by (simp_all add: u_def)
  show ?thesis
  proof (cases "cause s AND 8 \<noteq> 0 \<or> blen (command s) < 8 \<or> blen (command s) > WL54CF_BUFFER \<or> bpos (command s) \<noteq> blen (command s)
      \<or> n \<noteq> blen (command s) \<or> op \<ge> 0x8000")
    case True
    have "command_history a g s = []"
      unfolding command_history_def Let_def by (rule if_P) (rule disjI2, rule True [unfolded op_def n_def d_def])
    moreover have "security t = security s \<and> sent t = sent s"
      using picked [OF assms(1) [unfolded sc]] True u by (elim disjE) simp_all
    ultimately show ?thesis by simp
  next
    case False
    then have r: "map_option (\<lambda>(result, s). finish_response result s) (run_command (env_of c a g iv) op n u) = Some t"
      using assms(1) unfolding sc by simp
    have h: "command_history a g s =
        (if op = 0x50 then (if assoc_ok n s = Some True then [Start a g] else [])
         else if op = 0x24 then (if n = 16 then [Reset] else [])
         else if op = 0x5E then
           (if n = 52 \<and> get16 d 8 = 1 \<and> get16 d 10 = 0x100 \<and> get16 d 12 = 38 \<and> get16 d 18 \<le> 32
            then [Key (bit (get16 d 16) 1) (get16 d 14) (bytes_at d 20 (get16 d 18))] else [])
         else [])"
      unfolding command_history_def Let_def d_def [symmetric] n_def [symmetric] op_def [symmetric]
      by (rule if_not_P) (use False assms(2) in blast)
    from r obtain res v where v: "run_command (env_of c a g iv) op n u = Some (res, v)" and t: "t = finish_response res v" by auto
    have "security v = fold (security_step c) (command_history a g s) (security s) \<and> sent v = sent s"
    proof (cases "op = 0x50 \<or> op = 0x24 \<or> op = 0x5E")
      case True
      then consider (assoc) "op = 0x50" | (deauth) "op = 0x24" | (key) "op = 0x5E" by blast
      then show ?thesis
      proof cases
        case assoc
        then show ?thesis using v u by (auto simp: h run_command_def cmd_associate_def split: option.splits)
      next
        case deauth
        then show ?thesis using v u by (auto simp: h run_command_def cmd_deauthenticate_def split: if_splits)
      next
        case key
        then have "v = snd (cmd_key_material n u)" using v by (simp add: run_command_def)
        then have vd: "v = (if n = 52 \<and> get16 d 8 = 1 \<and> get16 d 10 = 0x100 \<and> get16 d 12 = 38 \<and> get16 d 18 \<le> 32
            then u\<lparr>security := snd (wifi_security_key (bit (get16 d 16) 1) (get16 d 14) (bytes_at d 20 (get16 d 18)) (security s))\<rparr>
            else u)"
          by (simp only: key_material_eq u d_def)
        show ?thesis
        proof (cases "n = 52 \<and> get16 d 8 = 1 \<and> get16 d 10 = 0x100 \<and> get16 d 12 = 38 \<and> get16 d 18 \<le> 32")
          case True
          then have "v = u\<lparr>security := snd (wifi_security_key (bit (get16 d 16) 1) (get16 d 14) (bytes_at d 20 (get16 d 18)) (security s))\<rparr>"
            "command_history a g s = [Key (bit (get16 d 16) 1) (get16 d 14) (bytes_at d 20 (get16 d 18))]"
            unfolding vd h by (simp_all add: key)
          then show ?thesis using u(2) by simp
        next
          case False
          then have "v = u" "command_history a g s = []" unfolding vd h by (simp_all only: if_False key) simp
          then show ?thesis using u by simp
        qed
      qed
    next
      case False
      have "op = 6 \<or> run_command (env_of c a g iv) op n u \<in> Some ` {cmd_hw_spec n u, cmd_authenticate n u, cmd_set_wep n u,
          cmd_rsn n u, cmd_mac_control n u, cmd_radio_control n u, (2, u)}"
        using False by (simp add: run_command_def)
      then have "security v = security u \<and> sent v = sent u"
      proof
        assume "op = 6"
        then have "cmd_scan n u = Some (res, v)" using v by (simp add: run_command_def)
        then show ?thesis by (rule scan_sent)
      next
        assume "run_command (env_of c a g iv) op n u \<in> Some ` {cmd_hw_spec n u, cmd_authenticate n u, cmd_set_wep n u,
          cmd_rsn n u, cmd_mac_control n u, cmd_radio_control n u, (2, u)}"
        then have "v \<in> snd ` {cmd_hw_spec n u, cmd_authenticate n u, cmd_set_wep n u,
          cmd_rsn n u, cmd_mac_control n u, cmd_radio_control n u, (2, u)}" using v
          by (metis (no_types, lifting) image_iff option.inject snd_conv)
        then show ?thesis using command_sent [of n u] set_wep_sent [of n u] by auto
      qed
      moreover have "command_history a g s = []" using False by (simp add: h)
      ultimately show ?thesis using u by simp
    qed
    then show ?thesis by (simp add: t)
  qed
qed

lemma ring_command_history:
  assumes "ring_command (env_of c a g iv) w s = Some t"
  shows "security t = fold (security_step c) (if w AND 4 \<noteq> 0 then command_history a g s else []) (security s) \<and> sent t = sent s"
proof -
  consider (none) "w AND 4 = 0" | (boot) "w AND 4 \<noteq> 0" "firmware_stage s < 2" | (cmd) "w AND 4 \<noteq> 0" "firmware_stage s = 2"
    | (dead) "w AND 4 \<noteq> 0" "firmware_stage s > 2" by linarith
  then show ?thesis
  proof cases
    case cmd
    then show ?thesis using assms station_command_history [of c a g iv s t] by (simp add: ring_command_def)
  qed (use assms in \<open>auto simp: ring_command_def command_history_def Let_def\<close>)
qed

lemma transmit_history:
  "security (wl_transmit (env_of c a g iv) s) = fold (security_step c) (frame_history iv s) (security s)"
  "sent (wl_transmit (env_of c a g iv) s) =
     (case tx_frame s of Some f \<Rightarrow> if fst (wifi_security_tx (Some c) iv f (security s)) then sent s @ [f] else sent s
      | None \<Rightarrow> sent s)"
  by (simp_all add: wl_transmit_def frame_history_def Let_def split_beta split: option.split)

lemma ring_data_fields:
  "security (ring_data e w s) = security (if w AND 1 \<noteq> 0 \<and> firmware_stage s = 2 then wl_transmit e s else s)"
  "sent (ring_data e w s) = sent (if w AND 1 \<noteq> 0 \<and> firmware_stage s = 2 then wl_transmit e s else s)"
  by (simp_all add: ring_data_def Let_def)

lemma write_rings:
  assumes "wl54cf_write e off sz v s = Some t" and "doorbell off sz v s \<noteq> 0"
  obtains u where "ring_command e (doorbell off sz v s) s = Some u" "t = ring_data e (doorbell off sz v s) u"
proof -
  have "off = 2" "sz = 1 \<or> sz = 2" and d: "doorbell off sz v s = ucast v AND host_status s"
    using assms(2) by (auto simp: doorbell_def split: if_splits)
  then have "wl54cf_write e off sz v s = map_option (ring_data e (ucast v AND host_status s)) (ring_command e (ucast v AND host_status s) s)"
    by (auto simp: wl54cf_write_def Let_def)
  then have "map_option (ring_data e (ucast v AND host_status s)) (ring_command e (ucast v AND host_status s) s) = Some t"
    using assms(1) by simp
  then show ?thesis using that unfolding d by (auto simp: map_option_eq_Some)
qed

lemma write_doorbell:
  assumes "wl54cf_write e off sz v s = Some t" and "doorbell off sz v s = 0"
  shows "security t = security s \<and> sent t = sent s"
proof (cases "off = 2 \<and> (sz = 1 \<or> sz = 2)")
  case True
  then have "(ucast v :: u16) AND host_status s = 0" using assms(2) by (simp add: doorbell_def)
  then show ?thesis using assms(1) True by (auto simp: wl54cf_write_def ring_command_def ring_data_def Let_def)
next
  case False
  have a: "security (acknowledge w s) = security s" "sent (acknowledge w s) = sent s" for w
    by (simp_all add: acknowledge_def Let_def)
  show ?thesis using assms(1) False
    by (simp add: wl54cf_write_def Let_def a split: if_split_asm) (auto simp: a)
qed

lemma step_history:
  assumes "wl_step c e s = Some t"
  shows "security t = fold (security_step c) (wl_history c e s) (security s)"
proof (cases e)
  case (Read off sz)
  have took: "security (snd (wl54cf_receive p s)) = security s" for p
    by (simp add: wl54cf_receive_def Let_def)
  have took1: "fst (wl54cf_receive p s) = wl_accepts s p" for p
    by (simp add: wl54cf_receive_def Let_def)
  let ?p = "take (pending_len (security s)) (pending (security s))"
  define go where "go \<longleftrightarrow> pending_len (security s) \<noteq> 0 \<and> associated s \<and> rx_count s < WL54CF_QUEUE"
  have "security (deliver_pending s) =
      (if go \<and> wl_accepts s ?p then (security s)\<lparr>pending_len := 0\<rparr> else security s)"
  proof (cases go)
    case True
    then have "deliver_pending s = (case wl54cf_receive ?p s of (took, t) \<Rightarrow> if took then t\<lparr>security := (security t)\<lparr>pending_len := 0\<rparr>\<rparr> else t)"
      by (simp add: deliver_pending_def go_def Let_def)
    then show ?thesis using True by (simp add: split_beta took took1)
  next
    case False
    then have "deliver_pending s = s" unfolding deliver_pending_def Let_def go_def by (rule if_not_P)
    then show ?thesis using False by simp
  qed
  moreover have "pending_history s = (if go \<and> wl_accepts s ?p then [Pop (pending_len (security s))] else [])"
    unfolding pending_history_def Let_def go_def by (simp only: conj_assoc)
  moreover have "go \<Longrightarrow> snd (wifi_security_pop (pending_len (security s)) (security s)) = (security s)\<lparr>pending_len := 0\<rparr>"
    by (simp add: wifi_security_pop_def go_def)
  ultimately have "security (deliver_pending s) = fold (security_step c) (pending_history s) (security s)" by simp
  moreover have "security (snd (wl54cf_read off sz s)) = security (deliver_pending s)"
    by (simp add: wl54cf_read_def Let_def split_beta)
  ultimately show ?thesis using assms Read by auto
next
  case (Write a g iv off sz v)
  define w where "w = doorbell off sz v s"
  have wr: "wl54cf_write (env_of c a g iv) off sz v s = Some t" using assms Write by simp
  show ?thesis
  proof (cases "w = 0")
    case True
    then show ?thesis using write_doorbell [OF wr] Write by (simp add: w_def [symmetric] ring_command_def)
  next
    case False
    then obtain u where u: "ring_command (env_of c a g iv) w s = Some u" "t = ring_data (env_of c a g iv) w u"
      by (rule write_rings [OF wr, folded w_def])
    show ?thesis
      using ring_command_history [OF u(1)] by (simp add: Write w_def [symmetric] Let_def u ring_data_fields transmit_history)
  qed
next
  case (Receive p)
  then show ?thesis using assms by (auto simp: wl54cf_receive_def Let_def)
next
  case Card_Reset
  then show ?thesis using assms by (auto simp: wl54cf_reset_def)
qed

lemma run_history:
  "wl_run c es s = Some t \<Longrightarrow> security t = fold (security_step c) (wl_histories c es s) (security s)"
proof (induction es arbitrary: s)
  case Nil
  then show ?case by simp
next
  case (Cons e es)
  then obtain u where u: "wl_step c e s = Some u" "wl_run c es u = Some t" by (auto simp: bind_eq_Some_conv)
  show ?case using step_history [OF u(1)] Cons.IH [OF u(2)] by (simp add: u(1))
qed

text \<open>A step sends at most one frame, and then the access point as it is afterwards lets it pass.\<close>

lemma step_sends:
  assumes "wl_step c e s = Some t" and "sent t \<noteq> sent s"
  obtains f iv u where "sent t = sent s @ [f]" "fst (wifi_security_tx (Some c) iv f u)" "security t = u" "associated t"
proof -
  have "\<exists>a g iv off sz v. e = Write a g iv off sz v"
    using assms by (cases e) (auto simp: wl54cf_read_def deliver_pending_def wl54cf_receive_def wl54cf_reset_def Let_def split_beta split: if_splits)
  then obtain a g iv off sz v where e: "e = Write a g iv off sz v" by blast
  define w where "w = doorbell off sz v s"
  have wr: "wl54cf_write (env_of c a g iv) off sz v s = Some t" using assms e by simp
  then have "w \<noteq> 0" using write_doorbell [OF wr] assms(2) by (auto simp: w_def)
  then obtain u where u: "ring_command (env_of c a g iv) w s = Some u" "t = ring_data (env_of c a g iv) w u"
    by (rule write_rings [OF wr, folded w_def])
  have su: "sent u = sent s" using ring_command_history [OF u(1)] by simp
  then have "sent (wl_transmit (env_of c a g iv) u) \<noteq> sent u" and tx: "w AND 1 \<noteq> 0 \<and> firmware_stage u = 2"
    using assms(2) by (auto simp: u(2) ring_data_fields split: if_splits)
  then obtain f where f: "tx_frame u = Some f" "fst (wifi_security_tx (Some c) iv f (security u))"
    by (auto simp: transmit_history split: option.splits if_splits)
  have pass: "snd (wifi_security_tx (Some c) iv f (security u)) = security u"
    using f(2) by (auto simp: wifi_security_tx_def split: if_splits)
  have "sent t = sent s @ [f]" using f tx su by (simp add: u(2) ring_data_fields transmit_history)
  moreover have "security t = security u"
    using f tx pass by (simp add: u(2) ring_data_fields transmit_history frame_history_def)
  moreover have "associated t"
    using f(1) tx by (auto simp: u(2) ring_data_def Let_def wl_transmit_def tx_frame_def split_beta split: option.splits if_splits)
  ultimately show ?thesis using that f(2) by metis
qed

section \<open>Properties\<close>

text \<open>C3: The Marvell card lets no data frame out before the handshake. Take a WPA or WPA2 access
  point that has seen any history \<open>es0\<close>, and a card in front of it in any state. Whatever accesses
  follow, a frame leaves the card only in one that ends with the card associated and, since the last
  association, all handshake messages authenticated and both keys in force installed.\<close>

theorem wl_data_needs_handshake:
  assumes "mode ap = 2 \<or> mode ap = 3" and "security s0 = fold (security_step c) es0 (wifi_security_reset ap)"
    and "wl_run c es s0 = Some s" and "wl_step c e s = Some t" and "sent t \<noteq> sent s"
  shows "(\<exists>f. sent t = sent s @ [f]) \<and> associated t \<and>
    (let (ap', h) = fold (watched_step c) (es0 @ wl_histories c (es @ [e]) s0) (wifi_security_reset ap, nothing)
     in ap' = security t \<and> (if mode ap' = 3 then 2 else 3) \<le> frames h \<and> pair_key h = Some (key_target True ap') \<and>
        group_key h = Some (key_target False ap'))"
proof -
  have r: "wl_run c (es @ [e]) s0 = Some t" using assms(3,4) by (simp add: wl_run_append)
  define H where "H = es0 @ wl_histories c (es @ [e]) s0"
  obtain a h where ah: "fold (watched_step c) H (wifi_security_reset ap, nothing) = (a, h)" by fastforce
  have "a = fold (security_step c) H (wifi_security_reset ap)" using watched_state [of c H] ah by (metis fst_conv)
  also have "... = security t" using run_history [OF r] assms(2) by (simp add: H_def)
  finally have a: "a = security t" .
  obtain f iv where f: "sent t = sent s @ [f]" "fst (wifi_security_tx (Some c) iv f (security t))" "associated t"
    by (rule step_sends [OF assms(4,5)]) blast
  have g: "(if mode a = 3 then 2 else 3) \<le> frames h \<and> pair_key h = Some (key_target True a) \<and> group_key h = Some (key_target False a)"
    by (rule frame_passed [OF assms(1) ah f(2) [folded a]])
  show ?thesis using f g unfolding H_def [symmetric] ah by (simp add: a)
qed

text \<open>A card whose driver has done the handshake, with a data frame in its transmit buffer.\<close>

definition demo_history :: "security_event list" where
  "demo_history = honest_run demo_crypto (replicate 32 1) (replicate 32 2) (replicate 32 3) demo_ap"

definition demo_card :: wl54cf where
  "demo_card = (wl54cf_init demo_ap [2, 0, 0, 0, 0, 1] True)\<lparr>
     security := fold (security_step demo_crypto) demo_history (wifi_security_reset demo_ap), firmware_stage := 2,
     mac_control := 2, associated := True, host_status := 1,
     txbuf := \<lparr>bytes = replicate 8 0 @ [24, 0, 0, 0, 60, 0] @ replicate 10 0 @ demo_data, blen = 84, bpos = 84, overrun = False\<rparr>\<rparr>"

lemma demo_card_fields:
  "security demo_card = fold (security_step demo_crypto) demo_history (wifi_security_reset demo_ap)"
  "firmware_stage demo_card = 2" "host_status demo_card = 1" "associated demo_card" "mac_control demo_card = 2" "transmit demo_card"
  "sent demo_card = []" "txbuf demo_card = \<lparr>bytes = replicate 8 0 @ [24, 0, 0, 0, 60, 0] @ replicate 10 0 @ demo_data, blen = 84, bpos = 84, overrun = False\<rparr>"
  by (simp_all add: demo_card_def wl54cf_init_def wl54cf_reset_def)

lemma demo_card_frame: "tx_frame demo_card = Some demo_data"
proof -
  have "get32 (replicate 8 0 @ [24, 0, 0, 0, 60, 0] @ replicate 10 0 @ demo_data) 8 = 24"
    "get16 (replicate 8 0 @ [24, 0, 0, 0, 60, 0] @ replicate 10 0 @ demo_data) 12 = 60"
    "bytes_at (replicate 8 0 @ [24, 0, 0, 0, 60, 0] @ replicate 10 0 @ demo_data) 24 60 = demo_data"
    by (simp_all add: get32_def get16_def nth_append bytes_at_def demo_data_def)
  then show ?thesis by (simp add: tx_frame_def demo_card_fields Let_def)
qed

definition demo_send :: wl_event where
  "demo_send = Write None None None 2 1 1"

lemma demo_card_sends: "\<exists>t. wl_step demo_crypto demo_send demo_card = Some t \<and> sent t = [demo_data]"
proof -
  have d: "doorbell 2 1 1 demo_card = 1" by (simp add: doorbell_def demo_card_fields)
  have "wl_step demo_crypto demo_send demo_card = Some (ring_data (env_of demo_crypto None None None) 1 demo_card)"
    by (simp add: demo_send_def wl54cf_write_def ring_command_def demo_card_fields Let_def)
  moreover have "sent (ring_data (env_of demo_crypto None None None) 1 demo_card) = [demo_data]"
    using honest_run_accepted [of "Some demo_crypto"]
    by (simp add: ring_data_fields transmit_history demo_card_frame demo_card_fields demo_history_def)
  ultimately show ?thesis by blast
qed

theorem wl_data_needs_handshake_witness:
  "\<exists>t. wl_step demo_crypto demo_send demo_card = Some t \<and> associated t \<and>
    (let (ap', h) = fold (watched_step demo_crypto) (demo_history @ wl_histories demo_crypto [demo_send] demo_card)
        (wifi_security_reset demo_ap, nothing)
     in ap' = security t \<and> (if mode ap' = 3 then 2 else 3) \<le> frames h \<and> pair_key h = Some (key_target True ap') \<and>
        group_key h = Some (key_target False ap'))"
proof -
  obtain t where t: "wl_step demo_crypto demo_send demo_card = Some t" "sent t = [demo_data]" using demo_card_sends by blast
  have m: "mode demo_ap = 2 \<or> mode demo_ap = 3" using demo_facts(2) by (simp add: sane_def)
  have r: "wl_run demo_crypto [] demo_card = Some demo_card" by simp
  have n: "sent t \<noteq> sent demo_card" by (simp add: t demo_card_fields)
  from wl_data_needs_handshake [OF m demo_card_fields(1) r t(1) n] show ?thesis using t(1) by (simp add: Let_def)
qed

end
