(* ===== verification/Wl54cf_Bounds.thy ===== *)
theory Wl54cf_Bounds
  imports Wl54cf_Card
begin

text \<open>
  The Marvell card's buffers: every access keeps their sizes and indices, and only one kind of
  command makes the card read outside them.
\<close>

section \<open>The access point's information element\<close>

text \<open>It is set when the access point is configured and no event changes it.\<close>

lemma same_keys_ie: "same_keys s t \<Longrightarrow> ie t = ie s \<and> ie_len t = ie_len s"
  by (simp add: same_keys_def)

lemma start_ie: "ie (wifi_security_start c a g s) = ie s \<and> ie_len (wifi_security_start c a g s) = ie_len s"
proof -
  have b: "ie (snd (build k i [] r)) = ie r" "ie_len (snd (build k i [] r)) = ie_len r" for k i r
    using same_keys_ie [OF build_keys [of r k i "[]"]] by simp_all
  have r: "ie (wifi_security_reset s) = ie s" "ie_len (wifi_security_reset s) = ie_len s" by (simp_all add: wifi_security_reset_def)
  show ?thesis
    by (simp add: wifi_security_start_def Let_def split_beta b r split: option.split)
qed

lemma advance_ie: "ie (advance_handshake c iv info kl s) = ie s \<and> ie_len (advance_handshake c iv info kl s) = ie_len s"
proof (cases rule: advance_cases [of s c iv info kl])
  case (m3 ok t)
  then show ?thesis using same_keys_ie [OF message3_keys [of s c]] by simp
next
  case (m4_wpa ok t)
  then show ?thesis using same_keys_ie [OF group1_keys [of s c iv]] by simp
qed simp_all

lemma security_step_ie: "ie (security_step c e s) = ie s \<and> ie_len (security_step c e s) = ie_len s"
proof (cases e)
  case (Start a g)
  then show ?thesis by (simp add: start_ie)
next
  case (Frame iv p)
  have "ie (eapol_tx c iv p s) = ie s \<and> ie_len (eapol_tx c iv p s) = ie_len s"
    by (simp add: eapol_tx_def Let_def split_beta advance_ie)
  then show ?thesis using Frame by (simp add: wifi_security_tx_def)
next
  case (Rekey g iv)
  have g1: "ie (snd (group1 c iv r)) = ie r" "ie_len (snd (group1 c iv r)) = ie_len r" for r
    using same_keys_ie [OF group1_keys [of r c iv]] by simp_all
  have b: "ie (snd (build c i k r)) = ie r" "ie_len (snd (build c i k r)) = ie_len r" for i k r
    using same_keys_ie [OF build_keys [of r c i k]] by simp_all
  show ?thesis using Rekey
    by (simp add: wifi_security_rekey_def Let_def g1 b split: option.split)
next
  case (Key pw cipher k)
  have "snd (wifi_security_key pw cipher k s) = s \<or> (\<exists>v. snd (wifi_security_key pw cipher k s) = set_key pw v s)"
    by (simp add: wifi_security_key_def) blast
  then show ?thesis using Key by (auto simp: set_key_def)
qed (simp_all add: wifi_security_reset_def wifi_security_pop_def)

lemma history_ie: "ie (fold (security_step c) es s) = ie s" "ie_len (fold (security_step c) es s) = ie_len s"
  by (induction es arbitrary: s) (simp_all add: security_step_ie)

section \<open>Buffers\<close>

definition buffer_ok :: "wl_buffer \<Rightarrow> bool" where
  "buffer_ok b \<longleftrightarrow> length (bytes b) = WL54CF_BUFFER \<and> \<not> overrun b"

definition rx_ok :: "wl54cf \<Rightarrow> bool" where
  "rx_ok s \<longleftrightarrow> length (rxbufs s) = WL54CF_QUEUE \<and> rx_head s < WL54CF_QUEUE \<and> rx_count s \<le> WL54CF_QUEUE \<and>
     (\<forall>b \<in> set (rxbufs s). buffer_ok b \<and> blen b \<le> WL54CF_BUFFER)"

definition wl_wf :: "wl54cf \<Rightarrow> bool" where
  "wl_wf s \<longleftrightarrow> length (station s) = 6 \<and> buffer_ok (command s) \<and> buffer_ok (txbuf s) \<and> buffer_ok (response s) \<and> blen (response s) \<le> WL54CF_BUFFER \<and> rx_ok s \<and>
     ie_len (security s) \<le> 80 \<and> length (ie (security s)) = 80"

definition room_for :: "(nat \<times> u8 list) list \<Rightarrow> bool" where
  "room_for ps \<longleftrightarrow> (\<forall>(off, bs) \<in> set ps. off + length bs \<le> WL54CF_BUFFER)"

definition response_ok :: "nat \<Rightarrow> wl54cf \<Rightarrow> bool" where
  "response_ok k s \<longleftrightarrow> buffer_ok (response s) \<and> blen (response s) \<le> k"

lemma buffer_ok_updates [simp]:
  "buffer_ok (b\<lparr>blen := n\<rparr>) = buffer_ok b" "buffer_ok (b\<lparr>bpos := n\<rparr>) = buffer_ok b" "buffer_ok empty_buffer"
  by (simp_all add: buffer_ok_def empty_buffer_def)

lemma fill_ok: "buffer_ok b \<Longrightarrow> off + length bs \<le> WL54CF_BUFFER \<Longrightarrow> buffer_ok (fill off bs b)"
  by (simp add: buffer_ok_def fill_def)

lemma touch_ok: "buffer_ok b \<Longrightarrow> off + n \<le> WL54CF_BUFFER \<Longrightarrow> touch off n b = b"
  by (simp add: buffer_ok_def touch_def)

lemma fill_all: "room_for ps \<Longrightarrow> buffer_ok b \<Longrightarrow> buffer_ok (fold (\<lambda>(off, bs). fill off bs) ps b)"
  by (induction ps arbitrary: b) (auto simp: room_for_def intro!: fill_ok)

lemma reply_ok: "room_for ps \<Longrightarrow> response_ok k s \<Longrightarrow> len \<le> k \<Longrightarrow> response_ok k (reply len ps s)"
  using fill_all [of ps "response s"] by (simp add: response_ok_def reply_def)

lemma length_le [simp]: "length (le16 v) = 2" "length (le32 v) = 4"
  by (simp_all add: le16_def le32_def)

text \<open>What the commands leave alone.\<close>

definition fixed :: "wl54cf \<Rightarrow> wl_buffer \<times> wl_buffer \<times> wl_buffer list \<times> nat \<times> nat \<times> u8 list" where
  "fixed s = (command s, txbuf s, rxbufs s, rx_head s, rx_count s, station s)"

lemma fixed_if: "fixed (if b then s else t) = (if b then fixed s else fixed t)"
  by simp

lemma fixed_updates [simp]:
  "fixed (s\<lparr>security := x1\<rparr>) = fixed s" "fixed (s\<lparr>wep := x2\<rparr>) = fixed s" "fixed (s\<lparr>wep_len := x3\<rparr>) = fixed s"
  "fixed (s\<lparr>wep_index := n\<rparr>) = fixed s" "fixed (s\<lparr>rsn := b\<rparr>) = fixed s" "fixed (s\<lparr>firmware_stage := n\<rparr>) = fixed s"
  "fixed (s\<lparr>irq_mask := w\<rparr>) = fixed s" "fixed (s\<lparr>cause := w\<rparr>) = fixed s" "fixed (s\<lparr>host_status := w\<rparr>) = fixed s"
  "fixed (s\<lparr>mac_control := w\<rparr>) = fixed s" "fixed (s\<lparr>request := n\<rparr>) = fixed s" "fixed (s\<lparr>firmware_payload := n\<rparr>) = fixed s"
  "fixed (s\<lparr>helper_bytes := n\<rparr>) = fixed s" "fixed (s\<lparr>firmware_bytes := n\<rparr>) = fixed s" "fixed (s\<lparr>authenticated := b\<rparr>) = fixed s"
  "fixed (s\<lparr>associated := b\<rparr>) = fixed s" "fixed (s\<lparr>radio := b\<rparr>) = fixed s" "fixed (s\<lparr>response := r\<rparr>) = fixed s"
  "fixed (s\<lparr>sent := x4\<rparr>) = fixed s" "fixed (reply k ps s) = fixed s"
  by (simp_all add: fixed_def reply_def)

lemma firmware_block_fixed:
  "fixed (firmware_block s) = fixed s" "response (firmware_block s) = response s"
  by (simp_all add: firmware_block_def helper_block_def image_block_def firmware_fail_def Let_def fixed_if
      if_distrib [of response] cong: if_cong split del: if_split)

text \<open>The frame's guards keep the bytes it is made of inside the transmit buffer.\<close>

lemma tx_frame_inside:
  "tx_frame s = Some f \<Longrightarrow> get32 (bytes (txbuf s)) 8 + get16 (bytes (txbuf s)) 12 \<le> WL54CF_BUFFER"
  by (auto simp: tx_frame_def Let_def split: if_splits)

lemma transmit_fixed:
  "buffer_ok (txbuf s) \<Longrightarrow> fixed (wl_transmit e s) = fixed s" "response (wl_transmit e s) = response s"
proof -
  assume b: "buffer_ok (txbuf s)"
  have "touch (get32 (bytes (txbuf s)) 8) (get16 (bytes (txbuf s)) 12) (txbuf s) = txbuf s" if "tx_frame s = Some f" for f
    by (rule touch_ok [OF b tx_frame_inside [OF that]])
  then show "fixed (wl_transmit e s) = fixed s"
    by (simp add: wl_transmit_def Let_def split_beta fixed_def split: option.split)
qed (simp add: wl_transmit_def Let_def split_beta split: option.split)

lemma commands_fixed:
  "fixed (snd (cmd_hw_spec n s)) = fixed s" "fixed (snd (cmd_authenticate n s)) = fixed s" "fixed (snd (cmd_rsn n s)) = fixed s"
  "fixed (snd (cmd_mac_control n s)) = fixed s" "fixed (snd (cmd_radio_control n s)) = fixed s"
  "fixed (snd (cmd_deauthenticate n s)) = fixed s" "fixed (snd (cmd_key_material n s)) = fixed s"
  "fixed (snd (cmd_set_wep n s)) = fixed s"
  by (simp_all add: cmd_hw_spec_def cmd_authenticate_def cmd_rsn_def cmd_mac_control_def cmd_radio_control_def
      cmd_deauthenticate_def cmd_key_material_def cmd_set_wep_def Let_def split_beta)

lemma scan_fixed: "cmd_scan n s = Some (r, t) \<Longrightarrow> fixed t = fixed s"
  by (drule scan_cases) auto

lemma associate_fixed: "cmd_associate e n s = Some (r, t) \<Longrightarrow> fixed t = fixed s"
  by (auto simp: cmd_associate_def split: option.splits)

lemma response_ok_updates [simp]:
  "response_ok k (s\<lparr>security := x1\<rparr>) = response_ok k s" "response_ok k (s\<lparr>wep := x2\<rparr>) = response_ok k s"
  "response_ok k (s\<lparr>wep_len := x3\<rparr>) = response_ok k s" "response_ok k (s\<lparr>wep_index := n\<rparr>) = response_ok k s"
  "response_ok k (s\<lparr>rsn := b\<rparr>) = response_ok k s" "response_ok k (s\<lparr>mac_control := w\<rparr>) = response_ok k s"
  "response_ok k (s\<lparr>authenticated := b\<rparr>) = response_ok k s" "response_ok k (s\<lparr>associated := b\<rparr>) = response_ok k s"
  "response_ok k (s\<lparr>radio := b\<rparr>) = response_ok k s" "response_ok k (s\<lparr>cause := w\<rparr>) = response_ok k s"
  by (simp_all add: response_ok_def)

abbreviation (input) body_ok :: "wl54cf \<Rightarrow> bool" where
  "body_ok \<equiv> response_ok 2040"

lemma simple_commands_ok:
  assumes "body_ok s"
  shows "body_ok (snd (cmd_authenticate n s))" "body_ok (snd (cmd_rsn n s))" "body_ok (snd (cmd_deauthenticate n s))"
    "body_ok (snd (cmd_key_material n s))" "body_ok (snd (cmd_set_wep n s))"
  using assms by (simp_all add: cmd_authenticate_def cmd_rsn_def cmd_deauthenticate_def cmd_key_material_def cmd_set_wep_def
      Let_def split_beta)

lemma length_bytes_at: "length (bytes_at d off n) \<le> n"
  by (simp add: bytes_at_def)

lemma echo_ok: "body_ok s \<Longrightarrow> body_ok (reply 12 [(8, bytes_at d 8 (12 - 8))] s)"
  using length_bytes_at [of d 8 "12 - 8"] by (intro reply_ok) (simp_all add: room_for_def)

lemma echo_commands_ok:
  assumes "body_ok s"
  shows "body_ok (snd (cmd_mac_control n s))" "body_ok (snd (cmd_radio_control n s))"
proof -
  show "body_ok (snd (cmd_mac_control n s))"
  proof (cases "n = 12")
    case True
    then show ?thesis using assms echo_ok by (simp add: cmd_mac_control_def Let_def)
  next
    case False
    then show ?thesis using assms by (simp add: cmd_mac_control_def Let_def)
  qed
  show "body_ok (snd (cmd_radio_control n s))"
  proof (cases "n = 12")
    case True
    then show ?thesis using assms echo_ok by (simp add: cmd_radio_control_def Let_def)
  next
    case False
    then show ?thesis using assms by (simp add: cmd_radio_control_def Let_def)
  qed
qed

lemma hw_spec_ok: "body_ok s \<Longrightarrow> length (station s) = 6 \<Longrightarrow> body_ok (snd (cmd_hw_spec n s))"
  by (auto simp: cmd_hw_spec_def room_for_def intro!: reply_ok)

lemma beacon_length: "ie_len (security s) \<le> 80 \<Longrightarrow> length (beacon s) \<le> 125"
  by (simp add: beacon_def ap_bssid_def ssid_text_def rates_def)

lemma scan_ok:
  assumes "cmd_scan n s = Some (r, t)" and "body_ok s" and "ie_len (security s) \<le> 80"
  shows "body_ok t"
proof -
  let ?p = "beacon s"
  have "t = s \<or> t = reply (13 + length ?p) [(13, ?p), (11, le16 (length ?p)), (8, le16 (length ?p + 2)), (10, [1])] s \<or> t = reply 11 [] s"
    by (rule scan_cases [OF assms(1)])
  then show ?thesis using assms(2) beacon_length [OF assms(3)]
    by (elim disjE) (auto intro!: reply_ok simp: room_for_def)
qed

lemma associate_ok: "cmd_associate e n s = Some (r, t) \<Longrightarrow> body_ok s \<Longrightarrow> body_ok t"
  by (auto simp: cmd_associate_def room_for_def split: option.splits intro!: reply_ok)


section \<open>Faults\<close>

lemma tlv_in_bounds: "off + n \<le> length data \<Longrightarrow> tlv data ty off n \<noteq> Fault"
proof (induction data ty off n rule: tlv.induct)
  case (1 data ty off n)
  show ?case
  proof (cases "n < 4 \<or> get16 data (off + 2) > n - 4 \<or> get16 data off = ty")
    case True
    then show ?thesis using 1(2) by (subst tlv.simps) (auto simp: Let_def)
  next
    case False
    then have "tlv data ty (off + 4 + get16 data (off + 2)) (n - (4 + get16 data (off + 2))) \<noteq> Fault"
      using 1(2) by (intro 1(1) [OF _ _ refl refl]) auto
    then show ?thesis using False 1(2) by (subst tlv.simps) (simp add: Let_def)
  qed
qed

lemma zero_list_faults:
  assumes "\<And>i. off \<le> i \<Longrightarrow> i < length data \<Longrightarrow> data ! i = 0" and "ty \<noteq> 0" and "off \<le> length data" and "length data + 4 \<le> off + n"
  shows "tlv data ty off n = Fault"
  using assms
proof (induction data ty off n rule: tlv.induct)
  case (1 data ty off n)
  show ?case
  proof (cases "off + 4 > length data")
    case True
    then show ?thesis using 1(3-5) by (subst tlv.simps) (use 1(5) in auto)
  next
    case False
    then have z: "get16 data off = 0" "get16 data (off + 2) = 0" using 1(2) by (simp_all add: get16_def)
    have "tlv data ty (off + 4) (n - 4) = Fault"
      using 1(1) [OF _ _ refl refl] False z 1(2-5) by auto
    then show ?thesis using False z 1(3-5) by (subst tlv.simps) (simp add: Let_def)
  qed
qed

text \<open>The only command that can read outside the command buffer: an association request too short
  for its fixed part, with an access point that has an information element.\<close>

definition short_associate :: "wl54cf \<Rightarrow> bool" where
  "short_associate s \<longleftrightarrow> firmware_stage s = 2 \<and> get16 (bytes (command s)) 0 = 0x50 \<and>
     get16 (bytes (command s)) 2 = blen (command s) \<and> blen (command s) < 21 \<and> 2 \<le> mode (security s)"

lemma valid_tlvs_in_bounds: "off + n \<le> length data \<Longrightarrow> valid_tlvs data off n \<noteq> None"
proof (induction data off n rule: valid_tlvs.induct)
  case (1 data off n)
  show ?case
  proof (cases "n < 4 \<or> get16 data (off + 2) > n - 4")
    case True
    then show ?thesis using 1(2) by (subst valid_tlvs.simps) (auto simp: Let_def)
  next
    case False
    then have "valid_tlvs data (off + 4 + get16 data (off + 2)) (n - (4 + get16 data (off + 2))) \<noteq> None"
      using 1(2) by (intro 1(1) [OF _ _ refl]) auto
    then show ?thesis using False 1(2) by (subst valid_tlvs.simps) (simp add: Let_def)
  qed
qed

lemma tlv_found_inside: "tlv data ty off n = Found o' l \<Longrightarrow> o' + l \<le> off + n"
proof (induction data ty off n rule: tlv.induct)
  case (1 data ty off n)
  have g: "4 \<le> n" "off + 4 \<le> length data" "get16 data (off + 2) \<le> n - 4"
    using 1(2) by (subst (asm) tlv.simps, simp add: Let_def split: if_splits)+
  show ?case
  proof (cases "get16 data off = ty")
    case True
    then have "o' = off + 4" "l = get16 data (off + 2)" using 1(2) g by (subst (asm) tlv.simps, simp add: Let_def)+
    then show ?thesis using g by simp
  next
    case False
    have "tlv data ty (off + 4 + get16 data (off + 2)) (n - (4 + get16 data (off + 2))) = Found o' l"
      using 1(2) g False by (subst (asm) tlv.simps) (simp add: Let_def)
    then have "o' + l \<le> off + 4 + get16 data (off + 2) + (n - (4 + get16 data (off + 2)))"
      using g False by (intro 1(1) [OF _ _ refl refl]) auto
    then show ?thesis using g by simp
  qed
qed

lemma scan_runs: "length (bytes (command s)) = WL54CF_BUFFER \<Longrightarrow> n \<le> WL54CF_BUFFER \<Longrightarrow> cmd_scan n s \<noteq> None"
  using tlv_in_bounds [of 15 "n - 15" "bytes (command s)" 0] valid_tlvs_in_bounds [of 15 "n - 15" "bytes (command s)"]
  by (cases "n < 15") (auto simp: cmd_scan_def Let_def split: tlv_result.split option.split bool.split)

lemma compare_at_inside: "off + length bs \<le> length data \<Longrightarrow> compare_at data off bs \<noteq> None"
  by (simp add: compare_at_def)

lemma assoc_basic_runs:
  assumes "length (bytes (command s)) = WL54CF_BUFFER" and "n \<le> WL54CF_BUFFER"
  shows "assoc_basic n s \<noteq> None"
proof (cases "n < 21")
  case True
  then show ?thesis by (simp add: assoc_basic_def Let_def)
next
  case False
  define d where "d = bytes (command s)"
  have b: "21 + (n - 21) \<le> length d" using assms False by (simp add: d_def)
  have t: "tlv d ty 21 (n - 21) \<noteq> Fault" for ty using b by (rule tlv_in_bounds)
  obtain v where v: "valid_tlvs d 21 (n - 21) = Some v" using valid_tlvs_in_bounds [OF b] by blast
  have c: "compare_at d off bs \<noteq> None" if "tlv d ty 21 (n - 21) = Found off l" "length bs = l" for ty off l bs
    using tlv_found_inside [OF that(1)] b that(2) by (intro compare_at_inside) simp
  have "length ssid_text = 5" by (simp add: ssid_text_def)
  then show ?thesis unfolding assoc_basic_def Let_def d_def [symmetric] v
    using False t [of 0] t [of 3] c [of 0 _ 5 ssid_text] c [of 3 _ 1 "[3]"]
    by (auto split: tlv_result.split option.split)
qed

lemma assoc_rsn_runs:
  assumes "length (bytes (command s)) = WL54CF_BUFFER" and "n \<le> WL54CF_BUFFER" and "21 \<le> n"
  shows "assoc_rsn ok n s \<noteq> None"
proof -
  define d where "d = bytes (command s)"
  have b: "21 + (n - 21) \<le> length d" using assms by (simp add: d_def)
  have t: "tlv d ty 21 (n - 21) \<noteq> Fault" for ty using b by (rule tlv_in_bounds)
  have c: "compare_at d off (bytes_at x 2 l) \<noteq> None" if "tlv d ty 21 (n - 21) = Found off l" for ty off l x
    using tlv_found_inside [OF that] b length_bytes_at [of x 2 l] by (intro compare_at_inside) simp
  show ?thesis unfolding assoc_rsn_def Let_def d_def [symmetric] using assms(3) t c by (auto split: tlv_result.split)
qed

lemma associate_runs:
  assumes "length (bytes (command s)) = WL54CF_BUFFER" and "n \<le> WL54CF_BUFFER" and "21 \<le> n \<or> mode (security s) < 2"
  shows "cmd_associate e n s \<noteq> None"
proof -
  have "assoc_ok n s \<noteq> None"
    using assoc_basic_runs [OF assms(1,2)] assoc_rsn_runs [OF assms(1,2)] assms(3)
    by (auto simp: assoc_ok_def Let_def split: option.split)
  then show ?thesis by (auto simp: cmd_associate_def split: option.split)
qed


section \<open>Every access keeps the bounds\<close>

definition opened :: "wl54cf \<Rightarrow> wl54cf" where
  "opened s = reply 8 [(0, le16 (let op = get16 (bytes (command s)) 0 in if op < 0x8000 then op + 0x8000 else op)),
     (4, bytes_at (bytes (command s)) 4 2)] (s\<lparr>response := empty_buffer\<rparr>)"

lemma station_command_eq:
  "station_command e s =
     (if cause s AND 8 \<noteq> 0 then Some s
      else if blen (command s) < 8 \<or> blen (command s) > WL54CF_BUFFER \<or> bpos (command s) \<noteq> blen (command s)
        then Some (s\<lparr>response := empty_buffer\<rparr>)
      else if get16 (bytes (command s)) 2 \<noteq> blen (command s) \<or> get16 (bytes (command s)) 0 \<ge> 0x8000
        then Some (finish_response 2 (opened s))
      else map_option (\<lambda>(result, s). finish_response result s)
        (run_command e (get16 (bytes (command s)) 0) (get16 (bytes (command s)) 2) (opened s)))"
  unfolding station_command_def opened_def Let_def by (rule refl)

lemma opened_facts [simp]:
  "fixed (opened s) = fixed s" "security (opened s) = security s" "command (opened s) = command s" "station (opened s) = station s"
  "body_ok (opened s)"
proof -
  have "body_ok (s\<lparr>response := empty_buffer\<rparr>)" by (simp add: response_ok_def) (simp add: empty_buffer_def)
  then show "body_ok (opened s)"
    using length_bytes_at [of "bytes (command s)" 4 2] by (auto simp: opened_def room_for_def intro!: reply_ok)
qed (simp_all add: opened_def, simp_all add: reply_def)

lemma finish_ok:
  assumes "body_ok s"
  shows "response_ok WL54CF_BUFFER (finish_response r s)" "fixed (finish_response r s) = fixed s"
proof -
  have r: "room_for [(2, le16 (blen (response s))), (6, le16 r), (blen (response s), replicate 8 0)]"
    using assms by (simp add: room_for_def response_ok_def)
  have "response_ok 2048 s" using assms by (simp add: response_ok_def)
  then show "response_ok WL54CF_BUFFER (finish_response r s)"
    using reply_ok [OF r, of 2048 s "blen (response s) + 8"] assms by (simp add: finish_response_def Let_def response_ok_def)
  show "fixed (finish_response r s) = fixed s" by (simp add: finish_response_def Let_def)
qed

lemma run_command_cases:
  assumes "run_command e op n s = r"
  obtains "op = 6" "r = cmd_scan n s" | "op = 0x50" "r = cmd_associate e n s"
  | c where "r = Some c" "c \<in> {cmd_hw_spec n s, cmd_authenticate n s, cmd_set_wep n s, cmd_rsn n s, cmd_key_material n s,
      cmd_deauthenticate n s, cmd_mac_control n s, cmd_radio_control n s, (2, s)}"
proof -
  have "op = 6 \<and> r = cmd_scan n s \<or> op = 0x50 \<and> r = cmd_associate e n s \<or>
    r \<in> Some ` {cmd_hw_spec n s, cmd_authenticate n s, cmd_set_wep n s, cmd_rsn n s, cmd_key_material n s,
      cmd_deauthenticate n s, cmd_mac_control n s, cmd_radio_control n s, (2, s)}"
    unfolding assms [symmetric] by (simp add: run_command_def)
  then show ?thesis using that by blast
qed

lemma run_command_ok:
  assumes "run_command e op n s = Some (r, t)" and "body_ok s" and "length (station s) = 6" and "ie_len (security s) \<le> 80"
  shows "body_ok t \<and> fixed t = fixed s"
  using assms(1)
proof (cases rule: run_command_cases)
  case 1
  then show ?thesis using scan_ok [of n s r t] scan_fixed [of n s r t] assms by simp
next
  case 2
  then show ?thesis using associate_ok [of e n s r t] associate_fixed [of e n s r t] assms by simp
next
  case (3 c)
  then have "t \<in> snd ` {cmd_hw_spec n s, cmd_authenticate n s, cmd_set_wep n s, cmd_rsn n s, cmd_key_material n s,
      cmd_deauthenticate n s, cmd_mac_control n s, cmd_radio_control n s, (2, s)}"
    by (metis (no_types, lifting) image_iff option.inject snd_conv)
  then show ?thesis
    using commands_fixed [of n s] simple_commands_ok [OF assms(2), of n] echo_commands_ok [OF assms(2), of n]
      hw_spec_ok [OF assms(2,3), of n] assms(2) by auto
qed

lemma station_command_ok:
  assumes "station_command e s = Some t" and "length (station s) = 6" and "ie_len (security s) \<le> 80"
  shows "(response t = response s \<or> response_ok WL54CF_BUFFER t) \<and> fixed t = fixed s"
proof -
  have o: "length (station (opened s)) = 6" "ie_len (security (opened s)) \<le> 80" using assms(2,3) by simp_all
  have e: "response_ok WL54CF_BUFFER (s\<lparr>response := empty_buffer\<rparr>)" by (simp add: response_ok_def) (simp add: empty_buffer_def)
  show ?thesis
    using picked [OF assms(1) [unfolded station_command_eq]]
  proof (elim disjE conjE)
    assume "Some t = map_option (\<lambda>(result, s). finish_response result s)
        (run_command e (get16 (bytes (command s)) 0) (get16 (bytes (command s)) 2) (opened s))"
    then have "map_option (\<lambda>(result, s). finish_response result s)
        (run_command e (get16 (bytes (command s)) 0) (get16 (bytes (command s)) 2) (opened s)) = Some t" by (rule sym)
    then obtain r u where u: "run_command e (get16 (bytes (command s)) 0) (get16 (bytes (command s)) 2) (opened s) = Some (r, u)"
      "t = finish_response r u" by (auto simp: map_option_eq_Some)
    then have "body_ok u \<and> fixed u = fixed s" using run_command_ok [OF u(1) opened_facts(5) o] by simp
    then show ?thesis using finish_ok [of u r] u(2) by simp
  qed (use e finish_ok [of "opened s" 2] in simp_all)
qed

lemma station_command_fault:
  assumes "station_command e s = None" and "length (bytes (command s)) = WL54CF_BUFFER" and "firmware_stage s = 2"
  shows "short_associate s"
proof -
  let ?op = "get16 (bytes (command s)) 0" and ?n = "get16 (bytes (command s)) 2"
  have g: "\<not> (blen (command s) < 8 \<or> blen (command s) > WL54CF_BUFFER \<or> bpos (command s) \<noteq> blen (command s))" "?n = blen (command s)"
    and r: "run_command e ?op ?n (opened s) = None"
    using assms(1) by (simp_all add: station_command_eq split: if_split_asm)
  have d: "length (bytes (command (opened s))) = WL54CF_BUFFER" "?n \<le> WL54CF_BUFFER" using g assms(2) by simp_all
  from r show ?thesis
  proof (cases rule: run_command_cases)
    case 1
    then show ?thesis using scan_runs [OF d] by simp
  next
    case 2
    then have "\<not> (21 \<le> ?n \<or> mode (security s) < 2)"
      using associate_runs [OF d, of e] by auto
    then show ?thesis using 2 g(2) assms(3) by (simp add: short_associate_def)
  qed simp
qed

lemma stream_read_loop_ok:
  "buffer_ok b \<Longrightarrow> blen b \<le> WL54CF_BUFFER \<Longrightarrow>
     buffer_ok (snd (stream_read_loop i k v b)) \<and> blen (snd (stream_read_loop i k v b)) = blen b"
proof (induction i k v b rule: stream_read_loop.induct)
  case (2 i k v b)
  show ?case
  proof (cases "bpos b < blen b")
    case True
    then have "touch (bpos b) 1 b = b" using 2(3,4) by (intro touch_ok) simp_all
    then show ?thesis using 2(1) [OF True] 2(3,4) True by simp
  next
    case False
    then show ?thesis using 2(2) [OF False] 2(3,4) by simp
  qed
qed simp

lemma stream_read_ok: "buffer_ok b \<Longrightarrow> blen b \<le> WL54CF_BUFFER \<Longrightarrow>
    buffer_ok (snd (stream_read k b)) \<and> blen (snd (stream_read k b)) = blen b"
  unfolding stream_read_def by (rule stream_read_loop_ok)

lemma stream_write_loop_ok: "buffer_ok b \<Longrightarrow> buffer_ok (stream_write_loop i k v b)"
proof (induction i k v b rule: stream_write_loop.induct)
  case (2 i k v b)
  have "buffer_ok (if bpos b < blen b \<and> bpos b < WL54CF_BUFFER then (fill (bpos b) [byte_at v i] b)\<lparr>bpos := bpos b + 1\<rparr> else b)"
    using fill_ok [OF 2(2), of "bpos b" "[byte_at v i]"] 2(2) by simp
  then show ?case using 2(1) by simp
qed simp

lemma stream_write_ok: "buffer_ok b \<Longrightarrow> buffer_ok (stream_write k v b)"
  unfolding stream_write_def by (rule stream_write_loop_ok)

lemma wl_wf_fixed:
  assumes "wl_wf s" and "fixed t = fixed s" and "response t = response s \<or> response_ok WL54CF_BUFFER t"
    and "ie (security t) = ie (security s)" "ie_len (security t) = ie_len (security s)"
  shows "wl_wf t"
  using assms by (auto simp: wl_wf_def rx_ok_def fixed_def response_ok_def)


lemma receive_wf: "wl_wf s \<Longrightarrow> wl_wf (snd (wl54cf_receive p s))"
proof (cases "wl_accepts s p")
  case True
  assume w: "wl_wf s"
  have n: "14 \<le> length p" "length p \<le> 1514" "rx_count s \<noteq> WL54CF_QUEUE" using True by (simp_all add: wl_accepts_def Let_def)
  have l: "length (rx_image p) = 28 + length p" using n by (simp add: rx_image_def Let_def)
  define b where "b = (fill 0 (rx_image p) empty_buffer)\<lparr>blen := 20 + length p + 8\<rparr>"
  have b: "buffer_ok b" "blen b \<le> WL54CF_BUFFER"
    using l n fill_ok [of empty_buffer 0 "rx_image p"] by (simp_all add: b_def)
  have "snd (wl54cf_receive p s) =
      s\<lparr>rxbufs := (rxbufs s)[(rx_head s + rx_count s) mod WL54CF_QUEUE := b], rx_count := rx_count s + 1, cause := cause s OR 2\<rparr>"
    using True by (simp add: wl54cf_receive_def Let_def b_def)
  then show ?thesis using w b n(3) by (auto simp: wl_wf_def rx_ok_def dest!: set_update_subset_insert [THEN subsetD])
next
  case False
  then show "wl_wf s \<Longrightarrow> ?thesis" by (simp add: wl54cf_receive_def)
qed

lemma deliver_wf: "wl_wf s \<Longrightarrow> wl_wf (deliver_pending s)"
proof -
  assume w: "wl_wf s"
  have p: "wl_wf t \<Longrightarrow> wl_wf (t\<lparr>security := (security t)\<lparr>pending_len := 0\<rparr>\<rparr>)" for t by (simp add: wl_wf_def rx_ok_def)
  show ?thesis using w p receive_wf [OF w] by (simp add: deliver_pending_def Let_def split_beta)
qed

lemma read_wf: "wl_wf s \<Longrightarrow> wl_wf (snd (wl54cf_read off sz s))"
proof -
  assume "wl_wf s"
  then have w: "wl_wf (deliver_pending s)" by (rule deliver_wf)
  define t where "t = deliver_pending s"
  have "rx_ok t" using w by (simp add: t_def wl_wf_def)
  then have "rxbufs t ! rx_head t \<in> set (rxbufs t)" by (simp add: rx_ok_def)
  then have a: "wl_wf (t\<lparr>rxbufs := (rxbufs t)[rx_head t := snd (stream_read sz (rxbufs t ! rx_head t))]\<rparr>)"
    using w stream_read_ok [of "rxbufs t ! rx_head t" sz] unfolding t_def [symmetric]
    by (auto simp: wl_wf_def rx_ok_def dest!: set_update_subset_insert [THEN subsetD])
  have b: "wl_wf (t\<lparr>response := snd (stream_read sz (response t))\<rparr>)"
    using w stream_read_ok [of "response t" sz] unfolding t_def [symmetric] by (simp add: wl_wf_def rx_ok_def)
  show ?thesis using a b w by (simp add: wl54cf_read_def t_def [symmetric] Let_def split_beta)
qed

lemma ring_command_ok:
  assumes "ring_command e w s = Some t" and "wl_wf s"
  shows "(response t = response s \<or> response_ok WL54CF_BUFFER t) \<and> fixed t = fixed s"
  using assms station_command_ok [of e s t] firmware_block_fixed [of s]
  by (auto simp: ring_command_def wl_wf_def split: if_splits)

lemma ring_data_wf:
  assumes "wl_wf s"
  shows "wl_wf (ring_data (env_of c a g iv) w s)"
proof -
  define u where "u = (if w AND 1 \<noteq> 0 \<and> firmware_stage s = 2 then wl_transmit (env_of c a g iv) s else s)"
  have "ie (security u) = ie (security s)" "ie_len (security u) = ie_len (security s)"
    by (simp_all add: u_def transmit_history history_ie)
  moreover have "buffer_ok (txbuf s)" using assms by (simp add: wl_wf_def)
  ultimately have "wl_wf u"
    by (intro wl_wf_fixed [OF assms]) (simp_all add: u_def transmit_fixed)
  moreover have "ring_data (env_of c a g iv) w s =
      (if w AND 2 \<noteq> 0 \<and> rx_count u \<noteq> 0 then u\<lparr>rx_head := (rx_head u + 1) mod WL54CF_QUEUE, rx_count := rx_count u - 1, host_status := 0\<rparr>
       else u\<lparr>host_status := 0\<rparr>)"
    by (simp add: ring_data_def u_def Let_def)
  ultimately show ?thesis by (auto simp: wl_wf_def rx_ok_def)
qed

lemma write_plain_wf:
  assumes "wl_wf s" and "off \<noteq> 2"
  shows "\<exists>t. wl54cf_write e off sz v s = Some t \<and> wl_wf t"
proof -
  have "wl_wf (acknowledge w s)" for w using assms(1) by (simp add: acknowledge_def wl_wf_def rx_ok_def Let_def)
  then show ?thesis using assms stream_write_ok by (simp add: wl54cf_write_def Let_def) (simp add: wl_wf_def rx_ok_def)
qed

lemma write_wf:
  assumes "wl_wf s"
  shows "case wl54cf_write (env_of c a g iv) off sz v s of
      Some t \<Rightarrow> wl_wf t | None \<Rightarrow> short_associate s \<and> doorbell off sz v s AND 4 \<noteq> 0"
proof (cases "off = 2 \<and> (sz = 1 \<or> sz = 2)")
  case False
  show ?thesis
  proof (cases "off = 2")
    case two: True
    then have "wl54cf_write (env_of c a g iv) off sz v s = Some s" using False by (auto simp: wl54cf_write_def Let_def)
    then show ?thesis using assms by simp
  next
    case two: False
    then obtain t where "wl54cf_write (env_of c a g iv) off sz v s = Some t" "wl_wf t"
      using write_plain_wf [OF assms] by blast
    then show ?thesis by simp
  qed
next
  case True
  define w where "w = doorbell off sz v s"
  have wr: "wl54cf_write (env_of c a g iv) off sz v s =
      map_option (ring_data (env_of c a g iv) w) (ring_command (env_of c a g iv) w s)"
    using True by (auto simp: wl54cf_write_def doorbell_def w_def Let_def)
  show ?thesis
  proof (cases "ring_command (env_of c a g iv) w s")
    case None
    then have "w AND 4 \<noteq> 0" "firmware_stage s = 2" "station_command (env_of c a g iv) s = None"
      by (auto simp: ring_command_def split: if_splits)
    moreover have "length (bytes (command s)) = WL54CF_BUFFER" using assms by (simp add: wl_wf_def buffer_ok_def)
    ultimately have "short_associate s" using station_command_fault [of "env_of c a g iv" s] by simp
    then show ?thesis using \<open>w AND 4 \<noteq> 0\<close> by (simp add: wr None w_def [symmetric])
  next
    case (Some t)
    have "wl_wf t"
      using wl_wf_fixed [OF assms] ring_command_ok [OF Some assms] ring_command_history [OF Some] by (simp add: history_ie)
    then show ?thesis using ring_data_wf [of t c a g iv w] by (simp add: wr Some)
  qed
qed

lemma reset_wf: "length (station s) = 6 \<Longrightarrow> ie_len (security s) \<le> 80 \<Longrightarrow> length (ie (security s)) = 80 \<Longrightarrow> wl_wf (wl54cf_reset s)"
  by (simp add: wl54cf_reset_def wl_wf_def rx_ok_def wifi_security_reset_def) (simp add: empty_buffer_def)

text \<open>The accesses that fault.\<close>

definition faulting :: "wl_event \<Rightarrow> wl54cf \<Rightarrow> bool" where
  "faulting e s \<longleftrightarrow> short_associate s \<and> (\<exists>a g iv off sz v. e = Write a g iv off sz v \<and> doorbell off sz v s AND 4 \<noteq> 0)"

lemma wl_step_wf: "wl_wf s \<Longrightarrow> case wl_step c e s of Some t \<Rightarrow> wl_wf t | None \<Rightarrow> faulting e s"
proof (cases e)
  case (Write a g iv off sz v)
  assume "wl_wf s"
  then show ?thesis using write_wf [of s, where c = c and a = a and g = g and iv = iv and off = off and sz = sz and v = v] Write by (auto simp: faulting_def split: option.splits)
next
  case Card_Reset
  assume "wl_wf s"
  then show ?thesis using Card_Reset reset_wf [of s] by (simp add: wl_wf_def)
qed (simp_all add: read_wf receive_wf)

lemma run_wf:
  "wl_wf s \<Longrightarrow> case wl_run c es s of
     Some t \<Rightarrow> wl_wf t
   | None \<Rightarrow> \<exists>pre e post t. es = pre @ e # post \<and> wl_run c pre s = Some t \<and> faulting e t"
proof (induction es arbitrary: s)
  case Nil
  then show ?case by simp
next
  case (Cons e es)
  show ?case
  proof (cases "wl_step c e s")
    case None
    then have "faulting e s" using wl_step_wf [OF Cons.prems, where c = c and e = e] by simp
    then have "\<exists>pre x post t. e # es = pre @ x # post \<and> wl_run c pre s = Some t \<and> faulting x t"
      by (intro exI [of _ "[]"] exI [of _ e] exI [of _ es] exI [of _ s]) simp
    moreover have "wl_run c (e # es) s = None" using None by simp
    ultimately show ?thesis by (simp only: option.case)
  next
    case (Some u)
    then have wu: "wl_wf u" using wl_step_wf [OF Cons.prems, where c = c and e = e] by simp
    show ?thesis
    proof (cases "wl_run c es u")
      case None
      then obtain pre x post t where "es = pre @ x # post" "wl_run c pre u = Some t" "faulting x t"
        using Cons.IH [OF wu] by auto
      then have "e # es = (e # pre) @ x # post" "wl_run c (e # pre) s = Some t" "faulting x t" by (simp_all add: Some)
      then have "\<exists>pre x post t. e # es = pre @ x # post \<and> wl_run c pre s = Some t \<and> faulting x t" by blast
      moreover have "wl_run c (e # es) s = None" using None Some by simp
      ultimately show ?thesis by (simp only: option.case)
    next
      case (Some t)
      then show ?thesis using \<open>wl_step c e s = Some u\<close> Cons.IH [OF wu] by simp
    qed
  qed
qed


text \<open>Such an access does fault, unless the bytes past the request happen to form a list.\<close>

lemma short_associate_overreads:
  assumes "short_associate s" and "cause s AND 8 = 0" and "8 \<le> blen (command s)" and "bpos (command s) = blen (command s)"
    and "length (bytes (command s)) = WL54CF_BUFFER" and "\<And>i. 21 \<le> i \<Longrightarrow> i < WL54CF_BUFFER \<Longrightarrow> bytes (command s) ! i = 0"
    and "ie (security s) ! 0 \<noteq> 0"
  shows "station_command e s = None"
proof -
  let ?n = "get16 (bytes (command s)) 2" and ?s = "opened s"
  have n: "?n = blen (command s)" "?n < 21" "get16 (bytes (command s)) 0 = 0x50" "2 \<le> mode (security s)"
    using assms(1) by (simp_all add: short_associate_def)
  have "unat (ie (security s) ! 0) \<noteq> 0" using assms(7) by (simp add: unat_eq_zero)
  then have "tlv (bytes (command s)) (unat (ie (security s) ! 0)) 21 (2 ^ 64 + ?n - 21) = Fault"
    using assms(5,6) by (intro zero_list_faults) simp_all
  then have "assoc_rsn ok ?n ?s = None" for ok using n(2) by (simp add: assoc_rsn_def Let_def)
  then have "assoc_ok ?n ?s = None" using n(4) by (simp add: assoc_ok_def Let_def split: option.split)
  then show ?thesis using assms(2-4) n
    by (simp add: station_command_eq run_command_def cmd_associate_def)
qed

lemma length_unhex_loop: "length (snd (unhex_loop i n key dst)) = length dst"
  by (induction i n key dst rule: unhex_loop.induct) (simp_all split: option.split)

lemma configured_ie:
  assumes "length (ie s) = 80"
  shows "ie_len (snd (wifi_security_configure c md key s)) \<le> 80 \<and> length (ie (snd (wifi_security_configure c md key s))) = 80"
proof -
  have w: "ie_len (snd (configure_wep key s)) = ie_len s" "ie (snd (configure_wep key s)) = ie s" for s
    by (simp_all add: configure_wep_def Let_def split_beta)
  have l: "length rsn_ie = 22" "length wpa_ie = 24" by (simp_all add: rsn_ie_def wpa_ie_def)
  have p: "ie_len (snd (configure_wpa c key s)) \<le> 80 \<and> length (ie (snd (configure_wpa c key s))) = 80"
    if "length (ie s) = 80" "ie_len s \<le> 80" for s
    using that l by (simp add: configure_wpa_def Let_def split_beta split: option.split)
  show ?thesis using assms w p
    by (simp add: wifi_security_configure_def Let_def split_beta wifi_security_reset_def)
qed

lemma init_wf: "length m = 6 \<Longrightarrow> wl_wf (wl54cf_init (wifi_security_init cr md key m) m tx)"
  unfolding wl54cf_init_def wifi_security_init_def
  by (rule reset_wf) (simp_all add: configured_ie)

section \<open>Properties\<close>



end
