(* ===== verification/Xi825.thy ===== *)
theory Xi825
  imports Wifi_Security "HOL-Library.Monad_Syntax"
begin

text \<open>
  The Z-Com XI-825 (PRISM) and Lucent/Agere (Hermes) wireless cards (\<open>src/hw/xi825.c\<close>): the
  records of the station firmware, its packet buffers, the two buffer access paths, the commands and
  the events. Using a record the card does not have, a null pointer in the code, is the value
  \<open>None\<close>. Frames handed to the network are recorded in \<open>sent\<close>.
\<close>

section \<open>State\<close>

record xi_record =
  rec_id :: u16
  rec_length :: nat
  rec_data :: "u8 list"
  rec_committed :: "u8 list"

record xi_buffer =
  buf_id :: u16
  buf_length :: nat
  buf_used :: bool
  buf_data :: "u8 list"

record xi825 =
  security :: wifi_security
  regs :: "u16 list"
  buffers :: "xi_buffer list"
  records :: "xi_record list"
  station :: "u8 list"
  enabled :: bool
  associated :: bool
  link_pending :: bool
  hermes :: bool
  hermes_firmware :: nat
  next_fid :: u16
  info_queue :: "u16 list"
  info_head :: nat
  info_count :: nat
  rx_queue :: "u16 list"
  rx_head :: nat
  rx_count :: nat
  transmit :: bool
  sent :: "u8 list list"

abbreviation (input) XI825_BUFFER_SIZE :: nat where "XI825_BUFFER_SIZE \<equiv> 4096"
abbreviation (input) XI825_BUFFERS :: nat where "XI825_BUFFERS \<equiv> 24"
abbreviation (input) XI825_RECORDS :: nat where "XI825_RECORDS \<equiv> 64"

text \<open>Register numbers and events.\<close>

abbreviation (input) CMD :: nat where "CMD \<equiv> 0"
abbreviation (input) PARAM0 :: nat where "PARAM0 \<equiv> 1"
abbreviation (input) STATUS :: nat where "STATUS \<equiv> 4"
abbreviation (input) RESP0 :: nat where "RESP0 \<equiv> 5"
abbreviation (input) INFOFID :: nat where "INFOFID \<equiv> 8"
abbreviation (input) SELECT0 :: nat where "SELECT0 \<equiv> 12"
abbreviation (input) OFFSET0 :: nat where "OFFSET0 \<equiv> 14"
abbreviation (input) RXFID :: nat where "RXFID \<equiv> 16"
abbreviation (input) ALLOCFID :: nat where "ALLOCFID \<equiv> 17"
abbreviation (input) TXFID :: nat where "TXFID \<equiv> 18"
abbreviation (input) EVSTAT :: nat where "EVSTAT \<equiv> 24"
abbreviation (input) INTEN :: nat where "INTEN \<equiv> 25"
abbreviation (input) EVACK :: nat where "EVACK \<equiv> 26"

abbreviation (input) EV_RX :: u16 where "EV_RX \<equiv> 1"
abbreviation (input) EV_TX :: u16 where "EV_TX \<equiv> 2"
abbreviation (input) EV_TXEXC :: u16 where "EV_TXEXC \<equiv> 4"
abbreviation (input) EV_ALLOC :: u16 where "EV_ALLOC \<equiv> 8"
abbreviation (input) EV_CMD :: u16 where "EV_CMD \<equiv> 16"
abbreviation (input) EV_INFO :: u16 where "EV_INFO \<equiv> 128"
abbreviation (input) EV_INFDROP :: u16 where "EV_INFDROP \<equiv> 0x2000"

definition ap_bssid :: "u8 list" where
  "ap_bssid = [2, 0x42, 0x45, 0x33, 0x30, 0x30]"

definition ap_ssid :: "u8 list" where
  "ap_ssid = [66, 69, 51, 48, 48]"

definition rd16 :: "u8 list \<Rightarrow> nat \<Rightarrow> nat" where
  "rd16 p i = unat (p ! i) + 256 * unat (p ! (i + 1))"

definition wr16 :: "nat \<Rightarrow> u8 list" where
  "wr16 v = [of_nat v, of_nat (v div 256)]"

definition set_reg :: "nat \<Rightarrow> u16 \<Rightarrow> xi825 \<Rightarrow> xi825" where
  "set_reg r v s = s\<lparr>regs := (regs s)[r := v]\<rparr>"

definition raise_event :: "u16 \<Rightarrow> xi825 \<Rightarrow> xi825" where
  "raise_event e s = set_reg EVSTAT (regs s ! EVSTAT OR e) s"

section \<open>Records\<close>

text \<open>The slot of a record; a free slot has the identifier 0.\<close>

definition record_slot :: "u16 \<Rightarrow> xi825 \<Rightarrow> nat option" where
  "record_slot rid s = find (\<lambda>i. rec_id (records s ! i) = rid) [0..<length (records s)]"

definition committed :: "u16 \<Rightarrow> xi825 \<Rightarrow> u8 list option" where
  "committed rid s = map_option (\<lambda>i. rec_committed (records s ! i)) (record_slot rid s)"

definition setting :: "u16 \<Rightarrow> xi825 \<Rightarrow> nat option" where
  "setting rid s = map_option (\<lambda>c. rd16 c 4) (committed rid s)"

definition new_record :: "u16 \<Rightarrow> u8 list \<Rightarrow> xi_record" where
  "new_record rid d =
     (let n = length d; m = overlay 0 (wr16 (1 + (n + 1) div 2) @ wr16 (unat rid) @ d) (replicate 128 0)
      in \<lparr>rec_id = rid, rec_length = 4 + 2 * ((n + 1) div 2), rec_data = m, rec_committed = m\<rparr>)"

definition add_record :: "u16 \<Rightarrow> u8 list \<Rightarrow> xi825 \<Rightarrow> xi825" where
  "add_record rid d s =
     (case (case record_slot rid s of Some i \<Rightarrow> Some i | None \<Rightarrow> record_slot 0 s) of
        None \<Rightarrow> s
      | Some i \<Rightarrow> if length d > 128 - 4 then s else s\<lparr>records := (records s)[i := new_record rid d]\<rparr>)"

definition scalar :: "u16 \<Rightarrow> nat \<Rightarrow> xi825 \<Rightarrow> xi825" where
  "scalar rid v s = add_record rid (wr16 v) s"

section \<open>Packet buffers\<close>

definition buffer_slot :: "u16 \<Rightarrow> xi825 \<Rightarrow> nat option" where
  "buffer_slot fid s = find (\<lambda>i. buf_used (buffers s ! i) \<and> buf_id (buffers s ! i) = fid) [0..<length (buffers s)]"

text \<open>The search for an identifier no buffer uses; at most \<open>XI825_BUFFERS\<close> are in use.\<close>

fun free_fid :: "nat \<Rightarrow> xi825 \<Rightarrow> u16 \<Rightarrow> u16" where
  "free_fid 0 s f = f"
| "free_fid (Suc k) s f = (if buffer_slot f s = None then f else free_fid k s (f + 1))"

definition allocate :: "nat \<Rightarrow> xi825 \<Rightarrow> (nat \<times> xi825) option" where
  "allocate n s =
     (if n > XI825_BUFFER_SIZE \<or> n = 0 then None
      else case find (\<lambda>i. \<not> buf_used (buffers s ! i)) [0..<length (buffers s)] of
             None \<Rightarrow> None
           | Some i \<Rightarrow>
               let b = \<lparr>buf_id = next_fid s, buf_length = n, buf_used = True, buf_data = replicate XI825_BUFFER_SIZE 0\<rparr>;
                   f = (if next_fid s + 1 \<ge> 0x8000 then 0x100 else next_fid s + 1);
                   s = s\<lparr>buffers := (buffers s)[i := b]\<rparr>
               in Some (i, s\<lparr>next_fid := free_fid XI825_BUFFERS s f\<rparr>))"

definition set_buffer :: "nat \<Rightarrow> u8 list \<Rightarrow> xi825 \<Rightarrow> xi825" where
  "set_buffer i d s = s\<lparr>buffers := (buffers s)[i := (buffers s ! i)\<lparr>buf_data := d\<rparr>]\<rparr>"

definition release :: "u16 \<Rightarrow> xi825 \<Rightarrow> xi825" where
  "release fid s =
     (case buffer_slot fid s of
        None \<Rightarrow> s
      | Some i \<Rightarrow> s\<lparr>buffers := (buffers s)[i := (buffers s ! i)\<lparr>buf_used := False\<rparr>]\<rparr>)"

definition info :: "nat \<Rightarrow> u8 list \<Rightarrow> xi825 \<Rightarrow> bool \<times> xi825" where
  "info type d s =
     (if info_count s = 8 then (False, raise_event EV_INFDROP s)
      else case allocate (4 + length d) s of
             None \<Rightarrow> (False, raise_event EV_INFDROP s)
           | Some (i, s) \<Rightarrow>
               let s = set_buffer i (overlay 0 (wr16 (1 + length d div 2) @ wr16 type @ d) (buf_data (buffers s ! i))) s;
                   s = s\<lparr>info_queue := (info_queue s)[(info_head s + info_count s) mod 8 := buf_id (buffers s ! i)],
                         info_count := info_count s + 1\<rparr>
               in (True, raise_event EV_INFO (set_reg INFOFID (info_queue s ! info_head s) s)))"

section \<open>Association\<close>

definition hermes_major :: "xi825 \<Rightarrow> nat" where
  "hermes_major s = (if hermes_firmware s \<noteq> 0 then hermes_firmware s div 256 else 8)"

definition hermes_minor :: "xi825 \<Rightarrow> nat" where
  "hermes_minor s = (if hermes_firmware s \<noteq> 0 then hermes_firmware s mod 256 else 72)"

definition hermes_host_scan :: "xi825 \<Rightarrow> bool" where
  "hermes_host_scan s \<longleftrightarrow> hermes_major s > 8 \<or> hermes_major s = 8 \<and> hermes_minor s \<ge> 10"

definition wants_network :: "u8 list \<Rightarrow> xi825 \<Rightarrow> bool option" where
  "wants_network ssid s =
     (if \<not> enabled s then Some False
      else do {
        port \<leftarrow> setting 0xFC00 s;
        let n = rd16 ssid 4;
        Some (port = 1 \<and> (n = 0 \<or> n = length ap_ssid \<and> take n (drop 6 ssid) = ap_ssid))
      })"

definition hermes_associates :: "u8 list \<Rightarrow> xi825 \<Rightarrow> bool option" where
  "hermes_associates ssid s =
     (let ap = security s
      in do {
        wep \<leftarrow> setting 0xFC20 s;
        if (wep \<noteq> 0) \<noteq> (mode ap = 1) then Some False
        else if wep = 0 then wants_network ssid s
        else do {
          index \<leftarrow> setting 0xFCB1 s;
          keys \<leftarrow> map_option (drop 4) (committed 0xFC25 s);
          if index > 3 \<or> rd16 keys (16 * index) \<noteq> secret_len ap \<or>
             \<not> wifi_security_wep ap index (drop (16 * index + 2) keys) (secret_len ap) then Some False
          else wants_network ssid s
        }
      })"

definition prism_associates :: "u8 list \<Rightarrow> xi825 \<Rightarrow> bool option" where
  "prism_associates ssid s =
     (let ap = security s
      in do {
        flags \<leftarrow> setting 0xFC28 s;
        if odd flags \<noteq> (mode ap = 1) then Some False
        else if mode ap \<noteq> 1 then wants_network ssid s
        else do {
          index \<leftarrow> setting 0xFC23 s;
          case (if index < 4 then committed (0xFC24 + of_nat index) s else None) of
            None \<Rightarrow> Some False
          | Some key \<Rightarrow>
              if \<not> wifi_security_wep ap index (drop 4 key) (secret_len ap) then Some False
              else
                let size = (if secret_len ap = 5 then 6 else 14)
                in if \<exists>i \<in> set [0..<4]. case record_slot (0xFC24 + of_nat i) s of
                         None \<Rightarrow> True | Some j \<Rightarrow> rec_length (records s ! j) \<noteq> 4 + size
                   then Some False
                   else wants_network ssid s
        }
      })"

definition can_associate :: "xi825 \<Rightarrow> bool option" where
  "can_associate s =
     do {
       ssid \<leftarrow> committed 0xFC02 s;
       if \<not> valid (security s) \<or> mode (security s) > 1 then Some False
       else if hermes s then hermes_associates ssid s
       else prism_associates ssid s
     }"

definition xi825_tick :: "xi825 \<Rightarrow> xi825 option" where
  "xi825_tick s =
     do {
       connected \<leftarrow> can_associate s;
       let s = s\<lparr>security := (security s)\<lparr>authorized := connected\<rparr>\<rparr>;
       Some (if link_pending s \<or> connected \<noteq> associated s
             then (case info 0xF200 (wr16 (if connected then 1 else 2)) s of
                     (ok, s) \<Rightarrow> if ok then s\<lparr>associated := connected, link_pending := False\<rparr> else s)
             else s)
     }"

section \<open>Scanning and the derived records\<close>

definition scan_capability :: "xi825 \<Rightarrow> nat" where
  "scan_capability s = (if mode (security s) \<noteq> 0 then 0x11 else 1)"

definition hermes_cell :: "nat \<Rightarrow> xi825 \<Rightarrow> u8 list" where
  "hermes_cell level s = wr16 3 @ wr16 40 @ wr16 level @ ap_bssid @ wr16 100 @ wr16 (scan_capability s) @
     wr16 (length ap_ssid) @ ap_ssid @ replicate 27 0"

definition prism_results :: "xi825 \<Rightarrow> u8 list" where
  "prism_results s = [0, 0] @ wr16 1 @ wr16 3 @ wr16 40 @ wr16 100 @ ap_bssid @ wr16 100 @ wr16 (scan_capability s) @
     wr16 (length ap_ssid) @ ap_ssid @ replicate 27 0 @ [0x82, 0x84, 0x0B, 0x16] @ replicate 6 0 @ wr16 22"

definition scan :: "xi825 \<Rightarrow> xi825 option" where
  "scan s =
     (if hermes s then
        (if hermes_host_scan s then Some (snd (info 0xF101 (hermes_cell 100 s @ hermes_cell 90 s) s))
         else do {
           n \<leftarrow> setting 0xFC02 s;
           Some (snd (info 0xF101 (if n \<noteq> 0 then [] else hermes_cell 100 s @ hermes_cell 90 s) s))
         })
      else Some (snd (info 0xF101 (prism_results s) s)))"

definition refresh_record :: "u16 \<Rightarrow> xi825 \<Rightarrow> xi825" where
  "refresh_record rid s =
     (let up = associated s
      in if rid = 0xFC01 then add_record rid (station s) s
         else if rid = 0xFD40 then scalar rid (if up then 1 else if enabled s then 2 else 0) s
         else if rid = 0xFD41 then add_record rid (if up then wr16 (length ap_ssid) @ ap_ssid @ replicate 27 0 else replicate 34 0) s
         else if rid = 0xFD42 then add_record rid (if up then ap_bssid else replicate 6 0) s
         else if rid = 0xFD43 then add_record rid (if up then wr16 60 @ wr16 100 @ wr16 40 else replicate 6 0) s
         else if rid = 0xFD44 then scalar rid (if up then (if hermes s then 11 else 8) else 0) s
         else if rid = 0xFDC1 then scalar rid (if up then 3 else 0) s
         else s)"

section \<open>Reset\<close>

definition default_scalars :: "(u16 \<times> nat) list" where
  "default_scalars =
     [(0xFC00, 1), (0xFC03, 3), (0xFC06, 1), (0xFC07, 2304), (0xFC09, 0), (0xFC23, 0), (0xFC28, 0), (0xFC2A, 1),
      (0xFC2D, 1), (0xFC33, 100), (0xFC41, 0), (0xFC81, 0), (0xFC82, 2346), (0xFC83, 2347), (0xFC84, 15), (0xFC85, 0),
      (0xFCB0, 1), (0xFCB3, 3), (0xFCB4, 15), (0xFCE0, 0), (0xFD4F, 0), (0xFD11, 1), (0xFDC0, 2), (0xFD10, 0x7FF)]"

definition wr16s :: "nat list \<Rightarrow> u8 list" where
  "wr16s vs = concat (map wr16 vs)"

definition identity_records :: "xi825 \<Rightarrow> (u16 \<times> u8 list) list" where
  "identity_records s =
     [(0xFC24, replicate 14 0), (0xFC25, replicate 14 0), (0xFC26, replicate 14 0), (0xFC27, replicate 14 0),
      (0xFC01, station s), (0xFC02, replicate 34 0), (0xFC04, replicate 34 0), (0xFC0E, replicate 34 0), (0xFC80, []),
      (0xFCE1, replicate 4 0), (0xFCE2, replicate 8 0), (0xFD02, wr16s [0x15, 1, 1, 1]),
      (0xFD20, wr16s (if hermes s then [0x1F, 1, hermes_major s, hermes_minor s] else [0x1F, 1, 1, 7])),
      (0xFD01, wr16s [0x8000, 0, 4096]), (0xFD03, wr16s [1, 3, 1, 1, 1]), (0xFD04, wr16s [1, 3, 1, 1, 1]),
      (0xFD21, wr16s [1, 3, 1, 1, 1]), (0xFD40, wr16 0), (0xFD44, wr16 0), (0xFDC1, wr16 0), (0xFD41, replicate 34 0),
      (0xFD42, replicate 6 0), (0xFD43, replicate 6 0)]"

definition hermes_records :: "xi825 \<Rightarrow> (u16 \<times> u8 list) list" where
  "hermes_records s =
     (if \<not> hermes s then []
      else [(0xFC20, wr16 0), (0xFC21, wr16 1), (0xFCB1, wr16 0), (0xFC25, replicate 64 0)] @
        (if hermes_host_scan s then [(0xFCB2, replicate 34 0)] else []))"

definition default_records :: "xi825 \<Rightarrow> (u16 \<times> u8 list) list" where
  "default_records s = map (\<lambda>(i, v). (i, wr16 v)) default_scalars @ identity_records s @ hermes_records s"

definition xi825_set_cis :: "u8 list \<Rightarrow> xi825 \<Rightarrow> xi825" where
  "xi825_set_cis cis s = add_record 0xFD13 cis s"

definition cleared :: "xi825 \<Rightarrow> xi825" where
  "cleared s =
     s\<lparr>security := wifi_security_reset (security s), regs := replicate 32 0,
       buffers := replicate XI825_BUFFERS \<lparr>buf_id = 0, buf_length = 0, buf_used = False, buf_data = replicate XI825_BUFFER_SIZE 0\<rparr>,
       records := replicate XI825_RECORDS \<lparr>rec_id = 0, rec_length = 0, rec_data = replicate 128 0, rec_committed = replicate 128 0\<rparr>,
       enabled := False, associated := False, link_pending := False, next_fid := 0x100, info_queue := replicate 8 0,
       info_head := 0, info_count := 0, rx_queue := replicate 8 0, rx_head := 0, rx_count := 0\<rparr>"

definition xi825_reset :: "xi825 \<Rightarrow> xi825" where
  "xi825_reset s =
     (let cis = (case record_slot 0xFD13 s of
                   None \<Rightarrow> []
                 | Some i \<Rightarrow> take (rec_length (records s ! i) - 4) (drop 4 (rec_committed (records s ! i))));
          s = fold (\<lambda>(i, d). add_record i d) (default_records s) (cleared s)
      in if cis \<noteq> [] then xi825_set_cis cis s else s)"

definition xi825_set_hermes_firmware :: "nat \<Rightarrow> nat \<Rightarrow> xi825 \<Rightarrow> xi825" where
  "xi825_set_hermes_firmware major minor s =
     xi825_reset (s\<lparr>hermes_firmware := 256 * (major mod 256) + minor mod 256\<rparr>)"

definition xi825_set_hermes :: "bool \<Rightarrow> xi825 \<Rightarrow> xi825" where
  "xi825_set_hermes h s = xi825_reset (s\<lparr>hermes := h\<rparr>)"

definition xi825_init :: "wifi_security \<Rightarrow> u8 list \<Rightarrow> xi825" where
  "xi825_init ap m = xi825_reset \<lparr>security = ap, regs = [], buffers = [], records = [], station = m, enabled = False,
     associated = False, link_pending = False, hermes = False, hermes_firmware = 0, next_fid = 0, info_queue = [],
     info_head = 0, info_count = 0, rx_queue = [], rx_head = 0, rx_count = 0, transmit = False, sent = []\<rparr>"

section \<open>Buffer access paths\<close>

datatype bap_target = In_Record nat | In_Buffer nat | Nowhere

definition bap_memory :: "nat \<Rightarrow> xi825 \<Rightarrow> bap_target" where
  "bap_memory port s =
     (let fid = regs s ! (SELECT0 + port)
      in case record_slot fid s of
           Some i \<Rightarrow> In_Record i
         | None \<Rightarrow> (case buffer_slot fid s of Some i \<Rightarrow> In_Buffer i | None \<Rightarrow> Nowhere))"

definition bap_capacity :: "bap_target \<Rightarrow> xi825 \<Rightarrow> nat" where
  "bap_capacity m s = (case m of In_Record i \<Rightarrow> 128 | In_Buffer i \<Rightarrow> buf_length (buffers s ! i) | Nowhere \<Rightarrow> 0)"

definition bap_bytes :: "bap_target \<Rightarrow> xi825 \<Rightarrow> u8 list" where
  "bap_bytes m s = (case m of In_Record i \<Rightarrow> rec_data (records s ! i) | In_Buffer i \<Rightarrow> buf_data (buffers s ! i) | Nowhere \<Rightarrow> [])"

definition bap_store :: "bap_target \<Rightarrow> u8 list \<Rightarrow> xi825 \<Rightarrow> xi825" where
  "bap_store m d s =
     (case m of
        In_Record i \<Rightarrow> s\<lparr>records := (records s)[i := (records s ! i)\<lparr>rec_data := d\<rparr>]\<rparr>
      | In_Buffer i \<Rightarrow> set_buffer i d s
      | Nowhere \<Rightarrow> s)"

text \<open>One access of one or two bytes: the value read and, for a write, the bytes put in its place.\<close>

definition bap_data :: "nat \<Rightarrow> nat \<Rightarrow> u16 option \<Rightarrow> xi825 \<Rightarrow> u16 \<times> xi825" where
  "bap_data port sz w s =
     (let m = bap_memory port s; off = regs s ! (OFFSET0 + port); pos = unat (off AND 0x3FFF); p = bap_bytes m s
      in if off AND 0x4000 \<noteq> 0 \<or> m = Nowhere \<or> pos + sz > bap_capacity m s
         then (0xFFFF, set_reg (OFFSET0 + port) (off OR 0x4000) s)
         else
           let out = (if sz = 2 then ucast (p ! pos) OR push_bit 8 (ucast (p ! (pos + 1))) else ucast (p ! pos));
               s = (case w of
                      None \<Rightarrow> s
                    | Some v \<Rightarrow> bap_store m (overlay pos (take sz [ucast v, ucast (drop_bit 8 v)]) p) s)
           in (out, set_reg (OFFSET0 + port) (of_nat (pos + sz)) s))"

section \<open>Commands\<close>

text \<open>The Ethernet frame a transmit buffer stands for: the firmware removes the SNAP header of the
  two encapsulations it knows.\<close>

definition ethernet_of :: "xi_buffer \<Rightarrow> u8 list option" where
  "ethernet_of b =
     (let d = buf_data b; n0 = rd16 d 44;
          n = (if n0 = 0 then 256 * unat (d ! 58) + unat (d ! 59) else n0); p = drop 60 d
      in if buf_length b < 60 \<or> n > 1600 - 14 \<or> 60 + n > buf_length b then None
         else if n \<ge> 8 \<and> take 5 p = [0xAA, 0xAA, 3, 0, 0] \<and> (p ! 5 = 0 \<or> p ! 5 = 0xF8)
              then Some (take 12 (drop 46 d) @ take (n - 6) (drop 6 p))
              else Some (take 12 (drop 46 d) @ take 2 (drop 58 d) @ take n p))"

definition transmit_buffer :: "nat \<Rightarrow> xi825 \<Rightarrow> bool \<times> xi825" where
  "transmit_buffer i s =
     (if \<not> associated s then (False, s)
      else case ethernet_of (buffers s ! i) of
             None \<Rightarrow> (False, s)
           | Some f \<Rightarrow> (True, if transmit s then s\<lparr>sent := sent s @ [f]\<rparr> else s))"

text \<open>Each command returns its result code.\<close>

definition cmd_enable :: "u16 \<Rightarrow> xi825 \<Rightarrow> nat \<times> xi825" where
  "cmd_enable v s = (if v AND 0x700 \<noteq> 0 then (1, s) else (0, s\<lparr>enabled := True, link_pending := True\<rparr>))"

definition cmd_alloc :: "u16 \<Rightarrow> xi825 \<Rightarrow> nat \<times> xi825" where
  "cmd_alloc param s =
     (if regs s ! EVSTAT AND EV_ALLOC \<noteq> 0 then (5, s)
      else case allocate (unat param) s of
             None \<Rightarrow> (5, s)
           | Some (i, s) \<Rightarrow>
               let f = buf_id (buffers s ! i)
               in (0, raise_event EV_ALLOC (set_reg ALLOCFID f (set_reg RESP0 f s))))"

definition cmd_transmit :: "u16 \<Rightarrow> u16 \<Rightarrow> xi825 \<Rightarrow> nat \<times> xi825" where
  "cmd_transmit v param s =
     (case buffer_slot param s of
        None \<Rightarrow> (5, s)
      | Some i \<Rightarrow>
          if regs s ! EVSTAT AND EV_ALLOC \<noteq> 0 then (5, s)
          else
            let (ok, s) = transmit_buffer i s;
                s = set_buffer i (overlay 0 (wr16 (if ok then 0 else 1)) (buf_data (buffers s ! i))) s;
                control = rd16 (buf_data (buffers s ! i)) 12;
                s = (if ok then (if bit control 1 then raise_event EV_TX s else s)
                     else if bit control 2 then raise_event EV_TXEXC s else s);
                s = set_reg TXFID param s
            in (0, if v AND 0x100 \<noteq> 0 then raise_event EV_ALLOC (set_reg ALLOCFID param s) else release param s))"

definition cmd_inquire :: "u16 \<Rightarrow> xi825 \<Rightarrow> (nat \<times> xi825) option" where
  "cmd_inquire param s =
     (if param = 0xF100 then Some (0, snd (info 0xF100 (replicate 42 0) s))
      else if param = 0xF101 then map_option (Pair 0) (scan s)
      else if param = 0xF200 then Some (0, s\<lparr>link_pending := True\<rparr>)
      else Some (1, s))"

definition commit_record :: "u16 \<Rightarrow> nat \<Rightarrow> xi825 \<Rightarrow> (nat \<times> xi825) option" where
  "commit_record param i s =
     (let r = records s ! i; words = rd16 (rec_data r) 0
      in if param AND 0xFF00 \<noteq> 0xFC00 \<or> words = 0 \<or> words > 63 \<or> rd16 (rec_data r) 2 \<noteq> unat param then Some (1, s)
         else
           let s = s\<lparr>records := (records s)[i := r\<lparr>rec_length := 2 + words * 2, rec_committed := rec_data r\<rparr>]\<rparr>;
               s = (if param = 0xFC01 \<and> words = 4 then s\<lparr>station := take 6 (drop 4 (rec_data r))\<rparr> else s)
           in map_option (Pair 0) (if param = 0xFCE1 then scan s else Some s))"

definition cmd_access :: "u16 \<Rightarrow> u16 \<Rightarrow> xi825 \<Rightarrow> (nat \<times> xi825) option" where
  "cmd_access v param s =
     (case record_slot param s of
        None \<Rightarrow> Some (1, s)
      | Some i \<Rightarrow>
          if v AND 0x100 \<noteq> 0 then commit_record param i s
          else
            let s = refresh_record param s; r = records s ! i
            in Some (0, s\<lparr>records := (records s)[i := r\<lparr>rec_data := rec_committed r\<rparr>]\<rparr>))"

definition run_command :: "u16 \<Rightarrow> xi825 \<Rightarrow> (nat \<times> xi825) option" where
  "run_command v s =
     (let op = v AND 0x3F; param = regs s ! PARAM0;
          s = fold (\<lambda>(r, x). set_reg r x) [(CMD, v AND 0x7FFF), (RESP0, 0), (RESP0 + 1, 0), (RESP0 + 2, 0)] s
      in if op = 0 then Some (0, xi825_reset s)
         else if op = 1 then Some (cmd_enable v s)
         else if op = 2 then Some (0, s\<lparr>enabled := False, link_pending := associated s\<rparr>)
         else if op = 0x0A then Some (cmd_alloc param s)
         else if op = 0x0B then Some (cmd_transmit v param s)
         else if op = 0x11 then cmd_inquire param s
         else if op = 0x21 then cmd_access v param s
         else Some (1, s))"

definition command :: "u16 \<Rightarrow> xi825 \<Rightarrow> xi825 option" where
  "command v s =
     map_option (\<lambda>(result, s). raise_event EV_CMD (set_reg STATUS ((v AND 0x3F) OR push_bit 8 (of_nat result)) s)) (run_command v s)"

definition xi825_irq_pending :: "xi825 \<Rightarrow> bool" where
  "xi825_irq_pending s \<longleftrightarrow> regs s ! EVSTAT AND regs s ! INTEN \<noteq> 0"

definition ack_info :: "u16 \<Rightarrow> xi825 \<Rightarrow> xi825" where
  "ack_info v s =
     (let s = (if v AND EV_INFO \<noteq> 0 \<and> info_count s \<noteq> 0
               then (release (info_queue s ! info_head s) s)\<lparr>info_head := (info_head s + 1) mod 8, info_count := info_count s - 1\<rparr>
               else s)
      in if info_count s \<noteq> 0 then raise_event EV_INFO (set_reg INFOFID (info_queue s ! info_head s) s) else s)"

definition ack_rx :: "u16 \<Rightarrow> xi825 \<Rightarrow> xi825" where
  "ack_rx v s =
     (let s = (if v AND EV_RX \<noteq> 0 \<and> rx_count s \<noteq> 0
               then (release (rx_queue s ! rx_head s) s)\<lparr>rx_head := (rx_head s + 1) mod 8, rx_count := rx_count s - 1\<rparr>
               else s)
      in if rx_count s \<noteq> 0 then raise_event EV_RX (set_reg RXFID (rx_queue s ! rx_head s) s) else s)"

definition ack :: "u16 \<Rightarrow> xi825 \<Rightarrow> xi825" where
  "ack v s = ack_rx v (ack_info v (set_reg EVSTAT (regs s ! EVSTAT AND NOT v) s))"

section \<open>The register window\<close>

definition data_port :: "nat \<Rightarrow> nat \<Rightarrow> nat option" where
  "data_port off sz = (if sz \<le> 2 \<and> off = 54 then Some 0 else if sz \<le> 2 \<and> off = 56 then Some 1 else None)"

definition reg_byte :: "nat \<Rightarrow> xi825 \<Rightarrow> u8" where
  "reg_byte a s = ucast (drop_bit (8 * (a mod 2)) (regs s ! (a div 2)))"

definition xi825_read :: "nat \<Rightarrow> nat \<Rightarrow> xi825 \<Rightarrow> u64 \<times> xi825" where
  "xi825_read off sz s =
     (if off \<ge> 64 \<or> sz = 0 \<or> sz > 8 \<or> off + sz > 64 then (NOT 0, s)
      else case data_port off sz of
             Some port \<Rightarrow> (case bap_data port sz None s of (v, s) \<Rightarrow> (ucast v, s))
           | None \<Rightarrow> (lanes sz (\<lambda>i. reg_byte (off + i) s), s))"

definition seek :: "nat \<Rightarrow> u16 \<Rightarrow> xi825 \<Rightarrow> xi825" where
  "seek port v s =
     (let m = bap_memory port s; off = v AND 0xFFE
      in set_reg (OFFSET0 + port) (if m = Nowhere \<or> unat off \<ge> bap_capacity m s then off OR 0x4000 else off) s)"

definition write_reg :: "nat \<Rightarrow> u16 \<Rightarrow> xi825 \<Rightarrow> xi825 option" where
  "write_reg r v s =
     (if r = CMD then command v s
      else if r = EVACK then Some (ack v s)
      else if r = OFFSET0 \<or> r = OFFSET0 + 1 then Some (seek (r - OFFSET0) v s)
      else if r \<ge> PARAM0 \<and> r \<le> 3 \<or> r = INTEN \<or> r = SELECT0 \<or> r = SELECT0 + 1 \<or> r \<ge> 20 \<and> r \<le> 22
      then Some (set_reg r v s) else Some s)"

definition narrow_write :: "nat \<Rightarrow> nat \<Rightarrow> u64 \<Rightarrow> xi825 \<Rightarrow> xi825 option" where
  "narrow_write off sz v s =
     (case data_port off sz of
        Some port \<Rightarrow> Some (snd (bap_data port sz (Some (ucast v)) s))
      | None \<Rightarrow>
          let r = off div 2; sh = 8 * (off mod 2)
          in write_reg r (if sz = 1 then (regs s ! r AND NOT (push_bit sh 255)) OR push_bit sh (ucast v AND 255) else ucast v) s)"

text \<open>A wide write is a row of 16-bit writes, the last one of a byte when the size is odd.\<close>

fun wide_write :: "nat \<Rightarrow> nat \<Rightarrow> nat \<Rightarrow> u64 \<Rightarrow> xi825 \<Rightarrow> xi825 option" where
  "wide_write 0 off i v s = Some s"
| "wide_write (Suc 0) off i v s = narrow_write (off + i) 1 (drop_bit (8 * i) v) s"
| "wide_write (Suc (Suc k)) off i v s =
     do { s \<leftarrow> narrow_write (off + i) 2 (drop_bit (8 * i) v) s; wide_write k off (i + 2) v s }"

definition xi825_write :: "nat \<Rightarrow> nat \<Rightarrow> u64 \<Rightarrow> xi825 \<Rightarrow> xi825 option" where
  "xi825_write off sz v s =
     (if off \<ge> 64 \<or> sz = 0 \<or> sz > 8 \<or> off + sz > 64 then Some s
      else if sz > 2 then wide_write sz off 0 v s
      else narrow_write off sz v s)"

section \<open>Reception\<close>

definition rx_frame :: "u8 list \<Rightarrow> u8 list" where
  "rx_frame eth =
     (let n = length eth - 14
      in wr16 0x2000 @ replicate 4 0 @ [40, 100, 110] @ replicate 5 0 @ wr16 0x0208 @ [0, 0] @ take 6 eth @ ap_bssid @
         take 6 (drop 6 eth) @ replicate 8 0 @ wr16 (n + 8) @ take 12 eth @ [of_nat ((n + 8) div 256), of_nat (n + 8)] @
         [0xAA, 0xAA, 3, 0, 0, 0] @ drop 12 eth)"

definition xi825_receive :: "u8 list \<Rightarrow> xi825 \<Rightarrow> (bool \<times> xi825) option" where
  "xi825_receive eth s =
     (if \<not> associated s \<or> length eth < 14 \<or> length eth > 1514 \<or> rx_count s = 8 then Some (False, s)
      else do {
        promiscuous \<leftarrow> (if odd (unat (eth ! 0)) \<or> take 6 eth = station s then Some 1 else setting 0xFC85 s);
        Some (if promiscuous = 0 then (False, s)
              else case allocate (60 + 8 + (length eth - 14)) s of
                     None \<Rightarrow> (False, s)
                   | Some (i, s) \<Rightarrow>
                       let s = set_buffer i (overlay 0 (rx_frame eth) (buf_data (buffers s ! i))) s;
                           s = s\<lparr>rx_queue := (rx_queue s)[(rx_head s + rx_count s) mod 8 := buf_id (buffers s ! i)],
                                 rx_count := rx_count s + 1\<rparr>
                       in (True, raise_event EV_RX (set_reg RXFID (rx_queue s ! rx_head s) s)))
      })"

end
