(* ===== verification/Xi825_Card.thy ===== *)
theory Xi825_Card
  imports Xi825
begin

text \<open>
  The wireless card of \<open>Xi825\<close> under every sequence of accesses: the records it relies on are
  always there, the identifiers of its buffers are unique and never those of records, and a frame that
  came in through a receive buffer goes out of it unchanged.
\<close>

section \<open>Identifiers of records\<close>

definition ids :: "xi825 \<Rightarrow> u16 list" where
  "ids s = map rec_id (records s)"

lemma find_upt: "find (\<lambda>i. P (f (xs ! i))) [0..<length xs] = find (\<lambda>i. P (map f xs ! i)) [0..<length (map f xs)]"
  by (rule find_cong) auto

lemma record_slot_ids: "record_slot rid s = find (\<lambda>i. ids s ! i = rid) [0..<length (ids s)]"
  unfolding record_slot_def ids_def using find_upt [of "\<lambda>x. x = rid" rec_id "records s"] by simp

lemma find_None_set: "find (\<lambda>i. xs ! i = x) [0..<length xs] = None \<longleftrightarrow> x \<notin> set xs"
  by (auto simp: find_None_iff in_set_conv_nth)

lemma find_Some_nth: "find P [0..<n] = Some i \<Longrightarrow> i < n \<and> P i"
  by (auto simp: find_Some_iff)

lemma record_slot_None: "record_slot rid s = None \<longleftrightarrow> rid \<notin> set (ids s)"
  by (simp add: record_slot_ids find_None_set)

lemma record_slot_Some: "record_slot rid s = Some i \<Longrightarrow> i < length (records s) \<and> rec_id (records s ! i) = rid"
  unfolding record_slot_def by (drule find_Some_nth) simp

definition put_id :: "u16 \<Rightarrow> u16 list \<Rightarrow> u16 list" where
  "put_id rid xs =
     (if rid \<in> set xs then xs
      else case find (\<lambda>i. xs ! i = 0) [0..<length xs] of None \<Rightarrow> xs | Some i \<Rightarrow> xs[i := rid])"

lemma ids_update_same: "i < length (records s) \<Longrightarrow> rec_id r = rec_id (records s ! i) \<Longrightarrow>
    ids (s\<lparr>records := (records s)[i := r]\<rparr>) = ids s"
  unfolding ids_def by (simp add: map_update) (metis list_update_id nth_map)

lemma ids_add_record:
  assumes "length d \<le> 124"
  shows "ids (add_record rid d s) = put_id rid (ids s)"
proof (cases "record_slot rid s")
  case None
  then have n: "rid \<notin> set (ids s)" by (simp add: record_slot_None)
  show ?thesis
    using assms None n by (simp add: add_record_def put_id_def record_slot_ids [of 0] split: option.split)
      (simp add: ids_def map_update new_record_def Let_def)
next
  case (Some i)
  then have "rid \<in> set (ids s)" by (metis option.distinct(1) record_slot_None)
  moreover have "ids (s\<lparr>records := (records s)[i := new_record rid d]\<rparr>) = ids s"
    using record_slot_Some [OF Some] by (intro ids_update_same) (simp_all add: new_record_def Let_def)
  ultimately show ?thesis using assms Some by (simp add: add_record_def put_id_def)
qed

lemma length_put_id [simp]: "length (put_id rid xs) = length xs"
  by (simp add: put_id_def split: option.split)

lemma put_id_keeps: "x \<in> set xs \<Longrightarrow> x \<noteq> 0 \<Longrightarrow> x \<in> set (put_id rid xs)"
  by (auto simp: put_id_def in_set_conv_nth nth_list_update split: option.split dest!: find_Some_nth)

lemma put_id_range: "set (put_id rid xs) \<subseteq> insert rid (set xs)"
  by (auto simp: put_id_def split: option.split dest!: set_update_subset_insert [THEN subsetD])

lemma put_id_adds: "0 \<in> set xs \<Longrightarrow> rid \<in> set (put_id rid xs)"
  by (auto simp: put_id_def find_None_set split: option.split dest!: find_Some_nth intro: set_update_memI)

lemma put_id_zeros: "rid \<noteq> 0 \<Longrightarrow> count_list (put_id rid xs) 0 \<ge> count_list xs 0 - 1"
proof -
  have c: "count_list (xs[i := rid]) 0 \<ge> count_list xs 0 - 1" if "i < length xs" for i
  proof -
    have "count_list xs 0 = count_list (take i xs) 0 + count_list (xs ! i # drop (Suc i) xs) 0"
      using id_take_nth_drop [OF that] by (metis count_list_append)
    moreover have "count_list (xs[i := rid]) 0 = count_list (take i xs) 0 + count_list (rid # drop (Suc i) xs) 0"
      using that by (simp add: upd_conv_take_nth_drop)
    ultimately show ?thesis by (auto split: if_splits)
  qed
  show ?thesis by (auto simp: put_id_def intro!: c [simplified] split: option.split dest!: find_Some_nth)
qed

lemma put_ids_keep: "x \<in> set xs \<Longrightarrow> x \<noteq> 0 \<Longrightarrow> x \<in> set (fold put_id rids xs)"
  by (induction rids arbitrary: xs) (simp_all add: put_id_keeps)

lemma put_ids_all: "length rids \<le> count_list xs 0 \<Longrightarrow> 0 \<notin> set rids \<Longrightarrow> set rids \<subseteq> set (fold put_id rids xs)"
proof (induction rids arbitrary: xs)
  case Nil
  then show ?case by simp
next
  case (Cons r rids)
  have z: "0 \<in> set xs" using Cons.prems(1) by (metis Suc_le_D count_list_0_iff length_Cons nat.distinct(1))
  have "length rids \<le> count_list (put_id r xs) 0" using put_id_zeros [of r xs] Cons.prems by simp
  then have "set rids \<subseteq> set (fold put_id rids (put_id r xs))" using Cons by simp
  moreover have "r \<in> set (fold put_id rids (put_id r xs))" using put_ids_keep [OF put_id_adds [OF z]] Cons.prems(2) by simp
  ultimately show ?case by simp
qed

lemma put_ids_range: "set (fold put_id rids xs) \<subseteq> set rids \<union> set xs"
  using put_id_range by (induction rids arbitrary: xs) fastforce+

lemma ids_fold: "\<forall>(i, d) \<in> set rs. length d \<le> 124 \<Longrightarrow> ids (fold (\<lambda>(i, d). add_record i d) rs s) = fold put_id (map fst rs) (ids s)"
  by (induction rs arbitrary: s) (auto simp: ids_add_record)

section \<open>Fresh buffer identifiers\<close>

definition used_ids :: "xi825 \<Rightarrow> u16 set" where
  "used_ids s = {buf_id b | b. b \<in> set (buffers s) \<and> buf_used b}"

lemma buffer_slot_None: "buffer_slot f s = None \<longleftrightarrow> f \<notin> used_ids s"
  by (auto simp: buffer_slot_def find_None_iff used_ids_def in_set_conv_nth)

lemma buffer_slot_Some: "buffer_slot f s = Some i \<Longrightarrow> i < length (buffers s) \<and> buf_used (buffers s ! i) \<and> buf_id (buffers s ! i) = f"
  unfolding buffer_slot_def by (drule find_Some_nth) simp

lemma card_used_ids: "card (used_ids s) \<le> length (buffers s)"
proof -
  have "used_ids s \<subseteq> buf_id ` set (buffers s)" by (auto simp: used_ids_def)
  then have "card (used_ids s) \<le> card (buf_id ` set (buffers s))" by (intro card_mono) simp_all
  also have "... \<le> length (buffers s)" by (metis card_image_le card_length finite_set le_trans)
  finally show ?thesis .
qed

lemma free_fid_busy: "free_fid k s f \<in> used_ids s \<Longrightarrow> j \<le> k \<Longrightarrow> f + of_nat j \<in> used_ids s"
proof (induction k s f arbitrary: j rule: free_fid.induct)
  case (1 s f)
  then show ?case by simp
next
  case (2 k s f)
  have b: "f \<in> used_ids s" using 2(2) by (auto simp: buffer_slot_None split: if_splits)
  then have r: "free_fid k s (f + 1) \<in> used_ids s" using 2(2) by (simp add: buffer_slot_None)
  show ?case
  proof (cases j)
    case 0
    then show ?thesis using b by simp
  next
    case (Suc i)
    have "f + 1 + of_nat i \<in> used_ids s" using 2(1) [OF _ r, of i] b Suc 2(3) by (simp add: buffer_slot_None)
    then show ?thesis by (simp add: Suc ac_simps)
  qed
qed

lemma free_fid_free:
  assumes "length (buffers s) = XI825_BUFFERS"
  shows "free_fid XI825_BUFFERS s f \<notin> used_ids s"
proof
  assume b: "free_fid XI825_BUFFERS s f \<in> used_ids s"
  have "(\<lambda>j. f + of_nat j) ` {0..24} \<subseteq> used_ids s" using free_fid_busy [OF b] by auto
  moreover have "inj_on (\<lambda>j. f + of_nat j) {0..24::nat}"
    by (auto simp: inj_on_def unat_of_nat dest!: arg_cong [where f = unat])
  then have "card ((\<lambda>j. f + of_nat j) ` {0..24::nat}) = 25" by (simp add: card_image)
  moreover have "finite (used_ids s)" by (simp add: used_ids_def)
  ultimately have "25 \<le> card (used_ids s)" by (metis card_mono)
  then show False using card_used_ids [of s] assms by simp
qed

lemma free_fid_near: "\<exists>j \<le> k. free_fid k s f = f + of_nat j"
proof (induction k s f rule: free_fid.induct)
  case (1 s f)
  show ?case by (intro exI [of _ 0]) simp
next
  case (2 k s f)
  show ?case
  proof (cases "buffer_slot f s = None")
    case True
    then show ?thesis by (intro exI [of _ 0]) simp
  next
    case False
    then obtain j where "j \<le> k" "free_fid k s (f + 1) = f + 1 + of_nat j" using 2 by blast
    moreover have "free_fid (Suc k) s f = free_fid k s (f + 1)" using False by (simp only: free_fid.simps if_False)
    ultimately have "Suc j \<le> Suc k \<and> free_fid (Suc k) s f = f + of_nat (Suc j)" by (simp add: ac_simps)
    then show ?thesis by blast
  qed
qed


section \<open>The invariant\<close>

definition needed :: "xi825 \<Rightarrow> u16 set" where
  "needed s = {0xFC00, 0xFC02, 0xFC23, 0xFC28, 0xFC85} \<union> (if hermes s then {0xFC20, 0xFCB1, 0xFC25} else {})"

definition fid_ok :: "u16 \<Rightarrow> bool" where
  "fid_ok f \<longleftrightarrow> 0x100 \<le> f \<and> f < 0x9000"

definition rid_ok :: "u16 \<Rightarrow> bool" where
  "rid_ok r \<longleftrightarrow> r = 0 \<or> r \<ge> 0xFC00"

definition fids_ok :: "xi825 \<Rightarrow> bool" where
  "fids_ok s \<longleftrightarrow> length (buffers s) = XI825_BUFFERS \<and> fid_ok (next_fid s) \<and> next_fid s \<notin> used_ids s \<and>
     (\<forall>b \<in> set (buffers s). length (buf_data b) = XI825_BUFFER_SIZE \<and> buf_length b \<le> XI825_BUFFER_SIZE \<and> (buf_used b \<longrightarrow> fid_ok (buf_id b))) \<and>
     (\<forall>i < XI825_BUFFERS. \<forall>j < XI825_BUFFERS. buf_used (buffers s ! i) \<and> buf_used (buffers s ! j) \<and>
        buf_id (buffers s ! i) = buf_id (buffers s ! j) \<longrightarrow> i = j)"

definition records_ok :: "xi825 \<Rightarrow> bool" where
  "records_ok s \<longleftrightarrow> needed s \<subseteq> set (ids s) \<and> (\<forall>r \<in> set (ids s). rid_ok r) \<and> length (records s) = XI825_RECORDS \<and>
     (\<forall>r \<in> set (records s). length (rec_data r) = 128 \<and> length (rec_committed r) = 128 \<and> rec_length r \<le> 128)"

definition card_ok :: "xi825 \<Rightarrow> bool" where
  "card_ok s \<longleftrightarrow> records_ok s \<and> fids_ok s \<and> length (regs s) = 32 \<and> length (station s) = 6 \<and>
     length (info_queue s) = 8 \<and> info_head s < 8 \<and> info_count s \<le> 8 \<and>
     length (rx_queue s) = 8 \<and> rx_head s < 8 \<and> rx_count s \<le> 8"

lemma record_fits:
  assumes "length d \<le> 124"
  shows "length (rec_data (new_record rid d)) = 128" "length (rec_committed (new_record rid d)) = 128"
    "rec_length (new_record rid d) \<le> 128"
proof -
  have "length (overlay 0 (wr16 (1 + (length d + 1) div 2) @ wr16 (unat rid) @ d) (replicate 128 0)) = 128"
    using assms by (subst length_overlay) (simp_all add: wr16_def)
  then show "length (rec_data (new_record rid d)) = 128" "length (rec_committed (new_record rid d)) = 128"
    by (simp_all add: new_record_def Let_def)
  have "(length d + 1) div 2 \<le> 62" using assms by simp
  then show "rec_length (new_record rid d) \<le> 128" by (simp add: new_record_def Let_def)
qed

lemma add_record_fields [simp]:
  "buffers (add_record r d s) = buffers s" "next_fid (add_record r d s) = next_fid s" "regs (add_record r d s) = regs s"
  "station (add_record r d s) = station s" "info_queue (add_record r d s) = info_queue s" "info_head (add_record r d s) = info_head s"
  "info_count (add_record r d s) = info_count s" "rx_queue (add_record r d s) = rx_queue s" "rx_head (add_record r d s) = rx_head s"
  "rx_count (add_record r d s) = rx_count s" "hermes (add_record r d s) = hermes s" "length (records (add_record r d s)) = length (records s)"
  by (simp_all add: add_record_def split: option.split)

lemma add_record_long: "124 < length d \<Longrightarrow> add_record r d s = s"
  by (simp add: add_record_def split: option.split)

lemma add_record_records:
  "length d \<le> 124 \<Longrightarrow> x \<in> set (records (add_record r d s)) \<Longrightarrow> x = new_record r d \<or> x \<in> set (records s)"
  by (auto simp: add_record_def split: option.splits dest!: set_update_subset_insert [THEN subsetD])

lemma add_record_ok:
  assumes "records_ok s" and "rid_ok r" and "r \<noteq> 0"
  shows "records_ok (add_record r d s)"
proof (cases "length d \<le> 124")
  case True
  have n: "needed (add_record r d s) = needed s" by (simp add: needed_def)
  have "0 \<notin> needed s" by (simp add: needed_def)
  then have "needed s \<subseteq> set (put_id r (ids s))"
    using assms(1) put_id_keeps [of _ "ids s" r] unfolding records_ok_def by blast
  moreover have "\<forall>x \<in> set (put_id r (ids s)). rid_ok x" using put_id_range [of r "ids s"] assms by (auto simp: records_ok_def)
  moreover have "length (rec_data x) = 128 \<and> length (rec_committed x) = 128 \<and> rec_length x \<le> 128"
    if "x \<in> set (records (add_record r d s))" for x
    using add_record_records [OF True that] record_fits [OF True, of r] assms(1) by (auto simp only: records_ok_def)
  ultimately show ?thesis using assms(1) unfolding records_ok_def n ids_add_record [OF True] by simp
next
  case False
  then show ?thesis using assms by (simp add: add_record_long)
qed

lemma used_ids_cong: "buffers t = buffers s \<Longrightarrow> used_ids t = used_ids s"
  by (simp add: used_ids_def)

lemma fids_ok_cong: "buffers t = buffers s \<Longrightarrow> next_fid t = next_fid s \<Longrightarrow> fids_ok t = fids_ok s"
  by (simp only: fids_ok_def used_ids_def)

lemma records_ok_cong: "records t = records s \<Longrightarrow> hermes t = hermes s \<Longrightarrow> records_ok t = records_ok s"
  by (simp only: records_ok_def ids_def needed_def)

lemma set_reg_ok [simp]: "card_ok (set_reg r v s) = card_ok s"
  using fids_ok_cong [of "set_reg r v s" s] records_ok_cong [of "set_reg r v s" s] by (simp add: card_ok_def set_reg_def)

lemma raise_event_ok [simp]: "card_ok (raise_event e s) = card_ok s"
  by (simp add: raise_event_def)

lemma add_record_card: "card_ok s \<Longrightarrow> rid_ok r \<Longrightarrow> r \<noteq> 0 \<Longrightarrow> card_ok (add_record r d s)"
  using fids_ok_cong [of "add_record r d s" s] by (simp add: card_ok_def add_record_ok)

lemma scalar_card: "card_ok s \<Longrightarrow> rid_ok r \<Longrightarrow> r \<noteq> 0 \<Longrightarrow> card_ok (scalar r v s)"
  by (simp add: scalar_def add_record_card)

lemma refresh_record_ok: "card_ok s \<Longrightarrow> card_ok (refresh_record rid s)"
  by (simp add: refresh_record_def Let_def add_record_card scalar_card rid_ok_def)

section \<open>Allocation\<close>

lemma allocate_Some:
  assumes "allocate n s = Some (i, t)" and "fids_ok s"
  obtains f where "i < XI825_BUFFERS" "\<not> buf_used (buffers s ! i)" "0 < n" "n \<le> XI825_BUFFER_SIZE"
    "t = s\<lparr>buffers := (buffers s)[i := \<lparr>buf_id = next_fid s, buf_length = n, buf_used = True, buf_data = replicate XI825_BUFFER_SIZE 0\<rparr>],
       next_fid := f\<rparr>" "fid_ok f" "f \<notin> used_ids t"
proof -
  let ?b = "\<lparr>buf_id = next_fid s, buf_length = n, buf_used = True, buf_data = replicate XI825_BUFFER_SIZE 0\<rparr>"
  let ?f0 = "if next_fid s + 1 \<ge> 0x8000 then 0x100 else next_fid s + 1"
  have i: "find (\<lambda>i. \<not> buf_used (buffers s ! i)) [0..<length (buffers s)] = Some i" "n \<le> XI825_BUFFER_SIZE" "n \<noteq> 0"
    and t: "t = (s\<lparr>buffers := (buffers s)[i := ?b]\<rparr>)\<lparr>next_fid := free_fid XI825_BUFFERS (s\<lparr>buffers := (buffers s)[i := ?b]\<rparr>) ?f0\<rparr>"
    using assms(1) by (auto simp: allocate_def Let_def split: option.splits if_splits)
  define u where "u = s\<lparr>buffers := (buffers s)[i := ?b]\<rparr>"
  define f where "f = free_fid XI825_BUFFERS u ?f0"
  have len: "length (buffers u) = XI825_BUFFERS" using assms(2) by (simp add: u_def fids_ok_def)
  have "f \<notin> used_ids u" unfolding f_def by (rule free_fid_free [OF len])
  moreover have "fid_ok f"
  proof -
    obtain j where j: "j \<le> 24" "f = ?f0 + of_nat j" using free_fid_near [of 24 u ?f0] unfolding f_def by blast
    have g: "0x100 \<le> unat ?f0" "unat ?f0 < 0x8000"
      using assms(2) by (auto simp: fids_ok_def fid_ok_def word_le_nat_alt word_less_nat_alt unat_word_ariths)
    have "unat f = unat ?f0 + j" using g j by (simp add: j(2) unat_word_ariths unat_of_nat del: unat_plus_if')
    then show ?thesis using g j(1) by (simp add: fid_ok_def word_le_nat_alt word_less_nat_alt)
  qed
  moreover have "i < XI825_BUFFERS" "\<not> buf_used (buffers s ! i)"
    using find_Some_nth [OF i(1)] assms(2) by (simp_all add: fids_ok_def)
  moreover have "used_ids t = used_ids u" by (rule used_ids_cong) (simp add: t u_def)
  ultimately show ?thesis using that [of f] i t by (simp add: f_def u_def)
qed


lemma fids_okD:
  assumes "fids_ok s" and "i < XI825_BUFFERS"
  shows "length (buf_data (buffers s ! i)) = XI825_BUFFER_SIZE" "buf_length (buffers s ! i) \<le> XI825_BUFFER_SIZE"
    "buf_used (buffers s ! i) \<Longrightarrow> fid_ok (buf_id (buffers s ! i))"
    "j < XI825_BUFFERS \<Longrightarrow> buf_used (buffers s ! i) \<Longrightarrow> buf_used (buffers s ! j) \<Longrightarrow> buf_id (buffers s ! i) = buf_id (buffers s ! j) \<Longrightarrow> i = j"
proof -
  have "buffers s ! i \<in> set (buffers s)" using assms by (simp add: fids_ok_def)
  then show "length (buf_data (buffers s ! i)) = XI825_BUFFER_SIZE" "buf_length (buffers s ! i) \<le> XI825_BUFFER_SIZE"
    "buf_used (buffers s ! i) \<Longrightarrow> fid_ok (buf_id (buffers s ! i))"
    using assms(1) unfolding fids_ok_def by blast+
  show "j < XI825_BUFFERS \<Longrightarrow> buf_used (buffers s ! i) \<Longrightarrow> buf_used (buffers s ! j) \<Longrightarrow> buf_id (buffers s ! i) = buf_id (buffers s ! j) \<Longrightarrow> i = j"
    using assms unfolding fids_ok_def by blast
qed

lemma fids_okI:
  assumes "length (buffers t) = XI825_BUFFERS" "fid_ok (next_fid t)" "next_fid t \<notin> used_ids t"
    and "\<And>i. i < XI825_BUFFERS \<Longrightarrow> length (buf_data (buffers t ! i)) = XI825_BUFFER_SIZE \<and>
      buf_length (buffers t ! i) \<le> XI825_BUFFER_SIZE \<and> (buf_used (buffers t ! i) \<longrightarrow> fid_ok (buf_id (buffers t ! i)))"
    and "\<And>i j. i < XI825_BUFFERS \<Longrightarrow> j < XI825_BUFFERS \<Longrightarrow> buf_used (buffers t ! i) \<Longrightarrow> buf_used (buffers t ! j) \<Longrightarrow>
      buf_id (buffers t ! i) = buf_id (buffers t ! j) \<Longrightarrow> i = j"
  shows "fids_ok t"
  unfolding fids_ok_def by (intro conjI ballI allI impI) (use assms in \<open>auto simp only: in_set_conv_nth\<close>)

lemma used_ids_update: "used_ids (s\<lparr>buffers := (buffers s)[i := b]\<rparr>) \<subseteq> (if buf_used b then insert (buf_id b) (used_ids s) else used_ids s)"
  by (auto simp: used_ids_def dest!: set_update_subset_insert [THEN subsetD])

lemma used_ids_nth: "i < length (buffers s) \<Longrightarrow> buf_used (buffers s ! i) \<Longrightarrow> buf_id (buffers s ! i) \<in> used_ids s"
  unfolding used_ids_def using nth_mem by blast

text \<open>Changing a buffer without giving it a new identifier.\<close>

lemma fids_ok_update:
  assumes s: "fids_ok s" and i: "i < XI825_BUFFERS" and "length (buf_data b) = XI825_BUFFER_SIZE" "buf_length b \<le> XI825_BUFFER_SIZE"
    and u: "buf_used b \<Longrightarrow> buf_used (buffers s ! i) \<and> buf_id b = buf_id (buffers s ! i)"
  shows "fids_ok (s\<lparr>buffers := (buffers s)[i := b]\<rparr>)"
proof (rule fids_okI)
  let ?t = "s\<lparr>buffers := (buffers s)[i := b]\<rparr>"
  have len: "length (buffers s) = XI825_BUFFERS" using s by (simp only: fids_ok_def)
  then show "length (buffers ?t) = XI825_BUFFERS" by simp
  show "fid_ok (next_fid ?t)" using s by (simp add: fids_ok_def)
  have "used_ids ?t \<subseteq> used_ids s" using used_ids_update [of s i b] u used_ids_nth [of i s] i len by (auto split: if_splits)
  moreover have "next_fid s \<notin> used_ids s" using s unfolding fids_ok_def by blast
  ultimately show "next_fid ?t \<notin> used_ids ?t" by auto
  show "length (buf_data (buffers ?t ! k)) = XI825_BUFFER_SIZE \<and>
      buf_length (buffers ?t ! k) \<le> XI825_BUFFER_SIZE \<and> (buf_used (buffers ?t ! k) \<longrightarrow> fid_ok (buf_id (buffers ?t ! k)))"
    if k: "k < XI825_BUFFERS" for k
    using fids_okD [OF s k] fids_okD [OF s i] assms(3,4) u len k i by (cases "k = i") simp_all
  show "k = j" if "k < XI825_BUFFERS" "j < XI825_BUFFERS" "buf_used (buffers ?t ! k)" "buf_used (buffers ?t ! j)"
    "buf_id (buffers ?t ! k) = buf_id (buffers ?t ! j)" for k j
    using fids_okD(4) [OF s that(1), of j] that u len i by (cases "k = i"; cases "j = i") simp_all
qed

lemma allocate_fids:
  assumes "allocate n s = Some (i, t)" and s: "fids_ok s"
  shows "fids_ok t"
proof -
  obtain f where i: "i < XI825_BUFFERS" and n: "n \<le> XI825_BUFFER_SIZE"
    and t: "t = s\<lparr>buffers := (buffers s)[i := \<lparr>buf_id = next_fid s, buf_length = n, buf_used = True, buf_data = replicate XI825_BUFFER_SIZE 0\<rparr>],
       next_fid := f\<rparr>" and f: "fid_ok f" "f \<notin> used_ids t"
    by (rule allocate_Some [OF assms])
  have len: "length (buffers s) = XI825_BUFFERS" and nx: "fid_ok (next_fid s)" "next_fid s \<notin> used_ids s"
    using s unfolding fids_ok_def by blast+
  have fresh: "buf_id (buffers s ! k) \<noteq> next_fid s" if "k < XI825_BUFFERS" "buf_used (buffers s ! k)" for k
    using used_ids_nth [of k s] that nx(2) len by auto
  show ?thesis
  proof (rule fids_okI)
    show "length (buffers t) = XI825_BUFFERS" "fid_ok (next_fid t)" using t f len by simp_all
    show "next_fid t \<notin> used_ids t" using f(2) by (simp add: t)
    show "length (buf_data (buffers t ! k)) = XI825_BUFFER_SIZE \<and>
        buf_length (buffers t ! k) \<le> XI825_BUFFER_SIZE \<and> (buf_used (buffers t ! k) \<longrightarrow> fid_ok (buf_id (buffers t ! k)))"
      if k: "k < XI825_BUFFERS" for k
      using fids_okD [OF s k] n nx(1) len k by (cases "k = i") (simp_all add: t)
    show "k = j" if "k < XI825_BUFFERS" "j < XI825_BUFFERS" "buf_used (buffers t ! k)" "buf_used (buffers t ! j)"
      "buf_id (buffers t ! k) = buf_id (buffers t ! j)" for k j
      using fids_okD(4) [OF s that(1), of j] that fresh [of k] fresh [of j] len
      by (cases "k = i"; cases "j = i") (simp_all add: t)
  qed
qed

definition card_rest :: "xi825 \<Rightarrow> xi_record list \<times> bool \<times> nat \<times> nat \<times> nat \<times> nat \<times> nat \<times> nat \<times> nat \<times> nat" where
  "card_rest s = (records s, hermes s, length (regs s), length (station s), length (info_queue s), info_head s, info_count s,
     length (rx_queue s), rx_head s, rx_count s)"

lemma card_ok_buffers: "card_ok s \<Longrightarrow> fids_ok t \<Longrightarrow> card_rest t = card_rest s \<Longrightarrow> card_ok t"
  using records_ok_cong [of t s] by (simp add: card_ok_def card_rest_def)

lemma card_ok_same: "buffers t = buffers s \<Longrightarrow> next_fid t = next_fid s \<Longrightarrow> card_rest t = card_rest s \<Longrightarrow> card_ok t = card_ok s"
proof -
  assume b: "buffers t = buffers s" "next_fid t = next_fid s" and c: "card_rest t = card_rest s"
  have f: "fids_ok t = fids_ok s" by (rule fids_ok_cong [OF b])
  have r: "records_ok t = records_ok s" by (rule records_ok_cong) (use c in \<open>simp_all add: card_rest_def\<close>)
  show "card_ok t = card_ok s" unfolding card_ok_def f r using c by (simp add: card_rest_def)
qed

lemma allocate_ok:
  assumes "allocate n s = Some (i, t)" and "card_ok s"
  shows "card_ok t" "i < XI825_BUFFERS" "length (buf_data (buffers t ! i)) = XI825_BUFFER_SIZE" "0 < n" "n \<le> XI825_BUFFER_SIZE"
    "buf_used (buffers t ! i)" "buf_id (buffers t ! i) = next_fid s" "buf_length (buffers t ! i) = n"
proof -
  have f: "fids_ok s" using assms(2) by (simp only: card_ok_def)
  obtain g where t: "i < XI825_BUFFERS" "0 < n" "n \<le> XI825_BUFFER_SIZE" "t = s\<lparr>buffers := (buffers s)[i := \<lparr>buf_id = next_fid s, buf_length = n, buf_used = True,
      buf_data = replicate XI825_BUFFER_SIZE 0\<rparr>], next_fid := g\<rparr>"
    by (rule allocate_Some [OF assms(1) f])
  show "card_ok t" by (rule card_ok_buffers [OF assms(2) allocate_fids [OF assms(1) f]]) (simp add: t(4) card_rest_def)
  have "length (buffers s) = XI825_BUFFERS" using f unfolding fids_ok_def by blast
  then show "length (buf_data (buffers t ! i)) = XI825_BUFFER_SIZE" "buf_used (buffers t ! i)" "buf_id (buffers t ! i) = next_fid s"
    "buf_length (buffers t ! i) = n" using t(1) by (simp_all add: t(4))
  show "i < XI825_BUFFERS" "0 < n" "n \<le> XI825_BUFFER_SIZE" by (fact t)+
qed

lemma set_buffer_ok: "card_ok s \<Longrightarrow> i < XI825_BUFFERS \<Longrightarrow> length d = XI825_BUFFER_SIZE \<Longrightarrow> card_ok (set_buffer i d s)"
proof -
  assume s: "card_ok s" and i: "i < XI825_BUFFERS" and d: "length d = XI825_BUFFER_SIZE"
  have f: "fids_ok s" using s by (simp only: card_ok_def)
  have "fids_ok (set_buffer i d s)"
    unfolding set_buffer_def by (rule fids_ok_update [OF f i]) (use d fids_okD [OF f i] in simp_all)
  then show "card_ok (set_buffer i d s)" by (rule card_ok_buffers [OF s]) (simp add: set_buffer_def card_rest_def)
qed

lemma release_ok: "card_ok s \<Longrightarrow> card_ok (release fid s)"
proof (cases "buffer_slot fid s")
  case (Some i)
  assume s: "card_ok s"
  have f: "fids_ok s" using s by (simp only: card_ok_def)
  then have i: "i < XI825_BUFFERS" using buffer_slot_Some [OF Some] by (simp only: fids_ok_def)
  have "fids_ok (release fid s)"
    unfolding release_def by (simp add: Some) (rule fids_ok_update [OF f i], use fids_okD [OF f i] in simp_all)
  then show ?thesis by (rule card_ok_buffers [OF s]) (simp add: release_def Some card_rest_def)
qed (simp add: release_def)


lemma buffer_data_length: "card_ok s \<Longrightarrow> i < XI825_BUFFERS \<Longrightarrow> length (buf_data (buffers s ! i)) = XI825_BUFFER_SIZE"
  unfolding card_ok_def using fids_okD(1) by blast

section \<open>Every access keeps the invariant\<close>

lemma queue_ok [simp]:
  "card_ok s \<Longrightarrow> info_count s \<noteq> 8 \<Longrightarrow>
    card_ok (s\<lparr>info_queue := (info_queue s)[j := x], info_count := info_count s + 1\<rparr>)"
  "card_ok s \<Longrightarrow> rx_count s \<noteq> 8 \<Longrightarrow> card_ok (s\<lparr>rx_queue := (rx_queue s)[j := x], rx_count := rx_count s + 1\<rparr>)"
  "card_ok s \<Longrightarrow> n \<le> 8 \<Longrightarrow> card_ok (s\<lparr>info_head := k mod 8, info_count := n\<rparr>)"
  "card_ok s \<Longrightarrow> n \<le> 8 \<Longrightarrow> card_ok (s\<lparr>rx_head := k mod 8, rx_count := n\<rparr>)"
  by (auto simp: card_ok_def records_ok_def ids_def needed_def fids_ok_def used_ids_def)

lemma flags_ok [simp]:
  "card_ok (s\<lparr>security := ap\<rparr>) = card_ok s" "card_ok (s\<lparr>enabled := b\<rparr>) = card_ok s" "card_ok (s\<lparr>associated := b\<rparr>) = card_ok s"
  "card_ok (s\<lparr>link_pending := b\<rparr>) = card_ok s" "card_ok (s\<lparr>sent := fs\<rparr>) = card_ok s" "card_ok (s\<lparr>transmit := b\<rparr>) = card_ok s"
  by (rule card_ok_same, simp, simp, simp add: card_rest_def)+

lemma allocate_counts: "allocate n s = Some (i, t) \<Longrightarrow> info_count t = info_count s \<and> rx_count t = rx_count s"
  by (auto simp: allocate_def Let_def split: option.splits if_splits)

lemma set_buffer_fields [simp]:
  "info_count (set_buffer i d s) = info_count s" "rx_count (set_buffer i d s) = rx_count s" "length (buffers (set_buffer i d s)) = length (buffers s)"
  "info_queue (set_buffer i d s) = info_queue s" "rx_queue (set_buffer i d s) = rx_queue s" "regs (set_buffer i d s) = regs s"
  by (simp_all add: set_buffer_def)

lemma info_ok:
  assumes "card_ok s" and "length d \<le> 200"
  shows "card_ok (snd (info ty d s))"
proof (cases "info_count s = 8 \<or> allocate (4 + length d) s = None")
  case True
  then show ?thesis using assms(1) by (auto simp: info_def)
next
  case False
  then obtain i t where a: "allocate (4 + length d) s = Some (i, t)" and n: "info_count s \<noteq> 8" by auto
  note al = allocate_ok [OF a assms(1)]
  have l: "length (overlay 0 (wr16 (1 + length d div 2) @ wr16 ty @ d) (buf_data (buffers t ! i))) = XI825_BUFFER_SIZE"
    using al(3) assms(2) by (subst length_overlay) (simp_all add: wr16_def)
  define u where "u = set_buffer i (overlay 0 (wr16 (1 + length d div 2) @ wr16 ty @ d) (buf_data (buffers t ! i))) t"
  have u: "card_ok u" "info_count u \<noteq> 8" using set_buffer_ok [OF al(1,2) l] allocate_counts [OF a] n by (simp_all add: u_def)
  show ?thesis
    unfolding info_def a Let_def option.case prod.case u_def [symmetric] if_not_P [OF n] snd_conv raise_event_ok set_reg_ok
    by (rule queue_ok(1) [OF u])
qed


lemma if_ok: "(b \<Longrightarrow> card_ok s) \<Longrightarrow> (\<not> b \<Longrightarrow> card_ok t) \<Longrightarrow> card_ok (if b then s else t)"
  by simp

lemma ack_ok: "card_ok s \<Longrightarrow> card_ok (ack v s)"
proof -
  assume s: "card_ok s"
  have c: "info_count t - 1 \<le> 8" "rx_count t - 1 \<le> 8" if "card_ok t" for t
    using that by (auto simp: card_ok_def)
  have i: "card_ok (ack_info v t)" if t: "card_ok t" for t
    unfolding ack_info_def Let_def raise_event_ok set_reg_ok
    by (intro if_ok) (simp_all only: raise_event_ok set_reg_ok if_ok queue_ok(3) [OF release_ok [OF t] c(1) [OF t]] t)
  have r: "card_ok (ack_rx v t)" if t: "card_ok t" for t
    unfolding ack_rx_def Let_def raise_event_ok set_reg_ok
    by (intro if_ok) (simp_all only: raise_event_ok set_reg_ok if_ok queue_ok(4) [OF release_ok [OF t] c(2) [OF t]] t)
  show ?thesis unfolding ack_def by (intro i r) (simp add: s)
qed

lemma record_update_ok:
  assumes s: "card_ok s" and i: "i < length (records s)" and "rec_id r = rec_id (records s ! i)"
    and r: "length (rec_data r) = 128" "length (rec_committed r) = 128" "rec_length r \<le> 128"
  shows "card_ok (s\<lparr>records := (records s)[i := r]\<rparr>)"
proof -
  let ?t = "s\<lparr>records := (records s)[i := r]\<rparr>"
  have ids: "ids ?t = ids s" by (rule ids_update_same [OF i assms(3)])
  have n: "needed ?t = needed s" by (simp add: needed_def)
  have "records_ok s" using s by (simp only: card_ok_def)
  then have "records_ok ?t" unfolding records_ok_def ids n using r by (auto dest!: set_update_subset_insert [THEN subsetD])
  moreover have "fids_ok ?t" using s fids_ok_cong [of ?t s] by (simp add: card_ok_def)
  ultimately show ?thesis using s by (simp add: card_ok_def)
qed

lemma record_lengths:
  assumes "card_ok s" and "i < length (records s)"
  shows "length (rec_data (records s ! i)) = 128" "length (rec_committed (records s ! i)) = 128" "rec_length (records s ! i) \<le> 128"
  using assms nth_mem [of i "records s"] unfolding card_ok_def records_ok_def by blast+

lemma bap_memory_range:
  assumes "card_ok s"
  shows "bap_memory p s = In_Record i \<Longrightarrow> i < length (records s)" "bap_memory p s = In_Buffer i \<Longrightarrow> i < XI825_BUFFERS"
proof -
  have "length (buffers s) = XI825_BUFFERS" using assms unfolding card_ok_def fids_ok_def by blast
  then show "bap_memory p s = In_Record i \<Longrightarrow> i < length (records s)" "bap_memory p s = In_Buffer i \<Longrightarrow> i < XI825_BUFFERS"
    using record_slot_Some [of _ s] buffer_slot_Some [of _ s] by (auto simp: bap_memory_def Let_def split: option.splits)
qed

lemma bap_ok:
  assumes s: "card_ok s"
  shows "card_ok (snd (bap_data p sz w s))"
proof -
  have st: "card_ok (bap_store (bap_memory p s) (overlay (unat (regs s ! (OFFSET0 + p) AND 0x3FFF))
      (take sz [ucast v, ucast (drop_bit 8 v)]) (bap_bytes (bap_memory p s) s)) s)"
    if fits: "unat (regs s ! (OFFSET0 + p) AND 0x3FFF) + sz \<le> bap_capacity (bap_memory p s) s" for v
  proof (cases "bap_memory p s")
    case (In_Record i)
    note i = bap_memory_range(1) [OF s In_Record]
    show ?thesis unfolding In_Record bap_store_def bap_target.case
      by (rule record_update_ok [OF s i]) (use record_lengths [OF s i] fits in \<open>simp_all add: In_Record bap_capacity_def bap_bytes_def\<close>)
  next
    case (In_Buffer i)
    note i = bap_memory_range(2) [OF s In_Buffer]
    have "fids_ok s" using s by (simp only: card_ok_def)
    from fids_okD(1,2) [OF this i] show ?thesis unfolding In_Buffer bap_store_def bap_target.case
      by (intro set_buffer_ok [OF s i]) (use fits in \<open>simp add: In_Buffer bap_capacity_def bap_bytes_def\<close>)
  qed (simp add: bap_store_def s)
  show ?thesis using s by (auto simp: bap_data_def Let_def split: option.split intro!: st)
qed

lemma seek_ok: "card_ok s \<Longrightarrow> card_ok (seek p v s)"
  by (simp add: seek_def Let_def)

subsection \<open>Reset\<close>

definition records_len :: "xi825 \<Rightarrow> bool" where
  "records_len s \<longleftrightarrow> length (records s) = XI825_RECORDS \<and>
     (\<forall>r \<in> set (records s). length (rec_data r) = 128 \<and> length (rec_committed r) = 128 \<and> rec_length r \<le> 128)"

lemma add_record_len: "records_len s \<Longrightarrow> records_len (add_record r d s)"
proof (cases "length d \<le> 124")
  case True
  assume l: "records_len s"
  have "length (rec_data x) = 128 \<and> length (rec_committed x) = 128 \<and> rec_length x \<le> 128"
    if "x \<in> set (records (add_record r d s))" for x
    using add_record_records [OF True that] record_fits [OF True, of r] l by (auto simp only: records_len_def)
  then show ?thesis using l by (simp add: records_len_def)
qed (simp add: add_record_long)

lemma add_records_fields:
  "records_len s \<Longrightarrow> records_len (fold (\<lambda>(i, d). add_record i d) rs s)"
  "buffers (fold (\<lambda>(i, d). add_record i d) rs s) = buffers s" "next_fid (fold (\<lambda>(i, d). add_record i d) rs s) = next_fid s"
  "hermes (fold (\<lambda>(i, d). add_record i d) rs s) = hermes s" "regs (fold (\<lambda>(i, d). add_record i d) rs s) = regs s"
  "station (fold (\<lambda>(i, d). add_record i d) rs s) = station s" "info_queue (fold (\<lambda>(i, d). add_record i d) rs s) = info_queue s"
  "info_head (fold (\<lambda>(i, d). add_record i d) rs s) = info_head s" "info_count (fold (\<lambda>(i, d). add_record i d) rs s) = info_count s"
  "rx_queue (fold (\<lambda>(i, d). add_record i d) rs s) = rx_queue s" "rx_head (fold (\<lambda>(i, d). add_record i d) rs s) = rx_head s"
  "rx_count (fold (\<lambda>(i, d). add_record i d) rs s) = rx_count s"
  by (induction rs arbitrary: s) (auto simp: add_record_len)

lemma default_records_fit:
  assumes "length (station s) = 6"
  shows "\<forall>(i, d) \<in> set (default_records s). length d \<le> 124"
  using assms by (auto simp: default_records_def default_scalars_def identity_records_def hermes_records_def wr16_def wr16s_def split: if_splits)

lemma default_ids:
  "needed s \<subseteq> set (map fst (default_records s))" "0 \<notin> set (map fst (default_records s))"
  "\<forall>r \<in> set (map fst (default_records s)). rid_ok r" "length (default_records s) \<le> 64"
  by (cases "hermes s"; cases "hermes_host_scan s";
      simp add: needed_def default_records_def default_scalars_def identity_records_def hermes_records_def rid_ok_def)+

lemma cleared_ok:
  "fids_ok (cleared s)" "records_len (cleared s)" "ids (cleared s) = replicate 64 0"
proof -
  have u: "used_ids (cleared s) = {}" by (simp add: used_ids_def cleared_def)
  show "fids_ok (cleared s)"
    by (rule fids_okI) (simp_all add: u, simp_all add: cleared_def fid_ok_def)
  show "records_len (cleared s)" "ids (cleared s) = replicate 64 0"
    by (simp_all add: records_len_def cleared_def ids_def)
qed

lemma reset_ok:
  assumes "length (station s) = 6"
  shows "card_ok (xi825_reset s)"
proof -
  define t where "t = fold (\<lambda>(i, d). add_record i d) (default_records s) (cleared s)"
  note f = add_records_fields [where rs = "default_records s" and s = "cleared s", folded t_def]
  have ids: "ids t = fold put_id (map fst (default_records s)) (replicate 64 0)"
    unfolding t_def ids_fold [OF default_records_fit [OF assms]] cleared_ok(3) by (rule refl)
  have z: "count_list (replicate 64 (0 :: u16)) 0 = 64" by (simp add: eval_nat_numeral)
  have "set (map fst (default_records s)) \<subseteq> set (ids t)"
    unfolding ids by (rule put_ids_all) (use default_ids [of s] z in simp_all)
  moreover have "needed t = needed s" by (simp add: needed_def f cleared_def)
  ultimately have n: "needed t \<subseteq> set (ids t)" using default_ids(1) [of s] by auto
  have "set (ids t) \<subseteq> set (map fst (default_records s)) \<union> {0}" unfolding ids using put_ids_range by fastforce
  then have r: "\<forall>r \<in> set (ids t). rid_ok r" using default_ids(3) [of s] by (auto simp: rid_ok_def)
  have "records_ok t" using n r f(1) [OF cleared_ok(2)] unfolding records_ok_def records_len_def by blast
  moreover have "fids_ok t" using fids_ok_cong [OF f(2,3)] cleared_ok(1) by simp
  ultimately have "card_ok t" using assms by (simp add: card_ok_def f) (simp add: cleared_def)
  moreover have "xi825_reset s = t \<or> (\<exists>cis. xi825_reset s = xi825_set_cis cis t)"
    by (simp add: xi825_reset_def Let_def t_def [symmetric]) blast
  moreover have "card_ok (xi825_set_cis cis t)" if "card_ok t" for cis
    unfolding xi825_set_cis_def by (rule add_record_card [OF that]) (simp_all add: rid_ok_def)
  ultimately show ?thesis by auto
qed


subsection \<open>Commands\<close>

lemma settings_exist: "card_ok s \<Longrightarrow> r \<in> needed s \<Longrightarrow> \<exists>c. committed r s = Some c"
proof -
  assume "card_ok s" "r \<in> needed s"
  then have "r \<in> set (ids s)" unfolding card_ok_def records_ok_def by blast
  then show ?thesis using record_slot_None [of r s] by (auto simp: committed_def)
qed

lemma setting_exists: "card_ok s \<Longrightarrow> r \<in> needed s \<Longrightarrow> \<exists>v. setting r s = Some v"
  using settings_exist [of s r] by (auto simp: setting_def)

lemma needed_members:
  "0xFC00 \<in> needed s" "0xFC02 \<in> needed s" "0xFC23 \<in> needed s" "0xFC28 \<in> needed s" "0xFC85 \<in> needed s"
  "hermes s \<Longrightarrow> 0xFC20 \<in> needed s" "hermes s \<Longrightarrow> 0xFCB1 \<in> needed s" "hermes s \<Longrightarrow> 0xFC25 \<in> needed s"
  by (simp_all add: needed_def)

lemma wants_total: "card_ok s \<Longrightarrow> \<exists>b. wants_network ssid s = Some b"
  using setting_exists [of s, OF _ needed_members(1)] by (fastforce simp: wants_network_def Let_def)

lemma can_associate_total:
  assumes s: "card_ok s"
  shows "\<exists>b. can_associate s = Some b"
proof -
  obtain ssid where ss: "committed 0xFC02 s = Some ssid" using settings_exist [OF s needed_members(2)] by blast
  obtain w where w: "wants_network ssid s = Some w" using wants_total [OF s] by blast
  have "\<exists>b. hermes_associates ssid s = Some b" if h: "hermes s"
  proof -
    obtain x y z where "setting 0xFC20 s = Some x" "setting 0xFCB1 s = Some y" "committed 0xFC25 s = Some z"
      using setting_exists [OF s needed_members(6) [OF h]] setting_exists [OF s needed_members(7) [OF h]]
        settings_exist [OF s needed_members(8) [OF h]] by blast
    then show ?thesis using w by (auto simp: hermes_associates_def Let_def)
  qed
  moreover have "\<exists>b. prism_associates ssid s = Some b"
  proof -
    obtain x y where "setting 0xFC28 s = Some x" "setting 0xFC23 s = Some y"
      using setting_exists [OF s needed_members(3)] setting_exists [OF s needed_members(4)] by blast
    then show ?thesis using w by (auto simp: prism_associates_def Let_def split: option.split)
  qed
  ultimately show ?thesis using ss by (auto simp: can_associate_def)
qed

lemma scan_total:
  assumes s: "card_ok s"
  shows "\<exists>t. scan s = Some t \<and> card_ok t"
proof -
  have l: "length (prism_results s) \<le> 200" "length (hermes_cell k s) = 50" for k
    by (simp_all add: prism_results_def hermes_cell_def wr16_def ap_bssid_def ap_ssid_def)
  have p: "card_ok (snd (info 0xF101 (prism_results s) s))" by (rule info_ok [OF s l(1)])
  have h: "card_ok (snd (info 0xF101 (hermes_cell 100 s @ hermes_cell 90 s) s))" "card_ok (snd (info 0xF101 [] s))"
    by (rule info_ok [OF s], simp add: l)+
  obtain n where n: "setting 0xFC02 s = Some n" using setting_exists [OF s needed_members(2)] by blast
  show ?thesis using p h n by (auto simp: scan_def)
qed

lemma tick_total:
  assumes s: "card_ok s"
  shows "\<exists>t. xi825_tick s = Some t \<and> card_ok t"
proof -
  obtain b where b: "can_associate s = Some b" using can_associate_total [OF s] by blast
  define u where "u = s\<lparr>security := (security s)\<lparr>authorized := b\<rparr>\<rparr>"
  have u: "card_ok u" by (simp add: u_def s)
  have "card_ok (snd (info 0xF200 (wr16 (if b then 1 else 2)) u))" by (rule info_ok [OF u]) (simp add: wr16_def)
  then have i: "card_ok (case info 0xF200 (wr16 (if b then 1 else 2)) u of
      (ok, t) \<Rightarrow> if ok then t\<lparr>associated := b, link_pending := False\<rparr> else t)" by (simp add: split_beta)
  have "xi825_tick s = Some (if link_pending u \<or> b \<noteq> associated u
      then (case info 0xF200 (wr16 (if b then 1 else 2)) u of (ok, t) \<Rightarrow> if ok then t\<lparr>associated := b, link_pending := False\<rparr> else t)
      else u)"
    unfolding xi825_tick_def b Option.bind.bind_lunit u_def Let_def by (rule refl)
  moreover have "card_ok (if link_pending u \<or> b \<noteq> associated u
      then (case info 0xF200 (wr16 (if b then 1 else 2)) u of (ok, t) \<Rightarrow> if ok then t\<lparr>associated := b, link_pending := False\<rparr> else t)
      else u)" by (rule if_ok [OF i u])
  ultimately show ?thesis by blast
qed

lemma receive_total:
  assumes s: "card_ok s"
  shows "\<exists>b t. xi825_receive p s = Some (b, t) \<and> card_ok t"
proof (cases "\<not> associated s \<or> length p < 14 \<or> length p > 1514 \<or> rx_count s = 8")
  case True
  then have "xi825_receive p s = Some (False, s)" unfolding xi825_receive_def by (rule if_P)
  then show ?thesis using s by blast
next
  case False
  obtain v where v: "setting 0xFC85 s = Some v" using setting_exists [OF s needed_members(5)] by blast
  show ?thesis
  proof (cases "allocate (60 + 8 + (length p - 14)) s")
    case None
    then show ?thesis using s v False by (auto simp: xi825_receive_def)
  next
    case (Some it)
    obtain i t where a: "allocate (60 + 8 + (length p - 14)) s = Some (i, t)" using Some by (cases it) simp
    note al = allocate_ok [OF a s]
    have rl: "length (rx_frame p) \<le> 4096" using False by (auto simp: rx_frame_def Let_def wr16_def ap_bssid_def)
    define u where "u = set_buffer i (overlay 0 (rx_frame p) (buf_data (buffers t ! i))) t"
    have u: "card_ok u" unfolding u_def by (rule set_buffer_ok [OF al(1,2)]) (use rl al(3) in simp)
    have n: "rx_count u \<noteq> 8" using False allocate_counts [OF a] by (simp add: u_def)
    have "\<exists>m. (if odd (unat (p ! 0)) \<or> take 6 p = station s then Some 1 else setting 0xFC85 s) = Some m" using v by simp
    then obtain m where m: "(if odd (unat (p ! 0)) \<or> take 6 p = station s then Some 1 else setting 0xFC85 s) = Some m" by blast
    have r: "xi825_receive p s = Some (if m = 0 then (False, s) else (True, raise_event EV_RX
        (set_reg RXFID (rx_queue (u\<lparr>rx_queue := (rx_queue u)[(rx_head u + rx_count u) mod 8 := buf_id (buffers u ! i)], rx_count := rx_count u + 1\<rparr>) !
            rx_head (u\<lparr>rx_queue := (rx_queue u)[(rx_head u + rx_count u) mod 8 := buf_id (buffers u ! i)], rx_count := rx_count u + 1\<rparr>))
          (u\<lparr>rx_queue := (rx_queue u)[(rx_head u + rx_count u) mod 8 := buf_id (buffers u ! i)], rx_count := rx_count u + 1\<rparr>))))"
      unfolding xi825_receive_def if_not_P [OF False] m Option.bind.bind_lunit a option.case prod.case Let_def u_def by (rule refl)
    show ?thesis unfolding r using s queue_ok(2) [OF u n] by (cases "m = 0") auto
  qed
qed


lemma alloc_command_ok: "card_ok s \<Longrightarrow> card_ok (snd (cmd_alloc n s))"
  by (auto simp: cmd_alloc_def Let_def allocate_ok(1) split: option.split)

lemma transmit_buffer_ok: "card_ok s \<Longrightarrow> card_ok (snd (transmit_buffer i s))"
  by (simp add: transmit_buffer_def split: option.split)

lemma transmit_buffer_fields [simp]:
  "buffers (snd (transmit_buffer i s)) = buffers s" "regs (snd (transmit_buffer i s)) = regs s" "rx_count (snd (transmit_buffer i s)) = rx_count s"
  by (simp_all add: transmit_buffer_def split: option.split)

lemma transmit_command_ok:
  assumes s: "card_ok s"
  shows "card_ok (snd (cmd_transmit v fid s))"
proof (cases "buffer_slot fid s")
  case None
  then show ?thesis using s by (simp add: cmd_transmit_def)
next
  case (Some i)
  have "length (buffers s) = XI825_BUFFERS" using s unfolding card_ok_def fids_ok_def by blast
  then have i: "i < XI825_BUFFERS" using buffer_slot_Some [OF Some] by simp
  define t where "t = snd (transmit_buffer i s)"
  have t: "card_ok t" unfolding t_def by (rule transmit_buffer_ok [OF s])
  define u where "u = set_buffer i (overlay 0 (wr16 (if fst (transmit_buffer i s) then 0 else 1)) (buf_data (buffers t ! i))) t"
  have u: "card_ok u"
    unfolding u_def by (rule set_buffer_ok [OF t i]) (use buffer_data_length [OF t i] in \<open>simp add: wr16_def\<close>)
  show ?thesis
    unfolding cmd_transmit_def Some option.case split_beta Let_def t_def [symmetric] u_def [symmetric]
    by (simp add: s u release_ok)
qed

lemma commit_total:
  assumes s: "card_ok s" and i: "i < length (records s)"
  shows "\<exists>r t. commit_record p i s = Some (r, t) \<and> card_ok t"
proof (cases "p AND 0xFF00 \<noteq> 0xFC00 \<or> rd16 (rec_data (records s ! i)) 0 = 0 \<or> rd16 (rec_data (records s ! i)) 0 > 63 \<or>
    rd16 (rec_data (records s ! i)) 2 \<noteq> unat p")
  case True
  then have "commit_record p i s = Some (1, s)" unfolding commit_record_def Let_def by (rule if_P)
  then show ?thesis using s by blast
next
  case False
  define t where "t = s\<lparr>records := (records s)[i := (records s ! i)\<lparr>rec_length := 2 + rd16 (rec_data (records s ! i)) 0 * 2,
    rec_committed := rec_data (records s ! i)\<rparr>]\<rparr>"
  have t: "card_ok t"
    unfolding t_def by (rule record_update_ok [OF s i]) (use record_lengths [OF s i] False in simp_all)
  define u where "u = (if p = 0xFC01 \<and> rd16 (rec_data (records s ! i)) 0 = 4
    then t\<lparr>station := take 6 (drop 4 (rec_data (records s ! i)))\<rparr> else t)"
  have l: "length (take 6 (drop 4 (rec_data (records s ! i)))) = 6" using record_lengths [OF s i] by simp
  have "card_ok (t\<lparr>station := take 6 (drop 4 (rec_data (records s ! i)))\<rparr>) = card_ok t"
    by (rule card_ok_same) (use l t in \<open>simp_all add: card_rest_def card_ok_def\<close>)
  then have u: "card_ok u" using t by (simp add: u_def)
  have "commit_record p i s = map_option (Pair 0) (if p = 0xFCE1 then scan u else Some u)"
    unfolding commit_record_def Let_def if_not_P [OF False] t_def [symmetric] u_def by (rule refl)
  then show ?thesis using scan_total [OF u] u by (auto simp: u)
qed

lemma access_total:
  assumes s: "card_ok s"
  shows "\<exists>r t. cmd_access v p s = Some (r, t) \<and> card_ok t"
proof (cases "record_slot p s")
  case None
  then show ?thesis using s by (simp add: cmd_access_def)
next
  case (Some i)
  then have i: "i < length (records s)" using record_slot_Some by blast
  show ?thesis
  proof (cases "v AND 0x100 = 0")
    case True
    have u: "card_ok (refresh_record p s)" by (rule refresh_record_ok [OF s])
    have l: "length (records (refresh_record p s)) = length (records s)"
      by (simp add: refresh_record_def Let_def scalar_def)
    then have i': "i < length (records (refresh_record p s))" using i by simp
    have "card_ok ((refresh_record p s)\<lparr>records := (records (refresh_record p s))[i :=
        (records (refresh_record p s) ! i)\<lparr>rec_data := rec_committed (records (refresh_record p s) ! i)\<rparr>]\<rparr>)"
      by (rule record_update_ok [OF u i']) (use record_lengths [OF u i'] in simp_all)
    then show ?thesis using True by (simp add: cmd_access_def Some Let_def)
  next
    case False
    then show ?thesis using commit_total [OF s i] by (simp add: cmd_access_def Some)
  qed
qed

lemma inquire_total:
  assumes s: "card_ok s"
  shows "\<exists>r t. cmd_inquire p s = Some (r, t) \<and> card_ok t"
  using scan_total [OF s] info_ok [OF s, where d = "replicate 42 0" and ty = "0xF100"] s by (auto simp: cmd_inquire_def)

lemma command_total:
  assumes s: "card_ok s"
  shows "\<exists>t. command v s = Some t \<and> card_ok t"
proof -
  define u where "u = fold (\<lambda>(r, x). set_reg r x) [(CMD, v AND 0x7FFF), (RESP0, 0), (RESP0 + 1, 0), (RESP0 + 2, 0)] s"
  have u: "card_ok u" using s by (simp add: u_def)
  have st: "length (station u) = 6" using u by (simp add: card_ok_def)
  obtain r1 t1 where i: "cmd_inquire (regs s ! PARAM0) u = Some (r1, t1)" "card_ok t1" using inquire_total [OF u] by blast
  obtain r2 t2 where a: "cmd_access v (regs s ! PARAM0) u = Some (r2, t2)" "card_ok t2" using access_total [OF u] by blast
  have c: "card_ok (snd (cmd_alloc (regs s ! PARAM0) u))" "card_ok (snd (cmd_transmit v (regs s ! PARAM0) u))" "card_ok (snd (cmd_enable v u))"
    by (rule alloc_command_ok [OF u], rule transmit_command_ok [OF u]) (simp add: cmd_enable_def u)
  have "run_command v s \<in> {Some (0, xi825_reset u), Some (cmd_enable v u), Some (0, u\<lparr>enabled := False, link_pending := associated u\<rparr>),
      Some (cmd_alloc (regs s ! PARAM0) u), Some (cmd_transmit v (regs s ! PARAM0) u), Some (r1, t1), Some (r2, t2), Some (1, u)}"
    unfolding run_command_def Let_def u_def [symmetric] i a by simp
  then have "\<exists>r t. run_command v s = Some (r, t) \<and> card_ok t"
  proof -
    assume "run_command v s \<in> {Some (0, xi825_reset u), Some (cmd_enable v u), Some (0, u\<lparr>enabled := False, link_pending := associated u\<rparr>),
      Some (cmd_alloc (regs s ! PARAM0) u), Some (cmd_transmit v (regs s ! PARAM0) u), Some (r1, t1), Some (r2, t2), Some (1, u)}"
    then obtain x where x: "run_command v s = Some x" "x \<in> {(0, xi825_reset u), cmd_enable v u, (0, u\<lparr>enabled := False, link_pending := associated u\<rparr>),
      cmd_alloc (regs s ! PARAM0) u, cmd_transmit v (regs s ! PARAM0) u, (r1, t1), (r2, t2), (1, u)}" by blast
    then have "card_ok (snd x)" using c i(2) a(2) u reset_ok [OF st] by auto
    then show ?thesis using x(1) by (cases x) simp
  qed
  then show ?thesis by (auto simp: command_def)
qed

lemma write_reg_total: "card_ok s \<Longrightarrow> \<exists>t. write_reg r v s = Some t \<and> card_ok t"
  using command_total [of s v] by (simp add: write_reg_def ack_ok seek_ok)

lemma narrow_total: "card_ok s \<Longrightarrow> \<exists>t. narrow_write off sz v s = Some t \<and> card_ok t"
  by (simp add: narrow_write_def Let_def bap_ok write_reg_total split: option.split)

lemma wide_total: "card_ok s \<Longrightarrow> \<exists>t. wide_write k off i v s = Some t \<and> card_ok t"
proof (induction k off i v s rule: wide_write.induct)
  case (2 off i v s)
  then show ?case using narrow_total by simp
next
  case (3 k off i v s)
  obtain t where "narrow_write (off + i) 2 (drop_bit (8 * i) v) s = Some t" "card_ok t" using narrow_total [OF 3(2)] by blast
  then show ?case using 3(1) [of t] by simp
qed simp

lemma write_total: "card_ok s \<Longrightarrow> \<exists>t. xi825_write off sz v s = Some t \<and> card_ok t"
  using wide_total narrow_total by (simp add: xi825_write_def)

lemma read_ok: "card_ok s \<Longrightarrow> card_ok (snd (xi825_read off sz s))"
  using bap_ok by (simp add: xi825_read_def split_beta split: option.split)


section \<open>Histories\<close>

datatype xi_event =
    Read nat nat
  | Write nat nat u64
  | Receive "u8 list"
  | Tick
  | Reset
  | Set_Hermes bool
  | Set_Firmware nat nat
  | Set_Cis "u8 list"
  | Backend

fun xi_step :: "xi_event \<Rightarrow> xi825 \<Rightarrow> xi825 option" where
  "xi_step (Read off sz) s = Some (snd (xi825_read off sz s))"
| "xi_step (Write off sz v) s = xi825_write off sz v s"
| "xi_step (Receive p) s = map_option snd (xi825_receive p s)"
| "xi_step Tick s = xi825_tick s"
| "xi_step Reset s = Some (xi825_reset s)"
| "xi_step (Set_Hermes h) s = Some (xi825_set_hermes h s)"
| "xi_step (Set_Firmware a b) s = Some (xi825_set_hermes_firmware a b s)"
| "xi_step (Set_Cis c) s = Some (xi825_set_cis c s)"
| "xi_step Backend s = Some (s\<lparr>transmit := True\<rparr>)"

definition xi_after :: "xi_event \<Rightarrow> xi825 option \<Rightarrow> xi825 option" where
  "xi_after e so = Option.bind so (xi_step e)"

definition card_there :: "xi825 option \<Rightarrow> bool" where
  "card_there so \<longleftrightarrow> (\<exists>s. so = Some s \<and> card_ok s)"

lemma card_station: "card_ok s \<Longrightarrow> length (station s) = 6"
  by (simp add: card_ok_def)

lemma step_total: "card_ok s \<Longrightarrow> \<exists>t. xi_step e s = Some t \<and> card_ok t"
proof (cases e)
  case (Read off sz)
  then show "card_ok s \<Longrightarrow> ?thesis" by (simp add: read_ok)
next
  case (Write off sz v)
  then show "card_ok s \<Longrightarrow> ?thesis" by (simp add: write_total)
next
  case (Receive p)
  assume "card_ok s"
  then show ?thesis using receive_total [of s p] Receive by auto
next
  case Tick
  then show "card_ok s \<Longrightarrow> ?thesis" by (simp add: tick_total)
next
  case (Set_Cis c)
  then show "card_ok s \<Longrightarrow> ?thesis" by (simp add: xi825_set_cis_def add_record_card rid_ok_def)
qed (simp_all add: reset_ok card_station xi825_set_hermes_def xi825_set_hermes_firmware_def)

interpretation xi: device xi_after card_there
proof unfold_locales
  fix so e assume "card_there so"
  then obtain s where s: "so = Some s" "card_ok s" by (auto simp: card_there_def)
  then show "card_there (xi_after e so)" using step_total [OF s(2), of e] by (auto simp: card_there_def xi_after_def)
qed

lemma init_there: "length m = 6 \<Longrightarrow> card_there (Some (xi825_init ap m))"
  by (simp add: card_there_def xi825_init_def reset_ok)

section \<open>Buffers and their identifiers\<close>

lemma card_len: "card_ok s \<Longrightarrow> length (buffers s) = XI825_BUFFERS"
  unfolding card_ok_def fids_ok_def by blast

lemma buffer_found:
  assumes s: "card_ok s" and i: "i < XI825_BUFFERS" and u: "buf_used (buffers s ! i)"
  shows "buffer_slot (buf_id (buffers s ! i)) s = Some i" "record_slot (buf_id (buffers s ! i)) s = None"
proof -
  have f: "fids_ok s" using s by (simp only: card_ok_def)
  have "buffer_slot (buf_id (buffers s ! i)) s \<noteq> None"
    using used_ids_nth [of i s] i u card_len [OF s] by (simp add: buffer_slot_None)
  then obtain j where j: "buffer_slot (buf_id (buffers s ! i)) s = Some j" by blast
  then have "j = i" using buffer_slot_Some [OF j] fids_okD(4) [OF f, of j i] i u card_len [OF s] by simp
  then show "buffer_slot (buf_id (buffers s ! i)) s = Some i" using j by simp
  have "fid_ok (buf_id (buffers s ! i))" by (rule fids_okD(3) [OF f i u])
  moreover have "rid_ok r" if "r \<in> set (ids s)" for r using s that unfolding card_ok_def records_ok_def by blast
  moreover have "\<not> (fid_ok r \<and> rid_ok r)" for r
    by (auto simp: fid_ok_def rid_ok_def word_le_nat_alt word_less_nat_alt)
  ultimately have "buf_id (buffers s ! i) \<notin> set (ids s)" by blast
  then show "record_slot (buf_id (buffers s ! i)) s = None" by (simp add: record_slot_None)
qed

lemma set_reg_same [simp]:
  "record_slot r (set_reg k v s) = record_slot r s" "buffer_slot f (set_reg k v s) = buffer_slot f s" "buffers (set_reg k v s) = buffers s"
  "associated (set_reg k v s) = associated s" "transmit (set_reg k v s) = transmit s" "sent (set_reg k v s) = sent s"
  by (simp_all add: set_reg_def record_slot_def buffer_slot_def)

lemma raise_event_same [simp]:
  "record_slot r (raise_event e s) = record_slot r s" "buffer_slot f (raise_event e s) = buffer_slot f s" "buffers (raise_event e s) = buffers s"
  "associated (raise_event e s) = associated s" "transmit (raise_event e s) = transmit s" "sent (raise_event e s) = sent s"
  by (simp_all add: raise_event_def)

lemma rd16_wr16: "v < 65536 \<Longrightarrow> rd16 (wr16 v) 0 = v"
proof -
  assume "v < 65536"
  then have "v div 256 < 256" by (simp add: less_mult_imp_div_less)
  then show ?thesis by (simp add: rd16_def wr16_def unat_of_nat)
qed

lemma received_image:
  assumes p: "14 \<le> length p" "length p \<le> 1514"
  shows "ethernet_of \<lparr>buf_id = f, buf_length = 54 + length p, buf_used = True, buf_data = overlay 0 (rx_frame p) (replicate XI825_BUFFER_SIZE 0)\<rparr> = Some p"
proof -
  define z where "z = replicate (4096 - (54 + length p)) (0 :: u8)"
  define H where "H = wr16 0x2000 @ replicate 4 0 @ [40, 100, 110] @ replicate 5 0 @ wr16 0x0208 @ [0, 0] @ take 6 p @ ap_bssid @
    take 6 (drop 6 p) @ replicate 8 0"
  define L where "L = wr16 (length p - 14 + 8)"
  define K where "K = [of_nat ((length p - 14 + 8) div 256), of_nat (length p - 14 + 8) :: u8]"
  let ?d = "overlay 0 (rx_frame p) (replicate XI825_BUFFER_SIZE 0)"
  have h: "length H = 44" "length L = 2" "length K = 2" using p by (simp_all add: H_def L_def K_def wr16_def ap_bssid_def)
  have rl: "length (rx_frame p) = 54 + length p" using p by (auto simp: rx_frame_def Let_def wr16_def ap_bssid_def)
  have "rx_frame p = H @ L @ take 12 p @ K @ [0xAA, 0xAA, 3, 0, 0, 0] @ drop 12 p"
    by (simp add: rx_frame_def H_def L_def K_def Let_def)
  then have d: "?d = H @ L @ take 12 p @ K @ [0xAA, 0xAA, 3, 0, 0, 0] @ drop 12 p @ z"
    using rl by (simp add: overlay_def z_def)
  have "rd16 ?d 44 = rd16 L 0" using h by (simp add: rd16_def d nth_append)
  also have "... = length p - 14 + 8" unfolding L_def by (rule rd16_wr16) (use p in simp)
  finally have n: "rd16 ?d 44 = length p - 6" using p by simp
  have d46: "take 12 (drop 46 ?d) = take 12 p" using h p by (simp add: d)
  have d60: "drop 60 ?d = [0xAA, 0xAA, 3, 0, 0, 0] @ drop 12 p @ z" using h p by (simp add: d)
  have pay: "take (length p - 12) (drop 12 p @ z) = drop 12 p" by simp
  have "length p - 6 \<noteq> 0" "\<not> (54 + length p < 60 \<or> length p - 6 > 1600 - 14 \<or> 60 + (length p - 6) > 54 + length p)" "length p - 6 \<ge> 8"
    using p by simp_all
  then show ?thesis
    unfolding ethernet_of_def Let_def xi_buffer.simps n d46 d60 using pay by simp
qed


lemma received_buffer:
  assumes s: "card_ok s" and r: "xi825_receive p s = Some (True, t)" and e: "rx_count s = 0"
  obtains i f where "buffer_slot f t = Some i" "f = regs t ! RXFID" "ethernet_of (buffers t ! i) = Some p" "associated t"
    "sent t = sent s" "transmit t = transmit s" "card_ok t" "regs t ! EVSTAT = regs s ! EVSTAT OR EV_RX" "i < XI825_BUFFERS"
proof -
  have g: "\<not> (\<not> associated s \<or> length p < 14 \<or> length p > 1514 \<or> rx_count s = 8)"
    using r unfolding xi825_receive_def by (auto split: if_split_asm)
  then have p: "14 \<le> length p" "length p \<le> 1514" by auto
  obtain m where m: "(if odd (unat (p ! 0)) \<or> take 6 p = station s then Some 1 else setting 0xFC85 s) = Some m"
    and b: "xi825_receive p s = Some (if m = 0 then (False, s) else case allocate (60 + 8 + (length p - 14)) s of
        None \<Rightarrow> (False, s)
      | Some (i, s) \<Rightarrow>
          let s = set_buffer i (overlay 0 (rx_frame p) (buf_data (buffers s ! i))) s;
              s = s\<lparr>rx_queue := (rx_queue s)[(rx_head s + rx_count s) mod 8 := buf_id (buffers s ! i)], rx_count := rx_count s + 1\<rparr>
          in (True, raise_event EV_RX (set_reg RXFID (rx_queue s ! rx_head s) s)))"
    using r unfolding xi825_receive_def if_not_P [OF g] by (auto simp only: bind_eq_Some_conv)
  have "m \<noteq> 0"
  proof
    assume z: "m = 0"
    then have "fst (the (xi825_receive p s)) = False" unfolding b by simp
    then show False using r by simp
  qed
  have "allocate (60 + 8 + (length p - 14)) s \<noteq> None"
  proof
    assume z: "allocate (60 + 8 + (length p - 14)) s = None"
    then have "fst (the (xi825_receive p s)) = False" unfolding b z by simp
    then show False using r by simp
  qed
  then obtain i u where a: "allocate (60 + 8 + (length p - 14)) s = Some (i, u)" by auto
  have f: "fids_ok s" using s by (simp only: card_ok_def)
  obtain k where i: "i < XI825_BUFFERS" and u: "u = s\<lparr>buffers := (buffers s)[i := \<lparr>buf_id = next_fid s,
      buf_length = 60 + 8 + (length p - 14), buf_used = True, buf_data = replicate XI825_BUFFER_SIZE 0\<rparr>], next_fid := k\<rparr>"
    by (rule allocate_Some [OF a f])
  define B where "B = \<lparr>buf_id = next_fid s, buf_length = 54 + length p, buf_used = True,
    buf_data = overlay 0 (rx_frame p) (replicate XI825_BUFFER_SIZE 0)\<rparr>"
  have len: "length (buffers s) = XI825_BUFFERS" by (rule card_len [OF s])
  have n: "60 + 8 + (length p - 14) = 54 + length p" using p by simp
  define v where "v = set_buffer i (overlay 0 (rx_frame p) (buf_data (buffers u ! i))) u"
  have v: "buffers v = (buffers s)[i := B]" "regs v = regs s" "rx_head v = rx_head s" "rx_count v = 0" "rx_queue v = rx_queue s"
    "associated v = associated s" "sent v = sent s" "transmit v = transmit s"
    using i len n e by (simp_all add: v_def set_buffer_def u B_def)
  define w where "w = v\<lparr>rx_queue := (rx_queue v)[(rx_head v + rx_count v) mod 8 := buf_id (buffers v ! i)], rx_count := rx_count v + 1\<rparr>"
  have t: "t = raise_event EV_RX (set_reg RXFID (rx_queue w ! rx_head w) w)"
    using r \<open>m \<noteq> 0\<close> unfolding b a option.case prod.case Let_def v_def [symmetric] w_def [symmetric] by simp
  have q: "rx_queue w ! rx_head w = next_fid s"
    using s i len by (simp add: w_def v card_ok_def B_def)
  have bt: "buffers t = (buffers s)[i := B]" by (simp add: t w_def v)
  have ct: "card_ok t" using receive_total [OF s, of p] r by auto
  have rl: "length (regs s) = 32" using s by (simp add: card_ok_def)
  have ru: "regs t ! RXFID = next_fid s" "regs t ! EVSTAT = regs s ! EVSTAT OR EV_RX"
    using rl by (simp_all add: t q raise_event_def set_reg_def) (simp_all add: w_def v)
  have B: "buffers t ! i = B" using i len by (simp add: bt)
  have "buf_used (buffers t ! i)" "buf_id (buffers t ! i) = next_fid s" unfolding B by (simp_all add: B_def)
  then have slot: "buffer_slot (next_fid s) t = Some i" using buffer_found(1) [OF ct i] by simp
  have eth: "ethernet_of (buffers t ! i) = Some p" unfolding B B_def by (rule received_image [OF p])
  have "associated t" "sent t = sent s" "transmit t = transmit s" using g by (simp_all add: t w_def v)
  then show ?thesis by (rule that [OF slot ru(1) [symmetric] eth _ _ _ ct ru(2) i])
qed


lemma regs_len: "card_ok s \<Longrightarrow> length (regs s) = 32"
  by (simp add: card_ok_def)

lemma down_up: "(ucast (ucast f :: u64) :: u16) = f"
  for f :: u16
  by (rule bit_word_eqI) (simp add: bit_simps)

lemma write_select:
  assumes "p < 2"
  shows "xi825_write (2 * (SELECT0 + p)) 2 (ucast f) s = Some (set_reg (SELECT0 + p) f s)"
proof -
  have "p = 0 \<or> p = 1" using assms by auto
  then show ?thesis by (elim disjE) (simp_all add: xi825_write_def narrow_write_def data_port_def write_reg_def down_up)
qed

lemma write_param: "xi825_write 2 2 (ucast f) s = Some (set_reg PARAM0 f s)"
  by (simp add: xi825_write_def narrow_write_def data_port_def write_reg_def down_up)

lemma write_command: "xi825_write 0 2 (ucast v) s = command v s"
  by (simp add: xi825_write_def narrow_write_def data_port_def write_reg_def down_up)

lemma regs_set_reg: "length (regs s) = 32 \<Longrightarrow> r < 32 \<Longrightarrow> regs (set_reg k v s) ! r = (if r = k then v else regs s ! r)"
  by (simp add: set_reg_def nth_list_update)

lemma transmit_received:
  assumes s: "card_ok s" and b: "buffer_slot f s = Some i" and e: "ethernet_of (buffers s ! i) = Some p"
    and up: "associated s" "transmit s" and al: "regs s ! EVSTAT AND EV_ALLOC = 0"
  shows "sent (snd (cmd_transmit v f s)) = sent s @ [p]"
proof -
  have "transmit_buffer i s = (True, s\<lparr>sent := sent s @ [p]\<rparr>)" using up e by (simp add: transmit_buffer_def)
  then show ?thesis using b al
    by (simp add: cmd_transmit_def Let_def) (simp add: set_buffer_def release_def split: option.split)
qed

section \<open>Properties\<close>

text \<open>C5: The card firmware never uses a record it does not have, and keeps within its tables. From
  attachment on, after every sequence of register accesses, arriving frames, ticks, resets and firmware
  changes the card is still there: no null record was used, the records and buffers have their sizes,
  and the identifiers of the buffers in use are unique and apart from those of records.\<close>

theorem xi825_never_faults:
  assumes "length m = 6"
  shows "\<exists>s. fold xi_after es (Some (xi825_init ap m)) = Some s \<and> card_ok s"
  using xi.run_inv [OF init_there [OF assms], of es] by (simp add: card_there_def)

theorem xi825_never_faults_witness:
  "\<exists>s. fold xi_after [Set_Hermes True, Write 0 2 1, Tick, Read 0x36 2]
     (Some (xi825_init (wifi_security_init None None None [2, 0, 0, 0, 0, 1]) [2, 0, 0, 0, 0, 1])) = Some s \<and> card_ok s"
  by (rule xi825_never_faults) simp

text \<open>C7: Selecting a packet buffer by its identifier reaches that buffer. Whatever the card has
  allocated, received and released, a host that writes the identifier of a buffer in use to a SELECT
  register accesses this buffer through the port, never a record or another buffer.\<close>

theorem xi825_select_reaches_buffer:
  assumes "card_ok s" and "i < XI825_BUFFERS" and "buf_used (buffers s ! i)" and "port < 2"
  shows "\<exists>t. xi825_write (2 * (SELECT0 + port)) 2 (ucast (buf_id (buffers s ! i))) s = Some t \<and> bap_memory port t = In_Buffer i"
proof -
  let ?f = "buf_id (buffers s ! i)"
  have "regs (set_reg (SELECT0 + port) ?f s) ! (SELECT0 + port) = ?f"
    using regs_set_reg [OF regs_len [OF assms(1)], of "SELECT0 + port"] assms(4) by simp
  then have "bap_memory port (set_reg (SELECT0 + port) ?f s) = In_Buffer i"
    using buffer_found [OF assms(1-3)] by (simp add: bap_memory_def Let_def)
  then show ?thesis using write_select [OF assms(4)] by simp
qed

text \<open>C6: A frame survives both encapsulations. When the card has taken a frame from the network into
  a receive buffer, transmitting this buffer by its identifier sends exactly the frame: the firmware's
  SNAP header is added on the way in and removed on the way out.\<close>

theorem xi825_frame_roundtrip:
  assumes "card_ok s" and "transmit s" and "rx_count s = 0" and "regs s ! EVSTAT AND EV_ALLOC = 0"
    and "xi825_receive p s = Some (True, t)"
  shows "\<exists>u v. xi825_write 2 2 (ucast (regs t ! RXFID)) t = Some u \<and> xi825_write 0 2 (ucast (0x0B :: u16)) u = Some v \<and>
    sent v = sent s @ [p]"
proof -
  obtain i f where t: "buffer_slot f t = Some i" "f = regs t ! RXFID" "ethernet_of (buffers t ! i) = Some p" "associated t"
    "sent t = sent s" "transmit t = transmit s" "card_ok t" "regs t ! EVSTAT = regs s ! EVSTAT OR EV_RX"
    by (rule received_buffer [OF assms(1,5,3)])
  define u where "u = set_reg PARAM0 f t"
  define w where "w = fold (\<lambda>(r, x). set_reg r x) [(CMD, (0x0B :: u16) AND 0x7FFF), (RESP0, 0), (RESP0 + 1, 0), (RESP0 + 2, 0)] u"
  have len: "length (regs t) = 32" by (rule regs_len [OF t(7)])
  have w: "card_ok w" "buffer_slot f w = Some i" "ethernet_of (buffers w ! i) = Some p" "associated w" "transmit w" "sent w = sent s"
    using t assms(2) by (simp_all add: w_def u_def)
  have "regs w ! EVSTAT = regs t ! EVSTAT" "regs u ! PARAM0 = f"
    using len by (simp_all add: w_def u_def set_reg_def)
  moreover have "(regs s ! EVSTAT OR EV_RX) AND EV_ALLOC = 0" using assms(4) by (simp add: bit.conj_disj_distrib2)
  ultimately have a: "regs w ! EVSTAT AND EV_ALLOC = 0" "regs u ! PARAM0 = f" using t(8) by simp_all
  have "run_command 0x0B u = Some (cmd_transmit 0x0B f w)"
    by (simp add: run_command_def Let_def a(2) [simplified] w_def)
  then have "command 0x0B u = Some (case cmd_transmit 0x0B f w of (r, x) \<Rightarrow>
      raise_event EV_CMD (set_reg STATUS (((0x0B :: u16) AND 0x3F) OR push_bit 8 (of_nat r)) x))"
    by (simp add: command_def)
  moreover have "sent (snd (cmd_transmit 0x0B f w)) = sent s @ [p]"
    using transmit_received [OF w(1-5) a(1)] w(6) by simp
  ultimately show ?thesis using write_param [of f t] write_command [of "0x0B" u] t(2) by (simp add: u_def split_beta)
qed


text \<open>An associated card with its network attached, and a broadcast frame.\<close>

definition demo_xi :: xi825 where
  "demo_xi = (xi825_init (wifi_security_init None None None [2, 0, 0, 0, 0, 1]) [2, 0, 0, 0, 0, 1])\<lparr>associated := True, transmit := True\<rparr>"

definition demo_frame :: "u8 list" where
  "demo_frame = replicate 6 0xFF @ replicate 60 1"

lemma reset_fields:
  "buffers (xi825_reset s) = buffers (cleared s)" "regs (xi825_reset s) = replicate 32 0" "rx_count (xi825_reset s) = 0"
  by (simp_all add: xi825_reset_def xi825_set_cis_def Let_def add_records_fields) (simp_all add: cleared_def)

lemma demo_xi_ok:
  "card_ok demo_xi" "transmit demo_xi" "rx_count demo_xi = 0" "regs demo_xi ! EVSTAT AND EV_ALLOC = 0" "associated demo_xi"
  by (simp_all add: demo_xi_def xi825_init_def reset_ok reset_fields)

lemma demo_receives: "\<exists>t. xi825_receive demo_frame demo_xi = Some (True, t)"
proof -
  obtain b where b: "buffers demo_xi = replicate 24 b" "\<not> buf_used b"
    by (simp add: demo_xi_def xi825_init_def reset_fields cleared_def)
  have "[0..<24] = 0 # [1..<24 :: nat]" by (simp add: upt_rec)
  then have "allocate (54 + length demo_frame) demo_xi \<noteq> None"
    by (simp add: allocate_def b Let_def demo_frame_def)
  then obtain i u where a: "allocate (54 + length demo_frame) demo_xi = Some (i, u)" by auto
  have "length demo_frame = 66" "odd (unat (demo_frame ! 0))" by (simp_all add: demo_frame_def nth_append)
  then show ?thesis using demo_xi_ok(3,5) a by (simp add: xi825_receive_def Let_def)
qed

theorem xi825_frame_roundtrip_witness:
  "\<exists>t u v. xi825_receive demo_frame demo_xi = Some (True, t) \<and> xi825_write 2 2 (ucast (regs t ! RXFID)) t = Some u \<and>
    xi825_write 0 2 (ucast (0x0B :: u16)) u = Some v \<and> sent v = sent demo_xi @ [demo_frame]"
proof -
  obtain t where t: "xi825_receive demo_frame demo_xi = Some (True, t)" using demo_receives by blast
  from xi825_frame_roundtrip [OF demo_xi_ok(1-4) t] show ?thesis using t by blast
qed

theorem xi825_select_reaches_buffer_witness:
  "\<exists>t i u. xi825_receive demo_frame demo_xi = Some (True, t) \<and> i < XI825_BUFFERS \<and> buf_used (buffers t ! i) \<and>
    xi825_write (2 * (SELECT0 + 1)) 2 (ucast (buf_id (buffers t ! i))) t = Some u \<and> bap_memory 1 u = In_Buffer i"
proof -
  obtain t where t: "xi825_receive demo_frame demo_xi = Some (True, t)" using demo_receives by blast
  obtain i f where i: "buffer_slot f t = Some i" "card_ok t" "i < XI825_BUFFERS"
    by (rule received_buffer [OF demo_xi_ok(1) t demo_xi_ok(3)])
  have u: "buf_used (buffers t ! i)" using buffer_slot_Some [OF i(1)] by blast
  have "(1::nat) < 2" by simp
  from xi825_select_reaches_buffer [OF i(2,3) u this] show ?thesis using t i(3) u by blast
qed

end
