(* ===== verification/Cf_Socket.thy ===== *)
theory Cf_Socket
  imports Ata Ne2000 El3 Modem Wl54cf Xi825
begin

text \<open>
  The CF socket (\<open>src/hw/cf.c\<close>, \<open>cf_xi825.c\<close>, \<open>cf_el3.c\<close>, \<open>cf_wl54cf.c\<close>): which card is in it,
  the companion page with the socket's status words, attribute memory, insertion and removal, the
  interrupt, and the window that hands every access to the card of the day. The six cards are the
  theories imported here. A card access that faults (see \<open>Wl54cf\<close>, \<open>Xi825\<close>, \<open>Ne2000\<close>) is \<open>None\<close>. The host
  file is a parameter of loading; what is saved is recorded in \<open>saved\<close>.
\<close>

section \<open>State\<close>

datatype card_kind = CF_CARD_NONE | CF_CARD_ATA | CF_CARD_NE2000 | CF_CARD_XI825 | CF_CARD_WL54CF | CF_CARD_MODEM | CF_CARD_3C589

text \<open>The storage card's part of the structure, with the flags its functions use, is \<open>ata\<close>.\<close>

record cf_state =
  ata :: cf_card
  card_kind :: card_kind
  image_path :: "string option"
  irq_pending :: bool
  state_change_pending :: bool
  cis_funcid_seen :: bool
  insert_event_pending :: bool
  card_windows_enabled :: bool
  companion_page :: "u8 list"
  cis :: "u8 list"
  nic :: ne2000
  el3_card :: el3
  el3_net :: bool
  xi825_card :: xi825
  xi825_net :: bool
  xi825_cor :: u8
  wl54cf_card :: wl54cf
  wl54cf_net :: bool
  wl54cf_cor :: u8
  modem :: cf_modem
  modem_cor :: u8
  saved :: "(string \<times> u8 list) list"

abbreviation (input) present :: "cf_state \<Rightarrow> bool" where "present s \<equiv> attached (ata s)"

text \<open>What a window write takes from outside: OpenSSL and random bytes for the wireless cards, and
  whether a dialled peer answers.\<close>

record socket_env =
  wifi :: wifi_env
  answers :: bool

section \<open>Card information structures\<close>

definition ata_cis :: "u8 list" where
  "ata_cis =
    [1, 3, 220, 0, 255, 21, 26, 4, 1, 32, 0, 78, 105, 110, 106, 97, 65, 84, 65, 45, 0, 86, 49, 46, 48, 0, 65, 80, 48,
     48, 32, 0, 255, 32, 4, 35, 1, 2, 0, 33, 2, 4, 1, 34, 2, 1, 1, 26, 5, 1, 35, 0, 2, 3, 27, 21, 225, 1, 61, 17, 85,
     30, 252, 35, 240, 97, 112, 1, 7, 118, 3, 1, 48, 104, 208, 16, 0, 20, 0, 255, 0]"

definition ne2000_cis :: "u8 list" where
  "ne2000_cis =
    [1, 3, 217, 1, 255, 21, 31, 4, 1, 66, 69, 51, 48, 48, 45, 69, 109, 117, 0, 78, 69, 50, 48, 48, 48, 45, 67, 111,
     109, 112, 97, 116, 0, 49, 46, 48, 0, 255, 32, 4, 73, 1, 0, 2, 33, 2, 6, 0, 26, 5, 1, 32, 0, 2, 15, 27, 9, 193,
     1, 24, 240, 96, 0, 3, 31, 32, 20, 0, 255, 0]"

definition xi825_cis :: "u8 list" where
  "xi825_cis =
    [1, 3, 220, 0, 255, 21, 30, 4, 1, 90, 45, 67, 111, 109, 0, 76, 65, 78, 69, 115, 99, 97, 112, 101, 47, 88, 73, 45,
     56, 50, 53, 0, 49, 46, 48, 0, 255, 32, 4, 1, 214, 5, 0, 33, 2, 6, 0, 26, 5, 1, 1, 224, 3, 1, 27, 9, 193, 1, 24,
     240, 96, 0, 3, 63, 32, 20, 0, 255]"

definition wl54cf_cis :: "u8 list" where
  "wl54cf_cis =
    [1, 3, 220, 0, 255, 21, 21, 4, 1, 77, 97, 114, 118, 101, 108, 108, 0, 56, 48, 50, 46, 49, 49, 95, 67, 70, 0, 255,
     32, 4, 223, 2, 3, 129, 33, 2, 6, 0, 26, 5, 1, 1, 0, 2, 1, 27, 9, 193, 1, 24, 240, 96, 0, 3, 63, 32, 20, 0, 255]"

definition el3_cis :: "u8 list" where
  "el3_cis =
    [1, 2, 0, 255, 23, 3, 67, 2, 255, 32, 4, 1, 1, 137, 5, 33, 2, 6, 0, 21, 58, 4, 1, 51, 67, 111, 109, 32, 67, 111,
     114, 112, 111, 114, 97, 116, 105, 111, 110, 0, 51, 67, 53, 56, 57, 68, 0, 84, 80, 47, 66, 78, 67, 32, 76, 65,
     78, 32, 67, 97, 114, 100, 32, 86, 101, 114, 46, 32, 50, 97, 0, 48, 48, 48, 48, 48, 50, 0, 255, 26, 6, 2, 3, 0,
     0, 1, 3, 27, 15, 193, 1, 29, 113, 85, 53, 85, 84, 224, 114, 93, 100, 48, 255, 255, 27, 7, 3, 1, 113, 85, 38, 38,
     84, 25, 3, 0, 0, 255, 20, 0, 16, 5, 136, 255, 129, 0, 0, 255]"

definition hermes_cis :: "u8 list" where
  "hermes_cis =
    [1, 3, 0, 0, 255, 23, 4, 103, 90, 8, 255, 29, 5, 1, 103, 90, 8, 255, 21, 80, 5, 0, 76, 117, 99, 101, 110, 116,
     32, 84, 101, 99, 104, 110, 111, 108, 111, 103, 105, 101, 115, 0, 87, 97, 118, 101, 76, 65, 78, 47, 73, 69, 69,
     69, 0, 86, 101, 114, 115, 105, 111, 110, 32, 48, 49, 46, 48, 49, 0, 0, 0, 0, 0, 0, 0, 0, 0, 0, 0, 0, 0, 0, 0, 0,
     0, 0, 0, 0, 0, 0, 0, 0, 0, 0, 0, 0, 0, 0, 0, 255, 32, 4, 86, 1, 2, 0, 33, 2, 6, 0, 34, 2, 1, 7, 34, 5, 2, 64,
     66, 15, 0, 34, 5, 2, 128, 132, 30, 0, 34, 5, 2, 96, 236, 83, 0, 34, 5, 2, 192, 216, 167, 0, 34, 2, 3, 7, 34, 8,
     4, 6, 0, 0, 0, 0, 0, 0, 34, 2, 5, 1, 26, 7, 3, 1, 224, 3, 0, 0, 1, 27, 15, 193, 1, 25, 118, 197, 75, 213, 25,
     54, 54, 5, 70, 127, 255, 255, 255]"

definition rc56ld_cis :: "u8 list" where
  "rc56ld_cis =
    [1, 2, 0, 255, 21, 39, 5, 0, 82, 111, 99, 107, 119, 101, 108, 108, 32, 83, 101, 109, 46, 32, 83, 121, 115, 46, 0,
     82, 67, 53, 54, 76, 68, 45, 80, 67, 67, 0, 48, 50, 49, 0, 65, 0, 255, 32, 4, 19, 0, 0, 0, 33, 2, 2, 0, 34, 4, 0,
     2, 15, 92, 34, 9, 5, 31, 15, 0, 2, 0, 0, 2, 0, 34, 9, 6, 31, 15, 0, 48, 0, 0, 48, 0, 34, 9, 7, 31, 15, 0, 48, 0,
     0, 48, 0, 34, 13, 2, 6, 0, 63, 28, 3, 3, 15, 7, 0, 1, 181, 255, 34, 9, 19, 1, 0, 31, 0, 122, 0, 181, 255, 34,
     16, 132, 6, 0, 11, 2, 7, 20, 0, 8, 0, 4, 0, 2, 0, 0, 0, 26, 5, 1, 13, 32, 4, 119, 27, 15, 197, 65, 157, 120,
     101, 38, 46, 37, 231, 95, 35, 48, 188, 134, 40, 27, 7, 5, 8, 170, 96, 248, 3, 7, 27, 7, 5, 8, 170, 96, 248, 2,
     7, 27, 7, 5, 8, 170, 96, 232, 3, 7, 27, 7, 13, 8, 170, 96, 232, 2, 7, 255]"

definition gps_cis :: "u8 list" where
  "gps_cis =
    [1, 3, 0, 0, 255, 16, 5, 7, 0, 248, 0, 188, 23, 3, 210, 58, 255, 20, 0, 32, 4, 4, 1, 96, 0, 33, 2, 2, 1, 34, 4,
     0, 2, 15, 127, 21, 19, 5, 0, 67, 70, 71, 80, 83, 0, 76, 80, 86, 49, 46, 48, 0, 0, 0, 0, 255, 26, 5, 1, 45, 0, 4,
     3, 27, 27, 205, 65, 153, 127, 85, 77, 93, 29, 45, 44, 34, 176, 96, 248, 3, 7, 48, 255, 255, 32, 193, 5, 67, 79,
     77, 49, 0, 27, 5, 13, 1, 1, 181, 30, 27, 27, 213, 65, 153, 127, 85, 77, 93, 29, 45, 44, 34, 176, 96, 248, 2, 7,
     48, 255, 255, 32, 193, 5, 67, 79, 77, 50, 0, 27, 5, 21, 1, 1, 181, 30, 27, 27, 221, 65, 153, 127, 85, 77, 93,
     29, 45, 44, 34, 176, 96, 232, 3, 7, 48, 255, 255, 32, 193, 5, 67, 79, 77, 51, 0, 27, 5, 29, 1, 1, 181, 30, 27,
     27, 229, 65, 153, 127, 85, 77, 93, 29, 45, 44, 34, 176, 96, 232, 2, 7, 48, 255, 255, 32, 193, 5, 67, 79, 77, 52,
     0, 27, 5, 37, 1, 1, 181, 30, 27, 23, 237, 65, 153, 127, 85, 77, 93, 29, 45, 44, 34, 35, 48, 255, 255, 32, 193,
     5, 67, 79, 77, 88, 0, 27, 5, 45, 1, 1, 181, 30, 255]"

definition pad_cis :: "u8 list \<Rightarrow> u8 list" where
  "pad_cis c = c @ replicate (256 - length c) 0xFF"

section \<open>The companion page\<close>

definition cf_is_no_card_owned_offset :: "nat \<Rightarrow> bool" where
  "cf_is_no_card_owned_offset off \<longleftrightarrow> off \<in> set [0x0000, 0x0008, 0x0044, 0x004C, 0x0B10, 0x0B50]"

definition word_bytes :: "u32 \<Rightarrow> u8 list" where
  "word_bytes v = map (\<lambda>i. ucast (drop_bit (8 * i) v)) [0..<4]"

definition put_word :: "nat \<Rightarrow> u32 \<Rightarrow> u8 list \<Rightarrow> u8 list" where
  "put_word off v page = overwrite off (word_bytes v) page"

definition cf_put_companion_u32 :: "nat \<Rightarrow> u32 \<Rightarrow> cf_state \<Rightarrow> cf_state" where
  "cf_put_companion_u32 off v s = s\<lparr>companion_page := put_word off v (companion_page s)\<rparr>"

definition cf_refresh_socket_status :: "cf_state \<Rightarrow> cf_state" where
  "cf_refresh_socket_status s =
     (let put = (\<lambda>(off, v). cf_put_companion_u32 off v);
          val = (if present s then 4 else 0);
          s = fold put [(0x0000, val), (0x0008, val), (0x0040, if present s then 1 else 0)] s
      in if present s then s
         else fold put [(0x0044, 0x40), (0x004C, 0x40 OR 0x04), (0x0B10, 0), (0x0B50, 0)] s)"

definition companion_seeds :: "(nat \<times> u32) list" where
  "companion_seeds =
     [(0x0004, 0), (0x000C, 0), (0x0010, 0x0D), (0x0050, 0), (0x0054, 0x43), (0x0058, 0), (0x005C, 0x40), (0x0060, 0x40),
      (0x00A0, 0), (0x00A4, 0), (0x00E0, 0), (0x00E4, 0)]"

definition inserted_seeds :: "(nat \<times> u32) list" where
  "inserted_seeds =
     [(0x0B10, 0x48), (0x0B14, 1), (0x0B20, 1), (0x0B2C, 1), (0x0B34, 0xFF), (0x0B58, 0x0F), (0x0B64, 1), (0x0B74, 4),
      (0x0B90, 8)]"

definition cf_seed_companion_page :: "cf_state \<Rightarrow> cf_state" where
  "cf_seed_companion_page s =
     (let page = fold (\<lambda>(off, v). put_word off v) companion_seeds (replicate 0x1000 0);
          page = (if present s then fold (\<lambda>(off, v). put_word off v) inserted_seeds page else page)
      in cf_refresh_socket_status (s\<lparr>companion_page := page\<rparr>))"

definition cf_seed_ata_cis :: "cf_state \<Rightarrow> cf_state" where
  "cf_seed_ata_cis s = s\<lparr>cis := pad_cis ata_cis\<rparr>"

definition cf_seed_ne2000_cis :: "cf_state \<Rightarrow> cf_state" where
  "cf_seed_ne2000_cis s = s\<lparr>cis := pad_cis ne2000_cis\<rparr>"

definition reset_ata :: "cf_state \<Rightarrow> cf_state" where
  "reset_ata s = s\<lparr>ata := cf_reset_taskfile (ata s)\<rparr>"

definition cf_arm_boot_status :: "cf_state \<Rightarrow> cf_state" where
  "cf_arm_boot_status s = s\<lparr>ata := (ata s)\<lparr>boot_status_floating := False\<rparr>\<rparr>"

section \<open>Insertion and removal\<close>

text \<open>The structures of the cards are cleared too; each is set up again when its card is inserted, but for
  the mode of the serial card.\<close>

definition cf_init :: "cf_state \<Rightarrow> cf_state" where
  "cf_init s =
     (let s = s\<lparr>ata := (ata s)\<lparr>image := [], image_size := 0, attached := False, dirty := False, boot_visible := False,
                 data_buffer := [], data_capacity := 0\<rparr>,
                card_kind := CF_CARD_NONE, image_path := None, irq_pending := False, state_change_pending := False,
                cis_funcid_seen := False, insert_event_pending := False, card_windows_enabled := False,
                cis := replicate 256 0xFF, el3_card := (el3_card s)\<lparr>el3.transmit := False\<rparr>, el3_net := False,
                xi825_net := False, xi825_cor := 0, wl54cf_net := False, wl54cf_cor := 0, modem := (modem s)\<lparr>gps := False\<rparr>, modem_cor := 0\<rparr>
      in cf_arm_boot_status (reset_ata (cf_seed_companion_page s)))"

text \<open>The flags every insertion sets.\<close>

definition inserted :: "card_kind \<Rightarrow> cf_state \<Rightarrow> cf_state" where
  "inserted kind s =
     s\<lparr>card_kind := kind, ata := (ata s)\<lparr>attached := True, dirty := False, boot_visible := False\<rparr>, irq_pending := True,
       state_change_pending := True, cis_funcid_seen := False, insert_event_pending := True, card_windows_enabled := False\<rparr>"

definition settled :: "cf_state \<Rightarrow> cf_state" where
  "settled s = cf_arm_boot_status (reset_ata (cf_seed_companion_page s))"

text \<open>\<open>contents\<close> is what the file holds, \<open>None\<close> if it cannot be opened, read or allocated;
  \<open>copied\<close> says whether its name could be copied.\<close>

definition cf_load_image :: "string \<Rightarrow> u8 list option \<Rightarrow> bool \<Rightarrow> cf_state \<Rightarrow> bool \<times> cf_state" where
  "cf_load_image path contents copied s =
     (case contents of
        None \<Rightarrow> (False, s)
      | Some d \<Rightarrow>
          if d = [] \<or> length d mod CF_SECTOR_SIZE \<noteq> 0 then (False, s)
          else
            let s = inserted CF_CARD_ATA (s\<lparr>ata := (ata s)\<lparr>image := d, image_size := length d\<rparr>\<rparr>);
                s = s\<lparr>image_path := (if copied then Some path else None)\<rparr>
            in if copied then (True, settled (cf_seed_ata_cis s)) else (False, s))"

definition cf_save_image :: "bool \<Rightarrow> cf_state \<Rightarrow> bool \<times> cf_state" where
  "cf_save_image written s =
     (case image_path s of
        None \<Rightarrow> (True, s)
      | Some p \<Rightarrow>
          if \<not> present s \<or> \<not> dirty (ata s) \<or> image (ata s) = [] then (True, s)
          else if written
          then (True, s\<lparr>ata := (ata s)\<lparr>dirty := False\<rparr>, saved := saved s @ [(p, take (image_size (ata s)) (image (ata s)))]\<rparr>)
          else (False, s))"

definition cf_eject :: "bool \<Rightarrow> cf_state \<Rightarrow> cf_state" where
  "cf_eject written s =
     (if \<not> present s then s
      else
        let s = snd (cf_save_image written s);
            s = s\<lparr>ata := (ata s)\<lparr>image := [], image_size := 0, attached := False, dirty := False\<rparr>, card_kind := CF_CARD_NONE,
                  irq_pending := True, state_change_pending := True, insert_event_pending := False, card_windows_enabled := False,
                  cis_funcid_seen := False, cis := replicate 256 0xFF\<rparr>
        in reset_ata (cf_seed_companion_page s))"

text \<open>The station address: given, made up by the host, or the fallback.\<close>

definition card_mac :: "u8 list option \<Rightarrow> u8 list option \<Rightarrow> u8 list" where
  "card_mac given gen = (case given of Some m \<Rightarrow> m | None \<Rightarrow> (case gen of Some m \<Rightarrow> m | None \<Rightarrow> [0x10, 0x20, 0x30, 0, 0, 0x10]))"

definition blank_nic :: ne2000 where
  "blank_nic = \<lparr>nic_mac = replicate 6 0, promiscuous = False, net = False, mem = (\<lambda>_. 0), par = replicate 6 0, mar = replicate 8 0, cr = 0,
     pstart = 0, pstop = 0, bnry = 0, tpsr = 0, tbcr0 = 0, tbcr1 = 0, isr = 0, rsar0 = 0, rsar1 = 0, rbcr0 = 0, rbcr1 = 0,
     rcr = 0, tcr = 0, dcr = 0, imr = 0, curr = 0, rsr = 0, tsr = 0, reset_latch = 0, remote_cmd = 0, remote_addr = 0,
     remote_count = 0, sent = []\<rparr>"

definition insert_device :: "card_kind \<Rightarrow> u8 list \<Rightarrow> wifi_security \<Rightarrow> cf_state \<Rightarrow> cf_state" where
  "insert_device kind m ap s =
     (if kind = CF_CARD_XI825 then
        s\<lparr>cis := pad_cis xi825_cis, xi825_card := xi825_set_cis xi825_cis (xi825_init ap m), xi825_cor := 0\<rparr>
      else if kind = CF_CARD_WL54CF then
        s\<lparr>cis := pad_cis wl54cf_cis, wl54cf_card := wl54cf_init ap m False, wl54cf_cor := 0\<rparr>
      else if kind = CF_CARD_3C589 then
        s\<lparr>cis := pad_cis el3_cis, el3_card := el3_init m (el3.transmit (el3_card s)) (el3.sent (el3_card s))\<rparr>
      else (cf_seed_ne2000_cis s)\<lparr>nic := ne2000_reset (nic s)\<rparr>)"

text \<open>\<open>ap\<close> is the access point the environment configures for the card's address.\<close>

definition cf_attach_network :: "card_kind \<Rightarrow> bool \<Rightarrow> u8 list option \<Rightarrow> u8 list option \<Rightarrow> (u8 list \<Rightarrow> wifi_security) \<Rightarrow> cf_state \<Rightarrow> cf_state" where
  "cf_attach_network kind netw given gen ap s =
     (let m = card_mac given gen;
          s = s\<lparr>ata := (ata s)\<lparr>image := [], image_size := 0\<rparr>, image_path := None, nic := blank_nic\<lparr>ne2000.sent := ne2000.sent (nic s)\<rparr>\<rparr>;
          s = (if kind = CF_CARD_XI825 then s\<lparr>xi825_net := netw\<rparr>
               else if kind = CF_CARD_WL54CF then s\<lparr>wl54cf_net := netw\<rparr>
               else if kind = CF_CARD_3C589 then s\<lparr>el3_net := netw\<rparr>
               else s\<lparr>nic := (nic s)\<lparr>nic_mac := m, net := netw, par := m\<rparr>\<rparr>)
      in settled (insert_device kind m (ap m) (inserted kind s)))"

definition cf_attach_hermes :: "bool \<Rightarrow> u8 list option \<Rightarrow> u8 list option \<Rightarrow> (u8 list \<Rightarrow> wifi_security) \<Rightarrow> cf_state \<Rightarrow> cf_state" where
  "cf_attach_hermes netw given gen ap s =
     (let s = cf_attach_network CF_CARD_XI825 netw given gen ap s;
          c = overwrite 0x96 (take 6 (xi825.station (xi825_card s))) hermes_cis
      in s\<lparr>cis := pad_cis c, xi825_card := xi825_set_cis c (xi825_set_hermes True (xi825_card s))\<rparr>)"

definition cf_attach_modem :: "bool \<Rightarrow> bool \<Rightarrow> bool \<Rightarrow> cf_state \<Rightarrow> cf_state" where
  "cf_attach_modem dials hangs sends s =
     (let s = s\<lparr>ata := (ata s)\<lparr>image := [], image_size := 0\<rparr>, image_path := None,
                modem := cf_modem_reset ((modem s)\<lparr>dial := dials, hangup := hangs, tx := sends\<rparr>), modem_cor := 0,
                cis := pad_cis rc56ld_cis\<rparr>
      in settled (inserted CF_CARD_MODEM s))"

definition cf_attach_gps :: "bool \<Rightarrow> cf_state \<Rightarrow> cf_state" where
  "cf_attach_gps sends s =
     (let s = cf_attach_modem False False sends s
      in s\<lparr>modem := cf_modem_reset ((modem s)\<lparr>gps := True\<rparr>), cis := pad_cis gps_cis\<rparr>)"

section \<open>Queries and the interrupt\<close>

definition cf_is_network :: "cf_state \<Rightarrow> bool" where
  "cf_is_network s \<longleftrightarrow> present s \<and> card_kind s \<in> {CF_CARD_NE2000, CF_CARD_XI825, CF_CARD_WL54CF, CF_CARD_3C589, CF_CARD_MODEM}"

definition cf_is_io_card :: "cf_state \<Rightarrow> bool" where
  "cf_is_io_card s \<longleftrightarrow> cf_is_network s \<or> present s \<and> card_kind s = CF_CARD_MODEM"

definition cf_present :: "cf_state \<Rightarrow> bool" where
  "cf_present s \<longleftrightarrow> present s"

definition cf_is_ne2000 :: "cf_state \<Rightarrow> bool" where
  "cf_is_ne2000 s \<longleftrightarrow> present s \<and> card_kind s = CF_CARD_NE2000"

definition cf_set_boot_visibility :: "bool \<Rightarrow> cf_state \<Rightarrow> cf_state" where
  "cf_set_boot_visibility visible s =
     cf_arm_boot_status (reset_ata (s\<lparr>ata := (ata s)\<lparr>boot_visible := visible \<and> present s \<and> card_kind s = CF_CARD_ATA\<rparr>\<rparr>))"

definition cf_boot_handles_rom_offset :: "u32 \<Rightarrow> cf_state \<Rightarrow> bool" where
  "cf_boot_handles_rom_offset off s \<longleftrightarrow>
     present s \<and> card_kind s = CF_CARD_ATA \<and> (off \<ge> 0xC170 \<and> off < 0xC178 \<or> off = 0xC376)"

definition cf_note_pcmcia_window_enable :: "cf_state \<Rightarrow> cf_state" where
  "cf_note_pcmcia_window_enable s = s\<lparr>card_windows_enabled := True\<rparr>"

definition cf_clear_irq :: "cf_state \<Rightarrow> cf_state" where
  "cf_clear_irq s = s\<lparr>irq_pending := False\<rparr>"

definition cf_consume_state_change :: "cf_state \<Rightarrow> cf_state" where
  "cf_consume_state_change s = s\<lparr>state_change_pending := False\<rparr>"

text \<open>The inserted card's own request.\<close>

definition card_irq :: "cf_state \<Rightarrow> bool" where
  "card_irq s =
     (case card_kind s of
        CF_CARD_NE2000 \<Rightarrow> isr (nic s) AND imr (nic s) \<noteq> 0
      | CF_CARD_XI825 \<Rightarrow> xi825_irq_pending (xi825_card s)
      | CF_CARD_WL54CF \<Rightarrow> wl54cf_irq_pending (wl54cf_card s)
      | CF_CARD_3C589 \<Rightarrow> el3_irq_pending (el3_card s)
      | CF_CARD_MODEM \<Rightarrow> modem_cor s AND 0x3F \<noteq> 0 \<and> mcr (modem s) AND 0x08 \<noteq> 0 \<and> cf_modem_irq_pending (modem s)
      | _ \<Rightarrow> False)"

definition cf_giu_source_bits :: "cf_state \<Rightarrow> u32" where
  "cf_giu_source_bits s = (if present s \<and> (irq_pending s \<or> state_change_pending s \<or> card_irq s) then 1 else 0)"

definition cf_card_irq_pending :: "cf_state \<Rightarrow> bool" where
  "cf_card_irq_pending s \<longleftrightarrow> present s \<and> card_irq s"

definition cf_card_state_bits :: "cf_state \<Rightarrow> u16" where
  "cf_card_state_bits s =
     (if \<not> present s then 0 else if irq_pending s \<or> state_change_pending s then 0x23 else 1)"

definition cf_pcmcia_windows_enabled :: "cf_state \<Rightarrow> bool" where
  "cf_pcmcia_windows_enabled s \<longleftrightarrow> card_windows_enabled s"


section \<open>Attribute memory\<close>

definition cf_note_cis_read :: "nat \<Rightarrow> cf_state \<Rightarrow> cf_state" where
  "cf_note_cis_read i s =
     (if cis_funcid_seen s \<or> i + 2 \<ge> 256 then s
      else if cis s ! i = 0x21 \<and> cis s ! (i + 1) \<ge> 2 \<and> (cis s ! (i + 2) = 0x04 \<or> cis s ! (i + 2) = 0x06)
      then s\<lparr>cis_funcid_seen := True\<rparr> else s)"

definition cf_cis_read_byte :: "nat \<Rightarrow> cf_state \<Rightarrow> u8 \<times> cf_state" where
  "cf_cis_read_byte i s = (if \<not> present s \<or> i \<ge> 256 then (0xFF, s) else (cis s ! i, cf_note_cis_read i s))"

definition serial_cor :: "cf_state \<Rightarrow> nat" where
  "serial_cor s = (if gps (modem s) then 0x400 else 0x420)"

definition attribute_byte :: "nat \<Rightarrow> cf_state \<Rightarrow> u8 \<times> cf_state" where
  "attribute_byte off s =
     (if card_kind s = CF_CARD_XI825 \<and> off = 0x3E0 then (xi825_cor s, s)
      else if card_kind s = CF_CARD_WL54CF \<and> off = 0x200 then (wl54cf_cor s, s)
      else if card_kind s = CF_CARD_MODEM \<and> off = serial_cor s then (modem_cor s, s)
      else if even off then cf_cis_read_byte (off div 2) s
      else (0xFF, s))"

text \<open>Byte lanes read one after the other, for devices that change with each.\<close>

fun read_lanes :: "(nat \<Rightarrow> 's \<Rightarrow> u8 \<times> 's) \<Rightarrow> nat \<Rightarrow> nat \<Rightarrow> u64 \<Rightarrow> 's \<Rightarrow> u64 \<times> 's" where
  "read_lanes f i 0 v s = (v, s)"
| "read_lanes f i (Suc k) v s = (case f i s of (b, s) \<Rightarrow> read_lanes f (i + 1) k (v OR push_bit (8 * i) (ucast b)) s)"

definition cf_cis_read :: "u32 \<Rightarrow> nat \<Rightarrow> cf_state \<Rightarrow> u64 \<times> cf_state" where
  "cf_cis_read off sz s = read_lanes (\<lambda>i. attribute_byte (unat (off + of_nat i))) 0 sz 0 s"

definition write_modem_cor :: "u8 \<Rightarrow> cf_state \<Rightarrow> cf_state" where
  "write_modem_cor v s =
     (if v AND 0x80 \<noteq> 0 then s\<lparr>modem := cf_modem_reset (modem s)\<rparr> else s)\<lparr>modem_cor := v AND 0x7F\<rparr>"

definition write_wl54cf_cor :: "u8 \<Rightarrow> cf_state \<Rightarrow> cf_state" where
  "write_wl54cf_cor v s =
     (if v AND 0x80 \<noteq> 0 \<and> wl54cf_cor s AND 0x80 = 0 then s\<lparr>wl54cf_card := wl54cf_reset (wl54cf_card s)\<rparr> else s)\<lparr>wl54cf_cor := v\<rparr>"

definition write_xi825_cor :: "u8 \<Rightarrow> cf_state \<Rightarrow> cf_state" where
  "write_xi825_cor v s =
     (if v AND 0x80 \<noteq> 0 \<and> xi825_cor s AND 0x80 = 0 then s\<lparr>xi825_card := xi825_reset (xi825_card s)\<rparr> else s)\<lparr>xi825_cor := v\<rparr>"

definition attribute_write_byte :: "nat \<Rightarrow> u8 \<Rightarrow> cf_state \<Rightarrow> cf_state" where
  "attribute_write_byte off v s =
     (if card_kind s = CF_CARD_MODEM then (if off = serial_cor s then write_modem_cor v s else s)
      else if card_kind s = CF_CARD_WL54CF then (if off = 0x200 then write_wl54cf_cor v s else s)
      else if card_kind s = CF_CARD_XI825 then (if off = 0x3E0 then write_xi825_cor v s else s)
      else s)"

definition cf_cis_write :: "u32 \<Rightarrow> nat \<Rightarrow> u64 \<Rightarrow> cf_state \<Rightarrow> cf_state" where
  "cf_cis_write off sz v s =
     fold (\<lambda>i. attribute_write_byte (unat (off + of_nat i)) (byte_at v i)) [0..<min sz 8] s"

section \<open>The companion page, as the guest sees it\<close>

text \<open>\<open>report\<close> is what a PC Card jacket makes of a byte of the page (\<open>Jacket\<close>); it may change the jacket.\<close>

type_synonym 'j jacket_report = "cf_state \<Rightarrow> nat \<Rightarrow> u8 \<Rightarrow> 'j \<Rightarrow> u8 \<times> 'j"

definition no_jacket :: "unit jacket_report" where
  "no_jacket s off b j = (b, j)"

definition companion_byte :: "cf_state \<Rightarrow> nat \<Rightarrow> u8" where
  "companion_byte s off =
     (let b = companion_page s ! off;
          b = (if present s \<and> off = 0x0B10 then (b AND NOT 0x48) OR (if cis_funcid_seen s then 0x48 else 0x08) else b)
      in if present s \<and> insert_event_pending s \<and> off = 0x0B50 then b OR 0x08 else b)"

definition cf_companion_read :: "'j jacket_report \<Rightarrow> nat \<Rightarrow> nat \<Rightarrow> cf_state \<times> 'j \<Rightarrow> u64 \<times> cf_state \<times> 'j" where
  "cf_companion_read report off sz sj =
     (case sj of (s, j) \<Rightarrow>
        if sz = 0 then (0, s, j)
        else
          let s = cf_refresh_socket_status s; n = min sz (0x1000 - off);
              (v, j) = read_lanes (\<lambda>i. report s (off + i) (companion_byte s (off + i))) 0 n 0 j;
              consumed = (present s \<and> insert_event_pending s \<and> off \<le> 0x0B50 \<and> 0x0B50 < off + n)
          in (v, if consumed then s\<lparr>insert_event_pending := False\<rparr> else s, j))"

definition companion_write_byte :: "nat \<Rightarrow> u8 \<Rightarrow> cf_state \<Rightarrow> cf_state" where
  "companion_write_byte off v s =
     (let word = off - off mod 4
      in if \<not> present s \<and> cf_is_no_card_owned_offset word then s
         else
           let s = (if present s \<and> word \<ge> 0x0B00 \<and> word < 0x0BA0 then s\<lparr>card_windows_enabled := True\<rparr> else s);
               s = (if word = 0x0B50 \<and> v AND 0x08 \<noteq> 0 then s\<lparr>insert_event_pending := False\<rparr> else s)
           in s\<lparr>companion_page := (companion_page s)[off := v]\<rparr>)"

definition cf_companion_write :: "nat \<Rightarrow> nat \<Rightarrow> u64 \<Rightarrow> cf_state \<Rightarrow> cf_state" where
  "cf_companion_write off sz v s =
     (if sz = 0 then s
      else
        let s = fold (\<lambda>i. companion_write_byte (off + i) (byte_at v i)) [0..<min sz (0x1000 - off)] s;
            s = (if off = 0x40 \<or> off = 0x50 then cf_clear_irq s else s)
        in cf_refresh_socket_status s)"

section \<open>The card's window\<close>

definition MODEM_IO_BASE :: u32 where
  "MODEM_IO_BASE = 0x3F8"

definition modem_port :: "u32 \<Rightarrow> cf_state \<Rightarrow> u32 option" where
  "modem_port off s =
     (let port = off AND 0x3FF
      in if modem_cor s AND 0x3F \<noteq> 0 \<and> port \<ge> MODEM_IO_BASE \<and> port < MODEM_IO_BASE + 8 then Some (port - MODEM_IO_BASE) else None)"

definition modem_byte :: "u32 \<Rightarrow> cf_state \<Rightarrow> u8 \<times> cf_state" where
  "modem_byte off s =
     (case modem_port off s of
        None \<Rightarrow> (0xFF, s)
      | Some r \<Rightarrow> (case cf_modem_read r (modem s) of (b, m) \<Rightarrow> (b, s\<lparr>modem := m\<rparr>)))"

definition modem_write_byte :: "bool \<Rightarrow> u32 \<Rightarrow> u8 \<Rightarrow> cf_state \<Rightarrow> cf_state" where
  "modem_write_byte ans off v s =
     (case modem_port off s of None \<Rightarrow> s | Some r \<Rightarrow> s\<lparr>modem := cf_modem_write ans r v (modem s)\<rparr>)"

definition ata_window_read :: "u32 \<Rightarrow> nat \<Rightarrow> cf_state \<Rightarrow> u64 \<times> cf_state" where
  "ata_window_read off sz s =
     (case cf_decode_taskfile_offset off of (reg, is_alt) \<Rightarrow>
        if reg = 0 \<and> \<not> is_alt then (case cf_data_read sz (ata s) of (v, a) \<Rightarrow> (v, s\<lparr>ata := a\<rparr>))
        else if reg \<ge> 0 then (cf_read_regs (ata s) reg is_alt False sz, s)
        else cf_cis_read off sz s)"

definition cf_window_read :: "u32 \<Rightarrow> nat \<Rightarrow> cf_state \<Rightarrow> u64 \<times> cf_state" where
  "cf_window_read off sz s =
     (if sz = 0 then (0, s)
      else if \<not> present s then (all_ones sz, s)
      else case card_kind s of
             CF_CARD_NE2000 \<Rightarrow> (case ne2000_window_read off sz (nic s) of (v, n) \<Rightarrow> (v, s\<lparr>nic := n\<rparr>))
           | CF_CARD_3C589 \<Rightarrow> (case el3_read (off AND 0x0F) sz (el3_card s) of (v, n) \<Rightarrow> (v, s\<lparr>el3_card := n\<rparr>))
           | CF_CARD_WL54CF \<Rightarrow>
               (if wl54cf_cor s AND 0x81 \<noteq> 1 then (NOT 0, s)
                else case wl54cf_read (unat (off AND 0x3F)) sz (wl54cf_card s) of (v, n) \<Rightarrow> (v, s\<lparr>wl54cf_card := n\<rparr>))
           | CF_CARD_XI825 \<Rightarrow>
               (if xi825_cor s AND 0x80 \<noteq> 0 then (NOT 0, s)
                else case xi825_read (unat (off AND 0x3F)) sz (xi825_card s) of (v, n) \<Rightarrow> (v, s\<lparr>xi825_card := n\<rparr>))
           | CF_CARD_MODEM \<Rightarrow> read_lanes (\<lambda>i. modem_byte (off + of_nat i)) 0 sz 0 s
           | _ \<Rightarrow> ata_window_read off sz s)"

definition ata_window_write :: "u32 \<Rightarrow> nat \<Rightarrow> u64 \<Rightarrow> cf_state \<Rightarrow> cf_state" where
  "ata_window_write off sz v s =
     (case cf_decode_taskfile_offset off of (reg, is_alt) \<Rightarrow>
        if reg = 0 \<and> \<not> is_alt then s\<lparr>ata := cf_data_write sz v (ata s)\<rparr>
        else if reg \<ge> 0 then s\<lparr>ata := cf_write_regs reg is_alt False sz v (ata s)\<rparr>
        else s)"

definition cf_window_write :: "socket_env \<Rightarrow> u32 \<Rightarrow> nat \<Rightarrow> u64 \<Rightarrow> cf_state \<Rightarrow> cf_state option" where
  "cf_window_write e off sz v s =
     (if sz = 0 \<or> \<not> present s then Some s
      else case card_kind s of
             CF_CARD_NE2000 \<Rightarrow> Some (s\<lparr>nic := ne2000_window_write off sz v (nic s)\<rparr>)
           | CF_CARD_3C589 \<Rightarrow> Some (s\<lparr>el3_card := el3_write (off AND 0x0F) sz v (el3_card s)\<rparr>)
           | CF_CARD_WL54CF \<Rightarrow>
               (if wl54cf_cor s AND 0x81 = 1
                then map_option (\<lambda>n. s\<lparr>wl54cf_card := n\<rparr>) (wl54cf_write (wifi e) (unat (off AND 0x3F)) sz v (wl54cf_card s))
                else Some s)
           | CF_CARD_XI825 \<Rightarrow>
               (if xi825_cor s AND 0x80 = 0
                then map_option (\<lambda>n. s\<lparr>xi825_card := n\<rparr>) (xi825_write (unat (off AND 0x3F)) sz v (xi825_card s))
                else Some s)
           | CF_CARD_MODEM \<Rightarrow> Some (fold (\<lambda>i. modem_write_byte (answers e) (off + of_nat i) (byte_at v i)) [0..<sz] s)
           | _ \<Rightarrow> Some (ata_window_write off sz v s))"

section \<open>The host network\<close>

text \<open>A tick hands the card up to eight waiting frames, while it has room.\<close>

fun pump :: "nat \<Rightarrow> ('c \<Rightarrow> bool) \<Rightarrow> (u8 list \<Rightarrow> 'c \<Rightarrow> 'c option) \<Rightarrow> u8 list list \<Rightarrow> 'c \<Rightarrow> ('c \<times> u8 list list) option" where
  "pump 0 room take_in q c = Some (c, q)"
| "pump (Suc n) room take_in [] c = Some (c, [])"
| "pump (Suc n) room take_in (p # q) c =
     (if \<not> room c then Some (c, p # q)
      else case (if p = [] then Some c else take_in p c) of None \<Rightarrow> None | Some c \<Rightarrow> pump n room take_in q c)"

definition cf_xi825_tick :: "u8 list list \<Rightarrow> cf_state \<Rightarrow> (cf_state \<times> u8 list list) option" where
  "cf_xi825_tick q s =
     (if card_kind s \<noteq> CF_CARD_XI825 \<or> \<not> present s then Some (s, q)
      else case xi825_tick ((xi825_card s)\<lparr>xi825.transmit := True\<rparr>) of
             None \<Rightarrow> None
           | Some c \<Rightarrow>
               if \<not> xi825_net s then Some (s\<lparr>xi825_card := c\<rparr>, q)
               else map_option (\<lambda>(c, q). (s\<lparr>xi825_card := c\<rparr>, q))
                      (pump 8 (\<lambda>c. xi825.rx_count c < 8) (\<lambda>p c. map_option snd (xi825_receive p c)) q c))"

definition cf_el3_tick :: "u8 list list \<Rightarrow> cf_state \<Rightarrow> (cf_state \<times> u8 list list) option" where
  "cf_el3_tick q s =
     (if card_kind s \<noteq> CF_CARD_3C589 \<or> \<not> present s then Some (s, q)
      else let c = (el3_card s)\<lparr>el3.transmit := True\<rparr>
           in if \<not> el3_net s then Some (s\<lparr>el3_card := c\<rparr>, q)
              else map_option (\<lambda>(c, q). (s\<lparr>el3_card := c\<rparr>, q))
                     (pump 8 (\<lambda>c. \<not> el3_rx_full c) (\<lambda>p c. Some (snd (el3_receive p c))) q c))"

definition cf_wl54cf_tick :: "u8 list list \<Rightarrow> cf_state \<Rightarrow> (cf_state \<times> u8 list list) option" where
  "cf_wl54cf_tick q s =
     (if card_kind s \<noteq> CF_CARD_WL54CF \<or> \<not> present s then Some (s, q)
      else let c = (wl54cf_card s)\<lparr>wl54cf.transmit := True\<rparr>
           in if \<not> wl54cf_net s \<or> \<not> wl54cf.associated c then Some (s\<lparr>wl54cf_card := c\<rparr>, q)
              else map_option (\<lambda>(c, q). (s\<lparr>wl54cf_card := c\<rparr>, q))
                     (pump 8 (\<lambda>c. wl54cf.rx_count c < 8) (\<lambda>p c. Some (snd (wl54cf_receive p c))) q c))"

end
