(* ===== verification/Cf_Media.thy ===== *)
theory Cf_Media
  imports Cf_Socket Ata_Spec
begin

text \<open>
  The storage card's medium and the host file behind it: whatever the guest does with the socket
  between insertion and removal, what is saved at removal is the image as the card last had it, so a
  card put back is the card that was taken out.
\<close>

section \<open>The card either keeps its image or knows it is dirty\<close>

definition keeps_medium :: "cf_card \<Rightarrow> cf_card \<Rightarrow> bool" where
  "keeps_medium s t \<longleftrightarrow> attached t = attached s \<and> image_size t = image_size s \<and>
     (dirty s \<longrightarrow> dirty t) \<and> (dirty t \<or> image t = image s)"

named_theorems medium

lemma keeps_medium_refl [simp]: "keeps_medium s s"
  by (simp add: keeps_medium_def)

lemma keeps_medium_trans: "keeps_medium s t \<Longrightarrow> keeps_medium t u \<Longrightarrow> keeps_medium s u"
  by (auto simp: keeps_medium_def)

lemma if_cases: "P a \<Longrightarrow> P b \<Longrightarrow> P (if c then a else b)"
  by simp

lemma keeps_medium_regs [medium]:
  "keeps_medium s (cf_reset_taskfile s)" "keeps_medium s (cf_set_error err s)" "keeps_medium s (cf_finish_transfer s)"
  "keeps_medium s (cf_set_ready att s)"
  by (simp_all add: keeps_medium_def cf_reset_taskfile_def cf_set_error_def cf_finish_transfer_def ata_reg_defs)

lemma keeps_medium_reserve: "cf_reserve_buffer n s = Some t \<Longrightarrow> keeps_medium s t"
  by (auto simp: cf_reserve_buffer_def keeps_medium_def split: if_splits)

lemma keeps_medium_load: "keeps_medium s (snd (cf_load_read_sector s))"
  by (auto simp: cf_load_read_sector_def cf_reserve_buffer_def keeps_medium_def Ata.set_buffer_def cf_set_error_def error_regs_def
      Let_def)

lemma keeps_medium_prepare_write: "keeps_medium s (snd (cf_prepare_write_sector s))"
  by (auto simp: cf_prepare_write_sector_def cf_reserve_buffer_def keeps_medium_def Ata.set_buffer_def)

lemma keeps_medium_pointer: "keeps_medium s (s\<lparr>transfer_lba := l, transfer_remaining := r\<rparr>)"
  by (simp add: keeps_medium_def)

lemma keeps_medium_command: "keeps_medium s (cf_execute_command c s)"
proof -
  define t where "t = s\<lparr>command_reg := c, error_reg := 0\<rparr>"
  have st: "keeps_medium s t" by (simp add: t_def keeps_medium_def)
  have identify: "cf_prepare_identify t = Some u \<Longrightarrow> keeps_medium t u" for u
    by (auto simp: cf_prepare_identify_def cf_reserve_buffer_def keeps_medium_def Ata.set_buffer_def split: if_splits)
  have rd: "keeps_medium t (snd (cf_prepare_read t))"
    by (simp add: cf_prepare_read_def medium keeps_medium_trans [OF keeps_medium_pointer keeps_medium_load])
  have wr: "keeps_medium t (snd (cf_begin_write t))"
    by (simp add: cf_begin_write_def medium keeps_medium_trans [OF keeps_medium_pointer keeps_medium_prepare_write])
  have "keeps_medium t (cf_execute_command c s)"
    unfolding cf_execute_command_def Let_def t_def [symmetric]
    using identify by (simp add: medium rd wr split: option.split)
  with st show ?thesis by (rule keeps_medium_trans)
qed

lemma keeps_medium_reg8: "keeps_medium s (cf_write_reg8 reg alt boot v s)"
  by (simp add: cf_write_reg8_def Let_def keeps_medium_command)
     (simp add: keeps_medium_def cf_reset_taskfile_def reset_regs_def)

lemma keeps_medium_regs_loop: "keeps_medium s (write_regs_loop i n reg alt boot v s)"
proof (induction n arbitrary: i s)
  case (Suc n)
  show ?case by (simp only: write_regs_loop.simps) (rule if_cases, simp, rule keeps_medium_trans [OF keeps_medium_reg8 Suc.IH])
qed simp

lemma keeps_medium_write_regs: "keeps_medium s (cf_write_regs reg alt boot n v s)"
  by (simp add: cf_write_regs_def keeps_medium_regs_loop)

lemma keeps_medium_advance: "keeps_medium s ((cf_update_taskfile_after_sector l r s)\<lparr>transfer_lba := l', transfer_remaining := r'\<rparr>)"
  by (simp add: keeps_medium_def cf_update_taskfile_after_sector_def cf_set_current_lba_def)

lemma keeps_medium_error_after: "keeps_medium s t \<Longrightarrow> keeps_medium s (cf_set_error err t)"
  by (rule keeps_medium_trans [OF _ keeps_medium_regs(2)])

lemma keeps_medium_read: "keeps_medium s (snd (cf_data_read n s))"
proof -
  have pos: "keeps_medium s (s\<lparr>data_pos := p\<rparr>)" for p by (simp add: keeps_medium_def)
  have load: "keeps_medium t (case cf_load_read_sector t of (True, s) \<Rightarrow> s | (False, s) \<Rightarrow> cf_set_error 0x10 s)" for t :: cf_card
    using keeps_medium_load [of t] by (auto split: prod.split bool.split intro: keeps_medium_error_after)
  have rest: "keeps_medium t (if c then (case cf_load_read_sector u of (True, s) \<Rightarrow> s | (False, s) \<Rightarrow> cf_set_error 0x10 s)
                              else cf_finish_transfer u)" if "keeps_medium t u" for c and t u :: cf_card
    by (rule keeps_medium_trans [OF that], rule if_cases, rule load, rule medium)
  show ?thesis
    unfolding cf_data_read_def Let_def snd_conv if_distrib [where f = snd]
    by (rule if_cases, rule keeps_medium_refl, rule if_cases, rule pos,
        rule rest, rule keeps_medium_trans [OF pos], rule keeps_medium_advance)
qed

lemma keeps_medium_write: "keeps_medium s (cf_data_write n v s)"
proof -
  have put: "keeps_medium s (s\<lparr>data_buffer := b, data_pos := p\<rparr>)" for b p by (simp add: keeps_medium_def)
  have prep: "keeps_medium t (case cf_prepare_write_sector t of (True, s) \<Rightarrow> s | (False, s) \<Rightarrow> cf_set_error 0x10 s)" for t :: cf_card
    using keeps_medium_prepare_write [of t] by (auto split: prod.split bool.split intro: keeps_medium_error_after)
  have store: "keeps_medium t (t\<lparr>image := m, dirty := True\<rparr>)" for t :: cf_card and m by (simp add: keeps_medium_def)
  have commit: "keeps_medium t (cf_commit_write t)" for t :: cf_card
    unfolding cf_commit_write_def Let_def
    by (rule if_cases, rule keeps_medium_trans [OF keeps_medium_trans [OF store keeps_medium_advance]], rule prep,
        rule keeps_medium_trans [OF keeps_medium_trans [OF store keeps_medium_advance]], rule medium)
  show ?thesis
    unfolding cf_data_write_def Let_def
    by (rule if_cases, rule keeps_medium_refl, rule if_cases, rule keeps_medium_trans [OF put], rule commit, rule put)
qed

section \<open>The socket between insertion and removal\<close>

datatype socket_event =
    Window_read u32 nat
  | Window_write u32 nat u64
  | Boot_read u32 nat
  | Boot_write u32 nat u64
  | Boot_visibility bool
  | Attribute_read u32 nat
  | Attribute_write u32 nat u64
  | Companion_read nat nat
  | Companion_write nat nat u64
  | Save bool                      \<comment> \<open>whether the host could write the file\<close>
  | Clear_irq
  | Consume_state_change
  | Window_enable

fun socket_step :: "socket_env \<Rightarrow> socket_event \<Rightarrow> cf_state \<Rightarrow> cf_state option" where
  "socket_step e (Window_read off n) s = Some (snd (cf_window_read off n s))"
| "socket_step e (Window_write off n v) s = cf_window_write e off n v s"
| "socket_step e (Boot_read off n) s = Some (s\<lparr>ata := snd (cf_boot_read off n (ata s))\<rparr>)"
| "socket_step e (Boot_write off n v) s = Some (s\<lparr>ata := cf_boot_write off n v (ata s)\<rparr>)"
| "socket_step e (Boot_visibility b) s = Some (cf_set_boot_visibility b s)"
| "socket_step e (Attribute_read off n) s = Some (snd (cf_cis_read off n s))"
| "socket_step e (Attribute_write off n v) s = Some (cf_cis_write off n v s)"
| "socket_step e (Companion_read off n) s = Some (fst (snd (cf_companion_read no_jacket off n (s, ()))))"
| "socket_step e (Companion_write off n v) s = Some (cf_companion_write off n v s)"
| "socket_step e (Save ok) s = Some (snd (cf_save_image ok s))"
| "socket_step e Clear_irq s = Some (cf_clear_irq s)"
| "socket_step e Consume_state_change s = Some (cf_consume_state_change s)"
| "socket_step e Window_enable s = Some (cf_note_pcmcia_window_enable s)"

fun socket_run :: "socket_env \<Rightarrow> socket_event list \<Rightarrow> cf_state \<Rightarrow> cf_state option" where
  "socket_run e [] s = Some s"
| "socket_run e (x # xs) s = (case socket_step e x s of None \<Rightarrow> None | Some s \<Rightarrow> socket_run e xs s)"

text \<open>What a host file holds after the saves, having held \<open>d\<close>.\<close>

definition host_file :: "string \<Rightarrow> u8 list \<Rightarrow> cf_state \<Rightarrow> u8 list" where
  "host_file p d s = fold (\<lambda>(q, x) f. if q = p then x else f) (saved s) d"

definition stored :: "string \<Rightarrow> u8 list \<Rightarrow> cf_state \<Rightarrow> bool" where
  "stored p d s \<longleftrightarrow> present s \<and> card_kind s = CF_CARD_ATA \<and> image_path s = Some p \<and> ata_ok (ata s) \<and>
     length (image (ata s)) = length d \<and> d \<noteq> [] \<and> length d mod CF_SECTOR_SIZE = 0 \<and> (dirty (ata s) \<or> host_file p d s = image (ata s))"

lemma ata_ok_image_size: "ata_ok a \<Longrightarrow> image_size a = length (image a)"
  by (simp add: ata_ok_def buffer_ok_def)

lemma stored_step:
  assumes "stored p d s" "card_kind t = card_kind s" "image_path t = image_path s" "saved t = saved s"
    "keeps_medium (ata s) (ata t)" "ata_ok (ata t)"
  shows "stored p d t"
proof -
  have s: "present s" "card_kind s = CF_CARD_ATA" "image_path s = Some p" "ata_ok (ata s)"
    "length (image (ata s)) = length d" "d \<noteq> []" "length d mod CF_SECTOR_SIZE = 0" and clean: "dirty (ata s) \<or> host_file p d s = image (ata s)"
    using assms(1) unfolding stored_def by blast+
  have k: "present t" "dirty (ata s) \<longrightarrow> dirty (ata t)" "dirty (ata t) \<or> image (ata t) = image (ata s)"
    "image_size (ata t) = image_size (ata s)"
    using assms(5) s(1) unfolding keeps_medium_def by blast+
  have len: "length (image (ata t)) = length (image (ata s))"
    using k(4) ata_ok_image_size [OF s(4)] ata_ok_image_size [OF assms(6)] by simp
  have on_host: "host_file p d t = host_file p d s" by (simp add: host_file_def assms(4))
  have clean': "dirty (ata t) \<or> host_file p d t = image (ata t)"
    using k(2,3) clean unfolding on_host by metis
  show ?thesis unfolding stored_def len assms(2,3) using k(1) s(2,3,5-7) assms(6) clean' by blast
qed

lemma stored_same:
  assumes "stored p d s" "card_kind t = card_kind s" "image_path t = image_path s" "saved t = saved s" "ata t = ata s"
  shows "stored p d t"
  using assms by (simp add: stored_def host_file_def)

lemma stored_ata:
  assumes "stored p d s" "keeps_medium (ata s) a" "ata_ok a"
  shows "stored p d (s\<lparr>ata := a\<rparr>)"
  by (rule stored_step [OF assms(1)]) (use assms(2,3) in simp_all)

lemma stored_card: "stored p d s \<Longrightarrow> present s \<and> card_kind s = CF_CARD_ATA \<and> ata_ok (ata s)"
  by (simp add: stored_def)

subsection \<open>The card's registers\<close>

lemma boot_read_medium: "keeps_medium s (snd (cf_boot_read off n s))"
  by (simp add: cf_boot_read_def Let_def split_beta if_distrib [where f = snd] keeps_medium_read)

lemma boot_write_medium: "keeps_medium s (cf_boot_write off n v s)"
  by (simp add: cf_boot_write_def Let_def split_beta keeps_medium_write keeps_medium_write_regs)

lemma ata_ok_write_regs: "ata_ok s \<Longrightarrow> ata_ok (cf_write_regs reg alt boot n v s)"
  unfolding cf_write_regs_def using write_regs_abs by blast

lemma ata_ok_boot: "ata_ok s \<Longrightarrow> ata_ok (snd (cf_boot_read off n s))" "ata_ok s \<Longrightarrow> ata_ok (cf_boot_write off n v s)"
  using data_read_abs [of s n] data_write_abs [of s n v] ata_ok_write_regs [of s]
  by (simp_all add: cf_boot_read_def cf_boot_write_def Let_def split_beta)

lemma stored_ata_read:
  assumes "stored p d s"
  shows "stored p d (case cf_data_read n (ata s) of (v, a) \<Rightarrow> snd (v, s\<lparr>ata := a\<rparr>))"
  using stored_ata [OF assms keeps_medium_read [of _ n]] data_read_abs [of "ata s" n] stored_card [OF assms] by (simp add: split_beta)

lemma stored_note: "stored p d s \<Longrightarrow> stored p d (cf_note_cis_read i s)"
  by (erule stored_same) (simp_all add: cf_note_cis_read_def)

lemma read_lanes_inv:
  assumes "\<And>i s. P s \<Longrightarrow> P (snd (f i s))"
  shows "P s \<Longrightarrow> P (snd (read_lanes f i k v s))"
proof (induction k arbitrary: i v s)
  case (Suc k)
  show ?case using Suc.IH assms [OF Suc.prems, of i] by (simp add: split_beta)
qed simp

lemma stored_attribute_read: "stored p d s \<Longrightarrow> stored p d (snd (cf_cis_read off n s))"
  unfolding cf_cis_read_def
proof (rule read_lanes_inv)
  fix i s assume "stored p d s"
  then show "stored p d (snd (attribute_byte (unat (off + of_nat i)) s))"
    by (simp add: attribute_byte_def cf_cis_read_byte_def stored_note)
qed

lemma stored_window_read:
  assumes "stored p d s"
  shows "stored p d (snd (cf_window_read off n s))"
proof -
  have "stored p d (snd (ata_window_read off n s))"
    using stored_ata_read [OF assms] stored_attribute_read [OF assms] assms
    by (simp add: ata_window_read_def split_beta split: prod.split)
  then show ?thesis using assms stored_card [OF assms] by (simp add: cf_window_read_def)
qed

lemma stored_window_write:
  assumes "stored p d s"
  obtains t where "cf_window_write e off n v s = Some t" "stored p d t"
proof -
  note ok = stored_card [OF assms]
  have "stored p d (ata_window_write off n v s)"
    using assms stored_ata [OF assms keeps_medium_write] stored_ata [OF assms keeps_medium_write_regs]
      data_write_abs [of "ata s" n v] ok ata_ok_write_regs [of "ata s"]
    by (simp add: ata_window_write_def split_beta split: prod.split)
  with assms ok that show thesis by (cases "n = 0") (simp_all add: cf_window_write_def)
qed

lemma stored_boot:
  assumes "stored p d s"
  shows "stored p d (s\<lparr>ata := snd (cf_boot_read off n (ata s))\<rparr>)" "stored p d (s\<lparr>ata := cf_boot_write off n v (ata s)\<rparr>)"
    "stored p d (cf_set_boot_visibility b s)"
proof -
  note ok = stored_card [OF assms]
  show "stored p d (s\<lparr>ata := snd (cf_boot_read off n (ata s))\<rparr>)" "stored p d (s\<lparr>ata := cf_boot_write off n v (ata s)\<rparr>)"
    using ok by (auto intro!: stored_ata [OF assms] boot_read_medium boot_write_medium ata_ok_boot)
  have "ata_ok ((cf_reset_taskfile ((ata s)\<lparr>boot_visible := c\<rparr>))\<lparr>boot_status_floating := False\<rparr>)" for c
    using ok by (simp add: ata_ok_def buffer_ok_def transfer_ok_def cf_reset_taskfile_def reset_regs_def)
  moreover have "keeps_medium (ata s) ((cf_reset_taskfile ((ata s)\<lparr>boot_visible := c\<rparr>))\<lparr>boot_status_floating := False\<rparr>)" for c
    by (simp add: keeps_medium_def cf_reset_taskfile_def reset_regs_def)
  ultimately show "stored p d (cf_set_boot_visibility b s)"
    by (intro stored_step [OF assms]) (simp_all add: cf_set_boot_visibility_def cf_arm_boot_status_def reset_ata_def)
qed

subsection \<open>The socket's own registers\<close>

definition same_cards :: "cf_state \<Rightarrow> cf_state \<Rightarrow> bool" where
  "same_cards s t \<longleftrightarrow> card_kind t = card_kind s \<and> image_path t = image_path s \<and> saved t = saved s \<and> ata t = ata s"

lemma stored_same_cards: "stored p d s \<Longrightarrow> same_cards s t \<Longrightarrow> stored p d t"
  by (rule stored_same) (simp_all add: same_cards_def)

lemma same_cards_refl [simp]: "same_cards s s"
  by (simp add: same_cards_def)

lemma same_cards_trans: "same_cards s t \<Longrightarrow> same_cards t u \<Longrightarrow> same_cards s u"
  by (simp add: same_cards_def)

lemma same_cards_refresh [simp]: "same_cards s (cf_refresh_socket_status s)"
  by (simp add: same_cards_def cf_refresh_socket_status_def cf_put_companion_u32_def)

lemma same_cards_byte: "same_cards s (companion_write_byte off v s)"
  by (simp add: same_cards_def companion_write_byte_def Let_def)

lemma same_cards_fold:
  assumes "\<And>i s. same_cards s (f i s)"
  shows "same_cards s (fold f xs s)"
proof (induction xs arbitrary: s)
  case (Cons x xs)
  show ?case using same_cards_trans [OF assms [of s x] Cons.IH] by simp
qed simp

lemma same_cards_companion_write: "same_cards s (cf_companion_write off n v s)"
proof -
  have f: "same_cards s (fold (\<lambda>i. companion_write_byte (off + i) (byte_at v i)) xs s)" for xs
    by (rule same_cards_fold) (rule same_cards_byte)
  have c: "same_cards s (cf_clear_irq s)" for s by (simp add: same_cards_def cf_clear_irq_def)
  show ?thesis unfolding cf_companion_write_def Let_def
    using same_cards_trans [OF f same_cards_refresh] same_cards_trans [OF f same_cards_trans [OF c same_cards_refresh]]
    by (simp add: same_cards_def)
qed

lemma same_cards_companion_read: "same_cards s (fst (snd (cf_companion_read r off n (s, j))))"
proof -
  have "same_cards s (t\<lparr>insert_event_pending := b\<rparr>)" if "same_cards s t" for t b using that by (simp add: same_cards_def)
  then show ?thesis using same_cards_refresh [of s] by (simp add: cf_companion_read_def Let_def split_beta)
qed

lemma stored_attribute_write:
  assumes "stored p d s"
  shows "stored p d (cf_cis_write off n v s)"
proof -
  have "card_kind s = CF_CARD_ATA \<Longrightarrow> fold (\<lambda>i. attribute_write_byte (unat (off + of_nat i)) (byte_at v i)) xs s = s" for xs
    by (induction xs) (simp_all add: attribute_write_byte_def)
  then show ?thesis using assms stored_card [OF assms] by (simp add: cf_cis_write_def)
qed

lemma stored_save:
  assumes "stored p d s"
  shows "stored p d (snd (cf_save_image ok s))"
    "fst (cf_save_image True s)" "host_file p d (snd (cf_save_image True s)) = image (ata s)"
proof -
  have s: "present s" "image_path s = Some p" "image (ata s) \<noteq> []" "image_size (ata s) = length (image (ata s))"
    and clean: "dirty (ata s) \<or> host_file p d s = image (ata s)"
    using assms ata_ok_image_size by (auto simp: stored_def)
  have "ata_ok ((ata s)\<lparr>dirty := False\<rparr>)"
    by (rule ata_ok_unchanged [of _ "ata s"]) (use stored_card [OF assms] in simp_all)
  then have "stored p d (s\<lparr>ata := (ata s)\<lparr>dirty := False\<rparr>, saved := saved s @ [(p, image (ata s))]\<rparr>)"
    using assms by (simp add: stored_def host_file_def)
  then show "stored p d (snd (cf_save_image ok s))" using assms s by (simp add: cf_save_image_def)
  show "fst (cf_save_image True s)" "host_file p d (snd (cf_save_image True s)) = image (ata s)"
    using s clean by (auto simp: cf_save_image_def host_file_def)
qed

lemma stored_socket_step:
  assumes "stored p d s"
  obtains t where "socket_step e x s = Some t" "stored p d t"
proof (cases x)
  case (Window_write off n v)
  with stored_window_write [OF assms, of e off n v] that show ?thesis by auto
qed (use that assms stored_window_read [OF assms] stored_boot [OF assms] stored_attribute_read [OF assms]
      stored_attribute_write [OF assms] stored_save(1) [OF assms]
      stored_same_cards [OF assms same_cards_companion_read [where r = no_jacket]] stored_same_cards [OF assms same_cards_companion_write]
      stored_same [OF assms] in
    \<open>auto simp: cf_clear_irq_def cf_consume_state_change_def cf_note_pcmcia_window_enable_def\<close>)

lemma stored_run:
  assumes "stored p d s"
  obtains t where "socket_run e xs s = Some t" "stored p d t"
  using assms
proof (induction xs arbitrary: s thesis)
  case (Cons x xs)
  obtain u where "socket_step e x s = Some u" "stored p d u" using stored_socket_step [OF Cons.prems(2)] .
  with Cons.IH [of u] Cons.prems(1) show ?case by auto
qed simp

section \<open>Insertion, use, removal\<close>

definition fresh_buffer :: "cf_card \<Rightarrow> bool" where
  "fresh_buffer c \<longleftrightarrow> length (data_buffer c) = data_capacity c \<and> (can_alloc c \<or> CF_SECTOR_SIZE \<le> data_capacity c)"

lemma seed_frame:
  "ata (cf_seed_companion_page s) = ata s" "card_kind (cf_seed_companion_page s) = card_kind s"
  "image_path (cf_seed_companion_page s) = image_path s" "saved (cf_seed_companion_page s) = saved s"
  using same_cards_refresh unfolding same_cards_def cf_seed_companion_page_def by (simp_all add: Let_def)

lemma stored_loaded:
  assumes "fresh_buffer (ata s)" "d \<noteq> []" "length d mod CF_SECTOR_SIZE = 0" "saved s = []"
  shows "fst (cf_load_image p (Some d) True s)" "stored p d (snd (cf_load_image p (Some d) True s))"
    "image (ata (snd (cf_load_image p (Some d) True s))) = d"
  using assms
  by (simp_all add: cf_load_image_def Let_def settled_def cf_arm_boot_status_def reset_ata_def seed_frame cf_seed_ata_cis_def
      inserted_def stored_def cf_reset_taskfile_def reset_regs_def ata_ok_def buffer_ok_def transfer_ok_def fresh_buffer_def
      host_file_def)

lemma eject_frame:
  assumes "stored p d s"
  shows "saved (cf_eject True s) = saved (snd (cf_save_image True s))" "\<not> present (cf_eject True s)"
    "can_alloc (ata (cf_eject True s)) = can_alloc (ata s)" "data_capacity (ata (cf_eject True s)) = data_capacity (ata s)"
    "data_buffer (ata (cf_eject True s)) = data_buffer (ata s)"
proof -
  have "saved (snd (cf_save_image True s)) = saved (snd (cf_save_image True s))" ..
  have same: "data_buffer (ata (snd (cf_save_image True s))) = data_buffer (ata s)"
    "can_alloc (ata (snd (cf_save_image True s))) = can_alloc (ata s)"
    "data_capacity (ata (snd (cf_save_image True s))) = data_capacity (ata s)"
    by (simp_all add: cf_save_image_def split: option.split)
  have p: "present s" using assms by (simp add: stored_def)
  show "saved (cf_eject True s) = saved (snd (cf_save_image True s))" "\<not> present (cf_eject True s)"
    "can_alloc (ata (cf_eject True s)) = can_alloc (ata s)" "data_capacity (ata (cf_eject True s)) = data_capacity (ata s)"
    "data_buffer (ata (cf_eject True s)) = data_buffer (ata s)"
    using p same by (simp_all add: cf_eject_def Let_def reset_ata_def seed_frame cf_reset_taskfile_def reset_regs_def)
qed

text \<open>C12: Whatever the guest and the machine do with the socket after a storage card is inserted, taking the card out
  leaves in the host file exactly the image the card last had, of the size it was loaded with; loading
  that file again succeeds and puts the same image back.\<close>

theorem cf_image_survives_removal:
  assumes "fresh_buffer (ata s)" "d \<noteq> []" "length d mod CF_SECTOR_SIZE = 0" "saved s = []"
  shows "\<exists>t. socket_run e xs (snd (cf_load_image p (Some d) True s)) = Some t \<and>
    (let out = cf_eject True t; f = host_file p d out; again = cf_load_image p (Some f) True out
     in \<not> present out \<and> f = image (ata t) \<and> length f = length d \<and> fst again \<and> image (ata (snd again)) = image (ata t))"
proof -
  obtain t where t: "socket_run e xs (snd (cf_load_image p (Some d) True s)) = Some t" "stored p d t"
    using stored_run [OF stored_loaded(2) [OF assms]] .
  have f: "host_file p d (cf_eject True t) = image (ata t)"
    using stored_save(3) [OF t(2)] eject_frame(1) [OF t(2)] by (simp add: host_file_def)
  have d: "image (ata t) \<noteq> []" "length (image (ata t)) = length d" "length d mod CF_SECTOR_SIZE = 0"
    using t(2) by (auto simp: stored_def)
  have "fst (cf_load_image p (Some (image (ata t))) True (cf_eject True t))"
    "image (ata (snd (cf_load_image p (Some (image (ata t))) True (cf_eject True t)))) = image (ata t)"
    using d by (simp_all add: cf_load_image_def Let_def settled_def cf_arm_boot_status_def reset_ata_def seed_frame
        cf_seed_ata_cis_def inserted_def cf_reset_taskfile_def reset_regs_def)
  then show ?thesis using t(1) f d(2) eject_frame(2) [OF t(2)] by (simp add: Let_def)
qed

definition empty_socket :: cf_state where
  "empty_socket = cf_init \<lparr>ata = blank_card 0, card_kind = CF_CARD_NONE, image_path = None, irq_pending = False,
     state_change_pending = False, cis_funcid_seen = False, insert_event_pending = False, card_windows_enabled = False,
     companion_page = [], cis = [], nic = blank_nic, el3_card = el3_init (replicate 6 0) False [], el3_net = False,
     xi825_card = xi825_init (wifi_security_init None None None (replicate 6 0)) (replicate 6 0), xi825_net = False,
     xi825_cor = 0, wl54cf_card = wl54cf_init (wifi_security_init None None None (replicate 6 0)) (replicate 6 0) False,
     wl54cf_net = False, wl54cf_cor = 0, modem = backend_example, modem_cor = 0, saved = []\<rparr>"

definition quiet_env :: socket_env where
  "quiet_env = \<lparr>wifi = \<lparr>crypto = None, random1 = None, random2 = None, random3 = None\<rparr>, answers = False\<rparr>"

lemma empty_socket_facts: "fresh_buffer (ata empty_socket)" "saved empty_socket = []"
  by (simp_all add: empty_socket_def cf_init_def fresh_buffer_def cf_arm_boot_status_def reset_ata_def seed_frame
      cf_reset_taskfile_def reset_regs_def blank_card_def)

text \<open>The guest writes the last sector of a card of two sectors; the host fails to save once.\<close>

theorem cf_image_survives_removal_witness:
  "\<exists>t. socket_run quiet_env ([Window_write 0x1F3 4 0xE0000001, Window_write 0x1F2 1 1, Window_write 0x1F7 1 0x30] @
         replicate 256 (Window_write 0x1F0 2 0xBEEF) @ [Save False])
       (snd (cf_load_image ''disk'' (Some (replicate 1024 0)) True empty_socket)) = Some t \<and>
    (let out = cf_eject True t; f = host_file ''disk'' (replicate 1024 0) out; again = cf_load_image ''disk'' (Some f) True out
     in \<not> present out \<and> f = image (ata t) \<and> length f = length (replicate 1024 (0 :: u8)) \<and> fst again \<and>
        image (ata (snd again)) = image (ata t))"
  by (rule cf_image_survives_removal [OF empty_socket_facts(1) _ _ empty_socket_facts(2)]) simp_all

text \<open>If the file cannot be written at removal, the unsaved changes are gone: the image is freed in any case.\<close>

lemma cf_eject_failed_save:
  assumes "stored p d s"
  shows "image (ata (cf_eject False s)) = []" "host_file p d (cf_eject False s) = host_file p d s"
proof -
  have "saved (snd (cf_save_image False s)) = saved s" by (simp add: cf_save_image_def split: option.split)
  then show "image (ata (cf_eject False s)) = []" "host_file p d (cf_eject False s) = host_file p d s"
    using stored_card [OF assms]
    by (simp_all add: cf_eject_def Let_def reset_ata_def seed_frame cf_reset_taskfile_def reset_regs_def host_file_def)
qed

end
