(* ===== verification/Cf_Status.thy ===== *)
theory Cf_Status
  imports Cf_Media
begin

text \<open>
  The status words of the CF socket: the insertion edge at offset 0xB50 that starts the guest's card
  scan, and what an empty socket reports.
\<close>

section \<open>The insertion edge\<close>

definition edge_at :: nat where
  "edge_at = 0x0B50"

definition covers_edge :: "nat \<Rightarrow> nat \<Rightarrow> bool" where
  "covers_edge off n \<longleftrightarrow> off \<le> edge_at \<and> edge_at < off + n"

definition reports_edge :: "nat \<Rightarrow> nat \<Rightarrow> u64 \<Rightarrow> bool" where
  "reports_edge off n v \<longleftrightarrow> covers_edge off n \<and> bit v (8 * (edge_at - off) + 3)"

text \<open>The number of reads of the companion page that report the edge, over a run.\<close>

fun edges :: "socket_env \<Rightarrow> socket_event list \<Rightarrow> cf_state \<Rightarrow> nat" where
  "edges e [] s = 0"
| "edges e (x # xs) s =
     (let here = (case x of Companion_read off n \<Rightarrow>
                    if reports_edge off n (fst (cf_companion_read no_jacket off n (s, ()))) then 1 else 0
                  | _ \<Rightarrow> 0)
      in case socket_step e x s of None \<Rightarrow> here | Some s \<Rightarrow> here + edges e xs s)"

definition looks :: "socket_event \<Rightarrow> bool" where
  "looks x \<longleftrightarrow> (case x of Companion_read off n \<Rightarrow> covers_edge off n | _ \<Rightarrow> False)"

definition gentle :: "socket_event \<Rightarrow> bool" where
  "gentle x \<longleftrightarrow> (case x of Companion_read off n \<Rightarrow> n \<le> 8 | Companion_write off n v \<Rightarrow> \<not> (off < edge_at + 4 \<and> edge_at < off + n) | _ \<Rightarrow> True)"

definition card_in_place :: "cf_state \<Rightarrow> bool" where
  "card_in_place s \<longleftrightarrow> present s \<and> length (companion_page s) = 0x1000 \<and> \<not> bit (companion_page s ! edge_at) 3"

text \<open>What the accesses to a card leave alone.\<close>

definition same_socket :: "cf_state \<Rightarrow> cf_state \<Rightarrow> bool" where
  "same_socket s t \<longleftrightarrow> companion_page t = companion_page s \<and> present t = present s \<and>
     insert_event_pending t = insert_event_pending s"

lemma same_socket_refl [simp]: "same_socket s s"
  by (simp add: same_socket_def)

lemma same_socket_trans: "same_socket s t \<Longrightarrow> same_socket t u \<Longrightarrow> same_socket s u"
  by (simp add: same_socket_def)

lemma same_socket_ata: "keeps_medium (ata s) a \<Longrightarrow> same_socket s (s\<lparr>ata := a\<rparr>)"
  by (simp add: same_socket_def keeps_medium_def)

lemma same_socket_cards [simp]:
  "same_socket s (s\<lparr>nic := n\<rparr>)" "same_socket s (s\<lparr>el3_card := c3\<rparr>)" "same_socket s (s\<lparr>wl54cf_card := w\<rparr>)"
  "same_socket s (s\<lparr>xi825_card := x\<rparr>)" "same_socket s (s\<lparr>modem := m\<rparr>)"
  by (simp_all add: same_socket_def)

lemma same_socket_cis: "same_socket s (snd (cf_cis_read off n s))"
  unfolding cf_cis_read_def
  by (rule read_lanes_inv [where P = "same_socket s"])
     (auto simp: attribute_byte_def cf_cis_read_byte_def cf_note_cis_read_def same_socket_def)

lemma same_socket_window_read: "same_socket s (snd (cf_window_read off n s))"
proof -
  have m: "same_socket s (snd (read_lanes (\<lambda>i. modem_byte (off + of_nat i)) 0 n 0 s))"
    by (rule read_lanes_inv [where P = "same_socket s"])
       (auto simp: modem_byte_def same_socket_def split: option.split prod.split)
  have a: "same_socket s (snd (ata_window_read off n s))"
    using same_socket_ata [OF keeps_medium_read] same_socket_cis
    by (simp add: ata_window_read_def split_beta)
  show ?thesis using m a by (simp add: cf_window_read_def split_beta split: card_kind.split)
qed

lemma same_socket_fold:
  assumes "\<And>i s. same_socket s (f i s)"
  shows "same_socket s (fold f xs s)"
proof (induction xs arbitrary: s)
  case (Cons x xs)
  show ?case using same_socket_trans [OF assms [of s x] Cons.IH] by simp
qed simp

lemma same_socket_window_write:
  assumes "cf_window_write e off n v s = Some t"
  shows "same_socket s t"
proof -
  have m: "same_socket s (fold (\<lambda>i. modem_write_byte b (off + of_nat i) (byte_at v i)) xs s)" for b xs s
    by (rule same_socket_fold) (simp add: modem_write_byte_def split: option.split)
  have a: "same_socket s (ata_window_write off n v s)"
    using same_socket_ata [OF keeps_medium_write] same_socket_ata [OF keeps_medium_write_regs]
    by (simp add: ata_window_write_def split_beta)
  show ?thesis using assms m a
    by (auto simp: cf_window_write_def split: card_kind.splits if_splits)
qed

lemma same_socket_cis_write: "same_socket s (cf_cis_write off n v s)"
  unfolding cf_cis_write_def
  by (rule same_socket_fold)
     (simp add: same_socket_def attribute_write_byte_def write_modem_cor_def write_wl54cf_cor_def write_xi825_cor_def)

lemma same_socket_boot_visibility: "same_socket s (cf_set_boot_visibility b s)"
  by (simp add: same_socket_def cf_set_boot_visibility_def cf_arm_boot_status_def reset_ata_def cf_reset_taskfile_def reset_regs_def)

lemma same_socket_save: "same_socket s (snd (cf_save_image ok s))"
  by (simp add: same_socket_def cf_save_image_def split: option.split)

lemma same_socket_step:
  assumes "socket_step e x s = Some t" "\<And>off n. x \<noteq> Companion_read off n" "\<And>off n v. x \<noteq> Companion_write off n v"
  shows "same_socket s t"
  using assms same_socket_window_read [of s] same_socket_window_write [of e _ _ _ s t] same_socket_cis [of s]
    same_socket_cis_write [of s] same_socket_boot_visibility [of s] same_socket_save [of s]
    same_socket_ata [OF boot_read_medium] same_socket_ata [OF boot_write_medium]
  by (cases x) (auto simp: same_socket_def cf_clear_irq_def cf_consume_state_change_def cf_note_pcmcia_window_enable_def)

lemma bit_push_byte:
  fixes b :: u8 and k i :: nat
  shows "bit (push_bit (8 * i) (ucast b) :: u64) k \<longleftrightarrow> k < 64 \<and> k div 8 = i \<and> bit b (k mod 8)"
proof (cases "k div 8 = i")
  case True
  then have "8 * i + k mod 8 = k" by (metis mult_div_mod_eq)
  moreover from this have "8 * i \<le> k" and "k - 8 * i = k mod 8" by linarith+
  ultimately show ?thesis using True by (auto simp: bit_simps)
next
  case False
  then have "\<not> (8 * i \<le> k \<and> k - 8 * i < 8)" by auto
  then show ?thesis using False by (auto simp: bit_simps dest: bit_imp_le_length)
qed

lemma bit_read_lanes:
  fixes k :: nat
  shows "bit (fst (read_lanes (\<lambda>i j. (g i, j)) i n v j)) k \<longleftrightarrow>
    bit v k \<or> k < 64 \<and> i \<le> k div 8 \<and> k div 8 < i + n \<and> bit (g (k div 8)) (k mod 8)"
proof (induction n arbitrary: i v)
  case (Suc n)
  have "i \<le> k div 8 \<and> k div 8 < i + Suc n \<longleftrightarrow> k div 8 = i \<or> i + 1 \<le> k div 8 \<and> k div 8 < i + 1 + n" by auto
  then show ?case unfolding read_lanes.simps prod.case Suc.IH bit_or_iff bit_push_byte by blast
qed auto

lemma nth_overwrite:
  assumes "off + length bs \<le> length m" "i < length m"
  shows "overwrite off bs m ! i = (if off \<le> i \<and> i < off + length bs then bs ! (i - off) else m ! i)"
  using assms by (auto simp: overwrite_def nth_append min_def)

lemma word_bytes_length [simp]: "length (word_bytes v) = 4"
  by (simp add: word_bytes_def)

lemma refresh_page:
  assumes "length (companion_page s) = 0x1000" "present s"
  shows "length (companion_page (cf_refresh_socket_status s)) = 0x1000"
    "companion_page (cf_refresh_socket_status s) ! edge_at = companion_page s ! edge_at"
  using assms
  by (simp_all add: cf_refresh_socket_status_def cf_put_companion_u32_def put_word_def length_overwrite nth_overwrite edge_at_def)

lemma refresh_frame:
  "present (cf_refresh_socket_status s) = present s"
  "insert_event_pending (cf_refresh_socket_status s) = insert_event_pending s"
  by (simp_all add: cf_refresh_socket_status_def cf_put_companion_u32_def)

lemma no_jacket_report: "(\<lambda>i. no_jacket s (off + i) (companion_byte s (off + i))) = (\<lambda>i j. (companion_byte s (off + i), j))"
  by (simp add: no_jacket_def fun_eq_iff)

lemma edge_byte:
  assumes "card_in_place s"
  shows "bit (companion_byte s edge_at) 3 \<longleftrightarrow> insert_event_pending s"
proof -
  have "bit (8 :: u8) (3 :: nat)" by simp
  then show ?thesis using assms
    by (simp add: companion_byte_def card_in_place_def Let_def edge_at_def bit_or_iff)
qed

lemma edge_index:
  assumes "covers_edge off n" "n \<le> 8"
  shows "(8 * (edge_at - off) + 3) div 8 = edge_at - off" "(8 * (edge_at - off) + 3) mod 8 = 3"
    "8 * (edge_at - off) + 3 < 64" "edge_at - off < n" "off + (edge_at - off) = edge_at" "edge_at - off < min n (0x1000 - off)"
proof -
  have "edge_at - off < n" "off \<le> edge_at" "edge_at < 0x1000" using assms(1) by (auto simp: covers_edge_def edge_at_def)
  with assms(2) show "(8 * (edge_at - off) + 3) div 8 = edge_at - off" "(8 * (edge_at - off) + 3) mod 8 = 3"
    "8 * (edge_at - off) + 3 < 64" "edge_at - off < n" "off + (edge_at - off) = edge_at"
    "edge_at - off < min n (0x1000 - off)" by simp_all
qed

lemma card_in_place_refresh:
  assumes "card_in_place s"
  shows "card_in_place (cf_refresh_socket_status s)"
  using assms refresh_page [of s] by (simp add: card_in_place_def refresh_frame)

lemma edge_read:
  assumes "card_in_place s" "n \<le> 8"
  shows "reports_edge off n (fst (cf_companion_read no_jacket off n (s, ()))) \<longleftrightarrow> covers_edge off n \<and> insert_event_pending s"
proof (cases "covers_edge off n")
  case True
  note i = edge_index [OF True assms(2)]
  have "n \<noteq> 0" using True by (auto simp: covers_edge_def)
  then have "fst (cf_companion_read no_jacket off n (s, ())) =
      fst (read_lanes (\<lambda>i j. (companion_byte (cf_refresh_socket_status s) (off + i), j)) 0 (min n (0x1000 - off)) 0 ())"
    by (simp add: cf_companion_read_def Let_def split_beta no_jacket_report)
  then show ?thesis
    unfolding reports_edge_def using True i edge_byte [OF card_in_place_refresh [OF assms(1)]]
    by (simp add: bit_read_lanes refresh_frame)
qed (simp add: reports_edge_def)

lemma edge_after_read:
  assumes "card_in_place s" "n \<le> 8"
  shows "card_in_place (fst (snd (cf_companion_read no_jacket off n (s, ()))))"
    "insert_event_pending (fst (snd (cf_companion_read no_jacket off n (s, ())))) \<longleftrightarrow>
       insert_event_pending s \<and> \<not> covers_edge off n"
proof -
  have c: "off \<le> 0xB50 \<and> 0xB50 < off + min n (0x1000 - off) \<longleftrightarrow> covers_edge off n"
    by (auto simp: covers_edge_def edge_at_def)
  note p = card_in_place_refresh [OF assms(1)]
  have k: "card_in_place (t\<lparr>insert_event_pending := b\<rparr>)" if "card_in_place t" for t b
    using that by (simp add: card_in_place_def)
  show "card_in_place (fst (snd (cf_companion_read no_jacket off n (s, ()))))"
    using p k [OF p] assms(1) by (simp add: cf_companion_read_def Let_def split_beta)
  show "insert_event_pending (fst (snd (cf_companion_read no_jacket off n (s, ())))) \<longleftrightarrow>
       insert_event_pending s \<and> \<not> covers_edge off n"
  proof (cases "n = 0")
    case True
    then show ?thesis by (simp add: cf_companion_read_def covers_edge_def)
  next
    case False
    have "present (cf_refresh_socket_status s)" using p by (simp add: card_in_place_def)
    then show ?thesis using False c by (auto simp: cf_companion_read_def Let_def split_beta refresh_frame)
  qed
qed

definition same_edge :: "cf_state \<Rightarrow> cf_state \<Rightarrow> bool" where
  "same_edge s t \<longleftrightarrow> present t = present s \<and> insert_event_pending t = insert_event_pending s \<and>
     length (companion_page t) = length (companion_page s) \<and> companion_page t ! edge_at = companion_page s ! edge_at"

lemma same_edge_place: "card_in_place s \<Longrightarrow> same_edge s t \<Longrightarrow> card_in_place t"
  by (simp add: card_in_place_def same_edge_def)

lemma same_edge_trans: "same_edge s t \<Longrightarrow> same_edge t u \<Longrightarrow> same_edge s u"
  by (simp add: same_edge_def)

lemma same_edge_socket: "same_socket s t \<Longrightarrow> same_edge s t"
  by (simp add: same_edge_def same_socket_def)

lemma same_edge_byte:
  assumes "at < edge_at \<or> edge_at + 4 \<le> at"
  shows "same_edge s (companion_write_byte at v s)"
proof -
  have "at - at mod 4 \<noteq> 0xB50" using assms by (simp add: edge_at_def) presburger
  moreover have "at \<noteq> edge_at" using assms by auto
  ultimately show ?thesis by (simp add: same_edge_def companion_write_byte_def Let_def)
qed

lemma same_edge_fold:
  "(\<And>i s. i \<in> set xs \<Longrightarrow> same_edge s (f i s)) \<Longrightarrow> same_edge s (fold f xs s)"
proof (induction xs arbitrary: s)
  case (Cons x xs)
  have "same_edge s (f x s)" by (rule Cons.prems) simp
  moreover have "same_edge (f x s) (fold f xs (f x s))" by (rule Cons.IH) (rule Cons.prems, simp)
  ultimately show ?case by (simp add: same_edge_trans [of s "f x s"])
qed (simp add: same_edge_def)

lemma edge_after_write:
  assumes "card_in_place s" "\<not> (off < edge_at + 4 \<and> edge_at < off + n)"
  shows "same_edge s (cf_companion_write off n v s)"
proof -
  define t where "t = fold (\<lambda>i. companion_write_byte (off + i) (byte_at v i)) [0..<min n (0x1000 - off)] s"
  have t: "same_edge s t" unfolding t_def
    by (rule same_edge_fold, rule same_edge_byte) (use assms(2) in auto)
  define u where "u = (if off = 0x40 \<or> off = 0x50 then cf_clear_irq t else t)"
  have u: "same_edge s u" using t by (simp add: u_def cf_clear_irq_def same_edge_def)
  have "card_in_place u" using same_edge_place [OF assms(1) u] .
  then have "same_edge u (cf_refresh_socket_status u)"
    using refresh_page [of u] by (simp add: same_edge_def card_in_place_def refresh_frame)
  with u have "same_edge s (cf_refresh_socket_status u)" by (rule same_edge_trans)
  then show ?thesis by (simp add: cf_companion_write_def Let_def flip: t_def u_def) (simp add: same_edge_def)
qed

lemma socket_step_edge:
  assumes "card_in_place s" and "gentle x" and "socket_step e x s = Some t"
  shows "card_in_place t" and "insert_event_pending t \<longleftrightarrow> insert_event_pending s \<and> \<not> looks x"
proof -
  have same: "card_in_place t \<and> (insert_event_pending t \<longleftrightarrow> insert_event_pending s)" if "same_edge s t"
    using that same_edge_place [OF assms(1)] by (simp add: same_edge_def)
  have "card_in_place t \<and> (insert_event_pending t \<longleftrightarrow> insert_event_pending s \<and> \<not> looks x)"
  proof (cases "\<exists>off n. x = Companion_read off n")
    case True
    then obtain off n where x: "x = Companion_read off n" by blast
    with assms(2) have "n \<le> 8" by (simp add: gentle_def)
    from edge_after_read [OF assms(1) this, of off] assms(3) show ?thesis by (auto simp: x looks_def)
  next
    case no_read: False
    then have blind: "\<not> looks x" by (cases x) (auto simp: looks_def)
    have "same_edge s t"
    proof (cases "\<exists>off n v. x = Companion_write off n v")
      case True
      then obtain off n v where x: "x = Companion_write off n v" by blast
      with assms(2) have "\<not> (off < edge_at + 4 \<and> edge_at < off + n)" by (simp add: gentle_def)
      from edge_after_write [OF assms(1) this, of v] assms(3) show ?thesis by (simp add: x)
    next
      case False
      then show ?thesis using same_edge_socket [OF same_socket_step [OF assms(3)]] no_read by blast
    qed
    then show ?thesis using same blind by simp
  qed
  then show "card_in_place t" and "insert_event_pending t \<longleftrightarrow> insert_event_pending s \<and> \<not> looks x" by blast+
qed

lemma edges_count:
  "card_in_place s \<Longrightarrow> list_all gentle xs \<Longrightarrow> socket_run e xs s \<noteq> None \<Longrightarrow>
     edges e xs s = (if insert_event_pending s \<and> list_ex looks xs then 1 else 0)"
proof (induction xs arbitrary: s)
  case Nil
  then show ?case by simp
next
  case (Cons x xs)
  from Cons.prems(3) obtain t where t: "socket_step e x s = Some t" "socket_run e xs t \<noteq> None"
    by (auto split: option.splits)
  have x: "gentle x" using Cons.prems(2) by simp
  note step = socket_step_edge [OF Cons.prems(1) x t(1)]
  have IH: "edges e xs t = (if insert_event_pending t \<and> list_ex looks xs then 1 else 0)"
    using Cons.IH [OF step(1) _ t(2)] Cons.prems(2) by simp
  have here: "(case x of Companion_read off n \<Rightarrow>
      if reports_edge off n (fst (cf_companion_read no_jacket off n (s, ()))) then 1 else (0 :: nat) | _ \<Rightarrow> 0) =
      (if looks x \<and> insert_event_pending s then 1 else 0)"
    using edge_read [OF Cons.prems(1)] x by (cases x) (auto simp: looks_def gentle_def)
  show ?case unfolding edges.simps here Let_def t(1) option.case IH step(2) by auto
qed

text \<open>Every insertion arms the edge.\<close>

lemma put_word_edge:
  assumes "length m = 0x1000" and "off + 4 \<le> 0x1000" and "off + 4 \<le> edge_at \<or> edge_at < off"
  shows "length (put_word off v m) = 0x1000" "put_word off v m ! edge_at = m ! edge_at"
  using assms by (simp_all add: put_word_def length_overwrite nth_overwrite edge_at_def) auto

lemma put_words_edge:
  "length m = 0x1000 \<Longrightarrow> list_all (\<lambda>(off, v). off + 4 \<le> 0x1000 \<and> (off + 4 \<le> edge_at \<or> edge_at < off)) ws \<Longrightarrow>
     length (fold (\<lambda>(off, v). put_word off v) ws m) = 0x1000 \<and>
     fold (\<lambda>(off, v). put_word off v) ws m ! edge_at = m ! edge_at"
  by (induction ws arbitrary: m) (auto simp: put_word_edge)

lemma seeded_card_in_place:
  assumes "present s"
  shows "card_in_place (cf_seed_companion_page s)"
    and "insert_event_pending (cf_seed_companion_page s) = insert_event_pending s"
proof -
  let ?put = "fold (\<lambda>(off, v). put_word off v)"
  define page where "page = ?put inserted_seeds (?put companion_seeds (replicate 0x1000 (0 :: u8)))"
  have a: "length (?put companion_seeds (replicate 0x1000 0)) = 0x1000"
    "?put companion_seeds (replicate 0x1000 0) ! edge_at = replicate 0x1000 (0 :: u8) ! edge_at"
    using put_words_edge [of "replicate 0x1000 (0 :: u8)" companion_seeds]
    by (simp_all add: companion_seeds_def edge_at_def)
  have "length page = 0x1000" "page ! edge_at = replicate 0x1000 0 ! edge_at"
    using put_words_edge [OF a(1), of inserted_seeds] a(2) unfolding page_def
    by (simp_all add: inserted_seeds_def edge_at_def)
  moreover have "replicate 0x1000 (0 :: u8) ! edge_at = 0" by (simp add: edge_at_def)
  ultimately have "card_in_place (s\<lparr>companion_page := page\<rparr>)" using assms by (simp add: card_in_place_def)
  moreover have "cf_seed_companion_page s = cf_refresh_socket_status (s\<lparr>companion_page := page\<rparr>)"
    using assms by (simp add: cf_seed_companion_page_def Let_def page_def)
  ultimately show "card_in_place (cf_seed_companion_page s)"
    and "insert_event_pending (cf_seed_companion_page s) = insert_event_pending s"
    using card_in_place_refresh by (simp_all add: refresh_frame)
qed

lemma settled_card_in_place:
  assumes "present s" shows "card_in_place (settled s)" "insert_event_pending (settled s) = insert_event_pending s"
proof -
  have "same_edge t (reset_ata t)" "same_edge t (cf_arm_boot_status t)" for t
    by (simp_all add: same_edge_def reset_ata_def cf_arm_boot_status_def cf_reset_taskfile_def reset_regs_def)
  then have "same_edge (cf_seed_companion_page s) (settled s)"
    unfolding settled_def by (blast intro: same_edge_trans)
  with seeded_card_in_place [OF assms] same_edge_place
  show "card_in_place (settled s)" "insert_event_pending (settled s) = insert_event_pending s"
    by (auto simp: same_edge_def)
qed

lemma insertions_arm_edge:
  "fst (cf_load_image p c True s) \<Longrightarrow>
     card_in_place (snd (cf_load_image p c True s)) \<and> insert_event_pending (snd (cf_load_image p c True s))"
  "card_in_place (cf_attach_network kind netw given gen ap s) \<and> insert_event_pending (cf_attach_network kind netw given gen ap s)"
  "card_in_place (cf_attach_hermes netw given gen ap s) \<and> insert_event_pending (cf_attach_hermes netw given gen ap s)"
  "card_in_place (cf_attach_modem d h x s) \<and> insert_event_pending (cf_attach_modem d h x s)"
  "card_in_place (cf_attach_gps x s) \<and> insert_event_pending (cf_attach_gps x s)"
proof -
  have device: "present (insert_device kind m w (inserted kind t)) \<and> insert_event_pending (insert_device kind m w (inserted kind t))"
    for kind m w t
    by (simp add: insert_device_def inserted_def cf_seed_ne2000_cis_def)
  show net: "card_in_place (cf_attach_network kind netw given gen ap s) \<and>
      insert_event_pending (cf_attach_network kind netw given gen ap s)" for kind
    using device by (simp add: cf_attach_network_def Let_def settled_card_in_place)
  show "card_in_place (cf_attach_hermes netw given gen ap s) \<and> insert_event_pending (cf_attach_hermes netw given gen ap s)"
    using net [of CF_CARD_XI825] by (simp add: cf_attach_hermes_def Let_def card_in_place_def)
  show modem: "card_in_place (cf_attach_modem d h x s) \<and> insert_event_pending (cf_attach_modem d h x s)" for d h
    by (simp add: cf_attach_modem_def Let_def settled_card_in_place inserted_def)
  show "card_in_place (cf_attach_gps x s) \<and> insert_event_pending (cf_attach_gps x s)"
    using modem [of False False] by (simp add: cf_attach_gps_def Let_def card_in_place_def)
  show "card_in_place (snd (cf_load_image p c True s)) \<and> insert_event_pending (snd (cf_load_image p c True s))"
    if "fst (cf_load_image p c True s)"
    using that by (auto simp: cf_load_image_def Let_def settled_card_in_place inserted_def cf_seed_ata_cis_def
      split: option.splits if_splits)
qed

text \<open>However long the guest polls and whatever it does with the card, the first read of the companion
  page that covers the status byte reports the insertion and no later one does; writes to the status
  word itself, which clear the edge, are apart.\<close>

theorem cf_insertion_edge_once:
  assumes "card_in_place s" and "insert_event_pending s" and "list_all gentle xs"
    and "socket_run e xs s \<noteq> None"
  shows "edges e xs s = (if list_ex looks xs then 1 else 0)"
  using edges_count [OF assms(1,3,4)] assms(2) by simp

end
