(* ===== verification/Spec2Isabelle.thy ===== *)
theory Spec2Isabelle
  imports Prelude Byte_Ring Rtc Pmu Battery Cmcu Eeprom Audio_Pcm Stowaway Usbf Piu
    Nand_Ecc Nand_Chip Nand_Restore Nand Nand_Safety Nand_Protocol Nand_Ports
    Modem Ne2000 El3 Ata Ata_Spec Ata_Disk Wifi_Security Wifi_Handshake
    Wl54cf Wl54cf_Card Wl54cf_Bounds Xi825 Xi825_Card
    Cf_Socket Cf_Media Cf_Status
begin

text \<open>
  Verification of the device models of an emulator of the Casio BE-300, a Windows CE palmtop. All
  file names below are under \<open>src/\<close> of the repository.

  \<^bold>\<open>The program.\<close> A third-party MIPS interpreter runs the guest; every access outside RAM is
  decoded by \<open>src/be300_devices.c\<close> and handed to one of the device models of \<open>src/hw\<close>, each a C
  structure with an init, a read and a write function, and sometimes a tick. The host side (keyboard,
  pen, sound, network, USB, files) calls the same models through a few further functions. What the
  guest and the host see of a device is decided entirely by these models; they are the part
  verified here. A model is a record with the fields of its structure and one definition per
  function; a call is one step. Two ideas recur. A device is a step function with an invariant (the
  locale \<open>device\<close> of Prelude, interpreted for the flash chip, the modem, the access point and
  others), so invariants hold after every sequence of accesses. And a device that implements
  something simpler is related to it (\<open>refined_device\<close>, interpreted for the storage card).

  \<^bold>\<open>Theories and code.\<close>
  \<^item> Prelude: words, byte lanes of registers, lists, the two locales.
  \<^item> Byte_Ring (\<open>src/pcconnect_ring.h\<close>): the lossy byte ring, and the queue interfaces
    that the rings and FIFOs of the other theories interpret.
  \<^item> Rtc, Pmu, Battery, Cmcu (\<open>src/hw/rtc.c\<close>, \<open>pmu.c\<close>, \<open>battery.c\<close>,
    \<open>cmcu.c\<close>, \<open>cmu.c\<close>): calendar and elapsed-time compare, HALTimer and reset causes,
    charge and A/D values, watchdog.
  \<^item> Eeprom (\<open>src/hw/eeprom.c\<close>): the two-wire memory, edge by edge.
  \<^item> Audio_Pcm (\<open>src/audio_pcm.c\<close>): resampler and frame ring.
  \<^item> Stowaway (\<open>src/stowaway.c\<close>): the keyboard dock, its handshake and queues.
  \<^item> Usbf (\<open>src/hw/usbf.c\<close>): the USB function controller, with DMA and the host side.
  \<^item> Piu (\<open>src/hw/piu.c\<close>): the touch panel and its coordinate pages.
  \<^item> Nand_Ecc, Nand_Chip, Nand_Restore, Nand (\<open>src/hw/nand.c\<close>, \<open>nand_restore.c\<close>): the
    error-correcting code, the flash medium, the restore engine and the controller;
    Nand_Safety, Nand_Protocol and Nand_Ports hold what spans them.
  \<^item> Modem (\<open>src/hw/modem.c\<close>): the 16550, the AT interpreter and the line.
  \<^item> Ne2000, El3 (\<open>src/hw/cf_ne2000.c\<close>, \<open>el3.c\<close>): the two wired network cards.
  \<^item> Ata, Ata_Spec, Ata_Disk (\<open>src/hw/cf.c\<close>): the storage card, the abstract disk it
    implements, and whole transfers.
  \<^item> Wifi_Security, Wifi_Handshake (\<open>src/hw/wifi_security.c\<close>): the virtual access point
    of the wireless cards and the station's side of the protocol.
  \<^item> Wl54cf, Wl54cf_Card, Wl54cf_Bounds (\<open>src/hw/wl54cf.c\<close>): the Marvell wireless card, its
    gate in front of the network, and its buffers.
  \<^item> Xi825, Xi825_Card (\<open>src/hw/xi825.c\<close>): the PRISM and Hermes wireless card.
  \<^item> Cf_Socket, Cf_Media, Cf_Status (\<open>src/hw/cf.c\<close>, \<open>cf_xi825.c\<close>, \<open>cf_el3.c\<close>,
    \<open>cf_wl54cf.c\<close>): the socket the six cards go into, the host file behind the storage card,
    and the insertion edge.

  A definition has the name of the C function it models; a part of a function that is a definition of
  its own (a loop, one case of a switch) is named after what it does, and its comment or the call in
  the function's definition says where it belongs. Loops over a byte count, a list or a lane are
  structural recursions on it.

  \<^bold>\<open>What the lemmas show.\<close>
  \<^item> Invariants: the stateful components have a well-formedness predicate (\<open>piu_ok\<close>, \<open>usbf_ok\<close>,
    \<open>ata_ok\<close>, \<open>wl_wf\<close> and so on) that its initialisation establishes and every step
    keeps; bounds and index properties follow from it in every reachable state.
  \<^item> Refinement: the ring buffers and FIFOs refine lists through the queue locales, the storage card
    refines an abstract disk, the elapsed-time compare a pure counter.
  \<^item> Protocols: the four-way handshake gates every data frame and, against a station that follows the
    protocol, completes; flash commands, ATA transfers, two-wire transactions and USB control and
    bulk transfers do what the driver on the other side relies on.
  \<^item> Liveness: polls end, wake-ups are not lost, a command line gets its answer, a USB request its one
    completion.

  \<^bold>\<open>Parameters.\<close> What is not code of the repository or is decided outside is an argument: the
  functions of OpenSSL and random bytes (\<open>wifi_crypto\<close> and \<open>wifi_env\<close>; that key unwrapping inverts key
  wrapping is a hypothesis with an instance), the address tests of GXemul's \<open>net.h\<close>, whether
  \<open>malloc\<close> succeeds, whether a dialled peer answers, which ranges are guest RAM, the contents of a
  host file and whether it can be written, what a jacket makes of the socket's status bytes. Callbacks into the host
  (frames sent, calls to the modem backend, USB events, console bytes) are logged in the state.

  \<^bold>\<open>Loops and faults.\<close> Two loops of the code need not end: the resampler's (at rate 0) and the
  NE2000's search for the next page (with an empty ring). They are \<open>partial_function\<close>s, where not
  returning is \<open>None\<close>, and are shown to return for every rate the code lets through and for every
  ring a driver sets up. The search for a free packet-buffer identifier carries fuel 24, the number of buffers:
  of 25 identifiers in a row one is free (\<open>free_fid_free\<close>). A memory access the code does not
  guard is a fault and not a default value: a missing record or an over-long search is \<open>None\<close>, a byte outside a buffer of the Marvell card sets its ghost flag
  \<open>overrun\<close>, a division by zero is \<open>None\<close>. Machine integers are words of their C width wherever
  wrap-around can occur and \<open>nat\<close> where a bound of the invariant excludes it.

  \<^bold>\<open>Not modelled.\<close> The bus and machine glue (\<open>machine_be300.c\<close>, \<open>be300_devices.c\<close>,
  \<open>devices/\<close>), which is written against structures of GXemul, a submodule that is not part of the
  repository; the audio DMA engine, the display and the serial unit of \<open>src/hw\<close> and the PC
  Card jacket, which read guest memory or the machine's latch, or are plain register stores; host input and output (sockets, files,
  windows, command line, launcher, installers), the USB redirection and PC Connect services, the
  browser and Android front ends, guest-side programs, tools and tests. Trace output and diagnostics of the
  modelled files are left out. Time is whatever the caller passes; nothing is claimed about real time
  or threads.
\<close>

end
